(* ===== verification/Prelude.thy ===== *)
theory Prelude
  imports Main "HOL-Library.Word"
begin

text \<open>
  Shared vocabulary of the development: the machine-integer conversions the Rust code makes
  (\<open>i64::try_from\<close>, \<open>usize::try_from\<close>, the \<open>checked_add\<close> family), \<open>Result\<close> as a sum type with
  the two combinators the code uses (\<open>?\<close> and \<open>collect\<close>), JSON values in the shape of
  \<open>serde_json::Value\<close>, the text cells SQLite stores them in, and keyed tables with the SQL
  statements the engine issues on them. The generic lemmas the component theories share are
  declared \<open>[simp]\<close> or collected in the named collections below.
\<close>

section \<open>Named collections\<close>

named_theorems table_simps \<open>lookup after a write on a keyed table\<close>
named_theorems i64_simps \<open>the range of \<open>i64\<close>\<close>

section \<open>Machine integers\<close>

text \<open>
  \<open>u32\<close> counters are 32-bit words: Rust's \<open>+\<close> on them wraps in a release build. \<open>usize\<close> and \<open>u64\<close>
  (64-bit targets) are natural numbers and \<open>i64\<close> is an integer; every conversion or checked
  addition writes its range test out.
\<close>

type_synonym u32 = "32 word"

definition I64_MAX :: int where "I64_MAX = 2 ^ 63 - 1"
definition I64_MIN :: int where "I64_MIN = - (2 ^ 63)"
definition USIZE_MAX :: nat where "USIZE_MAX = 2 ^ 64 - 1"

definition in_i64 :: "int \<Rightarrow> bool" where
  "in_i64 i \<longleftrightarrow> I64_MIN \<le> i \<and> i \<le> I64_MAX"

definition i64_try_from :: "nat \<Rightarrow> int option" where
  "i64_try_from n = (if int n \<le> I64_MAX then Some (int n) else None)"

definition usize_try_from :: "int \<Rightarrow> nat option" where
  "usize_try_from i = (if 0 \<le> i \<and> nat i \<le> USIZE_MAX then Some (nat i) else None)"

definition i64_checked_add :: "int \<Rightarrow> int \<Rightarrow> int option" where
  "i64_checked_add a b = (if in_i64 (a + b) then Some (a + b) else None)"

text \<open>Plain \<open>+\<close> on \<open>i64\<close>, which wraps in a release build.\<close>

definition i64_wrapping_add :: "int \<Rightarrow> int \<Rightarrow> int" where
  "i64_wrapping_add a b = (a + b + 2 ^ 63) mod 2 ^ 64 - 2 ^ 63"

definition usize_checked_add :: "nat \<Rightarrow> nat \<Rightarrow> nat option" where
  "usize_checked_add a b = (if a + b \<le> USIZE_MAX then Some (a + b) else None)"

definition u32_checked_add :: "u32 \<Rightarrow> u32 \<Rightarrow> u32 option" where
  "u32_checked_add a b = (if unat a + unat b < 2 ^ 32 then Some (a + b) else None)"

lemmas i64_range [i64_simps] = in_i64_def I64_MIN_def I64_MAX_def

lemma i64_try_from_Some [simp]:
  "i64_try_from n = Some i \<longleftrightarrow> i = int n \<and> int n \<le> I64_MAX"
  by (auto simp: i64_try_from_def)

lemma usize_try_from_Some [simp]:
  "usize_try_from i = Some n \<longleftrightarrow> i = int n \<and> n \<le> USIZE_MAX"
  by (auto simp: usize_try_from_def)

lemma usize_of_i64_of_usize: "i64_try_from n = Some i \<Longrightarrow> usize_try_from i = Some n"
  by (simp add: I64_MAX_def USIZE_MAX_def)

lemma i64_checked_add_Some [simp]:
  "i64_checked_add a b = Some c \<longleftrightarrow> c = a + b \<and> in_i64 (a + b)"
  by (auto simp: i64_checked_add_def)

lemma i64_wrapping_add_in_range: "in_i64 (a + b) \<Longrightarrow> i64_wrapping_add a b = a + b"
  by (simp add: i64_wrapping_add_def in_i64_def I64_MAX_def I64_MIN_def)

lemma i64_wrapping_succ_nonneg:
  "in_i64 a \<Longrightarrow> 0 \<le> i64_wrapping_add a 1 \<Longrightarrow> i64_wrapping_add a 1 = a + 1 \<and> in_i64 (a + 1)"
  by (cases "a = I64_MAX") (auto simp: i64_wrapping_add_def in_i64_def I64_MAX_def I64_MIN_def)

lemma i64_wrapping_succ_int:
  assumes "in_i64 a"
  shows "i64_wrapping_add a 1 = int n \<longleftrightarrow> a = int n - 1 \<and> in_i64 (int n)"
proof
  assume "i64_wrapping_add a 1 = int n"
  then show "a = int n - 1 \<and> in_i64 (int n)"
    using i64_wrapping_succ_nonneg [OF assms] by simp
next
  assume "a = int n - 1 \<and> in_i64 (int n)"
  then show "i64_wrapping_add a 1 = int n" using i64_wrapping_add_in_range [of a 1] by simp
qed

lemma i64_wrapping_pred_succ [simp]: "in_i64 (int n) \<Longrightarrow> i64_wrapping_add (int n - 1) 1 = int n"
  using i64_wrapping_add_in_range [of "int n - 1" 1] by simp

lemma usize_of_succ_None:
  assumes "in_i64 a"
  shows "usize_try_from (i64_wrapping_add a 1) = None \<longleftrightarrow> \<not> (0 \<le> a + 1 \<and> in_i64 (a + 1))"
proof (cases "0 \<le> i64_wrapping_add a 1")
  case True
  then have "i64_wrapping_add a 1 = a + 1" and "in_i64 (a + 1)"
    using i64_wrapping_succ_nonneg [OF assms] by blast+
  then show ?thesis
    using True by (simp add: usize_try_from_def in_i64_def I64_MAX_def USIZE_MAX_def nat_le_iff)
next
  case False
  then have "\<not> (0 \<le> a + 1 \<and> in_i64 (a + 1))" using i64_wrapping_add_in_range [of a 1] by fastforce
  then show ?thesis using False by (simp add: usize_try_from_def)
qed

lemma usize_checked_add_Some [simp]:
  "usize_checked_add a b = Some c \<longleftrightarrow> c = a + b \<and> a + b \<le> USIZE_MAX"
  by (auto simp: usize_checked_add_def)

lemma u32_checked_add_unat: "u32_checked_add a b = Some c \<Longrightarrow> unat c = unat a + unat b"
  by (auto simp: u32_checked_add_def unat_word_ariths split: if_splits)

text \<open>A \<open>u32\<close> increment below another \<open>u32\<close> cannot wrap: the guard the claim planner relies on.\<close>

lemma unat_Suc_below:
  fixes a b :: u32
  assumes "a < b"
  shows "unat (a + 1) = Suc (unat a)"
proof -
  have "unat a < unat b" using assms by (simp add: word_less_nat_alt)
  moreover have "unat b < 2 ^ 32" using unsigned_less [of b] by simp
  ultimately show ?thesis by (simp add: unat_word_ariths)
qed

section \<open>Results\<close>

text \<open>\<open>Result<A, E>\<close> is \<open>'e + 'a\<close> with \<open>Inl\<close> the error; \<open>bind_result\<close> is the \<open>?\<close> operator.\<close>

definition bind_result :: "'e + 'a \<Rightarrow> ('a \<Rightarrow> 'e + 'b) \<Rightarrow> 'e + 'b" where
  "bind_result m f = (case m of Inl e \<Rightarrow> Inl e | Inr a \<Rightarrow> f a)"

lemma bind_result_simps [simp]:
  "bind_result (Inl e) f = Inl e"
  "bind_result (Inr a) f = f a"
  by (simp_all add: bind_result_def)

lemma bind_result_Inr [simp]:
  "bind_result m f = Inr b \<longleftrightarrow> (\<exists>a. m = Inr a \<and> f a = Inr b)"
  by (cases m) auto

lemma bind_result_Inl:
  "bind_result m f = Inl e \<longleftrightarrow> m = Inl e \<or> (\<exists>a. m = Inr a \<and> f a = Inl e)"
  by (cases m) auto

definition ok_or :: "'e \<Rightarrow> 'a option \<Rightarrow> 'e + 'a" where
  "ok_or e x = (case x of None \<Rightarrow> Inl e | Some a \<Rightarrow> Inr a)"

lemma ok_or_simps [simp]:
  "ok_or e None = Inl e"
  "ok_or e (Some a) = Inr a"
  by (simp_all add: ok_or_def)

lemma ok_or_Inr [simp]: "ok_or e x = Inr a \<longleftrightarrow> x = Some a"
  by (cases x) auto

lemma ok_or_Inl [simp]: "ok_or e x = Inl e' \<longleftrightarrow> x = None \<and> e' = e"
  by (cases x) auto

text \<open>\<open>iter().map(f).collect::<Result<Vec<_>, _>>()\<close>: left to right, stopping at the first error.\<close>

fun collect_results :: "('a \<Rightarrow> 'e + 'b) \<Rightarrow> 'a list \<Rightarrow> 'e + 'b list" where
  "collect_results f [] = Inr []"
| "collect_results f (x # xs) =
     bind_result (f x) (\<lambda>y. bind_result (collect_results f xs) (\<lambda>ys. Inr (y # ys)))"

lemma collect_results_Inr:
  "collect_results f xs = Inr ys \<longleftrightarrow> list_all2 (\<lambda>x y. f x = Inr y) xs ys"
proof (induction xs arbitrary: ys)
  case (Cons x xs)
  then show ?case by (cases ys) auto
qed auto

lemma collect_results_all_ok:
  "(\<And>x. x \<in> set xs \<Longrightarrow> f x = Inr (g x)) \<Longrightarrow> collect_results f xs = Inr (map g xs)"
  by (induction xs) auto

lemma collect_results_append:
  "collect_results f (xs @ ys) =
     bind_result (collect_results f xs)
       (\<lambda>us. bind_result (collect_results f ys) (\<lambda>vs. Inr (us @ vs)))"
  by (induction xs) (auto simp: bind_result_def split: sum.splits)

lemma collect_results_length:
  "collect_results f xs = Inr ys \<Longrightarrow> length ys = length xs"
  by (simp add: collect_results_Inr list_all2_lengthD)

section \<open>JSON values and text cells\<close>

text \<open>
  \<open>serde_json::Value\<close>. Objects are association lists; a number is an integer or, where the
  application uses one, a float literal. A TEXT cell of the database holds either the rendering
  of a JSON value (what \<open>serde_json::to_string\<close> writes) or text that is not JSON.
\<close>

datatype json_number = JInt int | JFloat string

datatype json =
    JNull
  | JBool bool
  | JNumber json_number
  | JString string
  | JArray "json list"
  | JObject "(string \<times> json) list"

datatype text_cell = JsonText json | RawText string

definition to_text :: "json \<Rightarrow> text_cell" where "to_text = JsonText"

fun from_text :: "text_cell \<Rightarrow> json option" where
  "from_text (JsonText j) = Some j"
| "from_text (RawText s) = None"

lemma from_to_text [simp]: "from_text (to_text j) = Some j"
  by (simp add: to_text_def)

fun json_field :: "string \<Rightarrow> json \<Rightarrow> json option" where
  "json_field k (JObject kvs) = map_of kvs k"
| "json_field k _ = None"

text \<open>SQLite's \<open>json_extract(payload, '$.a.b')\<close> path: one object member per step.\<close>

fun json_path :: "string list \<Rightarrow> json \<Rightarrow> json option" where
  "json_path [] j = Some j"
| "json_path (k # ks) j = (case json_field k j of None \<Rightarrow> None | Some v \<Rightarrow> json_path ks v)"

text \<open>Typed reads of a member, as derived deserializers make them.\<close>

definition json_str :: "json \<Rightarrow> string option" where
  "json_str j = (case j of JString s \<Rightarrow> Some s | _ \<Rightarrow> None)"

definition json_int :: "json \<Rightarrow> int option" where
  "json_int j = (case j of JNumber (JInt i) \<Rightarrow> Some i | _ \<Rightarrow> None)"

definition json_i64 :: "json \<Rightarrow> int option" where
  "json_i64 j = (case json_int j of Some i \<Rightarrow> if in_i64 i then Some i else None | None \<Rightarrow> None)"

definition json_u32 :: "json \<Rightarrow> u32 option" where
  "json_u32 j = (case json_int j of
     Some i \<Rightarrow> if 0 \<le> i \<and> i < 2 ^ 32 then Some (word_of_int i) else None
   | None \<Rightarrow> None)"

definition of_u32 :: "u32 \<Rightarrow> json" where "of_u32 w = JNumber (JInt (uint w))"
definition of_int_json :: "int \<Rightarrow> json" where "of_int_json i = JNumber (JInt i)"

lemma json_str_JString [simp]: "json_str (JString s) = Some s"
  by (simp add: json_str_def)

lemma json_i64_of_int [simp]: "in_i64 i \<Longrightarrow> json_i64 (of_int_json i) = Some i"
  by (simp add: json_i64_def json_int_def of_int_json_def)

lemma json_u32_of_u32 [simp]: "json_u32 (of_u32 w) = Some w"
  using unsigned_less [of w, where ?'a = int] by (simp add: json_u32_def json_int_def of_u32_def)

text \<open>A member of an object is smaller than the object: decoders that recurse terminate.\<close>

lemma size_json_map_of:
  "map_of kvs k = Some v \<Longrightarrow> size v < Suc (size_list (size_prod (\<lambda>_. 0) size) kvs)"
  by (induction kvs) (auto split: if_splits)

lemma json_field_size [simp]: "json_field k j = Some v \<Longrightarrow> size v < size j"
  by (cases j) (auto dest: size_json_map_of)

section \<open>Keyed tables and SQL statements\<close>

text \<open>
  A table is the list of its rows in rowid order; \<open>key\<close> selects the primary key. The statements
  are those the engine issues: \<open>SELECT \<dots> WHERE key = ?\<close>, \<open>INSERT\<close> (which fails on a uniqueness
  violation), \<open>INSERT \<dots> ON CONFLICT DO UPDATE\<close>, \<open>INSERT OR REPLACE\<close> and \<open>DELETE\<close>.
\<close>

definition tbl_unique :: "('r \<Rightarrow> 'k) \<Rightarrow> 'r list \<Rightarrow> bool" where
  "tbl_unique key rows \<longleftrightarrow> distinct (map key rows)"

definition tbl_get :: "('r \<Rightarrow> 'k) \<Rightarrow> 'k \<Rightarrow> 'r list \<Rightarrow> 'r option" where
  "tbl_get key k rows = List.find (\<lambda>r. key r = k) rows"

definition tbl_insert :: "('r \<Rightarrow> 'k) \<Rightarrow> 'r \<Rightarrow> 'r list \<Rightarrow> 'r list option" where
  "tbl_insert key row rows = (if key row \<in> key ` set rows then None else Some (rows @ [row]))"

definition tbl_upsert :: "('r \<Rightarrow> 'k) \<Rightarrow> 'r \<Rightarrow> 'r list \<Rightarrow> 'r list" where
  "tbl_upsert key row rows =
     (if key row \<in> key ` set rows
      then map (\<lambda>r. if key r = key row then row else r) rows
      else rows @ [row])"

definition tbl_replace :: "('r \<Rightarrow> 'k) \<Rightarrow> 'r \<Rightarrow> 'r list \<Rightarrow> 'r list" where
  "tbl_replace key row rows = filter (\<lambda>r. key r \<noteq> key row) rows @ [row]"

definition tbl_delete :: "('r \<Rightarrow> bool) \<Rightarrow> 'r list \<Rightarrow> 'r list" where
  "tbl_delete P rows = filter (\<lambda>r. \<not> P r) rows"

text \<open>A multi-row \<open>INSERT\<close> is one statement: any violation rejects every row of it.\<close>

fun tbl_insert_all :: "('r \<Rightarrow> 'k) \<Rightarrow> 'r list \<Rightarrow> 'r list \<Rightarrow> 'r list option" where
  "tbl_insert_all key [] rows = Some rows"
| "tbl_insert_all key (r # rs) rows =
     (case tbl_insert key r rows of None \<Rightarrow> None | Some rows' \<Rightarrow> tbl_insert_all key rs rows')"

lemma find_append: "List.find P (xs @ ys) =
  (case List.find P xs of None \<Rightarrow> List.find P ys | Some x \<Rightarrow> Some x)"
  by (induction xs) auto

lemma tbl_get_None: "tbl_get key k rows = None \<longleftrightarrow> k \<notin> key ` set rows"
  by (auto simp: tbl_get_def find_None_iff)

lemma tbl_get_Some_in: "tbl_get key k rows = Some r \<Longrightarrow> r \<in> set rows \<and> key r = k"
  by (auto simp: tbl_get_def find_Some_iff)

lemma tbl_get_unique:
  "tbl_unique key rows \<Longrightarrow> r \<in> set rows \<Longrightarrow> tbl_get key (key r) rows = Some r"
  by (induction rows) (auto simp: tbl_get_def tbl_unique_def image_iff)

lemma tbl_get_Nil [simp]: "tbl_get key k [] = None"
  by (simp add: tbl_get_def)

lemma tbl_get_snoc:
  "tbl_get key k (rows @ [r]) =
     (case tbl_get key k rows of None \<Rightarrow> if key r = k then Some r else None | Some x \<Rightarrow> Some x)"
  by (simp add: tbl_get_def find_append split: option.splits)

lemma tbl_get_append_new:
  "key row \<notin> key ` set rows \<Longrightarrow>
   tbl_get key k (rows @ [row]) = (if k = key row then Some row else tbl_get key k rows)"
  by (cases "tbl_get key k rows") (auto simp: tbl_get_snoc tbl_get_None [symmetric])

lemma tbl_get_map_upd:
  "key row \<in> key ` set rows \<Longrightarrow>
   tbl_get key k (map (\<lambda>r. if key r = key row then row else r) rows) =
     (if k = key row then Some row else tbl_get key k rows)"
proof (induction rows)
  case (Cons r rows)
  show ?case
  proof (cases "key r = key row")
    case True
    have "k \<noteq> key row \<Longrightarrow>
        tbl_get key k (map (\<lambda>r. if key r = key row then row else r) rows) = tbl_get key k rows"
      by (induction rows) (auto simp: tbl_get_def)
    then show ?thesis using True by (auto simp: tbl_get_def)
  next
    case False
    then show ?thesis using Cons by (auto simp: tbl_get_def)
  qed
qed simp

lemma tbl_get_upsert [table_simps]:
  "tbl_get key k (tbl_upsert key row rows) = (if k = key row then Some row else tbl_get key k rows)"
  by (simp add: tbl_upsert_def tbl_get_map_upd tbl_get_append_new)

lemma tbl_get_filter_key:
  "tbl_get key k (filter (\<lambda>r. key r \<noteq> k') rows) = (if k = k' then None else tbl_get key k rows)"
  by (induction rows) (auto simp: tbl_get_def)

lemma tbl_get_replace [table_simps]:
  "tbl_get key k (tbl_replace key row rows) = (if k = key row then Some row else tbl_get key k rows)"
  by (auto simp: tbl_replace_def tbl_get_snoc tbl_get_filter_key split: option.splits)

lemma tbl_get_insert [table_simps]:
  "tbl_insert key row rows = Some rows' \<Longrightarrow>
   tbl_get key k rows' = (if k = key row then Some row else tbl_get key k rows)"
  by (auto simp: tbl_insert_def tbl_get_append_new split: if_splits)

lemma map_key_upd: "map key (map (\<lambda>r. if key r = key row then row else r) rows) = map key rows"
  by simp

lemma tbl_unique_upsert [table_simps]:
  "tbl_unique key rows \<Longrightarrow> tbl_unique key (tbl_upsert key row rows)"
  by (cases "key row \<in> key ` set rows")
    (simp_all add: tbl_upsert_def tbl_unique_def map_key_upd del: map_map)

lemma tbl_unique_replace [table_simps]:
  "tbl_unique key rows \<Longrightarrow> tbl_unique key (tbl_replace key row rows)"
  by (auto simp: tbl_replace_def tbl_unique_def distinct_map inj_on_def)

lemma tbl_unique_delete [table_simps]:
  "tbl_unique key rows \<Longrightarrow> tbl_unique key (tbl_delete P rows)"
  by (auto simp: tbl_delete_def tbl_unique_def distinct_map inj_on_def)

lemma tbl_insert_all_Some:
  "tbl_insert_all key rs rows = Some rows' \<longleftrightarrow>
     rows' = rows @ rs \<and> distinct (map key rs) \<and> key ` set rs \<inter> key ` set rows = {}"
proof (induction rs arbitrary: rows)
  case (Cons r rs)
  then show ?case by (auto simp: tbl_insert_def split: option.splits)
qed auto

lemma tbl_insert_all_append:
  "tbl_insert_all key (xs @ ys) rows = Option.bind (tbl_insert_all key xs rows) (tbl_insert_all key ys)"
  by (induction xs arbitrary: rows) (auto split: option.splits)

lemma tbl_unique_insert_all [table_simps]:
  "tbl_unique key rows \<Longrightarrow> tbl_insert_all key rs rows = Some rows' \<Longrightarrow> tbl_unique key rows'"
  by (auto simp: tbl_insert_all_Some tbl_unique_def)

subsection \<open>The lookup contract of a keyed table\<close>

text \<open>
  What a client of one table relies on: a write is seen by the next lookup of its key and by no
  other lookup, and uniqueness of the key survives. Clients' frame lemmas are proved here once
  and used for the snapshot table and for the job queue.
\<close>

locale keyed_table =
  fixes key :: "'r \<Rightarrow> 'k"
    and get :: "'k \<Rightarrow> 't \<Rightarrow> 'r option"
    and put :: "'r \<Rightarrow> 't \<Rightarrow> 't"
    and invar :: "'t \<Rightarrow> bool"
  assumes get_put: "get k (put r t) = (if k = key r then Some r else get k t)"
    and get_key: "get k t = Some r \<Longrightarrow> key r = k"
    and invar_put: "invar t \<Longrightarrow> invar (put r t)"
begin

lemma get_put_same: "get (key r) (put r t) = Some r"
  by (simp add: get_put)

lemma get_put_frame: "k \<noteq> key r \<Longrightarrow> get k (put r t) = get k t"
  by (simp add: get_put)

lemma get_put_overwrite: "key r = key r' \<Longrightarrow> get k (put r (put r' t)) = get k (put r t)"
  by (simp add: get_put)

lemma invar_fold_put: "invar t \<Longrightarrow> invar (fold put rs t)"
  by (induction rs arbitrary: t) (auto intro: invar_put)

end

end
