(* ===== verification/Lifecycle.thy ===== *)
theory Lifecycle
  imports Prelude
begin

text \<open>
  The entity abstraction of \<open>lib.rs\<close> (the \<open>EventSourced\<close> trait as a dictionary of its methods and
  codecs) and the adapter of \<open>lifecycle.rs\<close> that runs it under cqrs-es: the three-state
  \<open>Lifecycle\<close>, event application, command handling with its scratch-copy validation, and the derived
  JSON form of a lifecycle, which is what snapshots and view rows hold. The event sink is cqrs-es
  code: its \<open>write\<close> is an argument of \<open>handle\<close>, and \<open>event_sink_contract\<close> is what \<open>handle\<close> relies on.
\<close>

section \<open>Entities (lib.rs, dispatch.rs)\<close>

datatype compaction_policy = Retain | CompactAfterSnapshot

text \<open>
  A buffered job dispatch: the erased job is its routing kind and the result of encoding its
  payload (\<open>None\<close> when serialization fails); the delay is in nanoseconds.
\<close>

record pending_push =
  pp_job_id :: string
  pp_kind :: string
  pp_encode :: "json option"
  pp_delay :: "nat option"

datatype 'e effect = Events "'e list" | Dispatch 'e pending_push

record ('s, 'c, 'e, 'err) event_sourced =
  es_originate :: "'e \<Rightarrow> 's option"
  es_evolve :: "'s \<Rightarrow> 'e \<Rightarrow> 'err + 's option"
  es_initialize :: "'c \<Rightarrow> 'err + 'e effect"
  es_transition :: "'s \<Rightarrow> 'c \<Rightarrow> 'err + 'e effect"
  es_aggregate_type :: string
  es_schema_version :: nat
  es_snapshot_size :: nat
  es_compaction_policy :: compaction_policy

section \<open>The lifecycle (lifecycle.rs)\<close>

datatype ('s, 'e, 'err) lifecycle_error =
    EventCantOriginate 'e
  | UnexpectedEvent 's 'e
  | AlreadyFailed "('s, 'e, 'err) lifecycle_error" 'e
  | Apply 'err
  | DispatchNotBuffered

datatype ('s, 'e, 'err) lifecycle =
    Uninitialized
  | Live 's
  | Failed "('s, 'e, 'err) lifecycle_error" "'s option"

fun into_result :: "('s, 'e, 'err) lifecycle \<Rightarrow> ('s, 'e, 'err) lifecycle_error + 's option" where
  "into_result (Live entity) = Inr (Some entity)"
| "into_result Uninitialized = Inr None"
| "into_result (Failed error _) = Inl error"

fun apply_event ::
  "('s, 'c, 'e, 'err) event_sourced \<Rightarrow> ('s, 'e, 'err) lifecycle \<Rightarrow> 'e \<Rightarrow> ('s, 'e, 'err) lifecycle" where
  "apply_event es Uninitialized event =
     (case es_originate es event of
        None \<Rightarrow> Failed (EventCantOriginate event) None
      | Some entity \<Rightarrow> Live entity)"
| "apply_event es (Live entity) event =
     (case es_evolve es entity event of
        Inr (Some new_entity) \<Rightarrow> Live new_entity
      | Inr None \<Rightarrow> Failed (UnexpectedEvent entity event) (Some entity)
      | Inl domain_err \<Rightarrow> Failed (Apply domain_err) (Some entity))"
| "apply_event es (Failed error last_valid) event = Failed (AlreadyFailed error event) last_valid"

text \<open>Replay, as cqrs-es loads an aggregate and as a view is folded.\<close>

definition replay ::
  "('s, 'c, 'e, 'err) event_sourced \<Rightarrow> ('s, 'e, 'err) lifecycle \<Rightarrow> 'e list \<Rightarrow> ('s, 'e, 'err) lifecycle" where
  "replay es l evs = foldl (apply_event es) l evs"

subsection \<open>Command handling\<close>

text \<open>
  The per-command scope of \<open>job.rs\<close>: \<open>None\<close> when no scope is active (a framework bug the code
  reports), otherwise the buffered pushes in order.
\<close>

type_synonym pending_scope = "pending_push list option"

definition buffer :: "pending_push \<Rightarrow> pending_scope \<Rightarrow> pending_scope option" where
  "buffer push scope = (case scope of None \<Rightarrow> None | Some pending \<Rightarrow> Some (Some (pending @ [push])))"

text \<open>
  \<open>EventSink::write(event, aggregate)\<close> of cqrs-es: the documented contract is that it applies the
  event to the aggregate it is handed and appends the event to the sink.
\<close>

type_synonym ('s, 'e, 'err) sink_write =
  "'e \<Rightarrow> ('s, 'e, 'err) lifecycle \<times> 'e list \<Rightarrow> ('s, 'e, 'err) lifecycle \<times> 'e list"

definition event_sink_contract ::
  "('s, 'c, 'e, 'err) event_sourced \<Rightarrow> ('s, 'e, 'err) sink_write \<Rightarrow> bool" where
  "event_sink_contract es write \<longleftrightarrow>
     (\<forall>event aggregate sink. write event (aggregate, sink) = (apply_event es aggregate event, sink @ [event]))"

text \<open>The loop over the command's events: each is written, and a failed scratch copy stops it.\<close>

fun sink_events ::
  "('s, 'e, 'err) sink_write \<Rightarrow> ('s, 'e, 'err) lifecycle \<times> 'e list \<Rightarrow> 'e list
     \<Rightarrow> ('s, 'e, 'err) lifecycle_error + 'e list" where
  "sink_events write (scratch, sink) [] = Inr sink"
| "sink_events write (scratch, sink) (event # rest) =
     (case write event (scratch, sink) of
        (Failed error _, _) \<Rightarrow> Inl error
      | (scratch', sink') \<Rightarrow> sink_events write (scratch', sink') rest)"

definition decide ::
  "('s, 'c, 'e, 'err) event_sourced \<Rightarrow> ('s, 'e, 'err) lifecycle \<Rightarrow> 'c
     \<Rightarrow> ('s, 'e, 'err) lifecycle_error + 'e effect" where
  "decide es self command =
     (case self of
        Uninitialized \<Rightarrow>
          (case es_initialize es command of Inl e \<Rightarrow> Inl (Apply e) | Inr eff \<Rightarrow> Inr eff)
      | Live entity \<Rightarrow>
          (case es_transition es entity command of Inl e \<Rightarrow> Inl (Apply e) | Inr eff \<Rightarrow> Inr eff)
      | Failed error _ \<Rightarrow> Inl error)"

definition handle ::
  "('s, 'e, 'err) sink_write \<Rightarrow> ('s, 'c, 'e, 'err) event_sourced \<Rightarrow> ('s, 'e, 'err) lifecycle \<Rightarrow> 'c
     \<Rightarrow> pending_scope \<Rightarrow> pending_scope \<times> (('s, 'e, 'err) lifecycle_error + 'e list)" where
  "handle write es self command scope =
     (case decide es self command of
        Inl error \<Rightarrow> (scope, Inl error)
      | Inr (Events evs) \<Rightarrow> (scope, sink_events write (self, []) evs)
      | Inr (Dispatch event pending) \<Rightarrow>
          (case buffer pending scope of
             None \<Rightarrow> (scope, Inl DispatchNotBuffered)
           | Some scope' \<Rightarrow> (scope', sink_events write (self, []) [event])))"

section \<open>The derived JSON form\<close>

text \<open>
  The externally tagged representation \<open>#[derive(Serialize, Deserialize)]\<close> gives the two enums: a
  unit variant is its name, any other variant an object with the name as its only member. Decoders
  read the object form of a struct variant, the one the encoders write. The \<open>json_extract\<close> paths of the \<open>job_queue\<close> migration read this form.
\<close>

definition tagged :: "string \<Rightarrow> json \<Rightarrow> json" where
  "tagged name body = JObject [(name, body)]"

definition untag :: "string \<Rightarrow> json \<Rightarrow> json option" where
  "untag name j = (case j of JObject [(k, body)] \<Rightarrow> if k = name then Some body else None | _ \<Rightarrow> None)"

text \<open>serde reads a unit variant from its name or from an object holding \<open>null\<close> under its name.\<close>

definition unit_variant :: "string \<Rightarrow> json \<Rightarrow> bool" where
  "unit_variant name j \<longleftrightarrow> j = JString name \<or> untag name j = Some JNull"

lemma untag_tagged [simp]: "untag n (tagged m b) = (if m = n then Some b else None)"
  by (auto simp: untag_def tagged_def)

lemma untag_JString [simp]: "untag n (JString s) = None"
  by (simp add: untag_def)

lemma tagged_neq [simp]:
  "tagged n b \<noteq> JString s" "JString s \<noteq> tagged n b" "tagged n b \<noteq> JNull" "JNull \<noteq> tagged n b"
  by (simp_all add: tagged_def)

lemma tagged_eq [simp]: "tagged n b = tagged m c \<longleftrightarrow> n = m \<and> b = c"
  by (auto simp: tagged_def)

lemma unit_variant_simps [simp]:
  "unit_variant n (JString m) \<longleftrightarrow> m = n"
  "unit_variant n (tagged m b) \<longleftrightarrow> m = n \<and> b = JNull"
  by (auto simp: unit_variant_def)

lemma untag_size: "untag n j = Some b \<Longrightarrow> size b < size j"
  by (auto simp: untag_def split: json.splits list.splits if_splits prod.splits)

lemma json_field_JObject [simp]:
  "json_field k (JObject ((k', v) # kvs)) = (if k' = k then Some v else json_field k (JObject kvs))"
  "json_field k (JObject []) = None"
  by auto

fun lifecycle_error_to_json ::
  "('s \<Rightarrow> json) \<Rightarrow> ('e \<Rightarrow> json) \<Rightarrow> ('err \<Rightarrow> json) \<Rightarrow> ('s, 'e, 'err) lifecycle_error \<Rightarrow> json" where
  "lifecycle_error_to_json es ee er (EventCantOriginate event) =
     tagged ''EventCantOriginate'' (JObject [(''event'', ee event)])"
| "lifecycle_error_to_json es ee er (UnexpectedEvent entity event) =
     tagged ''UnexpectedEvent'' (JObject [(''entity'', es entity), (''event'', ee event)])"
| "lifecycle_error_to_json es ee er (AlreadyFailed failure event) =
     tagged ''AlreadyFailed''
       (JObject [(''failure'', lifecycle_error_to_json es ee er failure), (''event'', ee event)])"
| "lifecycle_error_to_json es ee er (Apply err) = tagged ''Apply'' (er err)"
| "lifecycle_error_to_json es ee er DispatchNotBuffered = tagged ''DispatchNotBuffered'' JNull"

fun lifecycle_to_json ::
  "('s \<Rightarrow> json) \<Rightarrow> ('e \<Rightarrow> json) \<Rightarrow> ('err \<Rightarrow> json) \<Rightarrow> ('s, 'e, 'err) lifecycle \<Rightarrow> json" where
  "lifecycle_to_json es ee er Uninitialized = JString ''Uninitialized''"
| "lifecycle_to_json es ee er (Live entity) = tagged ''Live'' (es entity)"
| "lifecycle_to_json es ee er (Failed error last_valid) =
     tagged ''Failed'' (JObject [(''error'', lifecycle_error_to_json es ee er error),
       (''last_valid_entity'', case last_valid of None \<Rightarrow> JNull | Some s \<Rightarrow> es s)])"

function lifecycle_error_from_json ::
  "(json \<Rightarrow> 's option) \<Rightarrow> (json \<Rightarrow> 'e option) \<Rightarrow> (json \<Rightarrow> 'err option)
     \<Rightarrow> json \<Rightarrow> ('s, 'e, 'err) lifecycle_error option" where
  "lifecycle_error_from_json ds de dr j =
     (case untag ''EventCantOriginate'' j of
        Some b \<Rightarrow> map_option EventCantOriginate (Option.bind (json_field ''event'' b) de)
      | None \<Rightarrow>
     (case untag ''UnexpectedEvent'' j of
        Some b \<Rightarrow> Option.bind (Option.bind (json_field ''entity'' b) ds) (\<lambda>s.
                  map_option (UnexpectedEvent s) (Option.bind (json_field ''event'' b) de))
      | None \<Rightarrow>
     (case untag ''AlreadyFailed'' j of
        Some b \<Rightarrow>
          (case json_field ''failure'' b of
             None \<Rightarrow> None
           | Some f \<Rightarrow> Option.bind (lifecycle_error_from_json ds de dr f) (\<lambda>failure.
                  map_option (AlreadyFailed failure) (Option.bind (json_field ''event'' b) de)))
      | None \<Rightarrow>
     (case untag ''Apply'' j of
        Some b \<Rightarrow> map_option Apply (dr b)
      | None \<Rightarrow>
          if untag ''DispatchNotBuffered'' j = Some JNull then Some DispatchNotBuffered else None))))"
  by pat_completeness auto
termination
proof (relation "measure (\<lambda>(ds, de, dr, j). size j)")
  fix j b f
  assume "untag ''AlreadyFailed'' j = Some b" and "json_field ''failure'' b = Some f"
  then have "size b < size j" and "size f < size b" by (auto dest: untag_size)
  then show "((ds, de, dr, f), ds, de, dr, j) \<in> measure (\<lambda>(ds, de, dr, j). size j)"
    for ds :: "json \<Rightarrow> 's option" and de :: "json \<Rightarrow> 'e option" and dr :: "json \<Rightarrow> 'err option"
    by simp
qed auto

declare lifecycle_error_from_json.simps [simp del]

definition lifecycle_from_json ::
  "(json \<Rightarrow> 's option) \<Rightarrow> (json \<Rightarrow> 'e option) \<Rightarrow> (json \<Rightarrow> 'err option)
     \<Rightarrow> json \<Rightarrow> ('s, 'e, 'err) lifecycle option" where
  "lifecycle_from_json ds de dr j =
     (if unit_variant ''Uninitialized'' j then Some Uninitialized
      else case untag ''Live'' j of
        Some b \<Rightarrow> map_option Live (ds b)
      | None \<Rightarrow>
     (case untag ''Failed'' j of
        None \<Rightarrow> None
      | Some b \<Rightarrow>
          Option.bind (Option.bind (json_field ''error'' b) (lifecycle_error_from_json ds de dr)) (\<lambda>error.
          case json_field ''last_valid_entity'' b of
            None \<Rightarrow> Some (Failed error None)
          | Some v \<Rightarrow>
              if v = JNull then Some (Failed error None)
              else map_option (\<lambda>s. Failed error (Some s)) (ds v))))"

section \<open>Codecs as an interface\<close>

text \<open>What a client of a derived codec relies on: decoding an encoded valid value gives it back.\<close>

locale serde_codec =
  fixes enc :: "'a \<Rightarrow> json"
    and dec :: "json \<Rightarrow> 'a option"
    and valid :: "'a \<Rightarrow> bool"
  assumes dec_enc: "valid x \<Longrightarrow> dec (enc x) = Some x"
begin

lemma enc_inject: "valid x \<Longrightarrow> valid y \<Longrightarrow> enc x = enc y \<longleftrightarrow> x = y"
  by (metis dec_enc option.inject)

lemma read_written_cell: "valid x \<Longrightarrow> Option.bind (from_text (to_text (enc x))) dec = Some x"
  by (simp add: dec_enc)

end

text \<open>The validity of a lifecycle: its entities, events and errors are valid.\<close>

fun valid_lifecycle_error ::
  "('s \<Rightarrow> bool) \<Rightarrow> ('e \<Rightarrow> bool) \<Rightarrow> ('err \<Rightarrow> bool) \<Rightarrow> ('s, 'e, 'err) lifecycle_error \<Rightarrow> bool" where
  "valid_lifecycle_error vs ve vr (EventCantOriginate event) = ve event"
| "valid_lifecycle_error vs ve vr (UnexpectedEvent entity event) = (vs entity \<and> ve event)"
| "valid_lifecycle_error vs ve vr (AlreadyFailed failure event) =
     (valid_lifecycle_error vs ve vr failure \<and> ve event)"
| "valid_lifecycle_error vs ve vr (Apply err) = vr err"
| "valid_lifecycle_error vs ve vr DispatchNotBuffered = True"

fun valid_lifecycle ::
  "('s \<Rightarrow> bool) \<Rightarrow> ('e \<Rightarrow> bool) \<Rightarrow> ('err \<Rightarrow> bool) \<Rightarrow> ('s, 'e, 'err) lifecycle \<Rightarrow> bool" where
  "valid_lifecycle vs ve vr Uninitialized = True"
| "valid_lifecycle vs ve vr (Live entity) = vs entity"
| "valid_lifecycle vs ve vr (Failed error last_valid) =
     (valid_lifecycle_error vs ve vr error \<and> (case last_valid of None \<Rightarrow> True | Some s \<Rightarrow> vs s))"

locale lifecycle_codec =
  state: serde_codec es ds vs + event: serde_codec ee de ve + err: serde_codec er dr vr
  for es :: "'s \<Rightarrow> json" and ds :: "json \<Rightarrow> 's option" and vs :: "'s \<Rightarrow> bool"
    and ee :: "'e \<Rightarrow> json" and de :: "json \<Rightarrow> 'e option" and ve :: "'e \<Rightarrow> bool"
    and er :: "'err \<Rightarrow> json" and dr :: "json \<Rightarrow> 'err option" and vr :: "'err \<Rightarrow> bool" +
  assumes state_not_null: "es s \<noteq> JNull"
begin

lemma error_dec_enc:
  "valid_lifecycle_error vs ve vr x \<Longrightarrow>
     lifecycle_error_from_json ds de dr (lifecycle_error_to_json es ee er x) = Some x"
  by (induction x;
      subst lifecycle_error_from_json.simps; simp add: state.dec_enc event.dec_enc err.dec_enc)

lemma lifecycle_dec_enc:
  "valid_lifecycle vs ve vr l \<Longrightarrow>
     lifecycle_from_json ds de dr (lifecycle_to_json es ee er l) = Some l"
  by (cases l)
    (auto simp: lifecycle_from_json_def state.dec_enc error_dec_enc state_not_null split: option.splits)

end

sublocale lifecycle_codec \<subseteq> life: serde_codec "lifecycle_to_json es ee er"
    "lifecycle_from_json ds de dr" "valid_lifecycle vs ve vr"
  by unfold_locales (rule lifecycle_dec_enc)

section \<open>Replay\<close>

lemma replay_Nil [simp]: "replay es l [] = l"
  by (simp add: replay_def)

lemma replay_Cons [simp]: "replay es l (e # evs) = replay es (apply_event es l e) evs"
  by (simp add: replay_def)

lemma replay_append [simp]: "replay es l (xs @ ys) = replay es (replay es l xs) ys"
  by (simp add: replay_def)

lemma apply_event_not_Uninitialized [simp]: "apply_event es l e \<noteq> Uninitialized"
  by (cases l) (auto split: option.splits sum.splits)

lemma replay_Failed: "\<exists>err. replay es (Failed e lv) evs = Failed err lv"
  by (induction evs arbitrary: e) auto

lemma event_sink_contractD:
  "event_sink_contract es write \<Longrightarrow> write e (l, sink) = (apply_event es l e, sink @ [e])"
  by (simp add: event_sink_contract_def)

lemma sink_events_Inr:
  assumes "event_sink_contract es write"
  shows "sink_events write (l, sink) evs = Inr w \<Longrightarrow>
    w = sink @ evs \<and> (evs \<noteq> [] \<longrightarrow> (\<exists>s. replay es l evs = Live s))"
proof (induction evs arbitrary: l sink)
  case (Cons e evs)
  note step = event_sink_contractD [OF assms]
  show ?case
  proof (cases "apply_event es l e")
    case (Live s)
    then have sink: "sink_events write (Live s, sink @ [e]) evs = Inr w"
      using Cons.prems step by (simp del: apply_event.simps)
    note ih = Cons.IH [OF sink]
    have "\<exists>s'. replay es (Live s) evs = Live s'"
    proof (cases "evs = []")
      case False
      then show ?thesis using ih by blast
    qed simp
    then show ?thesis using ih Live by (simp del: apply_event.simps)
  qed (use Cons.prems step in \<open>simp_all del: apply_event.simps\<close>)
qed simp

lemma sink_events_ok:
  assumes "event_sink_contract es write"
  shows "replay es l evs = Live s \<Longrightarrow> sink_events write (l, sink) evs = Inr (sink @ evs)"
proof (induction evs arbitrary: l sink)
  case (Cons e evs)
  note step = event_sink_contractD [OF assms]
  show ?case
  proof (cases "apply_event es l e")
    case (Failed err lv)
    then show ?thesis
      using Cons.prems replay_Failed [of es err lv evs] by (auto simp del: apply_event.simps)
  next
    case (Live s')
    then show ?thesis
      using Cons.IH [of "Live s'" "sink @ [e]"] Cons.prems step by (simp del: apply_event.simps)
  qed (use apply_event_not_Uninitialized [of es l e] in blast)
qed simp

lemma apply_event_error:
  assumes "\<forall>err lv. l \<noteq> Failed err lv" and "apply_event es l e = Failed err lv"
  shows "(\<exists>ev. err = EventCantOriginate ev) \<or> (\<exists>s ev. err = UnexpectedEvent s ev) \<or> (\<exists>d. err = Apply d)"
  using assms by (cases l) (auto split: option.splits sum.splits)

lemma sink_events_Inl:
  assumes "event_sink_contract es write"
    and "sink_events write (l, sink) evs = Inl err" and "\<forall>err lv. l \<noteq> Failed err lv"
  shows "\<exists>pre e post l' lv. evs = pre @ e # post \<and> replay es l pre = l' \<and> (\<forall>err lv. l' \<noteq> Failed err lv)
    \<and> apply_event es l' e = Failed err lv"
  using assms(2-)
proof (induction evs arbitrary: l sink)
  case (Cons e evs)
  note step = event_sink_contractD [OF assms(1)]
  show ?case
  proof (cases "apply_event es l e")
    case (Failed err' lv)
    then have "err' = err" using Cons.prems(1) step by (simp del: apply_event.simps)
    then show ?thesis
      using Failed Cons.prems(2) by (intro exI [of _ "[]"]) (auto simp del: apply_event.simps)
  next
    case (Live s)
    then have "sink_events write (Live s, sink @ [e]) evs = Inl err"
      using Cons.prems(1) step by (simp del: apply_event.simps)
    then obtain pre e' post lv where "evs = pre @ e' # post"
      and "\<forall>err lv. replay es (Live s) pre \<noteq> Failed err lv"
      and "apply_event es (replay es (Live s) pre) e' = Failed err lv"
      using Cons.IH [of "Live s"] by blast
    then show ?thesis
      using Live by (intro exI [of _ "e # pre"]) (simp del: apply_event.simps)
  next
    case Uninitialized
    then show ?thesis using apply_event_not_Uninitialized [of es l e] by blast
  qed
qed simp

section \<open>Properties\<close>

lemma decide_Failed [simp]: "decide es (Failed err lv) c = Inl err"
  by (simp add: decide_def)

lemma handle_cases:
  assumes "handle write es self c scope = (scope', r)"
  obtains (rejected) err where "decide es self c = Inl err" "scope' = scope" "r = Inl err"
  | (events) evs where "decide es self c = Inr (Events evs)" "scope' = scope"
      "r = sink_events write (self, []) evs"
  | (unbuffered) ev p where "decide es self c = Inr (Dispatch ev p)" "scope = None" "scope' = None"
      "r = Inl DispatchNotBuffered"
  | (dispatched) ev p pending where "decide es self c = Inr (Dispatch ev p)" "scope = Some pending"
      "scope' = Some (pending @ [p])" "r = sink_events write (self, []) [ev]"
  using assms
  by (auto simp: handle_def buffer_def split: sum.splits effect.splits option.splits)

text \<open>
  C11 (handle_commits_only_applicable). A command never commits an event the entity cannot apply: when
  \<open>handle\<close> succeeds, it hands over exactly the events the decision named, in order, and replaying a
  non-empty list of them on the lifecycle it started from gives a live entity. A dispatch adds exactly
  its own push to the command scope together with its single event; a plain events decision leaves
  the scope alone.
\<close>

theorem handle_commits_only_applicable:
  assumes "event_sink_contract es write"
    and "handle write es self command scope = (scope', Inr evs)"
  shows "(evs \<noteq> [] \<longrightarrow> (\<exists>s. replay es self evs = Live s))
    \<and> (case decide es self command of
         Inr (Events decided) \<Rightarrow> evs = decided \<and> scope' = scope
       | Inr (Dispatch event push) \<Rightarrow>
           evs = [event] \<and> (\<exists>pending. scope = Some pending \<and> scope' = Some (pending @ [push]))
       | Inl _ \<Rightarrow> False)"
  using assms(2)
proof (cases rule: handle_cases)
  case (events decided)
  then show ?thesis using sink_events_Inr [OF assms(1), of self "[]" decided evs] by simp
next
  case (dispatched ev p pending)
  then show ?thesis using sink_events_Inr [OF assms(1), of self "[]" "[ev]" evs] by simp
qed simp_all

lemma sink_events_root_cause:
  assumes "event_sink_contract es write" and "\<forall>err lv. self \<noteq> Failed err lv"
    and "sink_events write (self, []) evs = Inl err"
  shows "(\<forall>f ev. err \<noteq> AlreadyFailed f ev)
    \<and> (\<exists>pre ev post lv. evs = pre @ ev # post \<and> (\<forall>e lv. replay es self pre \<noteq> Failed e lv)
         \<and> apply_event es (replay es self pre) ev = Failed err lv)"
proof -
  obtain pre ev post lv where "evs = pre @ ev # post" "\<forall>e lv. replay es self pre \<noteq> Failed e lv"
      "apply_event es (replay es self pre) ev = Failed err lv"
    using sink_events_Inl [OF assms(1) assms(3) assms(2)] by blast
  moreover from this have "\<forall>f ev. err \<noteq> AlreadyFailed f ev"
    using apply_event_error [of "replay es self pre" es ev err lv] by auto
  ultimately show ?thesis by blast
qed

lemma handle_unfailed_error:
  assumes "event_sink_contract es write" and "\<forall>err lv. self \<noteq> Failed err lv"
    and "handle write es self command scope = (scope', Inl err)"
  shows "(\<forall>failure ev. err \<noteq> AlreadyFailed failure ev)
    \<and> (decide es self command = Inl err
       \<or> (err = DispatchNotBuffered \<and> scope = None)
       \<or> (\<exists>pre ev lv. apply_event es (replay es self pre) ev = Failed err lv
            \<and> (\<forall>e lv. replay es self pre \<noteq> Failed e lv)
            \<and> (case decide es self command of
                 Inr (Events decided) \<Rightarrow> \<exists>post. decided = pre @ ev # post
               | Inr (Dispatch event _) \<Rightarrow> pre = [] \<and> ev = event
               | Inl _ \<Rightarrow> False)))"
  using assms(3)
proof (cases rule: handle_cases)
  case (rejected err')
  then show ?thesis
    using assms(2) by (auto simp: decide_def split: lifecycle.splits sum.splits)
next
  case (events decided)
  then have "sink_events write (self, []) decided = Inl err" by simp
  from sink_events_root_cause [OF assms(1,2) this] show ?thesis by (simp add: events) blast
next
  case (dispatched ev p pending)
  then have "sink_events write (self, []) [ev] = Inl err" by simp
  from sink_events_root_cause [OF assms(1,2) this] show ?thesis
    by (auto simp: dispatched Cons_eq_append_conv simp del: apply_event.simps)
qed simp

text \<open>
  A failing command reports its root cause, and a command on a failed
  lifecycle always fails with the stored error. On an unfailed lifecycle the error is the handler's
  own, or a dispatch outside a command scope, or the error of the first event the entity rejects when
  applied after the ones before it; it is never an \<open>AlreadyFailed\<close> wrapper.
\<close>

theorem handle_root_cause:
  assumes "event_sink_contract es write"
    and "handle write es self command scope = (scope', Inl err)"
  shows "case self of
      Failed stored _ \<Rightarrow> err = stored \<and> scope' = scope
    | _ \<Rightarrow> (\<forall>failure ev. err \<noteq> AlreadyFailed failure ev)
        \<and> (decide es self command = Inl err
           \<or> (err = DispatchNotBuffered \<and> scope = None)
           \<or> (\<exists>pre ev lv. apply_event es (replay es self pre) ev = Failed err lv
                \<and> (\<forall>e lv. replay es self pre \<noteq> Failed e lv)
                \<and> (case decide es self command of
                     Inr (Events decided) \<Rightarrow> \<exists>post. decided = pre @ ev # post
                   | Inr (Dispatch event _) \<Rightarrow> pre = [] \<and> ev = event
                   | Inl _ \<Rightarrow> False)))"
proof (cases self)
  case (Failed stored lv)
  then show ?thesis using assms(2) by (simp add: handle_def)
qed (use handle_unfailed_error [OF assms(1) _ assms(2)] in simp_all)

text \<open>A counter that starts at one event and refuses a third: the input the witnesses run on.\<close>

definition sample_counter :: "(nat, nat, nat, string) event_sourced" where
  "sample_counter = \<lparr>
     es_originate = (\<lambda>e. if e = 0 then Some 0 else None),
     es_evolve = (\<lambda>s e. if s + e \<le> 2 then Inr (Some (s + e)) else Inr None),
     es_initialize = (\<lambda>c. Inr (Events [0, c])),
     es_transition = (\<lambda>s c. Inr (Events [c])),
     es_aggregate_type = ''Counter'', es_schema_version = 1, es_snapshot_size = 100,
     es_compaction_policy = Retain\<rparr>"

definition sample_write :: "(nat, nat, string) sink_write" where
  "sample_write e p = (apply_event sample_counter (fst p) e, snd p @ [e])"

lemma sample_write_contract: "event_sink_contract sample_counter sample_write"
  by (simp add: event_sink_contract_def sample_write_def)

theorem handle_commits_only_applicable_witness:
  "handle sample_write sample_counter Uninitialized 1 (Some []) = (Some [], Inr [0, 1])
   \<and> (\<exists>s. replay sample_counter Uninitialized [0, 1] = Live s)"
proof -
  have "handle sample_write sample_counter Uninitialized 1 (Some []) = (Some [], Inr [0, 1])"
    by (simp add: handle_def decide_def sample_counter_def sample_write_def)
  then show ?thesis
    using handle_commits_only_applicable [OF sample_write_contract, of Uninitialized 1 "Some []"] by auto
qed

theorem handle_root_cause_witness:
  "handle sample_write sample_counter (Live 2) 1 None = (None, Inl (UnexpectedEvent 2 1))
   \<and> (\<forall>failure ev. UnexpectedEvent (2::nat) (1::nat) \<noteq> (AlreadyFailed failure ev :: (nat, nat, string) lifecycle_error))"
proof -
  have "handle sample_write sample_counter (Live 2) 1 None = (None, Inl (UnexpectedEvent 2 1))"
    by (simp add: handle_def decide_def sample_counter_def sample_write_def)
  then show ?thesis
    using handle_root_cause [OF sample_write_contract, of "Live 2" 1 None None] by auto
qed

end
