(* ===== verification/Sqlite_Es.thy ===== *)
theory Sqlite_Es
  imports Prelude "HOL-Library.Multiset" "HOL-Library.List_Lexorder" "HOL-Library.Char_ord"
begin

text \<open>
  The storage crate \<open>crates/sqlite-es\<close>: the rows of the \<open>events\<close>, \<open>snapshots\<close> and view tables of
  \<open>migrations/\<close>, the statements of \<open>sql_query.rs\<close> read as functions on those tables, the event
  repository of \<open>event_repository.rs\<close> (batched insertion, guarded snapshot upsert, transactional
  \<open>persist\<close>) and the view repository of \<open>view_repository.rs\<close> (optimistic \<open>update_view\<close>, the
  predicate scan \<open>find\<close>). A transaction is a function to \<open>error + tables\<close>: an error leaves the
  caller with the tables it started from, which is what a rollback does. Connection failures of
  the driver are outside the model; constraint violations are in it.
\<close>

section \<open>Rows\<close>

record serialized_event =
  se_aggregate_id :: string
  se_sequence :: nat
  se_aggregate_type :: string
  se_event_type :: string
  se_event_version :: string
  se_payload :: json
  se_metadata :: json

record serialized_snapshot =
  ss_aggregate_id :: string
  ss_aggregate :: json
  ss_current_sequence :: nat
  ss_current_snapshot :: nat

record event_row =
  er_type :: string
  er_id :: string
  er_seq :: int
  er_event_type :: string
  er_event_version :: string
  er_payload :: text_cell
  er_metadata :: text_cell

record snapshot_row =
  sr_type :: string
  sr_id :: string
  sr_last_sequence :: int
  sr_version :: int
  sr_payload :: text_cell

record view_row =
  vw_id :: string
  vw_version :: int
  vw_payload :: text_cell
  vw_lease :: "int option"

record db =
  events :: "event_row list"
  snapshots :: "snapshot_row list"
  job_queue :: "view_row list"

type_synonym event_pk = "string \<times> string \<times> int"

definition event_pk :: "event_row \<Rightarrow> event_pk" where
  "event_pk r = (er_type r, er_id r, er_seq r)"

definition snap_pk :: "snapshot_row \<Rightarrow> string \<times> string" where
  "snap_pk r = (sr_type r, sr_id r)"

definition empty_db :: db where
  "empty_db = \<lparr>events = [], snapshots = [], job_queue = []\<rparr>"

definition db_keys_unique :: "db \<Rightarrow> bool" where
  "db_keys_unique d \<longleftrightarrow> tbl_unique event_pk (events d) \<and> tbl_unique snap_pk (snapshots d)
     \<and> tbl_unique vw_id (job_queue d)"

section \<open>Errors\<close>

datatype sql_error = UniqueViolation

datatype sqlite_aggregate_error =
    Agg_OptimisticLock
  | Agg_Connection sql_error
  | Agg_Deserialization
  | Agg_TryFromInt
  | Agg_EmptySnapshotUpdate

datatype sqlite_view_error =
    View_OptimisticLock
  | View_Connection sql_error
  | View_Serialization
  | View_Deserialization
  | View_TryFromInt

datatype unknown_cause =
    Cause_TryFromInt
  | Cause_EmptySnapshotUpdate
  | Cause_ViewSerialization
  | Cause_Engine
  | Cause_Projection

datatype persistence_error =
    OptimisticLockError
  | ConnectionError sql_error
  | DeserializationError
  | UnknownError unknown_cause

fun agg_to_persistence :: "sqlite_aggregate_error \<Rightarrow> persistence_error" where
  "agg_to_persistence Agg_OptimisticLock = OptimisticLockError"
| "agg_to_persistence (Agg_Connection e) = ConnectionError e"
| "agg_to_persistence Agg_Deserialization = DeserializationError"
| "agg_to_persistence Agg_TryFromInt = UnknownError Cause_TryFromInt"
| "agg_to_persistence Agg_EmptySnapshotUpdate = UnknownError Cause_EmptySnapshotUpdate"

fun view_to_persistence :: "sqlite_view_error \<Rightarrow> persistence_error" where
  "view_to_persistence View_OptimisticLock = OptimisticLockError"
| "view_to_persistence (View_Connection e) = ConnectionError e"
| "view_to_persistence View_Serialization = UnknownError Cause_ViewSerialization"
| "view_to_persistence View_Deserialization = DeserializationError"
| "view_to_persistence View_TryFromInt = UnknownError Cause_TryFromInt"

definition map_err :: "('e \<Rightarrow> 'f) \<Rightarrow> 'e + 'a \<Rightarrow> 'f + 'a" where
  "map_err f r = (case r of Inl e \<Rightarrow> Inl (f e) | Inr a \<Rightarrow> Inr a)"

lemma map_err_simps [simp]:
  "map_err f (Inl e) = Inl (f e)"
  "map_err f (Inr a) = Inr a"
  "map_err f r = Inr b \<longleftrightarrow> r = Inr b"
  by (auto simp: map_err_def split: sum.splits)

section \<open>Statements of sql_query.rs\<close>

definition in_stream :: "string \<Rightarrow> string \<Rightarrow> event_row \<Rightarrow> bool" where
  "in_stream ty i r \<longleftrightarrow> er_type r = ty \<and> er_id r = i"

definition select_events :: "string \<Rightarrow> string \<Rightarrow> event_row list \<Rightarrow> event_row list" where
  "select_events ty i rows = sort_key er_seq (filter (in_stream ty i) rows)"

definition all_events :: "string \<Rightarrow> event_row list \<Rightarrow> event_row list" where
  "all_events ty rows = sort_key er_seq (filter (\<lambda>r. er_type r = ty) rows)"

definition get_last_events :: "string \<Rightarrow> string \<Rightarrow> int \<Rightarrow> event_row list \<Rightarrow> event_row list" where
  "get_last_events ty i after rows =
     sort_key er_seq (filter (\<lambda>r. in_stream ty i r \<and> after < er_seq r) rows)"

text \<open>\<open>COALESCE((SELECT MAX(sequence) ...), 0)\<close> over one stream.\<close>

definition max_sequence :: "string \<Rightarrow> string \<Rightarrow> event_row list \<Rightarrow> int" where
  "max_sequence ty i rows =
     (case map er_seq (filter (in_stream ty i) rows) of [] \<Rightarrow> 0 | s # ss \<Rightarrow> fold max ss s)"

definition select_snapshot :: "string \<Rightarrow> string \<Rightarrow> snapshot_row list \<Rightarrow> snapshot_row option" where
  "select_snapshot ty i rows = tbl_get snap_pk (ty, i) rows"

text \<open>
  The upsert of \<open>update_snapshot\<close>: an existing row is replaced only when the new row covers a later
  sequence. The second component is \<open>rows_affected\<close>.
\<close>

definition update_snapshot_stmt :: "snapshot_row \<Rightarrow> snapshot_row list \<Rightarrow> snapshot_row list \<times> nat" where
  "update_snapshot_stmt row rows =
     (case tbl_get snap_pk (snap_pk row) rows of
        None \<Rightarrow> (rows @ [row], 1)
      | Some old \<Rightarrow>
          if sr_last_sequence old < sr_last_sequence row then (tbl_upsert snap_pk row rows, 1)
          else (rows, 0))"

definition select_view :: "string \<Rightarrow> view_row list \<Rightarrow> view_row option" where
  "select_view i rows = tbl_get vw_id i rows"

definition insert_view_stmt ::
  "string \<Rightarrow> int \<Rightarrow> text_cell \<Rightarrow> view_row list \<Rightarrow> view_row list option" where
  "insert_view_stmt i v p rows =
     tbl_insert vw_id \<lparr>vw_id = i, vw_version = v, vw_payload = p, vw_lease = None\<rparr> rows"

definition update_view_stmt ::
  "int \<Rightarrow> text_cell \<Rightarrow> string \<Rightarrow> int \<Rightarrow> view_row list \<Rightarrow> view_row list \<times> nat" where
  "update_view_stmt new_version p i expected rows =
     (map (\<lambda>r. if vw_id r = i \<and> vw_version r = expected
               then r\<lparr>vw_version := new_version, vw_payload := p\<rparr> else r) rows,
      length (filter (\<lambda>r. vw_id r = i \<and> vw_version r = expected) rows))"

section \<open>event_repository.rs\<close>

definition row_of_event :: "serialized_event \<Rightarrow> int \<Rightarrow> event_row" where
  "row_of_event e s = \<lparr>er_type = se_aggregate_type e, er_id = se_aggregate_id e, er_seq = s,
     er_event_type = se_event_type e, er_event_version = se_event_version e,
     er_payload = to_text (se_payload e), er_metadata = to_text (se_metadata e)\<rparr>"

definition row_to_serialized_event :: "event_row \<Rightarrow> sqlite_aggregate_error + serialized_event" where
  "row_to_serialized_event r =
     bind_result (ok_or Agg_TryFromInt (usize_try_from (er_seq r))) (\<lambda>sequence.
     bind_result (ok_or Agg_Deserialization (from_text (er_payload r))) (\<lambda>payload.
     bind_result (ok_or Agg_Deserialization (from_text (er_metadata r))) (\<lambda>metadata.
       Inr \<lparr>se_aggregate_id = er_id r, se_sequence = sequence, se_aggregate_type = er_type r,
            se_event_type = er_event_type r, se_event_version = er_event_version r,
            se_payload = payload, se_metadata = metadata\<rparr>)))"

definition row_to_serialized_snapshot ::
  "snapshot_row \<Rightarrow> sqlite_aggregate_error + serialized_snapshot" where
  "row_to_serialized_snapshot r =
     bind_result (ok_or Agg_TryFromInt (usize_try_from (sr_last_sequence r))) (\<lambda>current_sequence.
     bind_result (ok_or Agg_TryFromInt (usize_try_from (sr_version r))) (\<lambda>current_snapshot.
     bind_result (ok_or Agg_Deserialization (from_text (sr_payload r))) (\<lambda>aggregate.
       Inr \<lparr>ss_aggregate_id = sr_id r, ss_aggregate = aggregate,
            ss_current_sequence = current_sequence, ss_current_snapshot = current_snapshot\<rparr>)))"

subsection \<open>Batched insertion\<close>

function chunks :: "nat \<Rightarrow> 'a list \<Rightarrow> 'a list list" where
  "chunks n xs = (if xs = [] \<or> n = 0 then [] else take n xs # chunks n (drop n xs))"
  by pat_completeness auto
termination
  by (relation "measure (\<lambda>(n, xs). length xs)") auto

declare chunks.simps [simp del]

definition MAX_ROWS_PER_BATCH :: nat where
  "MAX_ROWS_PER_BATCH = 999 div 7"

definition insert_chunk ::
  "serialized_event list \<Rightarrow> event_row list \<Rightarrow> sqlite_aggregate_error + event_row list" where
  "insert_chunk chunk rows =
     bind_result (collect_results (\<lambda>e. ok_or Agg_TryFromInt (i64_try_from (se_sequence e))) chunk)
       (\<lambda>sequences.
          ok_or Agg_OptimisticLock
            (tbl_insert_all event_pk (map2 row_of_event chunk sequences) rows))"

fun insert_chunks ::
  "serialized_event list list \<Rightarrow> event_row list \<Rightarrow> sqlite_aggregate_error + event_row list" where
  "insert_chunks [] rows = Inr rows"
| "insert_chunks (c # cs) rows = bind_result (insert_chunk c rows) (insert_chunks cs)"

definition insert_serialized_events_batch ::
  "serialized_event list \<Rightarrow> event_row list \<Rightarrow> sqlite_aggregate_error + event_row list" where
  "insert_serialized_events_batch evs rows =
     (if evs = [] then Inr rows else insert_chunks (chunks MAX_ROWS_PER_BATCH evs) rows)"

subsection \<open>The repository\<close>

definition load_events ::
  "string \<Rightarrow> string \<Rightarrow> db \<Rightarrow> sqlite_aggregate_error + serialized_event list" where
  "load_events ty i d = collect_results row_to_serialized_event (select_events ty i (events d))"

definition load_events_since ::
  "string \<Rightarrow> string \<Rightarrow> nat \<Rightarrow> db \<Rightarrow> sqlite_aggregate_error + serialized_event list" where
  "load_events_since ty i last_sequence d =
     bind_result (ok_or Agg_TryFromInt (i64_try_from last_sequence)) (\<lambda>s.
       collect_results row_to_serialized_event (get_last_events ty i s (events d)))"

definition load_snapshot ::
  "string \<Rightarrow> string \<Rightarrow> db \<Rightarrow> sqlite_aggregate_error + serialized_snapshot option" where
  "load_snapshot ty i d =
     (case select_snapshot ty i (snapshots d) of
        None \<Rightarrow> Inr None
      | Some r \<Rightarrow> bind_result (row_to_serialized_snapshot r) (\<lambda>s. Inr (Some s)))"

definition update_snapshot_within ::
  "string \<Rightarrow> string \<Rightarrow> nat \<Rightarrow> nat \<Rightarrow> json \<Rightarrow> db \<Rightarrow> sqlite_aggregate_error + db" where
  "update_snapshot_within ty i last_sequence snapshot_version aggregate d =
     bind_result (ok_or Agg_TryFromInt (i64_try_from last_sequence)) (\<lambda>ls.
     bind_result (ok_or Agg_TryFromInt (i64_try_from snapshot_version)) (\<lambda>sv.
       let (rows, affected) = update_snapshot_stmt
             \<lparr>sr_type = ty, sr_id = i, sr_last_sequence = ls, sr_version = sv,
              sr_payload = to_text aggregate\<rparr> (snapshots d)
       in if affected = 0 then Inl Agg_OptimisticLock else Inr (d\<lparr>snapshots := rows\<rparr>)))"

definition persist ::
  "string \<Rightarrow> serialized_event list \<Rightarrow> (string \<times> json \<times> nat) option \<Rightarrow> db
     \<Rightarrow> persistence_error + db" where
  "persist ty evs snapshot_update d =
     map_err agg_to_persistence (
       bind_result (insert_serialized_events_batch evs (events d)) (\<lambda>rows.
       let tx = d\<lparr>events := rows\<rparr> in
       case snapshot_update of
         None \<Rightarrow> Inr tx
       | Some (i, aggregate, snapshot_version) \<Rightarrow>
           bind_result (if evs = [] then Inl Agg_EmptySnapshotUpdate
                        else Inr (se_sequence (last evs))) (\<lambda>last_sequence.
             update_snapshot_within ty i last_sequence snapshot_version aggregate tx)))"

definition get_events ::
  "string \<Rightarrow> string \<Rightarrow> db \<Rightarrow> persistence_error + serialized_event list" where
  "get_events ty i d = map_err agg_to_persistence (load_events ty i d)"

definition get_last_events_repo ::
  "string \<Rightarrow> string \<Rightarrow> nat \<Rightarrow> db \<Rightarrow> persistence_error + serialized_event list" where
  "get_last_events_repo ty i s d = map_err agg_to_persistence (load_events_since ty i s d)"

definition get_snapshot ::
  "string \<Rightarrow> string \<Rightarrow> db \<Rightarrow> persistence_error + serialized_snapshot option" where
  "get_snapshot ty i d = map_err agg_to_persistence (load_snapshot ty i d)"

text \<open>
  The replay feed of \<open>stream_events_impl\<close>: decoded events up to and including the first error, after
  which the producer stops.
\<close>

fun feed_rows :: "event_row list \<Rightarrow> (persistence_error + serialized_event) list" where
  "feed_rows [] = []"
| "feed_rows (r # rs) =
     (case row_to_serialized_event r of
        Inl e \<Rightarrow> [Inl DeserializationError]
      | Inr ev \<Rightarrow> Inr ev # feed_rows rs)"

definition stream_events_impl ::
  "string \<Rightarrow> string option \<Rightarrow> db \<Rightarrow> (persistence_error + serialized_event) list" where
  "stream_events_impl ty i d =
     feed_rows (case i of Some i' \<Rightarrow> select_events ty i' (events d) | None \<Rightarrow> all_events ty (events d))"

section \<open>view_repository.rs\<close>

text \<open>The decoder \<open>dec\<close> is the view type's \<open>Deserialize\<close> implementation.\<close>

definition view_load ::
  "(json \<Rightarrow> 'v option) \<Rightarrow> string \<Rightarrow> view_row list \<Rightarrow> persistence_error + 'v option" where
  "view_load dec i rows =
     (case select_view i rows of
        None \<Rightarrow> Inr None
      | Some r \<Rightarrow> map_err view_to_persistence
          (bind_result (ok_or View_Deserialization (Option.bind (from_text (vw_payload r)) dec))
             (\<lambda>v. Inr (Some v))))"

definition view_load_with_context ::
  "(json \<Rightarrow> 'v option) \<Rightarrow> string \<Rightarrow> view_row list
     \<Rightarrow> persistence_error + ('v \<times> string \<times> int) option" where
  "view_load_with_context dec i rows =
     (case select_view i rows of
        None \<Rightarrow> Inr None
      | Some r \<Rightarrow> map_err view_to_persistence
          (bind_result (ok_or View_Deserialization (Option.bind (from_text (vw_payload r)) dec))
             (\<lambda>v. Inr (Some (v, vw_id r, vw_version r)))))"

definition update_view ::
  "json \<Rightarrow> string \<times> int \<Rightarrow> view_row list \<Rightarrow> persistence_error + view_row list" where
  "update_view view context rows =
     (let (view_instance_id, version) = context;
          payload = to_text view;
          new_version = version + 1
      in map_err view_to_persistence (
        if version = 0 then
          ok_or (View_Connection UniqueViolation)
            (insert_view_stmt view_instance_id new_version payload rows)
        else
          let (rows', affected) =
                update_view_stmt new_version payload view_instance_id version rows
          in if affected = 0 then Inl View_OptimisticLock else Inr rows'))"

subsection \<open>The predicate scan\<close>

datatype sql_value = SqlNull | SqlInt int | SqlText string

text \<open>SQLite's cross-type order, which \<open>ORDER BY\<close> uses: NULL, then integers, then text.\<close>

instantiation sql_value :: linorder
begin

fun less_eq_sql_value :: "sql_value \<Rightarrow> sql_value \<Rightarrow> bool" where
  "less_eq_sql_value SqlNull y = True"
| "less_eq_sql_value (SqlInt a) y =
     (case y of SqlNull \<Rightarrow> False | SqlInt b \<Rightarrow> a \<le> b | SqlText _ \<Rightarrow> True)"
| "less_eq_sql_value (SqlText a) y = (case y of SqlText b \<Rightarrow> a \<le> b | _ \<Rightarrow> False)"

definition less_sql_value :: "sql_value \<Rightarrow> sql_value \<Rightarrow> bool" where
  "less_sql_value x y \<longleftrightarrow> x \<le> y \<and> \<not> y \<le> (x :: sql_value)"

instance
proof
  fix x y z :: sql_value
  show "x < y \<longleftrightarrow> x \<le> y \<and> \<not> y \<le> x" by (simp add: less_sql_value_def)
  show "x \<le> x" by (cases x) auto
  show "x \<le> y \<Longrightarrow> y \<le> z \<Longrightarrow> x \<le> z"
    by (cases x; cases y; cases z) auto
  show "x \<le> y \<Longrightarrow> y \<le> x \<Longrightarrow> x = y"
    by (cases x; cases y) auto
  show "x \<le> y \<or> y \<le> x" by (cases x; cases y) auto
qed

end

datatype cmp = Eq | Lt | Le | Gt | Ge | IsNull | IsNotNull

datatype bound_value = BInt int | BText string

record query_term =
  tm_column :: string
  tm_cmp :: cmp
  tm_value :: "bound_value option"

record query_order =
  or_column :: string
  or_ascending :: bool

type_synonym query_predicate = "query_term list list"

fun bound_sql :: "bound_value \<Rightarrow> sql_value" where
  "bound_sql (BInt i) = SqlInt i"
| "bound_sql (BText s) = SqlText s"

text \<open>
  One rendered term. A comparison with NULL on either side is not true; \<open>IS NULL\<close> and
  \<open>IS NOT NULL\<close> look at the column alone. A null test with a bound value, or a comparison without
  one, is not valid SQL and matches nothing here.
\<close>

fun cmp_holds :: "cmp \<Rightarrow> sql_value \<Rightarrow> sql_value \<Rightarrow> bool" where
  "cmp_holds Eq a b = (a = b)"
| "cmp_holds Lt a b = (a < b)"
| "cmp_holds Le a b = (a \<le> b)"
| "cmp_holds Gt a b = (b < a)"
| "cmp_holds Ge a b = (b \<le> a)"
| "cmp_holds IsNull a b = False"
| "cmp_holds IsNotNull a b = False"

definition term_holds :: "(string \<Rightarrow> sql_value) \<Rightarrow> query_term \<Rightarrow> bool" where
  "term_holds col t =
     (case tm_value t of
        None \<Rightarrow>
          (case tm_cmp t of
             IsNull \<Rightarrow> col (tm_column t) = SqlNull
           | IsNotNull \<Rightarrow> col (tm_column t) \<noteq> SqlNull
           | _ \<Rightarrow> False)
      | Some v \<Rightarrow> col (tm_column t) \<noteq> SqlNull \<and> cmp_holds (tm_cmp t) (col (tm_column t)) (bound_sql v))"

definition pred_holds :: "(string \<Rightarrow> sql_value) \<Rightarrow> query_predicate \<Rightarrow> bool" where
  "pred_holds col p = list_ex (list_all (term_holds col)) p"

definition limit_rows :: "int \<Rightarrow> 'a list \<Rightarrow> 'a list" where
  "limit_rows n xs = (if n < 0 then xs else take (nat n) xs)"

definition order_rows ::
  "(view_row \<Rightarrow> string \<Rightarrow> sql_value) \<Rightarrow> query_order option \<Rightarrow> view_row list \<Rightarrow> view_row list" where
  "order_rows col ord rows =
     (case ord of
        None \<Rightarrow> rows
      | Some q \<Rightarrow>
          if or_ascending q then sort_key (\<lambda>r. col r (or_column q)) rows
          else rev (sort_key (\<lambda>r. col r (or_column q)) rows))"

definition find_view ::
  "(view_row \<Rightarrow> string \<Rightarrow> sql_value) \<Rightarrow> query_predicate \<Rightarrow> query_order option \<Rightarrow> int
     \<Rightarrow> view_row list \<Rightarrow> string list" where
  "find_view col p ord limit rows =
     (if p = [] then []
      else map vw_id (limit_rows limit (order_rows col ord (filter (\<lambda>r. pred_holds (col r) p) rows))))"

section \<open>The keyed tables meet the lookup contract\<close>

interpretation snap: keyed_table snap_pk "tbl_get snap_pk" "tbl_replace snap_pk" "tbl_unique snap_pk"
  by unfold_locales (auto simp: table_simps dest: tbl_get_Some_in)

interpretation jq: keyed_table vw_id "tbl_get vw_id" "tbl_upsert vw_id" "tbl_unique vw_id"
  by unfold_locales (auto simp: table_simps dest: tbl_get_Some_in)

section \<open>Batched insertion is one insertion\<close>

definition event_row_of :: "serialized_event \<Rightarrow> event_row" where
  "event_row_of e = row_of_event e (int (se_sequence e))"

definition seq_fits :: "serialized_event \<Rightarrow> bool" where
  "seq_fits e \<longleftrightarrow> int (se_sequence e) \<le> I64_MAX"

lemma chunks_Nil [simp]: "chunks n [] = []"
  by (simp add: chunks.simps)

lemma concat_chunks: "0 < n \<Longrightarrow> concat (chunks n xs) = xs"
proof (induction n xs rule: chunks.induct)
  case (1 n xs)
  then show ?case by (cases "xs = []") (simp_all add: chunks.simps [of n xs])
qed

lemma length_chunk: "c \<in> set (chunks n xs) \<Longrightarrow> length c \<le> n"
proof (induction n xs rule: chunks.induct)
  case (1 n xs)
  show ?case
  proof (cases "xs = [] \<or> n = 0")
    case True
    then show ?thesis using 1(2) by (auto simp: chunks.simps [of n xs])
  next
    case False
    then show ?thesis using 1 by (auto simp: chunks.simps [of n xs])
  qed
qed

lemma collect_seqs:
  "collect_results (\<lambda>e. ok_or Agg_TryFromInt (i64_try_from (se_sequence e))) es =
     (if \<forall>e \<in> set es. seq_fits e then Inr (map (\<lambda>e. int (se_sequence e)) es) else Inl Agg_TryFromInt)"
  by (induction es) (auto simp: seq_fits_def i64_try_from_def)

lemma map2_row_of_event: "map2 row_of_event es (map (\<lambda>e. int (se_sequence e)) es) = map event_row_of es"
  by (induction es) (auto simp: event_row_of_def)

lemma insert_chunk_Inr:
  "insert_chunk c rows = Inr rows' \<longleftrightarrow>
     (\<forall>e \<in> set c. seq_fits e) \<and> tbl_insert_all event_pk (map event_row_of c) rows = Some rows'"
  by (auto simp: insert_chunk_def collect_seqs map2_row_of_event)

lemma insert_chunks_Inr:
  "insert_chunks cs rows = Inr rows' \<longleftrightarrow>
     (\<forall>e \<in> set (concat cs). seq_fits e)
     \<and> tbl_insert_all event_pk (map event_row_of (concat cs)) rows = Some rows'"
proof (induction cs arbitrary: rows)
  case (Cons c cs)
  show ?case
    by (auto simp: Cons.IH insert_chunk_Inr tbl_insert_all_append bind_eq_Some_conv)
qed simp

lemma MAX_ROWS_pos [simp]: "0 < MAX_ROWS_PER_BATCH"
  by (simp add: MAX_ROWS_PER_BATCH_def)

lemma insert_batch_Inr:
  "insert_serialized_events_batch evs rows = Inr rows' \<longleftrightarrow>
     (\<forall>e \<in> set evs. seq_fits e)
     \<and> tbl_insert_all event_pk (map event_row_of evs) rows = Some rows'"
  by (auto simp: insert_serialized_events_batch_def insert_chunks_Inr concat_chunks)

lemma insert_batch_rows:
  "insert_serialized_events_batch evs rows = Inr rows' \<Longrightarrow> rows' = rows @ map event_row_of evs"
  by (simp add: insert_batch_Inr tbl_insert_all_Some)

lemma insert_batch_unique:
  "insert_serialized_events_batch evs rows = Inr rows' \<Longrightarrow> tbl_unique event_pk rows
     \<Longrightarrow> tbl_unique event_pk rows'"
  by (auto simp: insert_batch_Inr intro: tbl_unique_insert_all)

lemma insert_chunk_error:
  "insert_chunk c rows = Inl e \<Longrightarrow> e = Agg_TryFromInt \<or> e = Agg_OptimisticLock"
  by (auto simp: insert_chunk_def collect_seqs bind_result_Inl split: if_splits)

lemma insert_chunks_error:
  "insert_chunks cs rows = Inl e \<Longrightarrow> e = Agg_TryFromInt \<or> e = Agg_OptimisticLock"
  by (induction cs arbitrary: rows) (auto simp: bind_result_Inl dest: insert_chunk_error)

lemma insert_batch_error:
  "insert_serialized_events_batch evs rows = Inl e \<Longrightarrow> e = Agg_TryFromInt \<or> e = Agg_OptimisticLock"
  by (auto simp: insert_serialized_events_batch_def dest: insert_chunks_error split: if_splits)

text \<open>A single event: the compare-and-swap append the job claim uses.\<close>

lemma chunks_single [simp]: "chunks MAX_ROWS_PER_BATCH [x] = [ [x] ]"
  by (simp add: chunks.simps [of _ "[x]"] chunks.simps [of _ "[]"] MAX_ROWS_PER_BATCH_def)

lemma insert_batch_single:
  "insert_serialized_events_batch [e] rows =
     (if \<not> seq_fits e then Inl Agg_TryFromInt
      else if event_pk (event_row_of e) \<in> event_pk ` set rows then Inl Agg_OptimisticLock
      else Inr (rows @ [event_row_of e]))"
  by (auto simp: insert_serialized_events_batch_def insert_chunk_def tbl_insert_def seq_fits_def
      event_row_of_def i64_try_from_def)

section \<open>Reading back what was written\<close>

lemma event_row_of_sel [simp]:
  "er_type (event_row_of e) = se_aggregate_type e"
  "er_id (event_row_of e) = se_aggregate_id e"
  "er_seq (event_row_of e) = int (se_sequence e)"
  "er_payload (event_row_of e) = to_text (se_payload e)"
  "er_metadata (event_row_of e) = to_text (se_metadata e)"
  "er_event_type (event_row_of e) = se_event_type e"
  "er_event_version (event_row_of e) = se_event_version e"
  by (simp_all add: event_row_of_def row_of_event_def)

lemma row_round_trip:
  assumes "seq_fits e"
  shows "row_to_serialized_event (event_row_of e) = Inr e"
proof -
  have "usize_try_from (int (se_sequence e)) = Some (se_sequence e)"
    using assms by (simp add: seq_fits_def I64_MAX_def USIZE_MAX_def)
  then show ?thesis by (simp add: row_to_serialized_event_def)
qed

lemma sort_key_append_below:
  assumes "\<forall>x \<in> set xs. \<forall>y \<in> set ys. f x \<le> f y"
  shows "sort_key f (xs @ ys) = sort_key f xs @ sort_key f ys"
proof (rule properties_for_sort_key)
  show "mset (sort_key f xs @ sort_key f ys) = mset (xs @ ys)" by simp
  show "sorted (map f (sort_key f xs @ sort_key f ys))"
    using assms by (auto simp: sorted_append)
  show "filter (\<lambda>x. f k = f x) (sort_key f xs @ sort_key f ys) = filter (\<lambda>x. f k = f x) (xs @ ys)"
    for k
  proof -
    have "(\<lambda>x. f k = f x) = (\<lambda>x. f x = f k)" by auto
    then show ?thesis by (simp add: sort_key_stable)
  qed
qed

lemma select_events_append:
  assumes "\<forall>r \<in> set rows. in_stream ty i r \<longrightarrow> (\<forall>n \<in> set new. er_seq r \<le> er_seq n)"
    and "\<forall>n \<in> set new. in_stream ty i n" and "sorted (map er_seq new)"
  shows "select_events ty i (rows @ new) = select_events ty i rows @ new"
proof -
  have "filter (in_stream ty i) new = new" using assms(2) by (simp add: filter_True)
  moreover have "sort_key er_seq new = new" using assms(3) by (rule sort_key_id_if_sorted)
  ultimately show ?thesis
    using assms(1) by (simp add: select_events_def sort_key_append_below)
qed

lemma select_events_other:
  "\<forall>r \<in> set new. \<not> in_stream ty i r \<Longrightarrow> select_events ty i (rows @ new) = select_events ty i rows"
  by (simp add: select_events_def filter_False)

lemma set_select_events: "set (select_events ty i rows) = {r \<in> set rows. in_stream ty i r}"
  by (auto simp: select_events_def)

lemma row_to_serialized_event_seq:
  "row_to_serialized_event r = Inr e \<Longrightarrow> er_seq r = int (se_sequence e)"
  by (auto simp: row_to_serialized_event_def)

lemma load_events_row:
  assumes "load_events ty i d = Inr old" and "r \<in> set (events d)" and "in_stream ty i r"
  shows "\<exists>e \<in> set old. row_to_serialized_event r = Inr e"
proof -
  have "r \<in> set (select_events ty i (events d))" using assms by (simp add: set_select_events)
  then show ?thesis
    using assms(1) unfolding load_events_def collect_results_Inr
    by (fastforce simp: list_all2_conv_all_nth in_set_conv_nth)
qed

lemma load_events_appended:
  assumes "load_events ty i d = Inr old"
    and "events d' = events d @ map event_row_of evs"
    and "\<forall>e \<in> set evs. se_aggregate_type e = ty \<and> se_aggregate_id e = i \<and> seq_fits e"
    and "sorted (map se_sequence evs)"
    and "\<forall>u \<in> set old. \<forall>e \<in> set evs. se_sequence u \<le> se_sequence e"
  shows "load_events ty i d' = Inr (old @ evs)"
proof -
  let ?new = "map event_row_of evs"
  have "\<forall>r \<in> set (events d). in_stream ty i r \<longrightarrow> (\<forall>n \<in> set ?new. er_seq r \<le> er_seq n)"
    using load_events_row [OF assms(1)] assms(5) by (fastforce dest: row_to_serialized_event_seq)
  moreover have "\<forall>n \<in> set ?new. in_stream ty i n"
    using assms(3) by (auto simp: in_stream_def)
  moreover have "sorted (map er_seq ?new)"
    using assms(4) by (simp add: comp_def sorted_map)
  ultimately have "select_events ty i (events d') = select_events ty i (events d) @ ?new"
    by (simp add: assms(2) select_events_append)
  moreover have "collect_results row_to_serialized_event ?new = Inr evs"
    using assms(3) by (simp add: collect_results_Inr list_all2_conv_all_nth row_round_trip)
  ultimately show ?thesis
    using assms(1) by (simp add: load_events_def collect_results_append)
qed

lemma load_events_frame:
  assumes "events d' = events d @ map event_row_of evs"
    and "\<forall>e \<in> set evs. \<not> (se_aggregate_type e = ty \<and> se_aggregate_id e = i)"
  shows "load_events ty i d' = load_events ty i d"
  using assms by (auto simp: load_events_def select_events_other in_stream_def)

lemma max_sequence_Max:
  "max_sequence ty i rows =
     (if filter (in_stream ty i) rows = [] then 0 else Max (er_seq ` set (filter (in_stream ty i) rows)))"
proof (cases "map er_seq (filter (in_stream ty i) rows)")
  case (Cons a as)
  then have "er_seq ` set (filter (in_stream ty i) rows) = set (a # as)" by (metis list.set_map)
  then have "Max (er_seq ` set (filter (in_stream ty i) rows)) = fold max as a"
    by (simp only: Max.set_eq_fold)
  then show ?thesis using Cons by (auto simp: max_sequence_def simp del: set_filter)
qed (simp add: max_sequence_def)

lemma max_sequence_ge: "r \<in> set rows \<Longrightarrow> in_stream ty i r \<Longrightarrow> er_seq r \<le> max_sequence ty i rows"
  by (auto simp: max_sequence_Max filter_empty_conv)

lemma max_sequence_other:
  "\<forall>r \<in> set new. \<not> in_stream ty i r \<Longrightarrow> max_sequence ty i (rows @ new) = max_sequence ty i rows"
  by (simp add: max_sequence_def filter_False)

lemma max_sequence_append:
  assumes "in_stream ty i newest" and "newest \<in> set new"
    and "\<forall>r \<in> set (rows @ new). in_stream ty i r \<longrightarrow> er_seq r \<le> er_seq newest"
  shows "max_sequence ty i (rows @ new) = er_seq newest"
proof -
  let ?S = "er_seq ` set (filter (in_stream ty i) (rows @ new))"
  have "Max ?S = er_seq newest"
    using assms by (intro Max_eqI) auto
  then show ?thesis using assms(1,2) by (auto simp: max_sequence_Max filter_empty_conv simp del: set_filter)
qed

lemma select_events_strict:
  assumes "tbl_unique event_pk rows"
  shows "sorted_wrt (<) (map er_seq (select_events ty i rows))"
proof -
  have "distinct (map er_seq (filter (in_stream ty i) rows))"
    using assms by (auto simp: tbl_unique_def distinct_map inj_on_def event_pk_def in_stream_def)
  then show ?thesis by (simp add: select_events_def strict_sorted_iff distinct_map)
qed

lemma get_last_events_filter:
  "get_last_events ty i s rows = filter (\<lambda>r. s < er_seq r) (select_events ty i rows)"
  by (simp add: get_last_events_def select_events_def filter_sort filter_filter conj_commute)

section \<open>Persisting a commit\<close>

lemma update_snapshot_within_Inr:
  "update_snapshot_within ty i ls sv a d = Inr d' \<Longrightarrow>
     events d' = events d \<and> job_queue d' = job_queue d
     \<and> select_snapshot ty i (snapshots d') =
         Some \<lparr>sr_type = ty, sr_id = i, sr_last_sequence = int ls, sr_version = int sv,
               sr_payload = to_text a\<rparr>
     \<and> (\<forall>old. select_snapshot ty i (snapshots d) = Some old \<longrightarrow> sr_last_sequence old < int ls)"
  by (auto simp: update_snapshot_within_def update_snapshot_stmt_def select_snapshot_def
      snap_pk_def tbl_get_snoc table_simps split: option.splits if_splits)

lemma persist_events:
  "persist ty evs su d = Inr d' \<Longrightarrow> events d' = events d @ map event_row_of evs
     \<and> (\<forall>e \<in> set evs. seq_fits e) \<and> job_queue d' = job_queue d"
  by (auto simp: persist_def Let_def insert_batch_Inr tbl_insert_all_Some
      dest: update_snapshot_within_Inr split: option.splits if_splits)

section \<open>Optimistic view updates\<close>

lemma tbl_get_map_key:
  assumes "\<And>r. key (f r) = key r"
  shows "tbl_get key k (map f rows) = map_option f (tbl_get key k rows)"
  by (induction rows) (auto simp: tbl_get_def assms)

lemma tbl_unique_map_key: "(\<And>r. key (f r) = key r) \<Longrightarrow> tbl_unique key (map f rows) = tbl_unique key rows"
  by (simp add: tbl_unique_def comp_def)

lemma update_view_stmt_get:
  assumes "update_view_stmt nv p i v rows = (rows', n)"
  shows "tbl_get vw_id j rows' =
    (if j = i then map_option (\<lambda>r. if vw_version r = v then r\<lparr>vw_version := nv, vw_payload := p\<rparr> else r)
                     (tbl_get vw_id i rows)
     else tbl_get vw_id j rows)"
proof -
  have "tbl_get vw_id j rows' =
      map_option (\<lambda>r. if vw_id r = i \<and> vw_version r = v then r\<lparr>vw_version := nv, vw_payload := p\<rparr> else r)
        (tbl_get vw_id j rows)"
    using assms by (auto simp: update_view_stmt_def tbl_get_map_key)
  then show ?thesis
    by (cases "tbl_get vw_id j rows") (auto dest: tbl_get_Some_in)
qed

lemma update_view_stmt_affected:
  assumes "update_view_stmt nv p i v rows = (rows', n)" and "tbl_unique vw_id rows"
  shows "n = 0 \<longleftrightarrow> \<not> (\<exists>r. tbl_get vw_id i rows = Some r \<and> vw_version r = v)"
proof -
  have "n = 0 \<longleftrightarrow> \<not> (\<exists>r \<in> set rows. vw_id r = i \<and> vw_version r = v)"
    using assms(1) by (auto simp: update_view_stmt_def filter_empty_conv)
  then show ?thesis
    using tbl_get_unique [OF assms(2)] by (fastforce dest: tbl_get_Some_in)
qed

lemma update_view_stmt_unique:
  "update_view_stmt nv p i v rows = (rows', n) \<Longrightarrow> tbl_unique vw_id rows \<Longrightarrow> tbl_unique vw_id rows'"
  unfolding update_view_stmt_def by (auto simp: tbl_unique_map_key)

lemma update_view_insert:
  "update_view p (i, 0) rows =
     (case tbl_get vw_id i rows of
        None \<Rightarrow> Inr (rows @ [\<lparr>vw_id = i, vw_version = 1, vw_payload = to_text p, vw_lease = None\<rparr>])
      | Some _ \<Rightarrow> Inl (ConnectionError UniqueViolation))"
  by (auto simp: update_view_def insert_view_stmt_def tbl_insert_def tbl_get_None [symmetric]
      split: option.splits)

lemma update_view_cas_hit:
  assumes "tbl_unique vw_id rows" and "tbl_get vw_id i rows = Some r" and "vw_version r \<noteq> 0"
  shows "\<exists>rows'. update_view p (i, vw_version r) rows = Inr rows' \<and> tbl_unique vw_id rows'
    \<and> (\<forall>j. tbl_get vw_id j rows' =
          (if j = i then Some (r\<lparr>vw_version := vw_version r + 1, vw_payload := to_text p\<rparr>)
           else tbl_get vw_id j rows))"
proof -
  obtain rows' n where u: "update_view_stmt (vw_version r + 1) (to_text p) i (vw_version r) rows = (rows', n)"
    by fastforce
  then have "n \<noteq> 0" using update_view_stmt_affected [OF u assms(1)] assms(2) by auto
  then have "update_view p (i, vw_version r) rows = Inr rows'"
    using u assms(3) by (simp add: update_view_def)
  then show ?thesis
    using update_view_stmt_get [OF u] update_view_stmt_unique [OF u assms(1)] assms(2) by auto
qed

lemma update_view_cas_miss:
  assumes "tbl_unique vw_id rows" and "v \<noteq> 0"
    and "\<not> (\<exists>r. tbl_get vw_id i rows = Some r \<and> vw_version r = v)"
  shows "update_view p (i, v) rows = Inl OptimisticLockError"
proof -
  obtain rows' n where u: "update_view_stmt (v + 1) (to_text p) i v rows = (rows', n)"
    by fastforce
  then have "n = 0" using update_view_stmt_affected [OF u assms(1)] assms(3) by auto
  then show ?thesis using u assms(2) by (simp add: update_view_def)
qed

section \<open>Properties\<close>

text \<open>
  C15 (batch_insert_transparent). Splitting an append into statements of at most 142 rows (so that
  no statement binds more than SQLite's 999 parameters) is invisible: the batched insertion succeeds
  exactly when every sequence fits the BIGINT column and inserting all rows at once violates no key,
  and then it leaves the same table.
\<close>

theorem batch_insert_transparent:
  "(insert_serialized_events_batch evs rows = Inr rows' \<longleftrightarrow>
      list_all (\<lambda>e. int (se_sequence e) \<le> I64_MAX) evs
      \<and> tbl_insert_all event_pk (map event_row_of evs) rows = Some rows')
   \<and> list_all (\<lambda>c. 7 * length c \<le> 999) (chunks MAX_ROWS_PER_BATCH evs)"
proof
  show "insert_serialized_events_batch evs rows = Inr rows' \<longleftrightarrow>
      list_all (\<lambda>e. int (se_sequence e) \<le> I64_MAX) evs
      \<and> tbl_insert_all event_pk (map event_row_of evs) rows = Some rows'"
    by (auto simp: insert_batch_Inr seq_fits_def list_all_iff)
  show "list_all (\<lambda>c. 7 * length c \<le> 999) (chunks MAX_ROWS_PER_BATCH evs)"
    using length_chunk [of _ MAX_ROWS_PER_BATCH evs]
    by (fastforce simp: list_all_iff MAX_ROWS_PER_BATCH_def)
qed

text \<open>
  A commit that persists is exactly what the next load returns: the stream's
  earlier events followed by the committed ones, with every field restored, and every other stream
  loads as before.
\<close>

theorem persist_then_load:
  assumes "load_events ty i d = Inr old"
    and "\<forall>e \<in> set evs. se_aggregate_type e = ty \<and> se_aggregate_id e = i"
    and "sorted (map se_sequence evs)"
    and "\<forall>u \<in> set old. \<forall>e \<in> set evs. se_sequence u < se_sequence e"
    and "persist ty evs su d = Inr d'"
  shows "load_events ty i d' = Inr (old @ evs)
    \<and> (\<forall>ty' i'. (ty', i') \<noteq> (ty, i) \<longrightarrow> load_events ty' i' d' = load_events ty' i' d)"
proof
  note p = persist_events [OF assms(5)]
  show "load_events ty i d' = Inr (old @ evs)"
    using load_events_appended [OF assms(1), of d' evs] p assms(2-4) by (simp add: less_imp_le)
  show "\<forall>ty' i'. (ty', i') \<noteq> (ty, i) \<longrightarrow> load_events ty' i' d' = load_events ty' i' d"
    using load_events_frame [of d' d evs] p assms(2) by auto
qed

definition sample_event :: "nat \<Rightarrow> serialized_event" where
  "sample_event n = \<lparr>se_aggregate_id = ''a1'', se_sequence = n, se_aggregate_type = ''Order'',
     se_event_type = ''Placed'', se_event_version = ''1.0'', se_payload = JString ''p'',
     se_metadata = JObject []\<rparr>"

lemma sample_event_simps:
  "se_sequence (sample_event n) = n" "se_aggregate_id (sample_event n) = ''a1''"
  "se_aggregate_type (sample_event n) = ''Order''"
  by (simp_all add: sample_event_def)

theorem persist_then_load_witness:
  "\<exists>d'. persist ''Order'' [sample_event 1, sample_event 2] None empty_db = Inr d'
     \<and> load_events ''Order'' ''a1'' d' = Inr [sample_event 1, sample_event 2]"
proof -
  let ?d = "empty_db\<lparr>events := map event_row_of [sample_event 1, sample_event 2]\<rparr>"
  have "insert_serialized_events_batch [sample_event 1, sample_event 2] [] =
      Inr (map event_row_of [sample_event 1, sample_event 2])"
    by (simp add: insert_batch_Inr tbl_insert_def seq_fits_def I64_MAX_def event_pk_def
        sample_event_simps)
  then have p: "persist ''Order'' [sample_event 1, sample_event 2] None empty_db = Inr ?d"
    by (simp add: persist_def empty_db_def)
  have l: "load_events ''Order'' ''a1'' empty_db = Inr []"
    by (simp add: load_events_def empty_db_def select_events_def)
  show ?thesis
    using persist_then_load [OF l _ _ _ p] p by (simp add: sample_event_simps)
qed

text \<open>
  A persisted snapshot records the last committed event sequence
  (never the snapshot counter) and only ever moves forward: the row it replaces covered a strictly
  earlier sequence.
\<close>

theorem persist_snapshot_advances:
  assumes "persist ty evs (Some (i, aggregate, snapshot_version)) d = Inr d'"
  shows "evs \<noteq> []
    \<and> select_snapshot ty i (snapshots d') =
        Some \<lparr>sr_type = ty, sr_id = i, sr_last_sequence = int (se_sequence (last evs)),
              sr_version = int snapshot_version, sr_payload = to_text aggregate\<rparr>
    \<and> (\<forall>old. select_snapshot ty i (snapshots d) = Some old
           \<longrightarrow> sr_last_sequence old < int (se_sequence (last evs)))"
  using assms
  by (auto simp: persist_def Let_def dest: update_snapshot_within_Inr split: if_splits)

theorem persist_snapshot_advances_witness:
  "\<exists>d'. persist ''Order'' [sample_event 1] (Some (''a1'', JNull, 7)) empty_db = Inr d'
     \<and> select_snapshot ''Order'' ''a1'' (snapshots d') =
         Some \<lparr>sr_type = ''Order'', sr_id = ''a1'', sr_last_sequence = 1, sr_version = 7,
               sr_payload = to_text JNull\<rparr>"
proof -
  obtain d' where p: "persist ''Order'' [sample_event 1] (Some (''a1'', JNull, 7)) empty_db = Inr d'"
    by (simp add: persist_def insert_batch_single seq_fits_def I64_MAX_def empty_db_def Let_def
        update_snapshot_within_def update_snapshot_stmt_def i64_try_from_def sample_event_simps)
  show ?thesis
    using persist_snapshot_advances [OF p] p by (simp add: sample_event_simps)
qed

text \<open>
  A view update is a compare-and-swap on the row version: it applies
  exactly when the version it read is still current (or, at version 0, when the row does not exist),
  it then advances the version by one and writes the payload without touching the lease column or
  any other row, and otherwise it reports a conflict.
\<close>

theorem update_view_optimistic:
  assumes "tbl_unique vw_id rows"
  shows "case update_view p (i, v) rows of
      Inr rows' \<Rightarrow>
        tbl_unique vw_id rows'
        \<and> (\<forall>j. j \<noteq> i \<longrightarrow> select_view j rows' = select_view j rows)
        \<and> (if v = 0 then select_view i rows = None
             \<and> select_view i rows' =
                 Some \<lparr>vw_id = i, vw_version = 1, vw_payload = to_text p, vw_lease = None\<rparr>
           else \<exists>r. select_view i rows = Some r \<and> vw_version r = v
             \<and> select_view i rows' = Some (r\<lparr>vw_version := v + 1, vw_payload := to_text p\<rparr>))
    | Inl e \<Rightarrow>
        (if v = 0 then select_view i rows \<noteq> None \<and> e = ConnectionError UniqueViolation
         else \<not> (\<exists>r. select_view i rows = Some r \<and> vw_version r = v) \<and> e = OptimisticLockError)"
proof (cases "v = 0")
  case True
  then show ?thesis
    using assms
    by (auto simp: update_view_insert select_view_def tbl_unique_def tbl_get_append_new
        tbl_get_None split: option.splits)
next
  case False
  show ?thesis
  proof (cases "\<exists>r. tbl_get vw_id i rows = Some r \<and> vw_version r = v")
    case True
    then obtain r where "tbl_get vw_id i rows = Some r" and "vw_version r = v" by blast
    then show ?thesis
      using update_view_cas_hit [OF assms, of i r p] False by (auto simp: select_view_def)
  next
    case miss: False
    then show ?thesis
      using update_view_cas_miss [OF assms False, of i p] False by (simp add: select_view_def)
  qed
qed

theorem update_view_optimistic_witness:
  "\<exists>rows'. update_view JNull (''j'', 3)
       [\<lparr>vw_id = ''j'', vw_version = 3, vw_payload = RawText ''x'', vw_lease = Some 9\<rparr>] = Inr rows'
     \<and> select_view ''j'' rows' =
         Some \<lparr>vw_id = ''j'', vw_version = 4, vw_payload = to_text JNull, vw_lease = Some 9\<rparr>"
proof -
  let ?rows = "[\<lparr>vw_id = ''j'', vw_version = 3, vw_payload = RawText ''x'', vw_lease = Some 9\<rparr>]"
  have u: "tbl_unique vw_id ?rows" by (simp add: tbl_unique_def)
  show ?thesis
    using update_view_optimistic [OF u, where p = JNull and i = "''j''" and v = 3]
    by (auto simp: update_view_def update_view_stmt_def select_view_def tbl_get_def)
qed

end
