(* ===== verification/Job.thy ===== *)
theory Job
  imports Lifecycle Sqlite_Es
begin

text \<open>
  Durable jobs, \<open>job.rs\<close> and the backend vocabulary of \<open>job_store.rs\<close>: the job entity (events, state,
  commands, fold and fenced acknowledgement), the JSON forms its event stream and its \<open>job_queue\<close> row
  hold, the pure claim planner, the enqueue builders and the per-command buffer of pending pushes.
  An instant is its Unix epoch millisecond count, the resolution of \<open>ts_milliseconds\<close>; which counts
  chrono can represent is the parameter \<open>ts_range\<close>. Fresh ULIDs and the clock are arguments.
\<close>

section \<open>The job entity\<close>

datatype dead_reason = RetriesExhausted | Rejected | Undecodable | Abandoned

datatype job_event =
    EvEnqueued (ev_kind: string) (ev_payload: json) (ev_run_at: int)
  | EvClaimed (ev_worker: string) (ev_claim_id: string) (ev_lease_until: int)
  | EvSucceeded
  | EvRetryScheduled (ev_run_at: int) (ev_attempt: u32) (ev_error: string)
  | EvRescheduled (ev_run_at: int)
  | EvDead (ev_reason: dead_reason) (ev_error: string)

datatype job_state =
    StPending string json int u32 u32
  | StClaimed string json string string int u32 u32
  | StDone
  | StDead dead_reason

datatype job_command =
    CmdSucceed string
  | CmdRetrySchedule string int u32 string
  | CmdReschedule string int
  | CmdKill string dead_reason string

datatype job_error = Fenced

fun cmd_claim_id :: "job_command \<Rightarrow> string" where
  "cmd_claim_id (CmdSucceed claim_id) = claim_id"
| "cmd_claim_id (CmdRetrySchedule claim_id _ _ _) = claim_id"
| "cmd_claim_id (CmdReschedule claim_id _) = claim_id"
| "cmd_claim_id (CmdKill claim_id _ _) = claim_id"

fun job_originate :: "job_event \<Rightarrow> job_state option" where
  "job_originate (EvEnqueued kind payload run_at) = Some (StPending kind payload run_at 0 0)"
| "job_originate _ = None"

fun job_evolve :: "job_state \<Rightarrow> job_event \<Rightarrow> job_error + job_state option" where
  "job_evolve (StPending kind payload run_at attempt claims) (EvClaimed worker claim_id _) =
     Inr (Some (StClaimed kind payload worker claim_id run_at attempt (claims + 1)))"
| "job_evolve (StClaimed kind payload _ _ run_at attempt claims) (EvClaimed worker claim_id _) =
     Inr (Some (StClaimed kind payload worker claim_id run_at attempt (claims + 1)))"
| "job_evolve (StClaimed _ _ _ _ _ _ _) EvSucceeded = Inr (Some StDone)"
| "job_evolve (StClaimed kind payload _ _ _ _ claims) (EvRetryScheduled run_at attempt _) =
     Inr (Some (StPending kind payload run_at attempt claims))"
| "job_evolve (StClaimed kind payload _ _ _ attempt _) (EvRescheduled run_at) =
     Inr (Some (StPending kind payload run_at attempt 0))"
| "job_evolve (StPending _ _ _ _ _) (EvDead reason _) = Inr (Some (StDead reason))"
| "job_evolve (StClaimed _ _ _ _ _ _ _) (EvDead reason _) = Inr (Some (StDead reason))"
| "job_evolve _ _ = Inr None"

definition job_initialize :: "job_command \<Rightarrow> job_error + job_event effect" where
  "job_initialize command = Inr (Events [])"

fun ack_event :: "job_command \<Rightarrow> job_event" where
  "ack_event (CmdSucceed _) = EvSucceeded"
| "ack_event (CmdRetrySchedule _ run_at attempt err) = EvRetryScheduled run_at attempt err"
| "ack_event (CmdReschedule _ run_at) = EvRescheduled run_at"
| "ack_event (CmdKill _ reason err) = EvDead reason err"

definition job_transition :: "job_state \<Rightarrow> job_command \<Rightarrow> job_error + job_event effect" where
  "job_transition state command =
     (case state of
        StClaimed _ _ _ held _ _ _ \<Rightarrow>
          if held \<noteq> cmd_claim_id command then Inl Fenced else Inr (Events [ack_event command])
      | _ \<Rightarrow> Inl Fenced)"

definition JOB_AGGREGATE_TYPE :: string where "JOB_AGGREGATE_TYPE = ''job''"
definition JOB_EVENT_VERSION :: string where "JOB_EVENT_VERSION = ''1.0''"

definition job_entity :: "(job_state, job_command, job_event, job_error) event_sourced" where
  "job_entity = \<lparr>es_originate = job_originate, es_evolve = job_evolve,
     es_initialize = job_initialize, es_transition = job_transition,
     es_aggregate_type = JOB_AGGREGATE_TYPE, es_schema_version = 1, es_snapshot_size = 10,
     es_compaction_policy = Retain\<rparr>"

type_synonym job_lifecycle = "(job_state, job_event, job_error) lifecycle"

section \<open>JSON forms\<close>

fun dead_reason_name :: "dead_reason \<Rightarrow> string" where
  "dead_reason_name RetriesExhausted = ''RetriesExhausted''"
| "dead_reason_name Rejected = ''Rejected''"
| "dead_reason_name Undecodable = ''Undecodable''"
| "dead_reason_name Abandoned = ''Abandoned''"

definition dead_reason_to_json :: "dead_reason \<Rightarrow> json" where
  "dead_reason_to_json r = JString (dead_reason_name r)"

definition dead_reason_from_json :: "json \<Rightarrow> dead_reason option" where
  "dead_reason_from_json j =
     List.find (\<lambda>r. unit_variant (dead_reason_name r) j) [RetriesExhausted, Rejected, Undecodable, Abandoned]"

text \<open>\<open>chrono::serde::ts_milliseconds\<close>: an \<open>i64\<close> the calendar can represent.\<close>

definition ts_from_json :: "(int \<Rightarrow> bool) \<Rightarrow> json \<Rightarrow> int option" where
  "ts_from_json ts_range j =
     (case json_i64 j of Some ms \<Rightarrow> if ts_range ms then Some ms else None | None \<Rightarrow> None)"

definition field_as :: "string \<Rightarrow> (json \<Rightarrow> 'a option) \<Rightarrow> json \<Rightarrow> 'a option" where
  "field_as k dec j = Option.bind (json_field k j) dec"

fun job_event_to_json :: "job_event \<Rightarrow> json" where
  "job_event_to_json (EvEnqueued kind payload run_at) =
     tagged ''Enqueued'' (JObject [(''kind'', JString kind), (''payload'', payload),
       (''run_at'', of_int_json run_at)])"
| "job_event_to_json (EvClaimed worker claim_id lease_until) =
     tagged ''Claimed'' (JObject [(''worker'', JString worker), (''claim_id'', JString claim_id),
       (''lease_until'', of_int_json lease_until)])"
| "job_event_to_json EvSucceeded = JString ''Succeeded''"
| "job_event_to_json (EvRetryScheduled run_at attempt err) =
     tagged ''RetryScheduled'' (JObject [(''run_at'', of_int_json run_at),
       (''attempt'', of_u32 attempt), (''error'', JString err)])"
| "job_event_to_json (EvRescheduled run_at) =
     tagged ''Rescheduled'' (JObject [(''run_at'', of_int_json run_at)])"
| "job_event_to_json (EvDead reason err) =
     tagged ''Dead'' (JObject [(''reason'', dead_reason_to_json reason), (''error'', JString err)])"

definition job_event_from_json :: "(int \<Rightarrow> bool) \<Rightarrow> json \<Rightarrow> job_event option" where
  "job_event_from_json ts_range j =
     (case untag ''Enqueued'' j of
        Some b \<Rightarrow>
          Option.bind (field_as ''kind'' json_str b) (\<lambda>kind.
          Option.bind (field_as ''payload'' Some b) (\<lambda>payload.
          Option.bind (field_as ''run_at'' (ts_from_json ts_range) b) (\<lambda>run_at.
            Some (EvEnqueued kind payload run_at))))
      | None \<Rightarrow>
     (case untag ''Claimed'' j of
        Some b \<Rightarrow>
          Option.bind (field_as ''worker'' json_str b) (\<lambda>worker.
          Option.bind (field_as ''claim_id'' json_str b) (\<lambda>claim_id.
          Option.bind (field_as ''lease_until'' (ts_from_json ts_range) b) (\<lambda>lease_until.
            Some (EvClaimed worker claim_id lease_until))))
      | None \<Rightarrow>
     (case untag ''RetryScheduled'' j of
        Some b \<Rightarrow>
          Option.bind (field_as ''run_at'' (ts_from_json ts_range) b) (\<lambda>run_at.
          Option.bind (field_as ''attempt'' json_u32 b) (\<lambda>attempt.
          Option.bind (field_as ''error'' json_str b) (\<lambda>err.
            Some (EvRetryScheduled run_at attempt err))))
      | None \<Rightarrow>
     (case untag ''Rescheduled'' j of
        Some b \<Rightarrow> map_option EvRescheduled (field_as ''run_at'' (ts_from_json ts_range) b)
      | None \<Rightarrow>
     (case untag ''Dead'' j of
        Some b \<Rightarrow>
          Option.bind (field_as ''reason'' dead_reason_from_json b) (\<lambda>reason.
          Option.bind (field_as ''error'' json_str b) (\<lambda>err. Some (EvDead reason err)))
      | None \<Rightarrow> if unit_variant ''Succeeded'' j then Some EvSucceeded else None)))))"

fun job_state_to_json :: "job_state \<Rightarrow> json" where
  "job_state_to_json (StPending kind payload run_at attempt claims) =
     tagged ''Pending'' (JObject [(''kind'', JString kind), (''payload'', payload),
       (''run_at'', of_int_json run_at), (''attempt'', of_u32 attempt), (''claims'', of_u32 claims)])"
| "job_state_to_json (StClaimed kind payload worker claim_id run_at attempt claims) =
     tagged ''Claimed'' (JObject [(''kind'', JString kind), (''payload'', payload),
       (''worker'', JString worker), (''claim_id'', JString claim_id),
       (''run_at'', of_int_json run_at), (''attempt'', of_u32 attempt), (''claims'', of_u32 claims)])"
| "job_state_to_json StDone = JString ''Done''"
| "job_state_to_json (StDead reason) =
     tagged ''Dead'' (JObject [(''reason'', dead_reason_to_json reason)])"

definition job_state_from_json :: "(int \<Rightarrow> bool) \<Rightarrow> json \<Rightarrow> job_state option" where
  "job_state_from_json ts_range j =
     (case untag ''Pending'' j of
        Some b \<Rightarrow>
          Option.bind (field_as ''kind'' json_str b) (\<lambda>kind.
          Option.bind (field_as ''payload'' Some b) (\<lambda>payload.
          Option.bind (field_as ''run_at'' (ts_from_json ts_range) b) (\<lambda>run_at.
          Option.bind (field_as ''attempt'' json_u32 b) (\<lambda>attempt.
          Option.bind (field_as ''claims'' json_u32 b) (\<lambda>claims.
            Some (StPending kind payload run_at attempt claims))))))
      | None \<Rightarrow>
     (case untag ''Claimed'' j of
        Some b \<Rightarrow>
          Option.bind (field_as ''kind'' json_str b) (\<lambda>kind.
          Option.bind (field_as ''payload'' Some b) (\<lambda>payload.
          Option.bind (field_as ''worker'' json_str b) (\<lambda>worker.
          Option.bind (field_as ''claim_id'' json_str b) (\<lambda>claim_id.
          Option.bind (field_as ''run_at'' (ts_from_json ts_range) b) (\<lambda>run_at.
          Option.bind (field_as ''attempt'' json_u32 b) (\<lambda>attempt.
          Option.bind (field_as ''claims'' json_u32 b) (\<lambda>claims.
            Some (StClaimed kind payload worker claim_id run_at attempt claims))))))))
      | None \<Rightarrow>
     (case untag ''Dead'' j of
        Some b \<Rightarrow> map_option StDead (field_as ''reason'' dead_reason_from_json b)
      | None \<Rightarrow> if unit_variant ''Done'' j then Some StDone else None)))"

definition job_error_to_json :: "job_error \<Rightarrow> json" where
  "job_error_to_json e = JString ''Fenced''"

definition job_error_from_json :: "json \<Rightarrow> job_error option" where
  "job_error_from_json j = (if unit_variant ''Fenced'' j then Some Fenced else None)"

text \<open>The \<open>job_queue\<close> payload: \<open>serde_json::to_string\<close> of a job lifecycle, and its inverse.\<close>

definition job_payload :: "job_lifecycle \<Rightarrow> text_cell" where
  "job_payload l = to_text (lifecycle_to_json job_state_to_json job_event_to_json job_error_to_json l)"

definition job_lifecycle_from_json :: "(int \<Rightarrow> bool) \<Rightarrow> json \<Rightarrow> job_lifecycle option" where
  "job_lifecycle_from_json ts_range =
     lifecycle_from_json (job_state_from_json ts_range) (job_event_from_json ts_range) job_error_from_json"

definition read_job_payload :: "(int \<Rightarrow> bool) \<Rightarrow> text_cell \<Rightarrow> job_lifecycle option" where
  "read_job_payload ts_range cell = Option.bind (from_text cell) (job_lifecycle_from_json ts_range)"

fun type_name :: "job_event \<Rightarrow> string" where
  "type_name (EvEnqueued _ _ _) = ''JobEnqueued''"
| "type_name (EvClaimed _ _ _) = ''JobClaimed''"
| "type_name EvSucceeded = ''JobSucceeded''"
| "type_name (EvRetryScheduled _ _ _) = ''JobRetryScheduled''"
| "type_name (EvRescheduled _) = ''JobRescheduled''"
| "type_name (EvDead _ _) = ''JobDead''"

definition serialized :: "job_event \<Rightarrow> string \<Rightarrow> nat \<Rightarrow> serialized_event" where
  "serialized ev job_id sequence = \<lparr>se_aggregate_id = job_id, se_sequence = sequence,
     se_aggregate_type = JOB_AGGREGATE_TYPE, se_event_type = type_name ev,
     se_event_version = JOB_EVENT_VERSION, se_payload = job_event_to_json ev,
     se_metadata = JObject []\<rparr>"

section \<open>Claims (job_store.rs, plan_claim)\<close>

record claim_read =
  cr_version :: int
  cr_payload :: text_cell
  cr_lease :: "int option"

record won_claim =
  wc_claim_seq :: int
  wc_claim_id :: string
  wc_attempt :: u32
  wc_args :: json

datatype 'won claim_decision =
    Claim serialized_event text_cell int 'won
  | Abandon serialized_event text_cell
  | Skip

datatype 'won claim_outcome = Won 'won | AbandonedOutcome | Contended | Skipped

datatype lease_renewal = Held | Lost

datatype job_store_error =
    Encode
  | DelayOverflow
  | InvalidInstant int
  | InstantAddPanic

definition instant_from_millis :: "(int \<Rightarrow> bool) \<Rightarrow> int \<Rightarrow> job_store_error + int" where
  "instant_from_millis ts_range millis = (if ts_range millis then Inr millis else Inl (InvalidInstant millis))"

definition plan_abandon :: "string \<Rightarrow> nat \<Rightarrow> won_claim claim_decision" where
  "plan_abandon job_id claim_seq =
     Abandon (serialized (EvDead Abandoned ''claim budget exhausted'') job_id claim_seq)
       (job_payload (Live (StDead Abandoned)))"

fun runnable :: "job_state \<Rightarrow> int option \<Rightarrow> int \<Rightarrow> bool" where
  "runnable (StPending _ _ run_at _ _) lease now_ms = (run_at \<le> now_ms)"
| "runnable (StClaimed _ _ _ _ _ _ _) lease now_ms =
     (case lease of None \<Rightarrow> True | Some until \<Rightarrow> until < now_ms)"
| "runnable StDone lease now_ms = False"
| "runnable (StDead _) lease now_ms = False"

fun claim_parts :: "job_state \<Rightarrow> (string \<times> json \<times> int \<times> u32 \<times> u32) option" where
  "claim_parts (StPending kind payload run_at attempt claims) = Some (kind, payload, run_at, attempt, claims)"
| "claim_parts (StClaimed kind payload _ _ run_at attempt claims) = Some (kind, payload, run_at, attempt, claims)"
| "claim_parts StDone = None"
| "claim_parts (StDead _) = None"

text \<open>
  \<open>fresh\<close> is the \<open>ClaimId\<close> the call mints. \<open>version + 1\<close> is \<open>i64\<close> addition, which wraps at the maximum;
  the conversion to \<open>usize\<close> then refuses it.
\<close>

definition plan_claim ::
  "(int \<Rightarrow> bool) \<Rightarrow> string \<Rightarrow> string \<Rightarrow> claim_read option \<Rightarrow> string \<Rightarrow> int \<Rightarrow> int \<Rightarrow> u32
     \<Rightarrow> won_claim claim_decision" where
  "plan_claim ts_range fresh job_id read worker now_ms lease_ms max_claims =
     (case read of None \<Rightarrow> Skip | Some row \<Rightarrow>
     (case read_job_payload ts_range (cr_payload row) of
        Some (Live state) \<Rightarrow>
          if \<not> runnable state (cr_lease row) now_ms then Skip else
          (case claim_parts state of None \<Rightarrow> Skip | Some (kind, payload, run_at, attempt, claims) \<Rightarrow>
            (let claim_seq = i64_wrapping_add (cr_version row) 1 in
             case usize_try_from claim_seq of None \<Rightarrow> Skip | Some claim_seq_usize \<Rightarrow>
               if max_claims \<le> claims then plan_abandon job_id claim_seq_usize else
               (case i64_checked_add now_ms lease_ms of None \<Rightarrow> Skip | Some lease_until_ms \<Rightarrow>
               (case instant_from_millis ts_range lease_until_ms of Inl _ \<Rightarrow> Skip | Inr lease_until \<Rightarrow>
                  Claim (serialized (EvClaimed worker fresh lease_until) job_id claim_seq_usize)
                    (job_payload (Live (StClaimed kind payload worker fresh run_at attempt (claims + 1))))
                    lease_until_ms
                    \<lparr>wc_claim_seq = claim_seq, wc_claim_id = fresh, wc_attempt = attempt,
                     wc_args = payload\<rparr>))))
      | _ \<Rightarrow> Skip))"

section \<open>Enqueue\<close>

record enqueue_request =
  eq_job_id :: string
  eq_kind :: string
  eq_payload :: json
  eq_run_at_ms :: int

definition enqueued_event :: "(int \<Rightarrow> bool) \<Rightarrow> enqueue_request \<Rightarrow> job_store_error + serialized_event" where
  "enqueued_event ts_range request =
     bind_result (instant_from_millis ts_range (eq_run_at_ms request)) (\<lambda>run_at.
       Inr (serialized (EvEnqueued (eq_kind request) (eq_payload request) run_at) (eq_job_id request) 1))"

definition pending_seed_payload :: "(int \<Rightarrow> bool) \<Rightarrow> enqueue_request \<Rightarrow> job_store_error + text_cell" where
  "pending_seed_payload ts_range request =
     bind_result (instant_from_millis ts_range (eq_run_at_ms request)) (\<lambda>run_at.
       Inr (job_payload (Live (StPending (eq_kind request) (eq_payload request) run_at 0 0))))"

text \<open>
  \<open>now_ns\<close> is the clock in nanoseconds. \<open>chrono::Duration::from_std\<close> refuses a delay above its maximum
  of \<open>i64::MAX\<close> milliseconds; adding a duration to an instant panics when the sum is not representable.
\<close>

definition resolve_run_at_ms ::
  "(int \<Rightarrow> bool) \<Rightarrow> int \<Rightarrow> nat option \<Rightarrow> job_store_error + int" where
  "resolve_run_at_ms ts_range now_ns delay =
     (case delay of
        None \<Rightarrow> Inr (now_ns div 1000000)
      | Some delay_ns \<Rightarrow>
          if int delay_ns > I64_MAX * 1000000 then Inl DelayOverflow
          else let run_at = (now_ns + int delay_ns) div 1000000
               in if ts_range run_at then Inr run_at else Inl InstantAddPanic)"

record prepared_pending_jobs =
  pr_requests :: "enqueue_request list"
  pr_prepared_count :: "nat option"

definition prepare_push ::
  "(int \<Rightarrow> bool) \<Rightarrow> int \<Rightarrow> pending_push \<Rightarrow> job_store_error + enqueue_request" where
  "prepare_push ts_range now_ns push =
     bind_result (ok_or Encode (pp_encode push)) (\<lambda>payload.
     bind_result (resolve_run_at_ms ts_range now_ns (pp_delay push)) (\<lambda>run_at_ms.
       Inr \<lparr>eq_job_id = pp_job_id push, eq_kind = pp_kind push, eq_payload = payload,
            eq_run_at_ms = run_at_ms\<rparr>))"

definition prepare_pending ::
  "(int \<Rightarrow> bool) \<Rightarrow> int \<Rightarrow> pending_scope \<Rightarrow> job_store_error + prepared_pending_jobs" where
  "prepare_pending ts_range now_ns scope =
     (case scope of
        None \<Rightarrow> Inr \<lparr>pr_requests = [], pr_prepared_count = None\<rparr>
      | Some pending \<Rightarrow>
          bind_result (collect_results (prepare_push ts_range now_ns) pending) (\<lambda>requests.
            Inr \<lparr>pr_requests = requests, pr_prepared_count = Some (length pending)\<rparr>))"

definition take_requests ::
  "prepared_pending_jobs \<Rightarrow> prepared_pending_jobs \<times> enqueue_request list" where
  "take_requests p = (p\<lparr>pr_requests := []\<rparr>, pr_requests p)"

definition mark_committed :: "prepared_pending_jobs \<Rightarrow> pending_scope \<Rightarrow> pending_scope" where
  "mark_committed p scope =
     (case pr_prepared_count p of None \<Rightarrow> scope | Some n \<Rightarrow> map_option (drop n) scope)"

definition enqueue_request ::
  "(int \<Rightarrow> bool) \<Rightarrow> int \<Rightarrow> string \<Rightarrow> string \<Rightarrow> json option \<Rightarrow> nat option
     \<Rightarrow> job_store_error + enqueue_request" where
  "enqueue_request ts_range now_ns fresh_id kind encoded delay =
     bind_result (ok_or Encode encoded) (\<lambda>payload.
     bind_result (resolve_run_at_ms ts_range now_ns delay) (\<lambda>run_at_ms.
       Inr \<lparr>eq_job_id = fresh_id, eq_kind = kind, eq_payload = payload, eq_run_at_ms = run_at_ms\<rparr>))"

section \<open>The execution context\<close>

record delivery_policy =
  dl_retry_delay :: nat
  dl_refused_backoff :: nat

record job_context =
  cx_job_id :: string
  cx_claim_seq :: int
  cx_claim_id :: string
  cx_attempt :: u32
  cx_max_attempts :: u32
  cx_delivery :: delivery_policy

definition is_first_execution :: "job_context \<Rightarrow> bool" where
  "is_first_execution ctx \<longleftrightarrow> cx_claim_seq ctx = 2"

definition is_final_attempt :: "job_context \<Rightarrow> bool" where
  "is_final_attempt ctx \<longleftrightarrow> 0 < cx_max_attempts ctx \<and> cx_max_attempts ctx \<le> cx_attempt ctx + 1"

section \<open>The codecs meet the serde contract\<close>

definition valid_ts :: "(int \<Rightarrow> bool) \<Rightarrow> int \<Rightarrow> bool" where
  "valid_ts ts_range ms \<longleftrightarrow> ts_range ms \<and> in_i64 ms"

fun valid_job_event :: "(int \<Rightarrow> bool) \<Rightarrow> job_event \<Rightarrow> bool" where
  "valid_job_event tr (EvEnqueued _ _ run_at) = valid_ts tr run_at"
| "valid_job_event tr (EvClaimed _ _ lease_until) = valid_ts tr lease_until"
| "valid_job_event tr EvSucceeded = True"
| "valid_job_event tr (EvRetryScheduled run_at _ _) = valid_ts tr run_at"
| "valid_job_event tr (EvRescheduled run_at) = valid_ts tr run_at"
| "valid_job_event tr (EvDead _ _) = True"

fun valid_job_state :: "(int \<Rightarrow> bool) \<Rightarrow> job_state \<Rightarrow> bool" where
  "valid_job_state tr (StPending _ _ run_at _ _) = valid_ts tr run_at"
| "valid_job_state tr (StClaimed _ _ _ _ run_at _ _) = valid_ts tr run_at"
| "valid_job_state tr StDone = True"
| "valid_job_state tr (StDead _) = True"

lemma ts_from_json_of_int [simp]: "valid_ts tr ms \<Longrightarrow> ts_from_json tr (of_int_json ms) = Some ms"
  by (simp add: valid_ts_def ts_from_json_def)

lemma ts_from_json_Some: "ts_from_json tr j = Some ms \<Longrightarrow> valid_ts tr ms"
  by (auto simp: ts_from_json_def valid_ts_def json_i64_def split: option.splits if_splits)

lemma dead_reason_round_trip [simp]: "dead_reason_from_json (dead_reason_to_json r) = Some r"
  by (cases r) (simp_all add: dead_reason_from_json_def dead_reason_to_json_def)

lemma field_as_Cons [simp]:
  "field_as k dec (JObject ((k', v) # kvs)) = (if k' = k then dec v else field_as k dec (JObject kvs))"
  by (simp add: field_as_def)

interpretation job_event_codec: serde_codec job_event_to_json "job_event_from_json tr" "valid_job_event tr"
  for tr
proof
  fix x
  assume "valid_job_event tr x"
  then show "job_event_from_json tr (job_event_to_json x) = Some x"
    by (cases x) (simp_all add: job_event_from_json_def)
qed

interpretation job_state_codec: serde_codec job_state_to_json "job_state_from_json tr" "valid_job_state tr"
  for tr
proof
  fix x
  assume "valid_job_state tr x"
  then show "job_state_from_json tr (job_state_to_json x) = Some x"
    by (cases x) (simp_all add: job_state_from_json_def)
qed

interpretation job_error_codec: serde_codec job_error_to_json job_error_from_json "\<lambda>_. True"
proof
  fix x
  show "job_error_from_json (job_error_to_json x) = Some x"
    by (cases x) (simp add: job_error_to_json_def job_error_from_json_def)
qed

lemma job_state_to_json_not_null: "job_state_to_json s \<noteq> JNull"
  by (cases s) simp_all

interpretation job_life: lifecycle_codec job_state_to_json "job_state_from_json tr" "valid_job_state tr"
    job_event_to_json "job_event_from_json tr" "valid_job_event tr"
    job_error_to_json job_error_from_json "\<lambda>_. True"
  for tr
  by unfold_locales (rule job_state_to_json_not_null)

abbreviation valid_job_lifecycle :: "(int \<Rightarrow> bool) \<Rightarrow> job_lifecycle \<Rightarrow> bool" where
  "valid_job_lifecycle tr \<equiv> valid_lifecycle (valid_job_state tr) (valid_job_event tr) (\<lambda>_. True)"

lemma read_job_payload_round_trip:
  "valid_job_lifecycle tr l \<Longrightarrow> read_job_payload tr (job_payload l) = Some l"
  by (simp add: read_job_payload_def job_payload_def job_lifecycle_from_json_def
      job_life.lifecycle_dec_enc)

lemma read_job_payload_Live [simp]:
  "valid_job_state tr s \<Longrightarrow> read_job_payload tr (job_payload (Live s)) = Some (Live s)"
  by (simp add: read_job_payload_round_trip)

lemma job_state_from_json_valid: "job_state_from_json tr j = Some s \<Longrightarrow> valid_job_state tr s"
  by (auto simp: job_state_from_json_def field_as_def bind_eq_Some_conv
      dest!: ts_from_json_Some split: option.splits if_splits)

lemma read_job_payload_valid: "read_job_payload tr c = Some (Live s) \<Longrightarrow> valid_job_state tr s"
  by (auto simp: read_job_payload_def job_lifecycle_from_json_def lifecycle_from_json_def
      bind_eq_Some_conv dest: job_state_from_json_valid split: if_splits option.splits)

section \<open>The fold of a job stream\<close>

definition job_fold :: "job_event list \<Rightarrow> job_lifecycle" where
  "job_fold evs = replay job_entity Uninitialized evs"

fun is_claim :: "job_event \<Rightarrow> bool" where
  "is_claim (EvClaimed _ _ _) = True"
| "is_claim _ = False"

fun is_enqueued :: "job_event \<Rightarrow> bool" where
  "is_enqueued (EvEnqueued _ _ _) = True"
| "is_enqueued _ = False"

fun is_rescheduled :: "job_event \<Rightarrow> bool" where
  "is_rescheduled (EvRescheduled _) = True"
| "is_rescheduled _ = False"

fun is_terminal_event :: "job_event \<Rightarrow> bool" where
  "is_terminal_event EvSucceeded = True"
| "is_terminal_event (EvDead _ _) = True"
| "is_terminal_event _ = False"

text \<open>Claims since the last productive defer: what the claim budget counts.\<close>

definition claims_since_defer :: "job_event list \<Rightarrow> nat" where
  "claims_since_defer evs = length (filter is_claim (takeWhile (\<lambda>e. \<not> is_rescheduled e) (rev evs)))"

lemma job_entity_sel [simp]:
  "es_originate job_entity = job_originate" "es_evolve job_entity = job_evolve"
  "es_initialize job_entity = job_initialize" "es_transition job_entity = job_transition"
  "es_aggregate_type job_entity = JOB_AGGREGATE_TYPE"
  by (simp_all add: job_entity_def)

lemma job_fold_Nil [simp]: "job_fold [] = Uninitialized"
  by (simp add: job_fold_def)

lemma job_fold_snoc [simp]: "job_fold (evs @ [e]) = apply_event job_entity (job_fold evs) e"
  by (simp add: job_fold_def)

lemma job_evolve_not_Inl [simp]: "job_evolve s e \<noteq> Inl err"
  by (cases "(s, e)" rule: job_evolve.cases) simp_all

lemma apply_job_Live:
  "apply_event job_entity l e = Live s \<longleftrightarrow>
     (l = Uninitialized \<and> job_originate e = Some s)
     \<or> (\<exists>s0. l = Live s0 \<and> job_evolve s0 e = Inr (Some s))"
  by (cases l) (auto split: option.splits sum.splits)

lemma job_originate_Some: "job_originate e = Some s \<longleftrightarrow>
  (\<exists>kind payload run_at. e = EvEnqueued kind payload run_at \<and> s = StPending kind payload run_at 0 0)"
  by (cases e) auto

fun_cases job_evolve_Some: "job_evolve s0 e = Inr (Some s)"

text \<open>What a live state says of the stream it was folded from.\<close>

fun state_reads_stream :: "job_event list \<Rightarrow> job_state \<Rightarrow> bool" where
  "state_reads_stream evs (StPending kind payload run_at attempt claims) =
     ((\<exists>r. hd evs = EvEnqueued kind payload r) \<and> claims = of_nat (claims_since_defer evs)
      \<and> \<not> is_claim (last evs) \<and> \<not> is_terminal_event (last evs) \<and> ev_run_at (last evs) = run_at)"
| "state_reads_stream evs (StClaimed kind payload worker claim_id run_at attempt claims) =
     ((\<exists>r. hd evs = EvEnqueued kind payload r) \<and> claims = of_nat (claims_since_defer evs)
      \<and> (\<exists>lease. last evs = EvClaimed worker claim_id lease))"
| "state_reads_stream evs StDone = (last evs = EvSucceeded)"
| "state_reads_stream evs (StDead reason) = (\<exists>err. last evs = EvDead reason err)"

lemma claims_since_defer_snoc:
  "claims_since_defer (evs @ [e]) =
     (if is_rescheduled e then 0 else (if is_claim e then 1 else 0) + claims_since_defer evs)"
  by (simp add: claims_since_defer_def)

lemma state_reads_stream_step:
  assumes "evs \<noteq> []" and "state_reads_stream evs s0" and "job_evolve s0 e = Inr (Some s)"
  shows "state_reads_stream (evs @ [e]) s"
  using assms(3) assms(1,2)
  by (elim job_evolve_Some) (auto simp: claims_since_defer_snoc)

lemma job_evolve_from:
  "job_evolve s0 e = Inr (Some s) \<Longrightarrow> \<not> is_enqueued e \<and> claim_parts s0 \<noteq> None
     \<and> (is_terminal_event e \<longleftrightarrow> claim_parts s = None)"
  by (elim job_evolve_Some) auto

lemma job_fold_Live_shape:
  assumes "job_fold evs = Live s"
  shows "evs \<noteq> [] \<and> is_enqueued (hd evs) \<and> list_all (\<lambda>e. \<not> is_enqueued e) (tl evs)
    \<and> list_all (\<lambda>e. \<not> is_terminal_event e) (butlast evs)
    \<and> (is_terminal_event (last evs) \<longleftrightarrow> claim_parts s = None)
    \<and> state_reads_stream evs s"
  using assms
proof (induction evs arbitrary: s rule: rev_induct)
  case (snoc e evs)
  from snoc.prems show ?case
    unfolding job_fold_snoc apply_job_Live
  proof (elim disjE exE conjE)
    assume "job_fold evs = Uninitialized" and o: "job_originate e = Some s"
    then have "evs = []"
      by (cases evs rule: rev_cases) (auto simp del: apply_event.simps)
    then show ?thesis using o by (auto simp: job_originate_Some claims_since_defer_def)
  next
    fix s0
    assume live: "job_fold evs = Live s0" and step: "job_evolve s0 e = Inr (Some s)"
    note ih = snoc.IH [OF live]
    have "list_all (\<lambda>e. \<not> is_terminal_event e) evs"
      using ih job_evolve_from [OF step]
      by (cases evs rule: rev_cases) auto
    then show ?thesis
      using ih job_evolve_from [OF step] state_reads_stream_step [OF _ _ step] by auto
  qed
qed simp

lemma terminal_job_rejects: "claim_parts s = None \<Longrightarrow> job_evolve s e = Inr None"
  by (cases s) auto

lemma nonclaim_step_from_claimed:
  "job_evolve s0 e = Inr (Some s) \<Longrightarrow> \<not> is_claim e \<Longrightarrow> claim_parts s \<noteq> None
     \<Longrightarrow> state_reads_stream evs s0 \<Longrightarrow> is_claim (last evs)"
  by (elim job_evolve_Some) auto

lemma first_claim_at_two:
  assumes "job_fold evs = Live s" and "claim_parts s \<noteq> None"
  shows "list_ex is_claim evs \<longleftrightarrow> length evs \<noteq> 1"
proof (cases evs rule: rev_cases)
  case Nil
  then show ?thesis using assms by simp
next
  case (snoc pre e)
  show ?thesis
  proof (cases "pre = []")
    case True
    then show ?thesis
      using assms job_fold_Live_shape [OF assms(1)] snoc by (cases e) auto
  next
    case False
    then have "job_fold pre \<noteq> Uninitialized"
      by (cases pre rule: rev_cases) (auto simp del: apply_event.simps)
    then obtain s0 where live: "job_fold pre = Live s0" and step: "job_evolve s0 e = Inr (Some s)"
      using assms(1) snoc by (auto simp: apply_job_Live simp del: apply_event.simps)
    have "is_claim e \<or> is_claim (last pre)"
      using nonclaim_step_from_claimed [OF step _ assms(2)] job_fold_Live_shape [OF live] by blast
    then have "list_ex is_claim (pre @ [e])" using False by (auto simp: list_ex_iff)
    then show ?thesis using snoc False by simp
  qed
qed

section \<open>The claim plan\<close>

lemma claim_parts_evolve:
  "claim_parts st = Some (kind, payload, run_at, attempt, claims) \<Longrightarrow>
     job_evolve st (EvClaimed w c l) = Inr (Some (StClaimed kind payload w c run_at attempt (claims + 1)))"
  "claim_parts st = Some (kind, payload, run_at, attempt, claims) \<Longrightarrow>
     job_evolve st (EvDead r e) = Inr (Some (StDead r))"
  by (cases st; simp)+

lemma claim_parts_valid:
  "claim_parts st = Some (kind, payload, run_at, attempt, claims) \<Longrightarrow> valid_job_state tr st
     \<Longrightarrow> valid_ts tr run_at"
  by (cases st) auto

lemma runnable_claim_parts: "runnable st lease now \<Longrightarrow> \<exists>p. claim_parts st = Some p"
  by (cases st) auto

definition row_of_read :: "claim_read \<Rightarrow> view_row \<Rightarrow> bool" where
  "row_of_read read row \<longleftrightarrow> cr_version read = vw_version row \<and> cr_payload read = vw_payload row
     \<and> cr_lease read = vw_lease row"

lemma plan_claim_Claim:
  assumes "plan_claim tr fresh job_id (Some row) worker now lease_ms budget = Claim ev cell until won"
    and "in_i64 (cr_version row)"
  obtains st kind payload run_at attempt claims where
    "read_job_payload tr (cr_payload row) = Some (Live st)" "runnable st (cr_lease row) now"
    "claim_parts st = Some (kind, payload, run_at, attempt, claims)" "claims < budget"
    "until = now + lease_ms" "valid_ts tr until" "0 \<le> cr_version row + 1" "in_i64 (cr_version row + 1)"
    "ev = serialized (EvClaimed worker fresh until) job_id (nat (cr_version row + 1))"
    "cell = job_payload (Live (StClaimed kind payload worker fresh run_at attempt (claims + 1)))"
    "won = \<lparr>wc_claim_seq = cr_version row + 1, wc_claim_id = fresh, wc_attempt = attempt, wc_args = payload\<rparr>"
proof -
  note succ = i64_wrapping_succ_int [OF assms(2)]
  from assms(1) show ?thesis
    by (auto simp: plan_claim_def plan_abandon_def Let_def valid_ts_def instant_from_millis_def succ
        split: option.splits lifecycle.splits if_splits prod.splits sum.splits
        intro!: that)
qed

lemma plan_claim_Abandon:
  assumes "plan_claim tr fresh job_id (Some row) worker now lease_ms budget = Abandon ev cell"
    and "in_i64 (cr_version row)"
  obtains st kind payload run_at attempt claims where
    "read_job_payload tr (cr_payload row) = Some (Live st)" "runnable st (cr_lease row) now"
    "claim_parts st = Some (kind, payload, run_at, attempt, claims)" "budget \<le> claims"
    "0 \<le> cr_version row + 1" "in_i64 (cr_version row + 1)"
    "ev = serialized (EvDead Abandoned ''claim budget exhausted'') job_id (nat (cr_version row + 1))"
    "cell = job_payload (Live (StDead Abandoned))"
proof -
  note succ = i64_wrapping_succ_int [OF assms(2)]
  from assms(1) show ?thesis
    by (auto simp: plan_claim_def plan_abandon_def Let_def succ
        split: option.splits lifecycle.splits if_splits prod.splits sum.splits
        intro!: that)
qed

section \<open>Properties\<close>

text \<open>
  A job stream that folds to a live job starts with its only \<open>Enqueued\<close> event,
  has a terminal event at most as its last one, and the folded state reads the stream correctly: the
  kind and payload are the enqueued ones, a claimed job is held under the claim of the last event, the
  claim counter is the number of claims since the last defer (as a \<open>u32\<close>), and a terminal state names
  the event that ended the job.
\<close>

theorem job_stream_shape:
  assumes "job_fold evs = Live s"
  shows "evs \<noteq> [] \<and> is_enqueued (hd evs) \<and> list_all (\<lambda>e. \<not> is_enqueued e) (tl evs)
    \<and> list_all (\<lambda>e. \<not> is_terminal_event e) (butlast evs)
    \<and> (is_terminal_event (last evs) \<longleftrightarrow> s = StDone \<or> (\<exists>r. s = StDead r))
    \<and> state_reads_stream evs s"
  using job_fold_Live_shape [OF assms] by (cases s) auto

definition sample_stream :: "job_event list" where
  "sample_stream = [EvEnqueued ''mail'' JNull 5, EvClaimed ''w'' ''c1'' 40, EvRetryScheduled 50 1 ''x'',
     EvClaimed ''w'' ''c2'' 90]"

lemma sample_stream_fold: "job_fold sample_stream = Live (StClaimed ''mail'' JNull ''w'' ''c2'' 50 1 2)"
  by (simp add: job_fold_def sample_stream_def)

theorem job_stream_shape_witness:
  "job_fold sample_stream = Live (StClaimed ''mail'' JNull ''w'' ''c2'' 50 1 2)
   \<and> state_reads_stream sample_stream (StClaimed ''mail'' JNull ''w'' ''c2'' 50 1 2)"
  using job_stream_shape [OF sample_stream_fold] sample_stream_fold by blast

text \<open>
  An acknowledgement takes effect exactly when the job is held under the claim it
  names. Then it yields one event, which the state accepts with the documented successor; in every
  other case the command fails with \<open>Fenced\<close> and neither an event nor a pending push is produced.
\<close>

theorem job_ack_fenced:
  "(case st of
      StClaimed kind payload worker held run_at attempt claims \<Rightarrow>
        if held = cmd_claim_id cmd then
          job_transition st cmd = Inr (Events [ack_event cmd])
          \<and> job_evolve st (ack_event cmd) = Inr (Some (case cmd of
              CmdSucceed _ \<Rightarrow> StDone
            | CmdRetrySchedule _ run_at' attempt' _ \<Rightarrow> StPending kind payload run_at' attempt' claims
            | CmdReschedule _ run_at' \<Rightarrow> StPending kind payload run_at' attempt 0
            | CmdKill _ reason _ \<Rightarrow> StDead reason))
        else handle write job_entity (Live st) cmd scope = (scope, Inl (Apply Fenced))
    | _ \<Rightarrow> handle write job_entity (Live st) cmd scope = (scope, Inl (Apply Fenced)))"
  by (cases st; cases cmd) (auto simp: job_transition_def handle_def decide_def)

text \<open>
  A claim decision is consistent with the row it read: the row decodes to a
  runnable job, the appended event is at the next sequence, and the payload to be written is the
  encoding of the state that event evolves the job to, so the row stays the fold of the stream. A claim
  is won only below the claim budget (counting without wrap-around) with a lease of exactly
  \<open>now + lease\<close>; an exhausted budget gives the \<open>Abandoned\<close> dead letter instead.
\<close>

theorem plan_claim_sound:
  assumes "in_i64 (cr_version row)"
  shows "case plan_claim tr fresh job_id (Some row) worker now lease_ms budget of
      Claim ev cell until won \<Rightarrow>
        \<exists>st st'. read_job_payload tr (cr_payload row) = Some (Live st) \<and> runnable st (cr_lease row) now
          \<and> job_evolve st (EvClaimed worker fresh until) = Inr (Some st')
          \<and> ev = serialized (EvClaimed worker fresh until) job_id (nat (cr_version row + 1))
          \<and> read_job_payload tr cell = Some (Live st')
          \<and> until = now + lease_ms
          \<and> (\<exists>kind run_at claims. claim_parts st = Some (kind, wc_args won, run_at, wc_attempt won, claims)
               \<and> claim_parts st' = Some (kind, wc_args won, run_at, wc_attempt won, claims + 1)
               \<and> unat (claims + 1) = Suc (unat claims) \<and> claims + 1 \<le> budget)
          \<and> wc_claim_seq won = cr_version row + 1 \<and> wc_claim_id won = fresh
    | Abandon ev cell \<Rightarrow>
        \<exists>st kind payload run_at attempt claims.
          read_job_payload tr (cr_payload row) = Some (Live st) \<and> runnable st (cr_lease row) now
          \<and> claim_parts st = Some (kind, payload, run_at, attempt, claims) \<and> budget \<le> claims
          \<and> job_evolve st (EvDead Abandoned ''claim budget exhausted'') = Inr (Some (StDead Abandoned))
          \<and> ev = serialized (EvDead Abandoned ''claim budget exhausted'') job_id (nat (cr_version row + 1))
          \<and> read_job_payload tr cell = Some (Live (StDead Abandoned))
    | Skip \<Rightarrow> True"
proof (cases "plan_claim tr fresh job_id (Some row) worker now lease_ms budget")
  case (Claim ev cell until won)
  from plan_claim_Claim [OF Claim assms] obtain st kind payload run_at attempt claims where
    c: "read_job_payload tr (cr_payload row) = Some (Live st)" "runnable st (cr_lease row) now"
    "claim_parts st = Some (kind, payload, run_at, attempt, claims)" "claims < budget"
    "until = now + lease_ms"
    "ev = serialized (EvClaimed worker fresh until) job_id (nat (cr_version row + 1))"
    "cell = job_payload (Live (StClaimed kind payload worker fresh run_at attempt (claims + 1)))"
    "won = \<lparr>wc_claim_seq = cr_version row + 1, wc_claim_id = fresh, wc_attempt = attempt, wc_args = payload\<rparr>"
    by metis
  have "valid_ts tr run_at" using claim_parts_valid [OF c(3)] read_job_payload_valid [OF c(1)] by blast
  then have "read_job_payload tr cell =
      Some (Live (StClaimed kind payload worker fresh run_at attempt (claims + 1)))" using c(7) by simp
  moreover have "unat (claims + 1) = Suc (unat claims)" using c(4) by (rule unat_Suc_below)
  moreover from this have "claims + 1 \<le> budget"
    using c(4) by (simp add: word_le_nat_alt word_less_nat_alt)
  ultimately show ?thesis using Claim c claim_parts_evolve(1) [OF c(3)] by simp
next
  case (Abandon ev cell)
  then show ?thesis
    using claim_parts_evolve(2) by (auto elim!: plan_claim_Abandon [OF _ assms])
qed simp

definition sample_row :: "claim_read" where
  "sample_row = \<lparr>cr_version = 1, cr_payload = job_payload (Live (StPending ''mail'' JNull 5 0 0)), cr_lease = None\<rparr>"

lemma sample_row_plan:
  "\<exists>ev cell won. plan_claim (\<lambda>_. True) ''c1'' ''j'' (Some sample_row) ''w'' 10 30 3 = Claim ev cell 40 won"
  by (simp add: plan_claim_def sample_row_def Let_def valid_ts_def i64_simps
      i64_wrapping_add_def usize_try_from_def USIZE_MAX_def i64_checked_add_def instant_from_millis_def)

theorem plan_claim_sound_witness:
  "\<exists>ev cell won. plan_claim (\<lambda>_. True) ''c1'' ''j'' (Some sample_row) ''w'' 10 30 3 = Claim ev cell 40 won
     \<and> ev = serialized (EvClaimed ''w'' ''c1'' 40) ''j'' 2"
proof -
  have v: "in_i64 (cr_version sample_row)" by (simp add: sample_row_def i64_simps)
  have two: "nat (cr_version sample_row + 1) = 2" by (simp add: sample_row_def)
  show ?thesis
    using plan_claim_sound [OF v, where tr = "\<lambda>_. True" and fresh = "''c1''" and job_id = "''j''"
        and worker = "''w''" and now = 10 and lease_ms = 30 and budget = 3] sample_row_plan two
    by fastforce
qed

text \<open>
  A claim is declined exactly when it must be: the row is gone, does not
  decode, is not a live job, is not runnable (a future \<open>run_at\<close>, an unexpired lease or a terminal
  state), has no next sequence, or the lease instant is out of range. Any other row is claimed, or
  abandoned when its budget is spent, so a runnable job is never starved.
\<close>

theorem plan_claim_skips_iff:
  assumes "in_i64 (cr_version row)"
  shows "plan_claim tr fresh job_id (Some row) worker now lease_ms budget = Skip \<longleftrightarrow>
    \<not> (\<exists>st kind payload run_at attempt claims.
         read_job_payload tr (cr_payload row) = Some (Live st) \<and> runnable st (cr_lease row) now
         \<and> claim_parts st = Some (kind, payload, run_at, attempt, claims)
         \<and> 0 \<le> cr_version row + 1 \<and> in_i64 (cr_version row + 1)
         \<and> (budget \<le> claims \<or> in_i64 (now + lease_ms) \<and> tr (now + lease_ms)))"
proof -
  have seq: "usize_try_from (i64_wrapping_add (cr_version row) 1) = None \<longleftrightarrow>
      \<not> (0 \<le> cr_version row + 1 \<and> in_i64 (cr_version row + 1))"
    using assms by (rule usize_of_succ_None)
  show ?thesis
  proof (cases "\<exists>st. read_job_payload tr (cr_payload row) = Some (Live st) \<and> runnable st (cr_lease row) now")
    case False
    then show ?thesis by (auto simp: plan_claim_def split: option.splits lifecycle.splits)
  next
    case True
    then obtain st where st: "read_job_payload tr (cr_payload row) = Some (Live st)"
        "runnable st (cr_lease row) now" by blast
    obtain kind payload run_at attempt claims where
      parts: "claim_parts st = Some (kind, payload, run_at, attempt, claims)"
      using runnable_claim_parts [OF st(2)] by auto
    show ?thesis
    proof (cases "usize_try_from (i64_wrapping_add (cr_version row) 1)")
      case None
      then have "\<not> (0 \<le> cr_version row + 1 \<and> in_i64 (cr_version row + 1))" using seq by simp
      then show ?thesis using st parts None by (auto simp: plan_claim_def)
    next
      case (Some n)
      then have "0 \<le> cr_version row + 1 \<and> in_i64 (cr_version row + 1)"
        using seq by (metis option.distinct(1))
      then show ?thesis
        using st parts Some
        by (simp add: plan_claim_def plan_abandon_def i64_checked_add_def instant_from_millis_def
            del: usize_try_from_Some)
    qed
  qed
qed

theorem plan_claim_skips_iff_witness:
  "plan_claim (\<lambda>_. True) ''c1'' ''j'' (Some (sample_row\<lparr>cr_version := I64_MAX\<rparr>)) ''w'' 10 30 3 = Skip"
proof -
  have v: "in_i64 (cr_version (sample_row\<lparr>cr_version := I64_MAX\<rparr>))"
    by (simp add: i64_simps)
  show ?thesis
    unfolding plan_claim_skips_iff [OF v] by (simp add: in_i64_def)
qed

text \<open>
  \<open>is_first_execution\<close> is exact: for a claim planned on a row that is the
  fold of the job's stream (its version the stream's length), it answers true if and only if no earlier
  event of the stream is a claim, so no earlier run can have reached an external system.
\<close>

theorem first_execution_exact:
  assumes "job_fold evs = Live st" and "read_job_payload tr (cr_payload row) = Some (Live st)"
    and "cr_version row = int (length evs)" and "in_i64 (cr_version row)"
    and "plan_claim tr fresh job_id (Some row) worker now lease_ms budget = Claim ev cell until won"
    and "cx_claim_seq ctx = wc_claim_seq won"
  shows "is_first_execution ctx \<longleftrightarrow> \<not> list_ex is_claim evs"
proof -
  have "claim_parts st \<noteq> None" and "wc_claim_seq won = int (length evs) + 1"
    using assms(2,3) by (auto intro: plan_claim_Claim [OF assms(5,4)])
  then show ?thesis
    using first_claim_at_two [OF assms(1)] assms(6) by (auto simp: is_first_execution_def)
qed

theorem first_execution_exact_witness:
  "\<exists>ev cell won. plan_claim (\<lambda>_. True) ''c1'' ''j'' (Some sample_row) ''w'' 10 30 3 = Claim ev cell 40 won
     \<and> is_first_execution \<lparr>cx_job_id = ''j'', cx_claim_seq = wc_claim_seq won, cx_claim_id = ''c1'',
          cx_attempt = 0, cx_max_attempts = 5,
          cx_delivery = \<lparr>dl_retry_delay = 1, dl_refused_backoff = 2\<rparr>\<rparr>"
proof -
  have f: "job_fold [EvEnqueued ''mail'' JNull 5] = Live (StPending ''mail'' JNull 5 0 0)"
    by (simp add: job_fold_def)
  have r: "read_job_payload (\<lambda>_. True) (cr_payload sample_row) = Some (Live (StPending ''mail'' JNull 5 0 0))"
      "cr_version sample_row = int (length [EvEnqueued ''mail'' JNull 5])" "in_i64 (cr_version sample_row)"
    by (simp_all add: sample_row_def valid_ts_def i64_simps)
  obtain ev cell won where
    p: "plan_claim (\<lambda>_. True) ''c1'' ''j'' (Some sample_row) ''w'' 10 30 3 = Claim ev cell 40 won"
    using sample_row_plan by blast
  show ?thesis
    using first_execution_exact [OF f r p, of "\<lparr>cx_job_id = ''j'', cx_claim_seq = wc_claim_seq won,
        cx_claim_id = ''c1'', cx_attempt = 0, cx_max_attempts = 5,
        cx_delivery = \<lparr>dl_retry_delay = 1, dl_refused_backoff = 2\<rparr>\<rparr>"] p
    by simp
qed

text \<open>
  Preparing the buffered pushes loses none: on success there is one
  enqueue request per push, in order, with the push's id, kind and encoded payload; the buffer is
  untouched until the commit is marked, which removes exactly the prepared pushes and keeps any push
  buffered after them.
\<close>

theorem pending_pushes_retained:
  assumes "prepare_pending tr now_ns (Some pending) = Inr p"
  shows "map eq_job_id (snd (take_requests p)) = map pp_job_id pending
    \<and> map eq_kind (snd (take_requests p)) = map pp_kind pending
    \<and> map (Some \<circ> eq_payload) (snd (take_requests p)) = map pp_encode pending
    \<and> mark_committed (fst (take_requests p)) (Some (pending @ later)) = Some later"
proof -
  obtain reqs where c: "collect_results (prepare_push tr now_ns) pending = Inr reqs"
    and p: "p = \<lparr>pr_requests = reqs, pr_prepared_count = Some (length pending)\<rparr>"
    using assms by (auto simp: prepare_pending_def)
  have "map eq_job_id reqs = map pp_job_id pending \<and> map eq_kind reqs = map pp_kind pending
      \<and> map (Some \<circ> eq_payload) reqs = map pp_encode pending"
    using c unfolding collect_results_Inr
    by (induction rule: list_all2_induct) (auto simp: prepare_push_def)
  then show ?thesis by (simp add: p take_requests_def mark_committed_def)
qed

definition sample_push :: pending_push where
  "sample_push = \<lparr>pp_job_id = ''j'', pp_kind = ''mail'', pp_encode = Some JNull, pp_delay = None\<rparr>"

theorem pending_pushes_retained_witness:
  "\<exists>p. prepare_pending (\<lambda>_. True) 7000000 (Some [sample_push]) = Inr p
     \<and> mark_committed (fst (take_requests p)) (Some [sample_push, sample_push]) = Some [sample_push]"
proof -
  obtain p where p: "prepare_pending (\<lambda>_. True) 7000000 (Some [sample_push]) = Inr p"
    by (simp add: prepare_pending_def prepare_push_def sample_push_def resolve_run_at_ms_def)
  show ?thesis using pending_pushes_retained [OF p, of "[sample_push]"] p by auto
qed

end
