(* ===== verification/Engine.thy ===== *)
theory Engine
  imports Job
begin

text \<open>
  The serialized engine, \<open>engine.rs\<close>, with its two adapters \<open>sqlite_event_repository.rs\<close> (the cqrs-es
  repository that also flushes the pending jobs) and \<open>job_sqlite.rs\<close> (the job backend): guarded atomic
  commits of events, snapshot and jobs, opaque payload envelopes, bounded pages, snapshot writes, and
  the claim, renewal and enqueue transactions on the job queue. A transaction is a function to
  \<open>error + db\<close>; its error result stands for the rollback.
\<close>

section \<open>Requests and errors\<close>

record stream_identity =
  st_type :: string
  st_id :: string

definition identity_matches :: "stream_identity \<Rightarrow> serialized_event \<Rightarrow> bool" where
  "identity_matches stream ev \<longleftrightarrow> st_type stream = se_aggregate_type ev \<and> st_id stream = se_aggregate_id ev"

definition from_event :: "serialized_event \<Rightarrow> stream_identity" where
  "from_event ev = \<lparr>st_type = se_aggregate_type ev, st_id = se_aggregate_id ev\<rparr>"

record snapshot_update =
  su_aggregate :: json
  su_version :: nat

record snapshot_write =
  sw_aggregate :: json
  sw_last_sequence :: nat

record commit_request =
  cm_stream :: stream_identity
  cm_expected :: "nat option"
  cm_events :: "serialized_event list"
  cm_snapshot :: "snapshot_update option"
  cm_jobs :: "enqueue_request list"

record opaque_proposed_event =
  op_event_type :: string
  op_event_version :: string
  op_payload :: "8 word list"

record opaque_stored_event =
  os_sequence :: nat
  os_event_type :: string
  os_event_version :: string
  os_payload :: "8 word list"

record opaque_commit_request =
  oc_stream :: stream_identity
  oc_expected :: nat
  oc_events :: "opaque_proposed_event list"
  oc_jobs :: "enqueue_request list"

datatype engine_error =
    OptimisticLock
  | EmptySnapshotUpdate
  | SnapshotBeyondCurrentVersion nat nat
  | SnapshotVersionExhausted
  | StreamIdentityMismatch stream_identity stream_identity
  | EventPageTooLarge nat nat
  | ReservedMetadata string
  | OpaquePayloadVersion nat
  | EngSql sql_error
  | EngJson
  | EngInteger
  | JobFlush job_store_error

datatype sqlite_job_error =
    JobSql sql_error
  | JobAppend sqlite_aggregate_error
  | JobSequence
  | DuplicateEnqueue string

fun agg_to_engine :: "sqlite_aggregate_error \<Rightarrow> engine_error" where
  "agg_to_engine Agg_OptimisticLock = OptimisticLock"
| "agg_to_engine (Agg_Connection e) = EngSql e"
| "agg_to_engine Agg_Deserialization = EngJson"
| "agg_to_engine Agg_TryFromInt = EngInteger"
| "agg_to_engine Agg_EmptySnapshotUpdate = EmptySnapshotUpdate"

fun engine_to_persistence :: "engine_error \<Rightarrow> persistence_error" where
  "engine_to_persistence OptimisticLock = OptimisticLockError"
| "engine_to_persistence (EngSql e) = ConnectionError e"
| "engine_to_persistence EngJson = DeserializationError"
| "engine_to_persistence EngInteger = UnknownError Cause_TryFromInt"
| "engine_to_persistence _ = UnknownError Cause_Engine"

section \<open>Commit request builders\<close>

definition new_commit :: "stream_identity \<Rightarrow> serialized_event list \<Rightarrow> commit_request" where
  "new_commit stream evs = \<lparr>cm_stream = stream, cm_expected = None, cm_events = evs,
     cm_snapshot = None, cm_jobs = []\<rparr>"

definition at_expected_version :: "nat \<Rightarrow> commit_request \<Rightarrow> commit_request" where
  "at_expected_version v r = r\<lparr>cm_expected := Some v\<rparr>"

definition with_snapshot :: "snapshot_update \<Rightarrow> commit_request \<Rightarrow> engine_error + commit_request" where
  "with_snapshot snapshot r =
     (if cm_events r = [] then Inl EmptySnapshotUpdate else Inr (r\<lparr>cm_snapshot := Some snapshot\<rparr>))"

definition with_jobs :: "enqueue_request list \<Rightarrow> commit_request \<Rightarrow> commit_request" where
  "with_jobs jobs r = r\<lparr>cm_jobs := jobs\<rparr>"

section \<open>Version oracle and validation\<close>

definition committed_stream_version :: "stream_identity \<Rightarrow> db \<Rightarrow> engine_error + nat" where
  "committed_stream_version stream d =
     (let event_max = max_sequence (st_type stream) (st_id stream) (events d);
          covered = (case select_snapshot (st_type stream) (st_id stream) (snapshots d) of
                       None \<Rightarrow> 0 | Some r \<Rightarrow> sr_last_sequence r)
      in ok_or EngInteger (usize_try_from (max event_max covered)))"

definition current_version :: "stream_identity \<Rightarrow> db \<Rightarrow> engine_error + nat" where
  "current_version = committed_stream_version"

definition validate_event_stream ::
  "stream_identity \<Rightarrow> serialized_event list \<Rightarrow> engine_error + unit" where
  "validate_event_stream stream evs =
     (case List.find (\<lambda>e. \<not> identity_matches stream e) evs of
        None \<Rightarrow> Inr ()
      | Some e \<Rightarrow> Inl (StreamIdentityMismatch stream (from_event e)))"

definition follow_sequence :: "nat \<Rightarrow> nat \<Rightarrow> nat option" where
  "follow_sequence expected index =
     Option.bind (usize_checked_add expected index) (\<lambda>s. usize_checked_add s 1)"

definition events_follow_version :: "serialized_event list \<Rightarrow> nat \<Rightarrow> bool" where
  "events_follow_version evs expected =
     list_all (\<lambda>(index, e). follow_sequence expected index = Some (se_sequence e))
       (zip [0..<length evs] evs)"

section \<open>Commit\<close>

definition write_snapshot ::
  "stream_identity \<Rightarrow> nat \<Rightarrow> nat \<Rightarrow> json \<Rightarrow> db \<Rightarrow> engine_error + db" where
  "write_snapshot stream last_sequence snapshot_version aggregate d =
     bind_result (ok_or EngInteger (i64_try_from last_sequence)) (\<lambda>ls.
     bind_result (ok_or EngInteger (i64_try_from snapshot_version)) (\<lambda>sv.
       Inr (d\<lparr>snapshots := tbl_replace snap_pk
         \<lparr>sr_type = st_type stream, sr_id = st_id stream, sr_last_sequence = ls, sr_version = sv,
          sr_payload = to_text aggregate\<rparr> (snapshots d)\<rparr>)))"

text \<open>One iteration of the job loop: the \<open>Enqueued\<close> event and its queue row.\<close>

definition flush_job :: "(int \<Rightarrow> bool) \<Rightarrow> enqueue_request \<Rightarrow> db \<Rightarrow> engine_error + db" where
  "flush_job ts_range request d =
     bind_result (map_err JobFlush (enqueued_event ts_range request)) (\<lambda>event.
     bind_result (map_err agg_to_engine (insert_serialized_events_batch [event] (events d))) (\<lambda>rows.
     bind_result (map_err JobFlush (pending_seed_payload ts_range request)) (\<lambda>payload.
     bind_result (ok_or (EngSql UniqueViolation)
       (insert_view_stmt (eq_job_id request) 1 payload (job_queue d))) (\<lambda>queue.
       Inr (d\<lparr>events := rows, job_queue := queue\<rparr>)))))"

fun flush_jobs :: "(int \<Rightarrow> bool) \<Rightarrow> enqueue_request list \<Rightarrow> db \<Rightarrow> engine_error + db" where
  "flush_jobs ts_range [] d = Inr d"
| "flush_jobs ts_range (r # rs) d = bind_result (flush_job ts_range r d) (flush_jobs ts_range rs)"

definition check_expected :: "stream_identity \<Rightarrow> nat option \<Rightarrow> db \<Rightarrow> engine_error + unit" where
  "check_expected stream expected d =
     (case expected of
        None \<Rightarrow> Inr ()
      | Some e \<Rightarrow> bind_result (committed_stream_version stream d)
          (\<lambda>actual. if actual \<noteq> e then Inl OptimisticLock else Inr ()))"

definition commit_serialized :: "(int \<Rightarrow> bool) \<Rightarrow> commit_request \<Rightarrow> db \<Rightarrow> engine_error + db" where
  "commit_serialized ts_range request d =
     bind_result (validate_event_stream (cm_stream request) (cm_events request)) (\<lambda>_.
     if (case cm_expected request of None \<Rightarrow> False
         | Some expected \<Rightarrow> \<not> events_follow_version (cm_events request) expected)
     then Inl OptimisticLock else
     bind_result (check_expected (cm_stream request) (cm_expected request) d) (\<lambda>_.
     bind_result (map_err agg_to_engine
       (insert_serialized_events_batch (cm_events request) (events d))) (\<lambda>rows.
     bind_result (case cm_snapshot request of
         None \<Rightarrow> Inr (d\<lparr>events := rows\<rparr>)
       | Some snapshot \<Rightarrow>
           bind_result (if cm_events request = [] then Inl EmptySnapshotUpdate
                        else Inr (se_sequence (last (cm_events request)))) (\<lambda>last_sequence.
             write_snapshot (cm_stream request) last_sequence (su_version snapshot)
               (su_aggregate snapshot) (d\<lparr>events := rows\<rparr>))) (\<lambda>tx.
       flush_jobs ts_range (cm_jobs request) tx))))"

subsection \<open>Opaque payloads\<close>

definition ENGINE_PAYLOAD_PROVENANCE_KEY :: string where
  "ENGINE_PAYLOAD_PROVENANCE_KEY = ''$event-sorcery-engine-owned''"

definition ENGINE_PAYLOAD_PROVENANCE :: string where
  "ENGINE_PAYLOAD_PROVENANCE = ''opaque-v1''"

definition byte_to_json :: "8 word \<Rightarrow> json" where
  "byte_to_json b = JNumber (JInt (uint b))"

definition json_u8 :: "json \<Rightarrow> 8 word option" where
  "json_u8 j = (case json_int j of
     Some i \<Rightarrow> if 0 \<le> i \<and> i < 256 then Some (word_of_int i) else None
   | None \<Rightarrow> None)"

definition encode_opaque_payload :: "8 word list \<Rightarrow> json" where
  "encode_opaque_payload payload =
     JObject [(''$event-sorcery-engine-payload'',
       JObject [(''version'', JNumber (JInt 1)), (''bytes'', JArray (map byte_to_json payload))])]"

definition json_bytes :: "json \<Rightarrow> 8 word list option" where
  "json_bytes j = (case j of JArray js \<Rightarrow> those (map json_u8 js) | _ \<Rightarrow> None)"

definition decode_opaque_payload :: "json \<Rightarrow> engine_error + 8 word list" where
  "decode_opaque_payload payload =
     bind_result (ok_or EngJson (
       Option.bind (json_field ''$event-sorcery-engine-payload'' payload) (\<lambda>opaque.
       Option.bind (Option.bind (json_field ''version'' opaque) json_u8) (\<lambda>version.
       Option.bind (Option.bind (json_field ''bytes'' opaque) json_bytes) (\<lambda>bytes.
         Some (version, bytes)))))) (\<lambda>(version, bytes).
     if version \<noteq> 1 then Inl (OpaquePayloadVersion (unat version)) else Inr bytes)"

definition engine_payload_metadata :: json where
  "engine_payload_metadata = JObject [(ENGINE_PAYLOAD_PROVENANCE_KEY, JString ENGINE_PAYLOAD_PROVENANCE)]"

definition reserves_engine_payload :: "json \<Rightarrow> bool" where
  "reserves_engine_payload metadata =
     (case metadata of JObject kvs \<Rightarrow> ENGINE_PAYLOAD_PROVENANCE_KEY \<in> fst ` set kvs | _ \<Rightarrow> False)"

definition has_engine_payload_provenance :: "json \<Rightarrow> bool" where
  "has_engine_payload_provenance metadata =
     (case metadata of
        JObject kvs \<Rightarrow>
          length kvs = 1
          \<and> (case map_of kvs ENGINE_PAYLOAD_PROVENANCE_KEY of
               Some (JString p) \<Rightarrow> p = ENGINE_PAYLOAD_PROVENANCE
             | _ \<Rightarrow> False)
      | _ \<Rightarrow> False)"

text \<open>\<open>to_vec\<close> is \<open>serde_json::to_vec\<close>, the rendering of a stored JSON payload as bytes.\<close>

definition decode_opaque_event ::
  "(json \<Rightarrow> 8 word list) \<Rightarrow> serialized_event \<Rightarrow> engine_error + opaque_stored_event" where
  "decode_opaque_event to_vec ev =
     bind_result (if has_engine_payload_provenance (se_metadata ev)
                  then decode_opaque_payload (se_payload ev)
                  else Inr (to_vec (se_payload ev))) (\<lambda>payload.
       Inr \<lparr>os_sequence = se_sequence ev, os_event_type = se_event_type ev,
            os_event_version = se_event_version ev, os_payload = payload\<rparr>)"

definition serialize_opaque ::
  "stream_identity \<Rightarrow> nat \<Rightarrow> nat \<times> opaque_proposed_event \<Rightarrow> engine_error + serialized_event" where
  "serialize_opaque stream expected_version p =
     (let (index, ev) = p in
      bind_result (ok_or OptimisticLock (follow_sequence expected_version index)) (\<lambda>sequence.
        Inr \<lparr>se_aggregate_id = st_id stream, se_sequence = sequence, se_aggregate_type = st_type stream,
             se_event_type = op_event_type ev, se_event_version = op_event_version ev,
             se_payload = encode_opaque_payload (op_payload ev),
             se_metadata = engine_payload_metadata\<rparr>))"

definition commit :: "(int \<Rightarrow> bool) \<Rightarrow> commit_request \<Rightarrow> db \<Rightarrow> engine_error + db" where
  "commit ts_range request d =
     (if list_ex (\<lambda>e. reserves_engine_payload (se_metadata e)) (cm_events request)
      then Inl (ReservedMetadata ENGINE_PAYLOAD_PROVENANCE_KEY)
      else commit_serialized ts_range request d)"

definition commit_opaque :: "(int \<Rightarrow> bool) \<Rightarrow> opaque_commit_request \<Rightarrow> db \<Rightarrow> engine_error + db" where
  "commit_opaque ts_range request d =
     bind_result (collect_results (serialize_opaque (oc_stream request) (oc_expected request))
       (zip [0..<length (oc_events request)] (oc_events request))) (\<lambda>evs.
     commit_serialized ts_range
       (with_jobs (oc_jobs request)
         (at_expected_version (oc_expected request) (new_commit (oc_stream request) evs))) d)"

section \<open>Reads\<close>

definition map_rows :: "event_row list \<Rightarrow> engine_error + serialized_event list" where
  "map_rows rows = collect_results (\<lambda>r. map_err agg_to_engine (row_to_serialized_event r)) rows"

definition rows_after ::
  "stream_identity \<Rightarrow> nat option \<Rightarrow> db \<Rightarrow> engine_error + event_row list" where
  "rows_after stream after_sequence d =
     (case after_sequence of
        None \<Rightarrow> Inr (select_events (st_type stream) (st_id stream) (events d))
      | Some s \<Rightarrow> bind_result (ok_or EngInteger (i64_try_from s)) (\<lambda>s'.
          Inr (get_last_events (st_type stream) (st_id stream) s' (events d))))"

definition load_events_on ::
  "stream_identity \<Rightarrow> nat option \<Rightarrow> db \<Rightarrow> engine_error + serialized_event list" where
  "load_events_on stream after_sequence d = bind_result (rows_after stream after_sequence d) map_rows"

definition load_events_page ::
  "stream_identity \<Rightarrow> nat option \<Rightarrow> nat \<Rightarrow> db \<Rightarrow> engine_error + serialized_event list" where
  "load_events_page stream after_sequence limit d =
     bind_result (ok_or EngInteger (i64_try_from limit)) (\<lambda>l.
     bind_result (rows_after stream after_sequence d) (\<lambda>rows. map_rows (limit_rows l rows)))"

text \<open>\<open>cell_len\<close> is \<open>length(CAST(cell AS BLOB))\<close>, the byte length of a stored JSON cell.\<close>

definition storage_bytes :: "(text_cell \<Rightarrow> nat) \<Rightarrow> event_row \<Rightarrow> nat" where
  "storage_bytes cell_len r = length (er_type r) + length (er_id r) + 8 + length (er_event_type r)
     + length (er_event_version r) + cell_len (er_payload r) + cell_len (er_metadata r)"

definition load_events_page_bounded ::
  "(text_cell \<Rightarrow> nat) \<Rightarrow> stream_identity \<Rightarrow> nat option \<Rightarrow> nat \<Rightarrow> nat \<Rightarrow> db
     \<Rightarrow> engine_error + serialized_event list" where
  "load_events_page_bounded cell_len stream after_sequence item_limit byte_limit d =
     bind_result (ok_or EngInteger (i64_try_from item_limit)) (\<lambda>l.
     bind_result (rows_after stream after_sequence d) (\<lambda>rows.
       let page = limit_rows l rows; observed = sum_list (map (storage_bytes cell_len) page)
       in if observed > byte_limit then Inl (EventPageTooLarge observed byte_limit)
          else map_rows page))"

definition load_opaque_events_page_bounded ::
  "(json \<Rightarrow> 8 word list) \<Rightarrow> (text_cell \<Rightarrow> nat) \<Rightarrow> stream_identity \<Rightarrow> nat option \<Rightarrow> nat \<Rightarrow> nat \<Rightarrow> db
     \<Rightarrow> engine_error + opaque_stored_event list" where
  "load_opaque_events_page_bounded to_vec cell_len stream after_sequence item_limit byte_limit d =
     bind_result (load_events_page_bounded cell_len stream after_sequence item_limit byte_limit d)
       (collect_results (decode_opaque_event to_vec))"

fun feed_engine_rows :: "event_row list \<Rightarrow> (persistence_error + serialized_event) list" where
  "feed_engine_rows [] = []"
| "feed_engine_rows (r # rs) =
     (case map_err agg_to_engine (row_to_serialized_event r) of
        Inl e \<Rightarrow> [Inl (engine_to_persistence e)]
      | Inr ev \<Rightarrow> Inr ev # feed_engine_rows rs)"

definition engine_stream_events ::
  "string \<Rightarrow> string option \<Rightarrow> db \<Rightarrow> (persistence_error + serialized_event) list" where
  "engine_stream_events ty i d =
     feed_engine_rows
       (case i of Some i' \<Rightarrow> select_events ty i' (events d) | None \<Rightarrow> all_events ty (events d))"

section \<open>Snapshots\<close>

definition load_snapshot_on ::
  "stream_identity \<Rightarrow> db \<Rightarrow> engine_error + serialized_snapshot option" where
  "load_snapshot_on stream d =
     (case select_snapshot (st_type stream) (st_id stream) (snapshots d) of
        None \<Rightarrow> Inr None
      | Some r \<Rightarrow>
          bind_result (ok_or EngJson (from_text (sr_payload r))) (\<lambda>aggregate.
          bind_result (ok_or EngInteger (usize_try_from (sr_last_sequence r))) (\<lambda>current_sequence.
          bind_result (ok_or EngInteger (usize_try_from (sr_version r))) (\<lambda>current_snapshot.
            Inr (Some \<lparr>ss_aggregate_id = sr_id r, ss_aggregate = aggregate,
                       ss_current_sequence = current_sequence,
                       ss_current_snapshot = current_snapshot\<rparr>)))))"

definition store_snapshot ::
  "stream_identity \<Rightarrow> snapshot_write \<Rightarrow> db \<Rightarrow> engine_error + nat \<times> db" where
  "store_snapshot stream snapshot d =
     bind_result (committed_stream_version stream d) (\<lambda>current_sequence.
     if current_sequence = 0 then Inl EmptySnapshotUpdate else
     if sw_last_sequence snapshot > current_sequence
     then Inl (SnapshotBeyondCurrentVersion (sw_last_sequence snapshot) current_sequence) else
     bind_result (load_snapshot_on stream d) (\<lambda>stored.
     if (case stored of None \<Rightarrow> False | Some cur \<Rightarrow> ss_current_sequence cur > sw_last_sequence snapshot)
     then Inl OptimisticLock else
     bind_result (case stored of None \<Rightarrow> Inr 1
                  | Some cur \<Rightarrow> ok_or SnapshotVersionExhausted
                      (usize_checked_add (ss_current_snapshot cur) 1)) (\<lambda>snapshot_version.
     bind_result (write_snapshot stream (sw_last_sequence snapshot) snapshot_version
                    (sw_aggregate snapshot) d) (\<lambda>d'.
       Inr (snapshot_version, d')))))"

definition discard_snapshot :: "stream_identity \<Rightarrow> db \<Rightarrow> db" where
  "discard_snapshot stream d =
     d\<lparr>snapshots := tbl_delete (\<lambda>r. snap_pk r = (st_type stream, st_id stream)) (snapshots d)\<rparr>"

section \<open>Job transactions\<close>

text \<open>The generated columns of \<open>job_queue\<close>: \<open>json_extract\<close> and \<open>json_type\<close> paths into the payload.\<close>

definition json_sql :: "json option \<Rightarrow> sql_value" where
  "json_sql v = (case v of
     Some (JNumber (JInt i)) \<Rightarrow> SqlInt i
   | Some (JString s) \<Rightarrow> SqlText s
   | Some (JBool b) \<Rightarrow> SqlInt (if b then 1 else 0)
   | _ \<Rightarrow> SqlNull)"

definition coalesce :: "sql_value \<Rightarrow> sql_value \<Rightarrow> sql_value" where
  "coalesce a b = (if a = SqlNull then b else a)"

definition payload_path :: "view_row \<Rightarrow> string list \<Rightarrow> json option" where
  "payload_path r path = Option.bind (from_text (vw_payload r)) (json_path path)"

definition col_kind :: "view_row \<Rightarrow> sql_value" where
  "col_kind r = coalesce (json_sql (payload_path r [''Live'', ''Pending'', ''kind'']))
                         (json_sql (payload_path r [''Live'', ''Claimed'', ''kind'']))"

definition col_status :: "view_row \<Rightarrow> sql_value" where
  "col_status r =
     (if payload_path r [''Live'', ''Pending''] \<noteq> None then SqlText ''pending''
      else if payload_path r [''Live'', ''Claimed''] \<noteq> None then SqlText ''claimed''
      else if payload_path r [''Live''] = Some (JString ''Done'') then SqlText ''done''
      else if payload_path r [''Live'', ''Dead''] \<noteq> None then SqlText ''dead''
      else SqlNull)"

definition col_run_at :: "view_row \<Rightarrow> sql_value" where
  "col_run_at r = coalesce (json_sql (payload_path r [''Live'', ''Pending'', ''run_at'']))
                           (json_sql (payload_path r [''Live'', ''Claimed'', ''run_at'']))"

definition job_column :: "view_row \<Rightarrow> string \<Rightarrow> sql_value" where
  "job_column r c =
     (if c = ''view_id'' then SqlText (vw_id r)
      else if c = ''version'' then SqlInt (vw_version r)
      else if c = ''lease_until'' then (case vw_lease r of None \<Rightarrow> SqlNull | Some l \<Rightarrow> SqlInt l)
      else if c = ''kind'' then col_kind r
      else if c = ''status'' then col_status r
      else if c = ''run_at'' then col_run_at r
      else SqlNull)"

definition read_job_projection_for_claim :: "string \<Rightarrow> db \<Rightarrow> claim_read option" where
  "read_job_projection_for_claim job_id d =
     map_option (\<lambda>r. \<lparr>cr_version = vw_version r, cr_payload = vw_payload r, cr_lease = vw_lease r\<rparr>)
       (tbl_get vw_id job_id (job_queue d))"

text \<open>\<open>None\<close> is the uniqueness conflict; the written sequence otherwise.\<close>

definition append_job_event :: "serialized_event \<Rightarrow> db \<Rightarrow> sqlite_job_error + (int \<times> db) option" where
  "append_job_event ev d =
     (case insert_serialized_events_batch [ev] (events d) of
        Inr rows \<Rightarrow> bind_result (ok_or JobSequence (i64_try_from (se_sequence ev)))
          (\<lambda>version. Inr (Some (version, d\<lparr>events := rows\<rparr>)))
      | Inl Agg_OptimisticLock \<Rightarrow> Inr None
      | Inl other \<Rightarrow> Inl (JobAppend other))"

definition write_job_projection :: "string \<Rightarrow> int \<Rightarrow> text_cell \<Rightarrow> int option \<Rightarrow> db \<Rightarrow> db" where
  "write_job_projection job_id version payload lease d =
     d\<lparr>job_queue := tbl_upsert vw_id
       \<lparr>vw_id = job_id, vw_version = version, vw_payload = payload, vw_lease = lease\<rparr> (job_queue d)\<rparr>"

definition claim_job_in_transaction ::
  "string \<Rightarrow> (claim_read option \<Rightarrow> 'won claim_decision) \<Rightarrow> db
     \<Rightarrow> sqlite_job_error + 'won claim_outcome \<times> db" where
  "claim_job_in_transaction job_id plan d =
     (case plan (read_job_projection_for_claim job_id d) of
        Skip \<Rightarrow> Inr (Skipped, d)
      | Claim event payload lease_until_ms won \<Rightarrow>
          bind_result (append_job_event event d) (\<lambda>appended.
            Inr (case appended of
                   Some (version, tx) \<Rightarrow>
                     (Won won, write_job_projection job_id version payload (Some lease_until_ms) tx)
                 | None \<Rightarrow> (Contended, d)))
      | Abandon event payload \<Rightarrow>
          bind_result (append_job_event event d) (\<lambda>appended.
            Inr (case appended of
                   Some (version, tx) \<Rightarrow>
                     (AbandonedOutcome, write_job_projection job_id version payload None tx)
                 | None \<Rightarrow> (Contended, d))))"

text \<open>\<open>BEGIN IMMEDIATE\<close>: the operation decides whether what it wrote is kept; an error rolls back.\<close>

datatype 'o transaction_outcome = TxCommit 'o | TxRollback 'o

definition immediate_transaction ::
  "(db \<Rightarrow> sqlite_job_error + 'o transaction_outcome \<times> db) \<Rightarrow> db \<Rightarrow> sqlite_job_error + 'o \<times> db" where
  "immediate_transaction operation d =
     (case operation d of
        Inr (TxCommit output, tx) \<Rightarrow> Inr (output, tx)
      | Inr (TxRollback output, tx) \<Rightarrow> Inr (output, d)
      | Inl claim_error \<Rightarrow> Inl claim_error)"

definition claim_job ::
  "string \<Rightarrow> (claim_read option \<Rightarrow> 'won claim_decision) \<Rightarrow> db
     \<Rightarrow> sqlite_job_error + 'won claim_outcome \<times> db" where
  "claim_job job_id plan d =
     immediate_transaction (\<lambda>connection.
       bind_result (claim_job_in_transaction job_id plan connection) (\<lambda>(outcome, tx).
         Inr (case outcome of
                Won won \<Rightarrow> (TxCommit (Won won), tx)
              | AbandonedOutcome \<Rightarrow> (TxCommit AbandonedOutcome, tx)
              | Contended \<Rightarrow> (TxRollback Contended, tx)
              | Skipped \<Rightarrow> (TxRollback Skipped, tx)))) d"

definition renew_job :: "string \<Rightarrow> int \<Rightarrow> int \<Rightarrow> db \<Rightarrow> lease_renewal \<times> db" where
  "renew_job job_id claim_seq new_lease_until_ms d =
     (let hit = (\<lambda>r. vw_id r = job_id \<and> vw_version r = claim_seq \<and> col_status r = SqlText ''claimed'')
      in if list_ex hit (job_queue d)
         then (Held, d\<lparr>job_queue :=
                map (\<lambda>r. if hit r then r\<lparr>vw_lease := Some new_lease_until_ms\<rparr> else r) (job_queue d)\<rparr>)
         else (Lost, d))"

definition enqueue_job :: "serialized_event \<Rightarrow> text_cell \<Rightarrow> db \<Rightarrow> sqlite_job_error + db" where
  "enqueue_job event payload d =
     bind_result (append_job_event event d) (\<lambda>appended.
       case appended of
         Some (version, tx) \<Rightarrow>
           Inr (write_job_projection (se_aggregate_id event) version payload None tx)
       | None \<Rightarrow> Inl (DuplicateEnqueue (se_aggregate_id event)))"

section \<open>The event repository (sqlite_event_repository.rs)\<close>

definition repo_get_events ::
  "string \<Rightarrow> string \<Rightarrow> db \<Rightarrow> persistence_error + serialized_event list" where
  "repo_get_events ty i d = map_err engine_to_persistence (load_events_on \<lparr>st_type = ty, st_id = i\<rparr> None d)"

definition repo_get_last_events ::
  "string \<Rightarrow> string \<Rightarrow> nat \<Rightarrow> db \<Rightarrow> persistence_error + serialized_event list" where
  "repo_get_last_events ty i s d =
     map_err engine_to_persistence (load_events_on \<lparr>st_type = ty, st_id = i\<rparr> (Some s) d)"

text \<open>\<open>decodes\<close> is whether \<open>A::deserialize\<close> accepts the stored aggregate.\<close>

definition repo_get_snapshot ::
  "compaction_policy \<Rightarrow> (json \<Rightarrow> bool) \<Rightarrow> string \<Rightarrow> string \<Rightarrow> db
     \<Rightarrow> persistence_error + serialized_snapshot option" where
  "repo_get_snapshot policy decodes ty i d =
     bind_result (map_err engine_to_persistence (load_snapshot_on \<lparr>st_type = ty, st_id = i\<rparr> d)) (\<lambda>snapshot.
       case snapshot of
         None \<Rightarrow> Inr None
       | Some s \<Rightarrow>
           (case policy of
              Retain \<Rightarrow> Inr (Some s)
            | CompactAfterSnapshot \<Rightarrow>
                if decodes (ss_aggregate s) then Inr (Some s)
                else Inl (engine_to_persistence EngJson)))"

text \<open>The first component is the command scope afterwards; it only changes when the commit succeeds.\<close>

definition repo_persist ::
  "(int \<Rightarrow> bool) \<Rightarrow> int \<Rightarrow> string \<Rightarrow> serialized_event list \<Rightarrow> (string \<times> json \<times> nat) option
     \<Rightarrow> pending_scope \<Rightarrow> db \<Rightarrow> pending_scope \<times> (persistence_error + db)" where
  "repo_persist ts_range now_ns ty evs snapshot_update scope d =
     (let aggregate_id = (case snapshot_update of
            None \<Rightarrow> (case evs of [] \<Rightarrow> [] | e # _ \<Rightarrow> se_aggregate_id e)
          | Some (i, _, _) \<Rightarrow> i);
          stream = \<lparr>st_type = ty, st_id = aggregate_id\<rparr>
      in case prepare_pending ts_range now_ns scope of
           Inl e \<Rightarrow> (scope, Inl (engine_to_persistence (JobFlush e)))
         | Inr prepared \<Rightarrow>
             (let (prepared', requests) = take_requests prepared;
                  request = with_jobs requests (new_commit stream evs)
              in case (case snapshot_update of
                         None \<Rightarrow> Inr request
                       | Some (_, aggregate, snapshot_version) \<Rightarrow>
                           with_snapshot \<lparr>su_aggregate = aggregate, su_version = snapshot_version\<rparr> request) of
                   Inl e \<Rightarrow> (scope, Inl (engine_to_persistence e))
                 | Inr request' \<Rightarrow>
                     (case commit ts_range request' d of
                        Inl e \<Rightarrow> (scope, Inl (engine_to_persistence e))
                      | Inr d' \<Rightarrow> (mark_committed prepared' scope, Inr d'))))"

lemma claim_job_unfold:
  "claim_job job_id plan d =
     bind_result (claim_job_in_transaction job_id plan d) (\<lambda>(outcome, tx).
       Inr (case outcome of
              Won won \<Rightarrow> (Won won, tx)
            | AbandonedOutcome \<Rightarrow> (AbandonedOutcome, tx)
            | Contended \<Rightarrow> (Contended, d)
            | Skipped \<Rightarrow> (Skipped, d)))"
  by (cases "claim_job_in_transaction job_id plan d")
    (auto simp: claim_job_def immediate_transaction_def split: claim_outcome.splits)

text \<open>The definitions a commit through the repository runs through, for evaluating one.\<close>

lemmas commit_path = repo_persist_def prepare_pending_def take_requests_def with_jobs_def new_commit_def commit_def
  commit_serialized_def validate_event_stream_def identity_matches_def check_expected_def

section \<open>What the job flush writes\<close>

definition enqueued_of :: "enqueue_request \<Rightarrow> serialized_event" where
  "enqueued_of r = serialized (EvEnqueued (eq_kind r) (eq_payload r) (eq_run_at_ms r)) (eq_job_id r) 1"

definition seed_row :: "enqueue_request \<Rightarrow> view_row" where
  "seed_row r = \<lparr>vw_id = eq_job_id r, vw_version = 1,
     vw_payload = job_payload (Live (StPending (eq_kind r) (eq_payload r) (eq_run_at_ms r) 0 0)),
     vw_lease = None\<rparr>"

lemma serialized_sel [simp]:
  "se_aggregate_id (serialized e j n) = j" "se_sequence (serialized e j n) = n"
  "se_aggregate_type (serialized e j n) = JOB_AGGREGATE_TYPE"
  "se_payload (serialized e j n) = job_event_to_json e"
  by (simp_all add: serialized_def)

lemma seq_fits_enqueued [simp]: "seq_fits (enqueued_of r)"
  by (simp add: seq_fits_def enqueued_of_def I64_MAX_def)

lemma enqueued_event_eq:
  "enqueued_event tr r = (if tr (eq_run_at_ms r) then Inr (enqueued_of r)
     else Inl (InvalidInstant (eq_run_at_ms r)))"
  by (simp add: enqueued_event_def instant_from_millis_def enqueued_of_def)

lemma pending_seed_payload_eq:
  "pending_seed_payload tr r = (if tr (eq_run_at_ms r) then Inr (vw_payload (seed_row r))
     else Inl (InvalidInstant (eq_run_at_ms r)))"
  by (simp add: pending_seed_payload_def instant_from_millis_def seed_row_def)

lemma insert_seed_row:
  "insert_view_stmt (eq_job_id r) 1 (vw_payload (seed_row r)) rows =
     (if eq_job_id r \<in> vw_id ` set rows then None else Some (rows @ [seed_row r]))"
  by (simp add: insert_view_stmt_def tbl_insert_def seed_row_def)

lemma flush_job_Inr:
  "flush_job tr r d = Inr d' \<longleftrightarrow>
     tr (eq_run_at_ms r)
     \<and> event_pk (event_row_of (enqueued_of r)) \<notin> event_pk ` set (events d)
     \<and> eq_job_id r \<notin> vw_id ` set (job_queue d)
     \<and> d' = d\<lparr>events := events d @ [event_row_of (enqueued_of r)], job_queue := job_queue d @ [seed_row r]\<rparr>"
  by (auto simp: flush_job_def enqueued_event_eq pending_seed_payload_eq insert_seed_row
      insert_batch_single split: if_splits)

lemma flush_jobs_Inr:
  "flush_jobs tr rs d = Inr d' \<Longrightarrow>
     (\<forall>r \<in> set rs. tr (eq_run_at_ms r))
     \<and> d' = d\<lparr>events := events d @ map (\<lambda>r. event_row_of (enqueued_of r)) rs,
              job_queue := job_queue d @ map seed_row rs\<rparr>"
proof (induction rs arbitrary: d)
  case (Cons r rs)
  then obtain d1 where "flush_job tr r d = Inr d1" and "flush_jobs tr rs d1 = Inr d'" by auto
  then show ?case using Cons.IH [of d1] by (auto simp: flush_job_Inr)
qed simp

lemma seed_row_id [simp]: "vw_id (seed_row r) = eq_job_id r"
  by (simp add: seed_row_def)

lemma flush_jobs_unique:
  "flush_jobs tr rs d = Inr d' \<Longrightarrow> db_keys_unique d \<Longrightarrow> db_keys_unique d'"
proof (induction rs arbitrary: d)
  case (Cons r rs)
  then obtain d1 where d1: "flush_job tr r d = Inr d1" and "flush_jobs tr rs d1 = Inr d'" by auto
  moreover have "db_keys_unique d1"
    using d1 Cons.prems(2) by (auto simp: flush_job_Inr db_keys_unique_def tbl_unique_def)
  ultimately show ?case using Cons.IH by blast
qed simp

section \<open>Versions\<close>

lemma committed_stream_version_Inr:
  "committed_stream_version stream d = Inr v \<longleftrightarrow>
     int v = max (max_sequence (st_type stream) (st_id stream) (events d))
       (case select_snapshot (st_type stream) (st_id stream) (snapshots d) of
          None \<Rightarrow> 0 | Some r \<Rightarrow> sr_last_sequence r)
     \<and> v \<le> USIZE_MAX"
  by (auto simp: committed_stream_version_def Let_def)

lemma follow_sequence_Some: "follow_sequence e i = Some s \<Longrightarrow> s = e + i + 1"
  by (auto simp: follow_sequence_def bind_eq_Some_conv)

lemma events_follow_nth:
  assumes "events_follow_version evs v" and "k < length evs"
  shows "se_sequence (evs ! k) = v + k + 1"
proof -
  have "(k, evs ! k) \<in> set (zip [0..<length evs] evs)"
    using assms(2) by (force simp: in_set_zip)
  then have "follow_sequence v k = Some (se_sequence (evs ! k))"
    using assms(1) unfolding events_follow_version_def list_all_iff by fastforce
  then show ?thesis by (rule follow_sequence_Some)
qed

lemma events_follow_sorted: "events_follow_version evs v \<Longrightarrow> sorted (map se_sequence evs)"
  by (auto simp: sorted_iff_nth_mono events_follow_nth)

lemma events_follow_bounds:
  "events_follow_version evs v \<Longrightarrow> e \<in> set evs \<Longrightarrow> v < se_sequence e \<and> se_sequence e \<le> v + length evs"
  by (auto simp: in_set_conv_nth events_follow_nth)

lemma events_follow_last:
  "events_follow_version evs v \<Longrightarrow> evs \<noteq> [] \<Longrightarrow> se_sequence (last evs) = v + length evs"
  by (simp add: last_conv_nth events_follow_nth)

section \<open>What a commit writes\<close>

lemma validate_event_stream_Inr:
  "validate_event_stream stream evs = Inr u \<longleftrightarrow> (\<forall>e \<in> set evs. identity_matches stream e)"
  unfolding validate_event_stream_def by (induction evs) auto

lemma write_snapshot_Inr:
  "write_snapshot stream ls sv a d = Inr d' \<longleftrightarrow>
     int ls \<le> I64_MAX \<and> int sv \<le> I64_MAX
     \<and> d' = d\<lparr>snapshots := tbl_replace snap_pk
         \<lparr>sr_type = st_type stream, sr_id = st_id stream, sr_last_sequence = int ls,
          sr_version = int sv, sr_payload = to_text a\<rparr> (snapshots d)\<rparr>"
  by (auto simp: write_snapshot_def)

definition snapshot_row_of :: "commit_request \<Rightarrow> snapshot_update \<Rightarrow> snapshot_row" where
  "snapshot_row_of r s = \<lparr>sr_type = st_type (cm_stream r), sr_id = st_id (cm_stream r),
     sr_last_sequence = int (se_sequence (last (cm_events r))), sr_version = int (su_version s),
     sr_payload = to_text (su_aggregate s)\<rparr>"

definition committed_db :: "commit_request \<Rightarrow> db \<Rightarrow> db" where
  "committed_db r d =
     d\<lparr>events := events d @ map event_row_of (cm_events r @ map enqueued_of (cm_jobs r)),
       snapshots := (case cm_snapshot r of None \<Rightarrow> snapshots d
                     | Some s \<Rightarrow> tbl_replace snap_pk (snapshot_row_of r s) (snapshots d)),
       job_queue := job_queue d @ map seed_row (cm_jobs r)\<rparr>"

lemma commit_serialized_Inr:
  assumes "commit_serialized tr r d = Inr d'"
  shows "d' = committed_db r d" "\<forall>e \<in> set (cm_events r). identity_matches (cm_stream r) e \<and> seq_fits e"
    "cm_snapshot r \<noteq> None \<Longrightarrow> cm_events r \<noteq> []"
    "cm_expected r = Some v \<Longrightarrow> events_follow_version (cm_events r) v
       \<and> committed_stream_version (cm_stream r) d = Inr v"
    "\<forall>j \<in> set (cm_jobs r). tr (eq_run_at_ms j)"
  using assms
  by (auto simp: commit_serialized_def check_expected_def validate_event_stream_Inr insert_batch_Inr
      tbl_insert_all_Some write_snapshot_Inr committed_db_def snapshot_row_of_def comp_def
      dest!: flush_jobs_Inr split: option.splits if_splits)

lemma commit_serialized_unique:
  assumes "commit_serialized tr r d = Inr d'" and "db_keys_unique d"
  shows "db_keys_unique d'"
proof -
  from assms(1) obtain rows tx where
    rows: "insert_serialized_events_batch (cm_events r) (events d) = Inr rows"
    and tx: "tx = d\<lparr>events := rows\<rparr> \<or> (\<exists>row. tx = d\<lparr>events := rows, snapshots := tbl_replace snap_pk row (snapshots d)\<rparr>)"
    and flush: "flush_jobs tr (cm_jobs r) tx = Inr d'"
    by (auto simp: commit_serialized_def write_snapshot_Inr split: if_splits option.splits)
  have "db_keys_unique tx"
    using tx assms(2) insert_batch_unique [OF rows]
    by (auto simp: db_keys_unique_def snap.invar_put)
  then show ?thesis using flush flush_jobs_unique by blast
qed

section \<open>Reading back\<close>

lemma collect_results_map_err:
  "collect_results (\<lambda>x. map_err f (g x)) xs = map_err f (collect_results g xs)"
proof (induction xs)
  case (Cons x xs)
  then show ?case by (cases "g x"; cases "collect_results g xs") simp_all
qed simp

lemma load_events_on_None:
  "load_events_on stream None d = map_err agg_to_engine (load_events (st_type stream) (st_id stream) d)"
  by (simp add: load_events_on_def rows_after_def map_rows_def load_events_def collect_results_map_err)

lemma version_bounds_events:
  assumes "committed_stream_version stream d = Inr v"
    and "r \<in> set (events d)" and "in_stream (st_type stream) (st_id stream) r"
  shows "er_seq r \<le> int v"
  using assms max_sequence_ge [OF assms(2,3)] by (auto simp: committed_stream_version_Inr)

lemma in_stream_event_row [simp]:
  "in_stream ty i (event_row_of e) \<longleftrightarrow> se_aggregate_type e = ty \<and> se_aggregate_id e = i"
  by (simp add: in_stream_def)

lemma enqueued_of_sel [simp]:
  "se_aggregate_type (enqueued_of r) = JOB_AGGREGATE_TYPE" "se_aggregate_id (enqueued_of r) = eq_job_id r"
  "se_sequence (enqueued_of r) = 1"
  by (simp_all add: enqueued_of_def)

lemma list_all2_origin: "list_all2 P xs ys \<Longrightarrow> y \<in> set ys \<Longrightarrow> \<exists>x \<in> set xs. P x y"
  by (induction rule: list_all2_induct) auto

lemma load_events_origin:
  assumes "load_events ty i d = Inr old" and "u \<in> set old"
  shows "\<exists>r \<in> set (events d). in_stream ty i r \<and> row_to_serialized_event r = Inr u"
  using list_all2_origin [OF assms(1) [unfolded load_events_def collect_results_Inr] assms(2)]
  by (auto simp: set_select_events)

text \<open>A domain stream: its commits cannot collide with the job streams they seed.\<close>

definition domain_stream :: "stream_identity \<Rightarrow> bool" where
  "domain_stream stream \<longleftrightarrow> st_type stream \<noteq> JOB_AGGREGATE_TYPE"

lemma commit_load:
  assumes "commit_serialized tr r d = Inr d'" and "domain_stream (cm_stream r)"
    and "cm_expected r = Some v" and "load_events_on (cm_stream r) None d = Inr old"
  shows "load_events_on (cm_stream r) None d' = Inr (old @ cm_events r)"
proof -
  let ?ty = "st_type (cm_stream r)" and ?i = "st_id (cm_stream r)"
  let ?mid = "d\<lparr>events := events d @ map event_row_of (cm_events r)\<rparr>"
  note c = commit_serialized_Inr [OF assms(1)]
  note guard = c(4) [OF assms(3)]
  have old: "load_events ?ty ?i d = Inr old" using assms(4) by (simp add: load_events_on_None)
  have below: "se_sequence u \<le> se_sequence e" if u: "u \<in> set old" and e: "e \<in> set (cm_events r)" for u e
  proof -
    obtain row where "row \<in> set (events d)" "in_stream ?ty ?i row" "er_seq row = int (se_sequence u)"
      using load_events_origin [OF old u] by (auto dest: row_to_serialized_event_seq)
    then have "int (se_sequence u) \<le> int v" using version_bounds_events [of _ d v] guard by metis
    moreover have "v < se_sequence e" using events_follow_bounds guard e by blast
    ultimately show ?thesis by simp
  qed
  have "load_events ?ty ?i ?mid = Inr (old @ cm_events r)"
    using load_events_appended [OF old, of ?mid "cm_events r"] c(2) below guard
    by (auto simp: identity_matches_def events_follow_sorted)
  moreover have "load_events ?ty ?i d' = load_events ?ty ?i ?mid"
    using load_events_frame [of d' ?mid "map enqueued_of (cm_jobs r)" ?ty ?i] c(1) assms(2)
    by (auto simp: committed_db_def domain_stream_def)
  ultimately show ?thesis by (simp add: load_events_on_None)
qed

lemma select_snapshot_replace:
  "select_snapshot ty i (tbl_replace snap_pk row rows) =
     (if (ty, i) = snap_pk row then Some row else select_snapshot ty i rows)"
  by (simp add: select_snapshot_def snap.get_put)

lemma committed_events: 
  "events (committed_db r d) = events d @ map event_row_of (cm_events r @ map enqueued_of (cm_jobs r))"
  by (simp add: committed_db_def)

lemma commit_row_bound:
  assumes "commit_serialized tr r d = Inr d'" and "domain_stream (cm_stream r)"
    and "cm_expected r = Some v" and "x \<in> set (events d')"
    and "in_stream (st_type (cm_stream r)) (st_id (cm_stream r)) x"
  shows "er_seq x \<le> int (v + length (cm_events r))"
proof (cases "x \<in> set (events d)")
  case True
  then show ?thesis
    using version_bounds_events [OF _ True assms(5)] commit_serialized_Inr(4) [OF assms(1,3)] by force
next
  case False
  then have "\<exists>e \<in> set (cm_events r). x = event_row_of e"
    using assms(2,4,5) commit_serialized_Inr(1) [OF assms(1)]
    by (auto simp: committed_events domain_stream_def)
  then show ?thesis
    using events_follow_bounds commit_serialized_Inr(4) [OF assms(1,3)] by fastforce
qed

lemma commit_snapshot_bound:
  assumes "commit_serialized tr r d = Inr d'" and "cm_expected r = Some v"
  shows "(case select_snapshot (st_type (cm_stream r)) (st_id (cm_stream r)) (snapshots d') of
            None \<Rightarrow> 0 | Some s \<Rightarrow> sr_last_sequence s) \<le> int (v + length (cm_events r))"
proof (cases "cm_snapshot r")
  case None
  then show ?thesis
    using commit_serialized_Inr(1) [OF assms(1)] commit_serialized_Inr(4) [OF assms]
    by (auto simp: committed_db_def committed_stream_version_Inr split: option.splits)
next
  case (Some sn)
  then have "se_sequence (last (cm_events r)) = v + length (cm_events r)"
    using commit_serialized_Inr(3) [OF assms(1)] commit_serialized_Inr(4) [OF assms] events_follow_last
    by blast
  then show ?thesis
    using commit_serialized_Inr(1) [OF assms(1)] Some
    by (simp add: committed_db_def select_snapshot_replace snapshot_row_of_def snap_pk_def)
qed

lemma commit_version:
  assumes "commit_serialized tr r d = Inr d'" and "domain_stream (cm_stream r)"
    and "cm_expected r = Some v"
  shows "committed_stream_version (cm_stream r) d' = Inr (v + length (cm_events r))"
proof (cases "cm_events r = []")
  case True
  note c = commit_serialized_Inr [OF assms(1)]
  have "cm_snapshot r = None" using c(3) True by blast
  moreover have "max_sequence (st_type (cm_stream r)) (st_id (cm_stream r)) (events d') =
      max_sequence (st_type (cm_stream r)) (st_id (cm_stream r)) (events d)"
    using c(1) True assms(2) by (simp add: committed_db_def max_sequence_other domain_stream_def)
  ultimately show ?thesis
    using c(1) c(4) [OF assms(3)] True by (simp add: committed_stream_version_def committed_db_def)
next
  case False
  let ?ty = "st_type (cm_stream r)" and ?i = "st_id (cm_stream r)" and ?last = "last (cm_events r)"
  note c = commit_serialized_Inr [OF assms(1)]
  have lastseq: "se_sequence ?last = v + length (cm_events r)"
    using events_follow_last c(4) [OF assms(3)] False by blast
  have lastin: "?last \<in> set (cm_events r)" using False by simp
  have "max_sequence ?ty ?i (events d') = int (v + length (cm_events r))"
    using max_sequence_append [of ?ty ?i "event_row_of ?last"
        "map event_row_of (cm_events r @ map enqueued_of (cm_jobs r))" "events d"]
      c(1,2) lastin lastseq commit_row_bound [OF assms]
    by (simp add: committed_events identity_matches_def)
  moreover have "v + length (cm_events r) \<le> USIZE_MAX"
    using c(2) lastin lastseq by (fastforce simp: seq_fits_def I64_MAX_def USIZE_MAX_def)
  ultimately show ?thesis
    using commit_snapshot_bound [OF assms(1,3)] by (simp add: committed_stream_version_Inr)
qed

section \<open>Opaque payloads and pages\<close>

lemma json_u8_byte [simp]: "json_u8 (byte_to_json b) = Some b"
  using unsigned_less [of b, where ?'a = int]
  by (simp add: json_u8_def json_int_def byte_to_json_def)

lemma those_map_Some: "(\<And>x. x \<in> set xs \<Longrightarrow> f x = Some (g x)) \<Longrightarrow> those (map f xs) = Some (map g xs)"
  by (induction xs) auto

lemma decode_encode_opaque [simp]: "decode_opaque_payload (encode_opaque_payload bs) = Inr bs"
proof -
  have "json_bytes (JArray (map byte_to_json bs)) = Some bs"
    using those_map_Some [of bs "\<lambda>b. json_u8 (byte_to_json b)" id] by (simp add: json_bytes_def comp_def)
  then show ?thesis
    by (simp add: decode_opaque_payload_def encode_opaque_payload_def json_u8_def json_int_def)
qed

lemma provenance_of_engine [simp]: "has_engine_payload_provenance engine_payload_metadata"
  by (simp add: has_engine_payload_provenance_def engine_payload_metadata_def)

lemma provenance_reserved: "has_engine_payload_provenance m \<Longrightarrow> reserves_engine_payload m"
  by (auto simp: has_engine_payload_provenance_def reserves_engine_payload_def
      split: json.splits option.splits dest: map_of_SomeD intro: rev_image_eqI)

definition opaque_stored :: "nat \<Rightarrow> nat \<times> opaque_proposed_event \<Rightarrow> opaque_stored_event" where
  "opaque_stored v p = \<lparr>os_sequence = v + fst p + 1, os_event_type = op_event_type (snd p),
     os_event_version = op_event_version (snd p), os_payload = op_payload (snd p)\<rparr>"

lemma serialize_opaque_decodes:
  "serialize_opaque stream v p = Inr e \<Longrightarrow> decode_opaque_event to_vec e = Inr (opaque_stored v p)"
  by (auto simp: serialize_opaque_def decode_opaque_event_def opaque_stored_def split: prod.splits
      dest: follow_sequence_Some)

lemma collect_serialize_decodes:
  assumes "collect_results (serialize_opaque stream v) ps = Inr evs"
  shows "collect_results (decode_opaque_event to_vec) evs = Inr (map (opaque_stored v) ps)"
  using assms unfolding collect_results_Inr
  by (induction rule: list_all2_induct) (auto dest: serialize_opaque_decodes)

lemma select_after_version:
  assumes "commit_serialized tr r d = Inr d'" and "domain_stream (cm_stream r)"
    and "cm_expected r = Some v"
  shows "get_last_events (st_type (cm_stream r)) (st_id (cm_stream r)) (int v) (events d') =
    map event_row_of (cm_events r)"
proof -
  let ?P = "\<lambda>r'. in_stream (st_type (cm_stream r)) (st_id (cm_stream r)) r' \<and> int v < er_seq r'"
  note c = commit_serialized_Inr [OF assms(1)]
  note guard = c(4) [OF assms(3)]
  have "filter ?P (events d) = []"
    using version_bounds_events [of "cm_stream r" d v] guard by (fastforce simp: filter_empty_conv)
  moreover have "filter ?P (map event_row_of (cm_events r)) = map event_row_of (cm_events r)"
    using c(2) guard events_follow_bounds by (fastforce simp: filter_id_conv identity_matches_def)
  moreover have "filter ?P (map event_row_of (map enqueued_of (cm_jobs r))) = []"
    using assms(2) by (auto simp: filter_empty_conv domain_stream_def)
  moreover have "sort_key er_seq (map event_row_of (cm_events r)) = map event_row_of (cm_events r)"
    using events_follow_sorted guard
    by (intro sort_key_id_if_sorted) (auto simp: comp_def sorted_map)
  ultimately show ?thesis by (simp add: get_last_events_def c(1) committed_events)
qed

lemma map_rows_written:
  "\<forall>e \<in> set evs. seq_fits e \<Longrightarrow> map_rows (map event_row_of evs) = Inr evs"
  by (simp add: map_rows_def collect_results_Inr list_all2_conv_all_nth row_round_trip)

lemma opaque_page_eq:
  assumes "collect_results (serialize_opaque (oc_stream req) (oc_expected req))
      (zip [0..<length (oc_events req)] (oc_events req)) = Inr evs"
    and "commit_serialized tr (with_jobs (oc_jobs req)
      (at_expected_version (oc_expected req) (new_commit (oc_stream req) evs))) d = Inr d'"
    and "domain_stream (oc_stream req)" and "length (oc_events req) \<le> item_limit"
    and "int item_limit \<le> I64_MAX" and "int (oc_expected req) \<le> I64_MAX"
  shows "load_opaque_events_page_bounded to_vec cell_len (oc_stream req) (Some (oc_expected req))
      item_limit byte_limit d' =
    (let observed = sum_list (map (\<lambda>e. storage_bytes cell_len (event_row_of e)) evs)
     in if observed > byte_limit then Inl (EventPageTooLarge observed byte_limit)
        else Inr (map (opaque_stored (oc_expected req)) (zip [0..<length (oc_events req)] (oc_events req))))"
proof -
  let ?r = "with_jobs (oc_jobs req) (at_expected_version (oc_expected req) (new_commit (oc_stream req) evs))"
  have sel: "cm_stream ?r = oc_stream req" "cm_expected ?r = Some (oc_expected req)" "cm_events ?r = evs"
    by (simp_all add: with_jobs_def at_expected_version_def new_commit_def)
  have rows: "get_last_events (st_type (oc_stream req)) (st_id (oc_stream req)) (int (oc_expected req))
      (events d') = map event_row_of evs"
    using select_after_version [OF assms(2)] sel assms(3) by simp
  have page: "limit_rows (int item_limit) (map event_row_of evs) = map event_row_of evs"
    using collect_results_length [OF assms(1)] assms(4) by (simp add: limit_rows_def)
  have "map_rows (map event_row_of evs) = Inr evs"
    using map_rows_written commit_serialized_Inr(2) [OF assms(2)] sel by simp
  then show ?thesis
    using collect_serialize_decodes [OF assms(1)] assms(5,6)
    by (simp add: load_opaque_events_page_bounded_def load_events_page_bounded_def rows_after_def rows
        page Let_def i64_try_from_def comp_def)
qed

section \<open>Properties\<close>

text \<open>
  C4 (commit_at_expected_version). A commit guarded by an expected version is an exact append: it
  succeeds only when that version is the stream's durable one, the new version is the old one plus the
  number of events, the stream then loads as the old events followed by the committed ones, and every
  primary key of the database stays unique. The domain stream is not one of the job streams it seeds.
\<close>

theorem commit_at_expected_version:
  assumes "domain_stream (cm_stream r)" and "cm_expected r = Some v"
    and "load_events_on (cm_stream r) None d = Inr old" and "db_keys_unique d"
    and "commit_serialized tr r d = Inr d'"
  shows "current_version (cm_stream r) d = Inr v
    \<and> current_version (cm_stream r) d' = Inr (v + length (cm_events r))
    \<and> load_events_on (cm_stream r) None d' = Inr (old @ cm_events r)
    \<and> db_keys_unique d'"
  using commit_serialized_Inr(4) [OF assms(5,2)] commit_version [OF assms(5,1,2)]
    commit_load [OF assms(5,1,2,3)] commit_serialized_unique [OF assms(5,4)]
  by (simp add: current_version_def)

definition order_stream :: stream_identity where
  "order_stream = \<lparr>st_type = ''Order'', st_id = ''a1''\<rparr>"

definition sample_commit :: commit_request where
  "sample_commit = \<lparr>cm_stream = order_stream, cm_expected = Some 0, cm_events = [sample_event 1],
     cm_snapshot = None, cm_jobs = [\<lparr>eq_job_id = ''j'', eq_kind = ''mail'', eq_payload = JNull, eq_run_at_ms = 5\<rparr>]\<rparr>"

lemma sample_commit_ok: "\<exists>d'. commit_serialized (\<lambda>_. True) sample_commit empty_db = Inr d'"
  by (auto simp: commit_serialized_def sample_commit_def empty_db_def order_stream_def
      validate_event_stream_def identity_matches_def events_follow_version_def follow_sequence_def
      usize_checked_add_def USIZE_MAX_def check_expected_def committed_stream_version_def max_sequence_def
      select_snapshot_def usize_try_from_def insert_batch_single seq_fits_def I64_MAX_def
      sample_event_simps flush_job_Inr event_pk_def JOB_AGGREGATE_TYPE_def
      intro!: bind_result_Inr [THEN iffD2])

theorem commit_at_expected_version_witness:
  "\<exists>d'. commit_serialized (\<lambda>_. True) sample_commit empty_db = Inr d'
     \<and> current_version order_stream d' = Inr 1
     \<and> load_events_on order_stream None d' = Inr [sample_event 1]"
proof -
  obtain d' where c: "commit_serialized (\<lambda>_. True) sample_commit empty_db = Inr d'"
    using sample_commit_ok by blast
  have s: "cm_stream sample_commit = order_stream" "cm_expected sample_commit = Some 0"
      "cm_events sample_commit = [sample_event 1]"
    by (simp_all add: sample_commit_def)
  have d: "domain_stream (cm_stream sample_commit)"
    by (simp add: s domain_stream_def order_stream_def JOB_AGGREGATE_TYPE_def)
  have l: "load_events_on (cm_stream sample_commit) None empty_db = Inr []"
    by (simp add: load_events_on_None load_events_def empty_db_def select_events_def)
  have u: "db_keys_unique empty_db" by (simp add: db_keys_unique_def empty_db_def tbl_unique_def)
  show ?thesis using commit_at_expected_version [OF d s(2) l u c] c s by auto
qed

lemma stale_commit:
  assumes "cm_expected r = Some v" and "committed_stream_version (cm_stream r) d = Inr actual"
    and "actual \<noteq> v" and "validate_event_stream (cm_stream r) (cm_events r) = Inr ()"
  shows "commit_serialized tr r d = Inl OptimisticLock"
  using assms by (simp add: commit_serialized_def check_expected_def)

text \<open>
  Of two writers that read a stream at the same version, one wins: once a commit of
  at least one event at expected version \<open>v\<close> succeeded, any other commit to the stream that still expects
  \<open>v\<close> is refused as an optimistic-lock conflict and writes nothing, so no update is lost.
\<close>

theorem one_writer_wins:
  assumes "domain_stream (cm_stream r1)" and "cm_stream r2 = cm_stream r1"
    and "cm_expected r1 = Some v" and "cm_expected r2 = Some v" and "cm_events r1 \<noteq> []"
    and "commit_serialized tr r1 d = Inr d'"
    and "\<forall>e \<in> set (cm_events r2). identity_matches (cm_stream r2) e"
  shows "commit_serialized tr r2 d' = Inl OptimisticLock"
proof (rule stale_commit [OF assms(4)])
  show "committed_stream_version (cm_stream r2) d' = Inr (v + length (cm_events r1))"
    using commit_version [OF assms(6,1,3)] assms(2) by simp
  show "v + length (cm_events r1) \<noteq> v" using assms(5) by simp
  show "validate_event_stream (cm_stream r2) (cm_events r2) = Inr ()"
    using assms(7) by (simp add: validate_event_stream_Inr)
qed

theorem one_writer_wins_witness:
  "\<exists>d'. commit_serialized (\<lambda>_. True) sample_commit empty_db = Inr d'
     \<and> commit_serialized (\<lambda>_. True) sample_commit d' = Inl OptimisticLock"
proof -
  obtain d' where c: "commit_serialized (\<lambda>_. True) sample_commit empty_db = Inr d'"
    using sample_commit_ok by blast
  have "commit_serialized (\<lambda>_. True) sample_commit d' = Inl OptimisticLock"
  proof (rule one_writer_wins [OF _ refl _ _ _ c])
    show "domain_stream (cm_stream sample_commit)" "cm_expected sample_commit = Some 0"
      "cm_expected sample_commit = Some 0" "cm_events sample_commit \<noteq> []"
      "\<forall>e \<in> set (cm_events sample_commit). identity_matches (cm_stream sample_commit) e"
      by (simp_all add: sample_commit_def domain_stream_def order_stream_def JOB_AGGREGATE_TYPE_def
          identity_matches_def sample_event_simps)
  qed
  then show ?thesis using c by blast
qed

text \<open>
  C14 (opaque_commit_round_trip). Binding-owned bytes survive the store: after an opaque commit at
  version \<open>v\<close>, reading the page after \<open>v\<close> (with room for the committed events) gives back every event
  with its type, version, consecutive sequence and exactly its payload bytes, unless the page exceeds
  the byte limit, which is the only possible error.
\<close>

theorem opaque_commit_round_trip:
  assumes "domain_stream (oc_stream req)" and "commit_opaque tr req d = Inr d'"
    and "length (oc_events req) \<le> item_limit" and "int item_limit \<le> I64_MAX"
    and "int (oc_expected req) \<le> I64_MAX"
  shows "case load_opaque_events_page_bounded to_vec cell_len (oc_stream req) (Some (oc_expected req))
      item_limit byte_limit d' of
      Inr page \<Rightarrow> page = map (opaque_stored (oc_expected req))
        (zip [0..<length (oc_events req)] (oc_events req))
    | Inl e \<Rightarrow> \<exists>observed > byte_limit. e = EventPageTooLarge observed byte_limit"
proof -
  obtain evs where evs: "collect_results (serialize_opaque (oc_stream req) (oc_expected req))
      (zip [0..<length (oc_events req)] (oc_events req)) = Inr evs"
    and com: "commit_serialized tr (with_jobs (oc_jobs req)
      (at_expected_version (oc_expected req) (new_commit (oc_stream req) evs))) d = Inr d'"
    using assms(2) by (auto simp: commit_opaque_def)
  show ?thesis
    unfolding opaque_page_eq [OF evs com assms(1,3-5)] by (simp add: Let_def)
qed

definition sample_opaque :: opaque_commit_request where
  "sample_opaque = \<lparr>oc_stream = order_stream, oc_expected = 0,
     oc_events = [\<lparr>op_event_type = ''T'', op_event_version = ''1'', op_payload = [1, 255]\<rparr>], oc_jobs = []\<rparr>"

definition sample_envelope :: serialized_event where
  "sample_envelope = \<lparr>se_aggregate_id = ''a1'', se_sequence = 1, se_aggregate_type = ''Order'',
     se_event_type = ''T'', se_event_version = ''1'', se_payload = encode_opaque_payload [1, 255],
     se_metadata = engine_payload_metadata\<rparr>"

lemma sample_opaque_events:
  "collect_results (serialize_opaque (oc_stream sample_opaque) (oc_expected sample_opaque))
     (zip [0..<length (oc_events sample_opaque)] (oc_events sample_opaque)) = Inr [sample_envelope]"
  by (simp add: sample_opaque_def sample_envelope_def serialize_opaque_def follow_sequence_def
      usize_checked_add_def USIZE_MAX_def order_stream_def)

lemma sample_opaque_commit:
  "\<exists>d'. commit_serialized (\<lambda>_. True) (with_jobs (oc_jobs sample_opaque)
     (at_expected_version (oc_expected sample_opaque) (new_commit (oc_stream sample_opaque) [sample_envelope])))
     empty_db = Inr d'"
  by (simp add: sample_opaque_def sample_envelope_def commit_serialized_def with_jobs_def
      at_expected_version_def new_commit_def validate_event_stream_def identity_matches_def
      order_stream_def events_follow_version_def check_expected_def committed_stream_version_def
      max_sequence_def empty_db_def select_snapshot_def usize_try_from_def insert_batch_single
      seq_fits_def I64_MAX_def follow_sequence_def usize_checked_add_def USIZE_MAX_def)

theorem opaque_commit_round_trip_witness:
  "\<exists>d'. commit_opaque (\<lambda>_. True) sample_opaque empty_db = Inr d'
     \<and> load_opaque_events_page_bounded (\<lambda>_. []) (\<lambda>_. 0) order_stream (Some 0) 10 100 d' =
         Inr [\<lparr>os_sequence = 1, os_event_type = ''T'', os_event_version = ''1'', os_payload = [1, 255]\<rparr>]"
proof -
  have sel: "oc_stream sample_opaque = order_stream" "oc_expected sample_opaque = 0"
      "length (oc_events sample_opaque) \<le> 10" "int (oc_expected sample_opaque) \<le> I64_MAX"
    by (simp_all add: sample_opaque_def I64_MAX_def)
  have dom: "domain_stream (oc_stream sample_opaque)"
    by (simp add: sample_opaque_def domain_stream_def order_stream_def JOB_AGGREGATE_TYPE_def)
  obtain d' where c: "commit_serialized (\<lambda>_. True) (with_jobs (oc_jobs sample_opaque)
      (at_expected_version (oc_expected sample_opaque) (new_commit (oc_stream sample_opaque) [sample_envelope])))
      empty_db = Inr d'"
    using sample_opaque_commit by blast
  then have co: "commit_opaque (\<lambda>_. True) sample_opaque empty_db = Inr d'"
    by (simp add: commit_opaque_def sample_opaque_events)
  have ten: "int 10 \<le> I64_MAX" by (simp add: I64_MAX_def)
  have "\<exists>page. load_opaque_events_page_bounded (\<lambda>_. []) (\<lambda>_. 0) order_stream (Some 0) 10 100 d' = Inr page"
    using opaque_page_eq [OF sample_opaque_events c dom sel(3) ten sel(4), of "\<lambda>_. []" "\<lambda>_. 0" 100]
    by (simp add: sel(1,2) storage_bytes_def sample_envelope_def)
  then show ?thesis
    using opaque_commit_round_trip [OF dom co sel(3) ten sel(4),
        where to_vec = "\<lambda>_. []" and cell_len = "\<lambda>_. 0" and byte_limit = 100] co
    by (auto simp: sel(1,2)) (simp add: sample_opaque_def opaque_stored_def)
qed

text \<open>
  Only the engine marks its own envelopes: an event committed through
  the native path never carries the provenance that makes a reader unwrap its payload as opaque bytes.
\<close>

theorem native_commit_cannot_forge:
  assumes "commit tr r d = Inr d'" and "e \<in> set (cm_events r)"
  shows "decode_opaque_event to_vec e =
    Inr \<lparr>os_sequence = se_sequence e, os_event_type = se_event_type e,
         os_event_version = se_event_version e, os_payload = to_vec (se_payload e)\<rparr>"
proof -
  have "\<not> reserves_engine_payload (se_metadata e)"
    using assms by (auto simp: commit_def list_ex_iff split: if_splits)
  then show ?thesis using provenance_reserved by (auto simp: decode_opaque_event_def)
qed

theorem native_commit_cannot_forge_witness:
  "\<exists>d'. commit (\<lambda>_. True) sample_commit empty_db = Inr d'
     \<and> decode_opaque_event (\<lambda>_. [7]) (sample_event 1) =
        Inr \<lparr>os_sequence = 1, os_event_type = ''Placed'', os_event_version = ''1.0'', os_payload = [7]\<rparr>"
proof -
  obtain d' where "commit_serialized (\<lambda>_. True) sample_commit empty_db = Inr d'"
    using sample_commit_ok by blast
  then have c: "commit (\<lambda>_. True) sample_commit empty_db = Inr d'"
    by (simp add: commit_def sample_commit_def reserves_engine_payload_def sample_event_def)
  have m: "sample_event 1 \<in> set (cm_events sample_commit)" by (simp add: sample_commit_def)
  show ?thesis using native_commit_cannot_forge [OF c m, of "\<lambda>_. [7]"] c by (simp add: sample_event_def)
qed

lemma repo_persist_effect:
  assumes "repo_persist tr now_ns ty evs su (Some pending) d = (scope', result)"
  shows "case result of
      Inl e \<Rightarrow> scope' = Some pending
    | Inr d' \<Rightarrow> scope' = Some []
        \<and> (\<exists>requests. list_all2 (\<lambda>push r. eq_job_id r = pp_job_id push \<and> eq_kind r = pp_kind push
               \<and> Some (eq_payload r) = pp_encode push) pending requests
             \<and> events d' = events d @ map event_row_of (evs @ map enqueued_of requests)
             \<and> job_queue d' = job_queue d @ map seed_row requests)"
proof (cases result)
  case (Inl e)
  then show ?thesis
    using assms by (auto simp: repo_persist_def Let_def split: sum.splits prod.splits)
next
  case (Inr d')
  then obtain p request where p: "prepare_pending tr now_ns (Some pending) = Inr p"
    and scope: "scope' = mark_committed (fst (take_requests p)) (Some pending)"
    and com: "commit_serialized tr request d = Inr d'"
    and req: "cm_events request = evs" "cm_jobs request = snd (take_requests p)"
    using assms
    by (auto simp: repo_persist_def Let_def take_requests_def commit_def with_jobs_def new_commit_def
        with_snapshot_def split: sum.splits prod.splits if_splits option.splits)
  obtain reqs where c: "collect_results (prepare_push tr now_ns) pending = Inr reqs"
    and p': "p = \<lparr>pr_requests = reqs, pr_prepared_count = Some (length pending)\<rparr>"
    using p by (auto simp: prepare_pending_def)
  have "list_all2 (\<lambda>push r. eq_job_id r = pp_job_id push \<and> eq_kind r = pp_kind push
      \<and> Some (eq_payload r) = pp_encode push) pending reqs"
    using c unfolding collect_results_Inr
    by (rule list_all2_mono) (auto simp: prepare_push_def)
  moreover have "scope' = Some []" by (simp add: scope p' take_requests_def mark_committed_def)
  ultimately show ?thesis
    using Inr commit_serialized_Inr(1) [OF com] req p'
    by (auto simp: committed_db_def take_requests_def)
qed

text \<open>
  C5 (repo_persist_atomic_enqueue). Events and the jobs their command dispatched commit together or not
  at all: on success the database gains exactly the events, one \<open>Enqueued\<close> event and one pending queue
  row per buffered push (in order, under the push's id), and the buffer is emptied; on any failure the
  buffered pushes are all still there.
\<close>

theorem repo_persist_atomic_enqueue:
  assumes "repo_persist tr now_ns ty evs su (Some pending) d = (scope', result)"
  shows "case result of
      Inl e \<Rightarrow> scope' = Some pending
    | Inr d' \<Rightarrow> scope' = Some []
        \<and> (\<exists>requests. list_all2 (\<lambda>push r. eq_job_id r = pp_job_id push \<and> eq_kind r = pp_kind push
               \<and> Some (eq_payload r) = pp_encode push) pending requests
             \<and> events d' = events d @ map event_row_of (evs @ map enqueued_of requests)
             \<and> job_queue d' = job_queue d @ map seed_row requests)"
  using assms by (rule repo_persist_effect)

lemma sample_event_metadata: "se_metadata (sample_event n) = JObject []"
  by (simp add: sample_event_def)

theorem repo_persist_atomic_enqueue_witness:
  "\<exists>d'. repo_persist (\<lambda>_. True) 5000000 ''Order'' [sample_event 1] None (Some [sample_push]) empty_db
       = (Some [], Inr d') \<and> job_queue d' \<noteq> []"
proof -
  let ?req = "\<lparr>eq_job_id = ''j'', eq_kind = ''mail'', eq_payload = JNull, eq_run_at_ms = 5\<rparr>"
  have e: "events empty_db = []" "job_queue empty_db = []" by (simp_all add: empty_db_def)
  obtain d1 where f: "flush_job (\<lambda>_. True) ?req (empty_db\<lparr>events := [event_row_of (sample_event 1)]\<rparr>) = Inr d1"
    by (simp add: flush_job_Inr e event_pk_def sample_event_simps JOB_AGGREGATE_TYPE_def)
  have p: "prepare_pending (\<lambda>_. True) 5000000 (Some [sample_push]) =
      Inr \<lparr>pr_requests = [?req], pr_prepared_count = Some 1\<rparr>"
    by (simp add: prepare_pending_def prepare_push_def sample_push_def resolve_run_at_ms_def)
  have c: "commit (\<lambda>_. True) (with_jobs [?req] (new_commit order_stream [sample_event 1])) empty_db = Inr d1"
    using f by (simp add: commit_def commit_serialized_def with_jobs_def new_commit_def check_expected_def
        validate_event_stream_def identity_matches_def order_stream_def insert_batch_single e seq_fits_def
        I64_MAX_def sample_event_simps sample_event_metadata reserves_engine_payload_def)
  have r: "repo_persist (\<lambda>_. True) 5000000 ''Order'' [sample_event 1] None (Some [sample_push]) empty_db =
      (Some [], Inr d1)"
    using c by (simp add: repo_persist_def p take_requests_def mark_committed_def sample_event_simps
        order_stream_def)
  show ?thesis
    using repo_persist_atomic_enqueue [OF r] r by (auto simp: list_all2_Cons1)
qed

lemma filter_above_nth:
  fixes f :: "'a \<Rightarrow> int"
  shows "sorted_wrt (<) (map f xs) \<Longrightarrow> k < length xs \<Longrightarrow> filter (\<lambda>x. f (xs ! k) < f x) xs = drop (Suc k) xs"
proof (induction xs arbitrary: k)
  case (Cons y ys)
  show ?case
  proof (cases k)
    case 0
    then show ?thesis using Cons.prems by (auto simp: filter_id_conv)
  next
    case (Suc k')
    then have "f y < f (ys ! k')" using Cons.prems nth_mem [of k' ys] by auto
    then have "\<not> f (ys ! k') < f y" by simp
    then show ?thesis using Suc Cons.IH [of k'] Cons.prems by simp
  qed
qed simp

lemma rows_after_sorted:
  assumes "db_keys_unique d" and "rows_after stream after d = Inr rows"
  shows "sorted_wrt (<) (map er_seq rows)"
proof -
  have "sorted_wrt (<) (map er_seq (select_events (st_type stream) (st_id stream) (events d)))"
    using assms(1) select_events_strict by (simp add: db_keys_unique_def)
  then show ?thesis
    using assms(2)
    by (auto simp: rows_after_def get_last_events_filter sorted_wrt_map intro: sorted_wrt_filter
        split: option.splits)
qed

lemma rows_after_next:
  assumes "db_keys_unique d" and "rows_after stream after d = Inr rows" and "k < length rows"
    and "er_seq (rows ! k) = int t" and "int t \<le> I64_MAX"
  shows "rows_after stream (Some t) d = Inr (drop (Suc k) rows)"
proof -
  let ?S = "select_events (st_type stream) (st_id stream) (events d)"
  have "filter (\<lambda>r. int t < er_seq r) ?S = filter (\<lambda>r. int t < er_seq r) rows"
  proof (cases after)
    case (Some a)
    then have rows: "rows = filter (\<lambda>r. int a < er_seq r) ?S"
      using assms(2) by (auto simp: rows_after_def get_last_events_filter)
    then have "int a < int t" using nth_mem [OF assms(3)] assms(4) by (auto simp: rows)
    then show ?thesis by (auto simp: rows filter_filter intro: filter_cong)
  qed (use assms(2) in \<open>simp add: rows_after_def\<close>)
  then show ?thesis
    using filter_above_nth [OF rows_after_sorted [OF assms(1,2)] assms(3)] assms(4,5)
    by (simp add: rows_after_def get_last_events_filter i64_try_from_def)
qed

lemma map_rows_take: "map_rows rows = Inr all \<Longrightarrow> map_rows (take n rows) = Inr (take n all)"
  by (auto simp: map_rows_def collect_results_Inr list_all2_conv_all_nth)

lemma map_rows_drop: "map_rows rows = Inr all \<Longrightarrow> map_rows (drop n rows) = Inr (drop n all)"
  by (auto simp: map_rows_def collect_results_Inr list_all2_conv_all_nth)

lemma map_rows_nth:
  "map_rows rows = Inr all \<Longrightarrow> k < length all \<Longrightarrow>
     k < length rows \<and> er_seq (rows ! k) = int (se_sequence (all ! k))"
  by (auto simp: map_rows_def collect_results_Inr list_all2_conv_all_nth dest: row_to_serialized_event_seq)

text \<open>
  Paging neither drops nor repeats an event: a page is the first \<open>limit\<close> events of
  what is left; a page that does not exhaust it is continued exactly by loading after its last sequence.
\<close>

theorem paging_complete:
  assumes "db_keys_unique d" and "list_all (\<lambda>r. in_i64 (er_seq r)) (events d)"
    and "load_events_on stream after d = Inr all" and "0 < limit" and "int limit \<le> I64_MAX"
  shows "load_events_page stream after limit d = Inr (take limit all)
    \<and> (limit < length all \<longrightarrow>
         load_events_on stream (Some (se_sequence (last (take limit all)))) d = Inr (drop limit all))"
proof -
  obtain rows where rows: "rows_after stream after d = Inr rows" and all: "map_rows rows = Inr all"
    using assms(3) by (auto simp: load_events_on_def)
  have "load_events_page stream after limit d = Inr (take limit all)"
    using rows map_rows_take [OF all] assms(5)
    by (simp add: load_events_page_def i64_try_from_def limit_rows_def)
  moreover have "load_events_on stream (Some (se_sequence (last (take limit all)))) d = Inr (drop limit all)"
    if more: "limit < length all"
  proof -
    let ?k = "limit - 1"
    have "take limit all \<noteq> []" using more assms(4) by auto
    then have lastev: "last (take limit all) = all ! ?k" using more assms(4) by (simp add: last_conv_nth)
    have k: "?k < length rows" "er_seq (rows ! ?k) = int (se_sequence (all ! ?k))"
      using map_rows_nth [OF all, of ?k] more by simp_all
    have "rows ! ?k \<in> set (events d)"
      using nth_mem [OF k(1)] rows
      by (auto simp: rows_after_def get_last_events_filter set_select_events split: option.splits)
    then have "int (se_sequence (all ! ?k)) \<le> I64_MAX"
      using assms(2) k(2) by (metis in_i64_def list_all_iff)
    then have "rows_after stream (Some (se_sequence (all ! ?k))) d = Inr (drop (Suc ?k) rows)"
      using rows_after_next [OF assms(1) rows k] by blast
    then show ?thesis
      using map_rows_drop [OF all, of limit] assms(4) lastev by (simp add: load_events_on_def)
  qed
  ultimately show ?thesis by blast
qed

theorem paging_complete_witness:
  "load_events_page order_stream None 1
     (empty_db\<lparr>events := [event_row_of (sample_event 1), event_row_of (sample_event 2)]\<rparr>) = Inr [sample_event 1]"
proof -
  let ?d = "empty_db\<lparr>events := [event_row_of (sample_event 1), event_row_of (sample_event 2)]\<rparr>"
  have fits: "\<forall>e \<in> set [sample_event 1, sample_event 2]. seq_fits e"
    by (simp add: seq_fits_def sample_event_simps I64_MAX_def)
  have u: "db_keys_unique ?d"
    by (simp add: db_keys_unique_def tbl_unique_def empty_db_def event_pk_def sample_event_simps)
  have t: "list_all (\<lambda>r. in_i64 (er_seq r)) (events ?d)"
    by (simp add: i64_simps sample_event_simps)
  have "select_events ''Order'' ''a1'' (events ?d) = map event_row_of [sample_event 1, sample_event 2]"
    by (simp add: select_events_def sample_event_simps)
  then have l: "load_events_on order_stream None ?d = Inr [sample_event 1, sample_event 2]"
    using map_rows_written [OF fits] by (simp add: load_events_on_def rows_after_def order_stream_def)
  show ?thesis using paging_complete [OF u t l, of 1] by (simp add: I64_MAX_def)
qed

end
