(* ===== verification/Maintenance.thy ===== *)
theory Maintenance
  imports Engine
begin

text \<open>
  The maintenance entry points of the crate root: event compaction and the enumeration of aggregates.
  Compaction deletes the events a snapshot covers; the lemmas show that nothing a later load, commit or
  enumeration reads depends on them, and that reading the aggregates page by page misses and repeats none.
\<close>

section \<open>Operations\<close>

definition snapshot_sequence :: "string \<Rightarrow> string \<Rightarrow> db \<Rightarrow> int" where
  "snapshot_sequence ty i d =
     (case select_snapshot ty i (snapshots d) of None \<Rightarrow> 0 | Some s \<Rightarrow> sr_last_sequence s)"

definition covered :: "string \<Rightarrow> db \<Rightarrow> event_row \<Rightarrow> bool" where
  "covered ty d r \<longleftrightarrow> er_type r = ty \<and> er_seq r \<le> snapshot_sequence (er_type r) (er_id r) d"

text \<open>The number of rows deleted and the database afterwards.\<close>

definition compact_events :: "compaction_policy \<Rightarrow> string \<Rightarrow> db \<Rightarrow> nat \<times> db" where
  "compact_events policy ty d =
     (if policy = Retain then (0, d)
      else (length (filter (covered ty d) (events d)),
            d\<lparr>events := tbl_delete (covered ty d) (events d)\<rparr>))"

datatype load_all_ids_error =
    InvalidIds string "string list"
  | NumericConversion

definition aggregate_ids :: "string \<Rightarrow> db \<Rightarrow> string list" where
  "aggregate_ids ty d =
     sort (remdups (map er_id (filter (\<lambda>r. er_type r = ty) (events d))
       @ map sr_id (filter (\<lambda>s. sr_type s = ty) (snapshots d))))"

text \<open>The loop both enumerations end in: every id is parsed, and one that does not parse fails the call.\<close>

definition parse_ids :: "(string \<Rightarrow> 'id option) \<Rightarrow> string \<Rightarrow> string list \<Rightarrow> load_all_ids_error + 'id list" where
  "parse_ids parse_id ty rows =
     (let (ids, invalid) = fold (\<lambda>id_str (ids, invalid).
            case parse_id id_str of
              Some i \<Rightarrow> (ids @ [i], invalid)
            | None \<Rightarrow> (ids, invalid @ [id_str])) rows ([], [])
      in if invalid = [] then Inr ids else Inl (InvalidIds ty invalid))"

definition load_all_ids ::
  "(string \<Rightarrow> 'id option) \<Rightarrow> string \<Rightarrow> db \<Rightarrow> load_all_ids_error + 'id list" where
  "load_all_ids parse_id ty d = parse_ids parse_id ty (aggregate_ids ty d)"

text \<open>
  The paginated enumeration orders the aggregates by the highest rowid of their events and snapshot. Rowids are
  SQLite's: the two functions give them by primary key, and \<open>visit\<close> is the order in which SQLite reads the groups, which
  decides between equal rowids.
\<close>

definition latest_rowid ::
  "(event_pk \<Rightarrow> int) \<Rightarrow> (string \<times> string \<Rightarrow> int) \<Rightarrow> string \<Rightarrow> db \<Rightarrow> string \<Rightarrow> int" where
  "latest_rowid ev_rowid snap_rowid ty d i =
     Max (set (map (\<lambda>r. ev_rowid (event_pk r)) (filter (in_stream ty i) (events d))
       @ map (\<lambda>s. snap_rowid (snap_pk s)) (filter (\<lambda>s. snap_pk s = (ty, i)) (snapshots d))))"

definition newest_first ::
  "(string list \<Rightarrow> string list) \<Rightarrow> (event_pk \<Rightarrow> int) \<Rightarrow> (string \<times> string \<Rightarrow> int) \<Rightarrow> string \<Rightarrow> db \<Rightarrow> string list" where
  "newest_first visit ev_rowid snap_rowid ty d =
     sort_key (\<lambda>i. - latest_rowid ev_rowid snap_rowid ty d i) (visit (aggregate_ids ty d))"

definition load_ids_paginated ::
  "(string list \<Rightarrow> string list) \<Rightarrow> (event_pk \<Rightarrow> int) \<Rightarrow> (string \<times> string \<Rightarrow> int) \<Rightarrow> (string \<Rightarrow> 'id option) \<Rightarrow> string
     \<Rightarrow> nat \<Rightarrow> nat \<Rightarrow> db \<Rightarrow> load_all_ids_error + 'id list" where
  "load_ids_paginated visit ev_rowid snap_rowid parse_id ty limit offset d =
     bind_result (ok_or NumericConversion (i64_try_from limit)) (\<lambda>l.
     bind_result (ok_or NumericConversion (i64_try_from offset)) (\<lambda>o'.
       parse_ids parse_id ty (take (nat l) (drop (nat o') (newest_first visit ev_rowid snap_rowid ty d)))))"

definition count_aggregates :: "string \<Rightarrow> db \<Rightarrow> load_all_ids_error + nat" where
  "count_aggregates ty d =
     ok_or NumericConversion (usize_try_from (int (card (set (aggregate_ids ty d)))))"

section \<open>Lemmas\<close>

lemma fold_parse:
  "fold (\<lambda>id_str (ids, invalid).
      case parse_id id_str of Some i \<Rightarrow> (ids @ [i], invalid) | None \<Rightarrow> (ids, invalid @ [id_str])) xs (a, b) =
     (a @ List.map_filter parse_id xs, b @ filter (\<lambda>x. parse_id x = None) xs)"
  by (induction xs arbitrary: a b) (auto split: option.splits)

lemma events_positive_covered:
  "er_type r = ty \<Longrightarrow> 0 < er_seq r \<Longrightarrow> covered ty d r \<Longrightarrow> select_snapshot ty (er_id r) (snapshots d) \<noteq> None"
  by (auto simp: covered_def snapshot_sequence_def split: option.splits)

lemma compacted_snapshots [simp]:
  "snapshots (snd (compact_events p ty d)) = snapshots d" "job_queue (snd (compact_events p ty d)) = job_queue d"
  by (simp_all add: compact_events_def)

lemma compacted_events:
  "events (snd (compact_events p ty d)) = (if p = Retain then events d else filter (\<lambda>r. \<not> covered ty d r) (events d))"
  by (simp add: compact_events_def tbl_delete_def)

text \<open>Only the events up to the stream's snapshot go.\<close>

lemma compacted_stream:
  assumes "snapshot_sequence t i d \<le> s"
  shows "get_last_events t i s (events (snd (compact_events p ty d))) = get_last_events t i s (events d)"
proof -
  have "filter (\<lambda>r. in_stream t i r \<and> s < er_seq r) (filter (\<lambda>r. \<not> covered ty d r) (events d)) =
      filter (\<lambda>r. in_stream t i r \<and> s < er_seq r) (events d)"
    using assms by (auto simp: covered_def in_stream_def intro!: filter_cong)
  then show ?thesis by (simp add: compacted_events get_last_events_def)
qed

lemma max_with_snapshot:
  assumes "\<forall>r \<in> set rows. in_stream t i r \<longrightarrow> 0 < er_seq r"
  shows "max (max_sequence t i (filter (\<lambda>r. in_stream t i r \<longrightarrow> v < er_seq r) rows)) v =
    max (max_sequence t i rows) (v :: int)"
proof (cases "\<exists>r \<in> set rows. in_stream t i r \<and> v < er_seq r")
  case True
  let ?S = "er_seq ` {r \<in> set rows. in_stream t i r}" and ?T = "er_seq ` {r \<in> set rows. in_stream t i r \<and> v < er_seq r}"
  have "Max ?S = Max ?T"
  proof (rule Max_eqI)
    obtain x where x: "x \<in> ?T" using True by auto
    have "v < x" using x by auto
    moreover have "x \<le> Max ?T" using x by (intro Max_ge) auto
    ultimately have "v < Max ?T" by simp
    then show "y \<le> Max ?T" if "y \<in> ?S" for y
      using that by (cases "v < y") (auto intro: Max_ge)
    have "Max ?T \<in> ?T" using x by (intro Max_in) auto
    then show "Max ?T \<in> ?S" by auto
  qed simp
  moreover have "filter (in_stream t i) rows \<noteq> []"
    "filter (in_stream t i) (filter (\<lambda>r. in_stream t i r \<longrightarrow> v < er_seq r) rows) \<noteq> []"
    using True by (auto simp: filter_empty_conv)
  moreover have "{r \<in> set rows. (in_stream t i r \<longrightarrow> v < er_seq r) \<and> in_stream t i r} =
      {r \<in> set rows. in_stream t i r \<and> v < er_seq r}" by auto
  ultimately show ?thesis by (simp add: max_sequence_Max)
next
  case False
  then have "filter (in_stream t i) (filter (\<lambda>r. in_stream t i r \<longrightarrow> v < er_seq r) rows) = []"
    by (auto simp: filter_empty_conv)
  then have "max_sequence t i (filter (\<lambda>r. in_stream t i r \<longrightarrow> v < er_seq r) rows) = 0"
    by (simp add: max_sequence_Max)
  moreover have "max_sequence t i rows \<le> max 0 v"
    using False by (auto simp: max_sequence_Max filter_empty_conv intro!: Max.boundedI)
  moreover have "0 \<le> max_sequence t i rows"
  proof (cases "filter (in_stream t i) rows = []")
    case False
    then obtain r where "r \<in> set rows" "in_stream t i r" by (auto simp: filter_empty_conv)
    then show ?thesis using max_sequence_ge [of r rows t i] assms by fastforce
  qed (simp add: max_sequence_Max)
  ultimately show ?thesis by auto
qed

lemma compacted_max:
  assumes "\<forall>r \<in> set (events d). er_type r = ty \<longrightarrow> 0 < er_seq r"
  shows "max (max_sequence t i (events (snd (compact_events p ty d)))) (snapshot_sequence t i d) =
    max (max_sequence t i (events d)) (snapshot_sequence t i d)"
proof (cases "p = Retain \<or> t \<noteq> ty")
  case True
  then have "filter (in_stream t i) (events (snd (compact_events p ty d))) = filter (in_stream t i) (events d)"
    by (auto simp: compacted_events covered_def in_stream_def intro!: filter_cong)
  then show ?thesis by (simp add: max_sequence_Max)
next
  case False
  have "filter (in_stream t i) (filter (\<lambda>r. \<not> covered ty d r) (events d)) =
      filter (in_stream t i) (filter (\<lambda>r. in_stream t i r \<longrightarrow> snapshot_sequence t i d < er_seq r) (events d))"
    using False by (auto simp: covered_def in_stream_def intro!: filter_cong)
  then have "max_sequence t i (events (snd (compact_events p ty d))) =
      max_sequence t i (filter (\<lambda>r. in_stream t i r \<longrightarrow> snapshot_sequence t i d < er_seq r) (events d))"
    using False by (simp add: compacted_events max_sequence_def)
  then show ?thesis using max_with_snapshot [of "events d" t i "snapshot_sequence t i d"] assms False
    by (simp add: in_stream_def)
qed

lemma compacted_version:
  assumes "\<forall>r \<in> set (events d). er_type r = ty \<longrightarrow> 0 < er_seq r"
  shows "committed_stream_version stream (snd (compact_events p ty d)) = committed_stream_version stream d"
  using compacted_max [OF assms, of "st_type stream" "st_id stream" p]
  by (simp add: committed_stream_version_def snapshot_sequence_def)

lemma compacted_ids:
  assumes "\<forall>r \<in> set (events d). er_type r = ty \<longrightarrow> 0 < er_seq r"
  shows "aggregate_ids t (snd (compact_events p ty d)) = aggregate_ids t d"
proof -
  let ?d' = "snd (compact_events p ty d)"
  have gone: "\<exists>s \<in> set (snapshots d). sr_type s = t \<and> sr_id s = er_id r"
    if "r \<in> set (events d)" "er_type r = t" "r \<notin> set (events ?d')" for r
  proof -
    have "covered ty d r" using that by (auto simp: compacted_events split: if_splits)
    moreover from this have "er_type r = ty" by (simp add: covered_def)
    ultimately have "select_snapshot ty (er_id r) (snapshots d) \<noteq> None"
      using events_positive_covered assms that(1) by blast
    then obtain y where "tbl_get snap_pk (ty, er_id r) (snapshots d) = Some y"
      by (auto simp: select_snapshot_def)
    from tbl_get_Some_in [OF this] show ?thesis using \<open>er_type r = ty\<close> that(2) by (auto simp: snap_pk_def)
  qed
  have sub: "set (events ?d') \<subseteq> set (events d)" by (auto simp: compacted_events)
  have "er_id ` {r \<in> set (events ?d'). er_type r = t} \<union> sr_id ` {s \<in> set (snapshots d). sr_type s = t} =
      er_id ` {r \<in> set (events d). er_type r = t} \<union> sr_id ` {s \<in> set (snapshots d). sr_type s = t}"
    using gone sub by (fastforce simp: image_iff)
  then show ?thesis
    by (simp add: aggregate_ids_def sorted_list_of_set_sort_remdups [symmetric] image_Un)
qed

section \<open>Properties\<close>

text \<open>
  C12 (compaction_invisible). Compacting the events a snapshot covers changes nothing the store reads
  afterwards: every stream keeps its durable version, its snapshot and the events after its snapshot
  (all of them when it has none), and the enumeration of aggregates is the same. A \<open>Retain\<close> entity
  loses no event at all.
\<close>

theorem compaction_invisible:
  assumes "\<forall>r \<in> set (events d). er_type r = ty \<longrightarrow> 0 < er_seq r"
    and "compact_events policy ty d = (deleted, d')"
  shows "committed_stream_version stream d' = committed_stream_version stream d
    \<and> load_snapshot_on stream d' = load_snapshot_on stream d
    \<and> (\<forall>s. snapshot_sequence (st_type stream) (st_id stream) d \<le> int s \<longrightarrow>
         load_events_on stream (Some s) d' = load_events_on stream (Some s) d)
    \<and> (select_snapshot (st_type stream) (st_id stream) (snapshots d) = None \<longrightarrow>
         load_events_on stream None d' = load_events_on stream None d)
    \<and> load_all_ids parse_id t d' = load_all_ids parse_id t d
    \<and> (policy = Retain \<longrightarrow> d' = d \<and> deleted = 0)"
proof (intro conjI allI impI)
  have d': "d' = snd (compact_events policy ty d)" using assms(2) by simp
  show "committed_stream_version stream d' = committed_stream_version stream d"
    unfolding d' by (rule compacted_version [OF assms(1)])
  show "load_snapshot_on stream d' = load_snapshot_on stream d"
    unfolding d' load_snapshot_on_def by simp
  show "load_events_on stream (Some s) d' = load_events_on stream (Some s) d"
    if "snapshot_sequence (st_type stream) (st_id stream) d \<le> int s" for s
    using compacted_stream [OF that]
    by (simp add: d' load_events_on_def rows_after_def i64_try_from_def)
  show "load_events_on stream None d' = load_events_on stream None d"
    if "select_snapshot (st_type stream) (st_id stream) (snapshots d) = None"
  proof -
    have "select_events (st_type stream) (st_id stream) (events d') = select_events (st_type stream) (st_id stream) (events d)"
      unfolding d' select_events_def compacted_events using that assms(1)
      by (auto simp: covered_def in_stream_def snapshot_sequence_def intro!: arg_cong [of _ _ "sort_key er_seq"] filter_cong)
    then show ?thesis by (simp add: load_events_on_def rows_after_def)
  qed
  show "load_all_ids parse_id t d' = load_all_ids parse_id t d"
    unfolding d' load_all_ids_def compacted_ids [OF assms(1)] ..
  show "d' = d" and "deleted = 0" if "policy = Retain" using assms(2) that by (simp_all add: compact_events_def)
qed

definition sample_compactable :: db where
  "sample_compactable = empty_db\<lparr>events := map event_row_of [sample_event 1, sample_event 2],
     snapshots := [\<lparr>sr_type = ''Order'', sr_id = ''a1'', sr_last_sequence = 2, sr_version = 1, sr_payload = to_text JNull\<rparr>]\<rparr>"

lemma sample_compacted:
  "compact_events CompactAfterSnapshot ''Order'' sample_compactable = (2, sample_compactable\<lparr>events := []\<rparr>)"
  by (simp add: compact_events_def sample_compactable_def tbl_delete_def covered_def snapshot_sequence_def
      select_snapshot_def tbl_get_def snap_pk_def sample_event_simps)

lemma sample_compactable_positive:
  "\<forall>r \<in> set (events sample_compactable). er_type r = ''Order'' \<longrightarrow> 0 < er_seq r"
  by (simp add: sample_compactable_def sample_event_simps)

theorem compaction_invisible_witness:
  "committed_stream_version order_stream (sample_compactable\<lparr>events := []\<rparr>) =
     committed_stream_version order_stream sample_compactable"
  using compaction_invisible [OF sample_compactable_positive sample_compacted,
      where stream = order_stream and parse_id = Some and t = "''Order''"] by blast

text \<open>
  Compaction does not weaken the optimistic lock: after a commit at expected
  version \<open>v\<close>, compacting the stream, even down to no events, still leaves a second writer that expects
  \<open>v\<close> refused.
\<close>

theorem compaction_keeps_fence:
  assumes "domain_stream (cm_stream r1)" and "cm_stream r2 = cm_stream r1"
    and "cm_expected r1 = Some v" and "cm_expected r2 = Some v" and "cm_events r1 \<noteq> []"
    and "commit_serialized tr r1 d = Inr d1"
    and "\<forall>r \<in> set (events d1). er_type r = ty \<longrightarrow> 0 < er_seq r"
    and "compact_events policy ty d1 = (deleted, d2)"
    and "\<forall>e \<in> set (cm_events r2). identity_matches (cm_stream r2) e"
  shows "commit_serialized tr r2 d2 = Inl OptimisticLock"
proof (rule stale_commit [OF assms(4)])
  have "d2 = snd (compact_events policy ty d1)" using assms(8) by simp
  then show "committed_stream_version (cm_stream r2) d2 = Inr (v + length (cm_events r1))"
    using compacted_version [OF assms(7)] commit_version [OF assms(6,1,3)] assms(2) by simp
  show "v + length (cm_events r1) \<noteq> v" using assms(5) by simp
  show "validate_event_stream (cm_stream r2) (cm_events r2) = Inr ()"
    using assms(9) by (simp add: validate_event_stream_Inr)
qed

definition snapshot_commit :: commit_request where
  "snapshot_commit = \<lparr>cm_stream = order_stream, cm_expected = Some 0, cm_events = [sample_event 1],
     cm_snapshot = Some \<lparr>su_aggregate = JNull, su_version = 1\<rparr>, cm_jobs = []\<rparr>"

lemma snapshot_commit_ok: "\<exists>d1. commit_serialized (\<lambda>_. True) snapshot_commit empty_db = Inr d1"
  by (auto simp: commit_serialized_def snapshot_commit_def empty_db_def order_stream_def
      validate_event_stream_def identity_matches_def events_follow_version_def follow_sequence_def
      usize_checked_add_def USIZE_MAX_def check_expected_def committed_stream_version_def max_sequence_def
      select_snapshot_def usize_try_from_def insert_batch_single seq_fits_def I64_MAX_def
      sample_event_simps write_snapshot_Inr
      intro!: bind_result_Inr [THEN iffD2])

theorem compaction_keeps_fence_witness:
  "\<exists>d1 d2. commit_serialized (\<lambda>_. True) snapshot_commit empty_db = Inr d1
     \<and> compact_events CompactAfterSnapshot ''Order'' d1 = (1, d2) \<and> events d2 = []
     \<and> commit_serialized (\<lambda>_. True) snapshot_commit d2 = Inl OptimisticLock"
proof -
  obtain d1 where c: "commit_serialized (\<lambda>_. True) snapshot_commit empty_db = Inr d1"
    using snapshot_commit_ok by blast
  have d1: "events d1 = [event_row_of (sample_event 1)]"
    "snapshots d1 = [\<lparr>sr_type = ''Order'', sr_id = ''a1'', sr_last_sequence = 1, sr_version = 1, sr_payload = to_text JNull\<rparr>]"
    using commit_serialized_Inr(1) [OF c]
    by (simp_all add: committed_db_def snapshot_commit_def snapshot_row_of_def empty_db_def tbl_replace_def
        order_stream_def sample_event_simps)
  have k: "compact_events CompactAfterSnapshot ''Order'' d1 = (1, d1\<lparr>events := []\<rparr>)"
    using d1 by (simp add: compact_events_def tbl_delete_def covered_def snapshot_sequence_def
        select_snapshot_def tbl_get_def snap_pk_def sample_event_simps)
  have pos: "\<forall>r \<in> set (events d1). er_type r = ''Order'' \<longrightarrow> 0 < er_seq r"
    using d1(1) by (simp add: sample_event_simps)
  have p: "domain_stream (cm_stream snapshot_commit)" "cm_expected snapshot_commit = Some 0"
    "cm_events snapshot_commit \<noteq> []"
    "\<forall>e \<in> set (cm_events snapshot_commit). identity_matches (cm_stream snapshot_commit) e"
    by (simp_all add: snapshot_commit_def domain_stream_def order_stream_def JOB_AGGREGATE_TYPE_def
        identity_matches_def sample_event_simps)
  show ?thesis
    using compaction_keeps_fence [OF p(1) refl p(2,2,3) c pos k p(4)] c k by auto
qed

text \<open>
  Enumerating the aggregates of a type is complete and free of duplicates: it
  succeeds exactly when every stored id parses, and then lists the parsed ids of all streams that have an
  event or a snapshot, once each and in id order; otherwise it names exactly the ids that do not parse.
  \<open>count_aggregates\<close> is the number of these streams.
\<close>

theorem enumeration_exact:
  "(case load_all_ids parse_id ty d of
      Inr ids \<Rightarrow> map Some ids = map parse_id (aggregate_ids ty d)
    | Inl err \<Rightarrow> err = InvalidIds ty (filter (\<lambda>i. parse_id i = None) (aggregate_ids ty d))
        \<and> (\<exists>i \<in> set (aggregate_ids ty d). parse_id i = None))
   \<and> set (aggregate_ids ty d) = er_id ` {r \<in> set (events d). er_type r = ty} \<union> sr_id ` {s \<in> set (snapshots d). sr_type s = ty}
   \<and> sorted_wrt (<) (aggregate_ids ty d)
   \<and> count_aggregates ty d = (if length (aggregate_ids ty d) \<le> USIZE_MAX then Inr (length (aggregate_ids ty d)) else Inl NumericConversion)"
proof (intro conjI)
  have parsed: "map Some (List.map_filter parse_id xs) = map parse_id xs" if "filter (\<lambda>x. parse_id x = None) xs = []" for xs
    using that by (induction xs) (auto split: if_splits)
  show "case load_all_ids parse_id ty d of
      Inr ids \<Rightarrow> map Some ids = map parse_id (aggregate_ids ty d)
    | Inl err \<Rightarrow> err = InvalidIds ty (filter (\<lambda>i. parse_id i = None) (aggregate_ids ty d))
        \<and> (\<exists>i \<in> set (aggregate_ids ty d). parse_id i = None)"
    using parsed [of "aggregate_ids ty d"] by (auto simp: load_all_ids_def parse_ids_def fold_parse filter_empty_conv)
  show "set (aggregate_ids ty d) = er_id ` {r \<in> set (events d). er_type r = ty} \<union> sr_id ` {s \<in> set (snapshots d). sr_type s = ty}"
    by (auto simp: aggregate_ids_def)
  show "sorted_wrt (<) (aggregate_ids ty d)" by (simp add: aggregate_ids_def strict_sorted_iff)
  then have "card (set (aggregate_ids ty d)) = length (aggregate_ids ty d)"
    by (simp add: strict_sorted_iff distinct_card)
  then show "count_aggregates ty d = (if length (aggregate_ids ty d) \<le> USIZE_MAX then Inr (length (aggregate_ids ty d)) else Inl NumericConversion)"
    by (simp add: count_aggregates_def usize_try_from_def)
qed

section \<open>Pagination\<close>

lemma concat_pages: "concat (map (\<lambda>p. take n (drop (p * n) xs)) [0..<k]) = take (k * n) xs"
  by (induction k) (simp_all add: take_add add.commute [of n])

lemma parse_ids_all:
  assumes "\<forall>i \<in> set rows. parse_id i = Some (f i)"
  shows "parse_ids parse_id ty rows = Inr (map f rows)"
proof -
  have "List.map_filter parse_id rows = map f rows" using assms by (induction rows) auto
  moreover have "filter (\<lambda>x. parse_id x = None) rows = []" using assms by (auto simp: filter_empty_conv)
  ultimately show ?thesis by (simp add: parse_ids_def fold_parse)
qed

text \<open>
  Reading page after page enumerates a type's aggregates completely and without
  duplicates: consecutive pages of any size concatenate to one fixed order of all aggregates with an event or a
  snapshot, ordered by their highest rowid first, whatever rowids SQLite assigned and however it breaks ties,
  as long as the database does not change in between.
\<close>

theorem pages_cover_exactly:
  assumes "\<forall>xs. mset (visit xs) = mset xs" and "\<forall>i \<in> set (aggregate_ids ty d). parse_id i = Some (f i)"
    and "0 < n" and "int (k * n) \<le> I64_MAX" and "length (aggregate_ids ty d) \<le> k * n"
  shows "\<exists>pages order. map (\<lambda>p. load_ids_paginated visit ev_rowid snap_rowid parse_id ty n (p * n) d) [0..<k] = map Inr pages
    \<and> concat pages = map f order \<and> mset order = mset (aggregate_ids ty d) \<and> distinct order
    \<and> sorted_wrt (\<lambda>i j. latest_rowid ev_rowid snap_rowid ty d j \<le> latest_rowid ev_rowid snap_rowid ty d i) order"
proof -
  let ?order = "newest_first visit ev_rowid snap_rowid ty d"
  let ?pages = "map (\<lambda>p. map f (take n (drop (p * n) ?order))) [0..<k]"
  have m: "mset ?order = mset (aggregate_ids ty d)" using assms(1) by (simp add: newest_first_def)
  then have st: "set ?order = set (aggregate_ids ty d)" by (rule mset_eq_setD)
  have "load_ids_paginated visit ev_rowid snap_rowid parse_id ty n (p * n) d = Inr (map f (take n (drop (p * n) ?order)))"
    if "p < k" for p
  proof -
    have "p * n \<le> k * n" "n \<le> k * n" using that by simp_all
    then have "int (p * n) \<le> I64_MAX" "int n \<le> I64_MAX" using assms(4) by linarith+
    moreover have "parse_ids parse_id ty (take n (drop (p * n) ?order)) = Inr (map f (take n (drop (p * n) ?order)))"
      using assms(2) st by (intro parse_ids_all) (auto dest: in_set_takeD in_set_dropD)
    ultimately show ?thesis by (simp add: load_ids_paginated_def i64_try_from_def del: of_nat_mult)
  qed
  then have "map (\<lambda>p. load_ids_paginated visit ev_rowid snap_rowid parse_id ty n (p * n) d) [0..<k] = map Inr ?pages" by simp
  moreover have "concat ?pages = map f ?order"
  proof -
    have "concat ?pages = map f (concat (map (\<lambda>p. take n (drop (p * n) ?order)) [0..<k]))" by (simp add: map_concat comp_def)
    also have "\<dots> = map f ?order" using assms(5) mset_eq_length [OF m] by (simp add: concat_pages)
    finally show ?thesis .
  qed
  moreover have "distinct ?order" using m by (simp add: mset_eq_imp_distinct_iff aggregate_ids_def)
  moreover have "sorted_wrt (\<lambda>i j. latest_rowid ev_rowid snap_rowid ty d j \<le> latest_rowid ev_rowid snap_rowid ty d i) ?order"
    using sorted_sort_key [of "\<lambda>i. - latest_rowid ev_rowid snap_rowid ty d i" "visit (aggregate_ids ty d)"]
    by (simp add: newest_first_def sorted_wrt_map)
  ultimately show ?thesis using m by blast
qed

text \<open>
  Two streams, \<open>old\<close> created before \<open>new\<close> and written after it: the order is that of the last write, not of the creation.
\<close>

definition touched_row :: "string \<Rightarrow> int \<Rightarrow> event_row" where
  "touched_row i n = \<lparr>er_type = ''Order'', er_id = i, er_seq = n, er_event_type = ''E'', er_event_version = ''1'',
     er_payload = to_text JNull, er_metadata = to_text JNull\<rparr>"

definition touched_db :: db where
  "touched_db = empty_db\<lparr>events := [touched_row ''old'' 1, touched_row ''new'' 1, touched_row ''old'' 2]\<rparr>"

definition touched_rowid :: "event_pk \<Rightarrow> int" where
  "touched_rowid pk = (if pk = (''Order'', ''old'', 1) then 1 else if pk = (''Order'', ''new'', 1) then 2 else 3)"

lemma touched_ids: "aggregate_ids ''Order'' touched_db = [''new'', ''old'']"
  by (simp add: aggregate_ids_def touched_db_def touched_row_def empty_db_def)

theorem paginated_orders_by_last_write:
  "load_ids_paginated id touched_rowid (\<lambda>_. 0) Some ''Order'' 10 0 touched_db = Inr [''old'', ''new'']"
proof -
  have "latest_rowid touched_rowid (\<lambda>_. 0) ''Order'' touched_db ''old'' = 3" "latest_rowid touched_rowid (\<lambda>_. 0) ''Order'' touched_db ''new'' = 2"
    by (simp_all add: latest_rowid_def touched_db_def touched_row_def empty_db_def in_stream_def event_pk_def touched_rowid_def)
  then have "newest_first id touched_rowid (\<lambda>_. 0) ''Order'' touched_db = [''old'', ''new'']"
    by (simp add: newest_first_def touched_ids)
  then show ?thesis by (simp add: load_ids_paginated_def i64_try_from_def I64_MAX_def parse_ids_def)
qed

theorem pages_cover_exactly_witness:
  "\<exists>pages order. map (\<lambda>p. load_ids_paginated id touched_rowid (\<lambda>_. 0) Some ''Order'' 1 (p * 1) touched_db) [0..<2] = map Inr pages
    \<and> concat pages = map id order \<and> mset order = mset [''new'', ''old'']"
proof -
  have "\<forall>i \<in> set (aggregate_ids ''Order'' touched_db). Some i = Some (id i)" by simp
  then show ?thesis
    using pages_cover_exactly [of id "''Order''" touched_db Some id 1 2 touched_rowid "\<lambda>_. 0"]
    by (auto simp: touched_ids I64_MAX_def)
qed

end
