(* ===== verification/Reactor.thy ===== *)
theory Reactor
  imports Prelude
begin

unbundle bit_operations_syntax

text \<open>
  The retry machinery of \<open>reactor.rs\<close>: the saturating exponential backoff, the bounded retry loop that
  \<open>RetryOnBusy\<close> runs an idempotent reactor in, and the classification of an error chain as a transient
  SQLite busy error. An attempt is a function on the state it may change; an error chain is the
  sequence of nodes its \<open>source()\<close> walk visits.
\<close>

section \<open>Backoff\<close>

definition U64_MAX :: nat where "U64_MAX = 2 ^ 64 - 1"

definition u64_checked_pow2 :: "nat \<Rightarrow> nat option" where
  "u64_checked_pow2 n = (if 2 ^ n \<le> U64_MAX then Some (2 ^ n) else None)"

definition u64_checked_mul :: "nat \<Rightarrow> nat \<Rightarrow> nat option" where
  "u64_checked_mul a b = (if a * b \<le> U64_MAX then Some (a * b) else None)"

definition RETRY_MAX_ATTEMPTS :: nat where "RETRY_MAX_ATTEMPTS = 10"
definition RETRY_BASE_DELAY_MS :: nat where "RETRY_BASE_DELAY_MS = 10"
definition RETRY_MAX_DELAY_MS :: nat where "RETRY_MAX_DELAY_MS = 1000"

definition backoff_delay_ms :: "nat \<Rightarrow> nat \<Rightarrow> nat \<Rightarrow> nat" where
  "backoff_delay_ms attempt base_delay_ms max_delay_ms =
     (case Option.bind (u64_checked_pow2 attempt) (u64_checked_mul base_delay_ms) of
        None \<Rightarrow> max_delay_ms
      | Some computed \<Rightarrow> min computed max_delay_ms)"

section \<open>The retry loop\<close>

text \<open>
  \<open>retry_loop\<close> is the \<open>loop\<close> of \<open>retry_with_backoff\<close> at a given attempt counter; it also returns the
  delays slept, in order.
\<close>

function retry_loop ::
  "nat \<Rightarrow> nat \<Rightarrow> nat \<Rightarrow> ('st \<Rightarrow> ('err + 'out) \<times> 'st) \<Rightarrow> ('err \<Rightarrow> bool) \<Rightarrow> nat \<Rightarrow> 'st
     \<Rightarrow> ('err + 'out) \<times> nat list \<times> 'st" where
  "retry_loop max_attempts base cap make_attempt should_retry attempt st =
     (case make_attempt st of
        (Inr output, st') \<Rightarrow> (Inr output, [], st')
      | (Inl err, st') \<Rightarrow>
          if attempt < max_attempts \<and> should_retry err then
            (let (r, delays, st'') =
                   retry_loop max_attempts base cap make_attempt should_retry (attempt + 1) st'
             in (r, backoff_delay_ms attempt base cap # delays, st''))
          else (Inl err, [], st'))"
  by pat_completeness auto
termination
  by (relation "measure (\<lambda>(m, _, _, _, _, a, _). m - a)") auto

declare retry_loop.simps [simp del]

definition retry_with_backoff ::
  "nat \<Rightarrow> nat \<Rightarrow> nat \<Rightarrow> ('st \<Rightarrow> ('err + 'out) \<times> 'st) \<Rightarrow> ('err \<Rightarrow> bool) \<Rightarrow> 'st
     \<Rightarrow> ('err + 'out) \<times> nat list \<times> 'st" where
  "retry_with_backoff max_attempts base cap make_attempt should_retry st =
     retry_loop max_attempts base cap make_attempt should_retry 0 st"

text \<open>\<open>RetryOnBusy::react\<close>: the wrapped reactor's \<open>react\<close> under the default schedule.\<close>

definition retry_on_busy ::
  "('st \<Rightarrow> ('err + unit) \<times> 'st) \<Rightarrow> ('err \<Rightarrow> bool) \<Rightarrow> 'st \<Rightarrow> ('err + unit) \<times> nat list \<times> 'st" where
  "retry_on_busy react is_retryable st =
     retry_with_backoff RETRY_MAX_ATTEMPTS RETRY_BASE_DELAY_MS RETRY_MAX_DELAY_MS react is_retryable st"

section \<open>Busy classification\<close>

text \<open>\<open>str::parse::<i32>\<close>: an optional sign, at least one digit, and a value in range.\<close>

definition digit_value :: "char \<Rightarrow> nat option" where
  "digit_value c = (let n = of_char c :: nat in if 48 \<le> n \<and> n \<le> 57 then Some (n - 48) else None)"

fun digits_value :: "nat \<Rightarrow> string \<Rightarrow> nat option" where
  "digits_value acc [] = Some acc"
| "digits_value acc (c # cs) =
     (case digit_value c of None \<Rightarrow> None | Some n \<Rightarrow> digits_value (10 * acc + n) cs)"

definition i32_in_range :: "int \<Rightarrow> int option" where
  "i32_in_range i = (if - (2 ^ 31) \<le> i \<and> i < 2 ^ 31 then Some i else None)"

definition parse_i32 :: "string \<Rightarrow> int option" where
  "parse_i32 s =
     (case s of
        [] \<Rightarrow> None
      | c # cs \<Rightarrow>
          if c = CHR ''-'' then
            (if cs = [] then None else Option.bind (digits_value 0 cs) (\<lambda>n. i32_in_range (- int n)))
          else if c = CHR ''+'' then
            (if cs = [] then None else Option.bind (digits_value 0 cs) (\<lambda>n. i32_in_range (int n)))
          else Option.bind (digits_value 0 s) (\<lambda>n. i32_in_range (int n)))"

definition is_busy_extended_code :: "string option \<Rightarrow> bool" where
  "is_busy_extended_code code =
     (case code of
        None \<Rightarrow> False
      | Some s \<Rightarrow>
          (case parse_i32 s of
             None \<Rightarrow> False
           | Some extended_code \<Rightarrow> ((word_of_int extended_code :: 32 word) AND 0xFF) = 5))"

text \<open>
  One node of the walked chain: a \<open>sqlx::Error\<close> (with the code of its database error, if it is one), a
  boxed database error, a \<open>PersistenceError\<close> whose boxed inner error the walk steps into, or any other
  error. The last argument is what \<open>source()\<close> (or the box) gives.
\<close>

datatype error_node =
    SqlxDatabase "string option" "error_node option"
  | BoxedDatabase "string option" "error_node option"
  | PersistenceBoxed error_node
  | OtherError "error_node option"

fun is_retryable_sqlite_busy :: "error_node \<Rightarrow> bool" where
  "is_retryable_sqlite_busy (SqlxDatabase code source) =
     (is_busy_extended_code code \<or> (case source of None \<Rightarrow> False | Some e \<Rightarrow> is_retryable_sqlite_busy e))"
| "is_retryable_sqlite_busy (BoxedDatabase code source) =
     (is_busy_extended_code code \<or> (case source of None \<Rightarrow> False | Some e \<Rightarrow> is_retryable_sqlite_busy e))"
| "is_retryable_sqlite_busy (PersistenceBoxed inner) = is_retryable_sqlite_busy inner"
| "is_retryable_sqlite_busy (OtherError source) =
     (case source of None \<Rightarrow> False | Some e \<Rightarrow> is_retryable_sqlite_busy e)"

section \<open>Lemmas\<close>

lemma backoff_exact:
  assumes "0 < base" and "cap \<le> U64_MAX"
  shows "backoff_delay_ms attempt base cap = min (base * 2 ^ attempt) cap"
proof (cases "2 ^ attempt \<le> U64_MAX")
  case True
  then show ?thesis
    using assms by (auto simp: backoff_delay_ms_def u64_checked_pow2_def u64_checked_mul_def)
next
  case False
  moreover have "2 ^ attempt \<le> base * 2 ^ attempt" using assms(1) by simp
  ultimately have "cap \<le> base * 2 ^ attempt" using assms(2) by linarith
  then show ?thesis using False by (simp add: backoff_delay_ms_def u64_checked_pow2_def)
qed

lemma word_and_255: "((w :: 32 word) AND 0xFF) = 5 \<longleftrightarrow> uint w mod 256 = 5"
proof -
  have "w AND 0xFF = take_bit 8 w"
    by (simp add: take_bit_eq_mask mask_eq_exp_minus_1)
  moreover have "uint (take_bit 8 w) = take_bit 8 (uint w)" by (rule unsigned_take_bit_eq)
  ultimately have "uint (w AND 0xFF) = uint w mod 256" by (simp only: take_bit_eq_mod) simp
  then show ?thesis by (simp add: word_uint_eq_iff)
qed

lemma word_of_int_mod_256: "uint (word_of_int i :: 32 word) mod 256 = i mod 256"
  by (simp add: uint_word_of_int mod_mod_cancel)

lemma parse_i32_digits:
  assumes "s \<noteq> []" and "hd s \<noteq> CHR ''-''" and "hd s \<noteq> CHR ''+''"
  shows "parse_i32 s = Option.bind (digits_value 0 s) (\<lambda>n. i32_in_range (int n))"
  using assms by (cases s) (auto simp: parse_i32_def)

text \<open>The attempts of a run: at most one more than the retries allowed.\<close>

text \<open>The state before the \<open>k\<close>-th attempt when every earlier one was made: attempts share their state.\<close>

fun attempt_state :: "('st \<Rightarrow> ('err + 'out) \<times> 'st) \<Rightarrow> 'st \<Rightarrow> nat \<Rightarrow> 'st" where
  "attempt_state make_attempt st 0 = st"
| "attempt_state make_attempt st (Suc k) = attempt_state make_attempt (snd (make_attempt st)) k"

lemma retry_loop_exact:
  "retry_loop m base cap f rt a st = (r, delays, st') \<Longrightarrow>
     length delays \<le> m - a \<and> delays = map (\<lambda>k. backoff_delay_ms k base cap) [a..<a + length delays]
     \<and> f (attempt_state f st (length delays)) = (r, st')
     \<and> (\<forall>k < length delays. \<exists>err. fst (f (attempt_state f st k)) = Inl err \<and> rt err)
     \<and> (\<forall>err. r = Inl err \<longrightarrow> length delays = m - a \<or> \<not> rt err)"
proof (induction m base cap f rt a st arbitrary: r delays st' rule: retry_loop.induct)
  case (1 m base cap f rt a st)
  show ?case
  proof (cases "f st")
    case (Pair res st1)
    show ?thesis
    proof (cases "\<exists>err. res = Inl err \<and> a < m \<and> rt err")
      case True
      then obtain err where err: "res = Inl err" "a < m" "rt err" by blast
      obtain r2 ds st2 where rec: "retry_loop m base cap f rt (a + 1) st1 = (r2, ds, st2)"
        by (cases "retry_loop m base cap f rt (a + 1) st1")
      have eq: "delays = backoff_delay_ms a base cap # ds" "r = r2" "st' = st2"
        using 1(2) Pair err rec by (simp_all add: retry_loop.simps [of m base cap f rt a st])
      have IH: "length ds \<le> m - (a + 1)" "ds = map (\<lambda>k. backoff_delay_ms k base cap) [a + 1..<a + 1 + length ds]"
          "f (attempt_state f st1 (length ds)) = (r2, st2)"
          "\<forall>k < length ds. \<exists>err. fst (f (attempt_state f st1 k)) = Inl err \<and> rt err"
          "\<forall>err. r2 = Inl err \<longrightarrow> length ds = m - (a + 1) \<or> \<not> rt err"
        using 1(1) [OF Pair [symmetric] err(1) _ rec] err by blast+
      have "\<exists>err. fst (f (attempt_state f st k)) = Inl err \<and> rt err" if "k < length delays" for k
        using IH(4) err Pair that eq(1) by (cases k) auto
      moreover have "[a..<a + length (backoff_delay_ms a base cap # ds)] = a # [a + 1..<a + 1 + length ds]"
        by (simp add: upt_conv_Cons del: upt_Suc)
      ultimately show ?thesis using IH err(2) Pair by (simp add: eq del: upt_Suc) (metis Suc_diff_Suc Suc_le_mono)
    next
      case False
      then have "delays = [] \<and> res = r \<and> st1 = st' \<and> (\<forall>err. r = Inl err \<longrightarrow> m - a = 0 \<or> \<not> rt err)"
        using 1(2) Pair by (auto simp: retry_loop.simps [of m base cap f rt a st] split: sum.splits if_splits)
      then show ?thesis using Pair by simp
    qed
  qed
qed

section \<open>Properties\<close>

text \<open>
  For a positive base delay and a cap that is a \<open>u64\<close>, the backoff is exactly
  the capped exponential \<open>min (base * 2 ^ attempt) cap\<close>: computing it in 64 bits with saturation never
  shows, and with the default schedule no delay exceeds one second.
\<close>

theorem backoff_saturates:
  assumes "0 < base" and "cap \<le> U64_MAX"
  shows "backoff_delay_ms attempt base cap = min (base * 2 ^ attempt) cap
    \<and> backoff_delay_ms attempt RETRY_BASE_DELAY_MS RETRY_MAX_DELAY_MS \<le> 1000"
  using backoff_exact [OF assms] backoff_exact [of RETRY_BASE_DELAY_MS RETRY_MAX_DELAY_MS attempt]
  by (simp add: RETRY_BASE_DELAY_MS_def RETRY_MAX_DELAY_MS_def U64_MAX_def)

theorem backoff_saturates_witness:
  "backoff_delay_ms 3 10 1000 = 80 \<and> backoff_delay_ms 200 10 1000 = 1000"
proof -
  have c: "(0::nat) < 10" "1000 \<le> U64_MAX" by (simp_all add: U64_MAX_def)
  show ?thesis using backoff_saturates [OF c, of 3] backoff_saturates [OF c, of 200] by simp
qed

text \<open>
  C18 (retry_bounded). The retry loop returns the outcome of its last attempt, exactly: it makes one attempt more than it
  sleeps, each from the state the previous one left; every attempt it slept after failed with a retryable error, so
  it stops at the first success and at the first error that is not retryable. It sleeps at most \<open>max_attempts\<close>
  times, by the backoff schedule from attempt 0, and it returns a retryable error only when the whole budget
  has been spent.
\<close>

theorem retry_bounded:
  assumes "retry_with_backoff max_attempts base cap make_attempt should_retry st = (result, delays, st')"
  shows "length delays \<le> max_attempts
    \<and> delays = map (\<lambda>k. backoff_delay_ms k base cap) [0..<length delays]
    \<and> make_attempt (attempt_state make_attempt st (length delays)) = (result, st')
    \<and> (\<forall>k < length delays. \<exists>err. fst (make_attempt (attempt_state make_attempt st k)) = Inl err \<and> should_retry err)
    \<and> (case result of Inl err \<Rightarrow> length delays = max_attempts \<or> \<not> should_retry err | Inr _ \<Rightarrow> True)"
  using retry_loop_exact [OF assms [unfolded retry_with_backoff_def]] by (simp split: sum.splits)

text \<open>An attempt that fails twice with a retryable error and then succeeds.\<close>

definition flaky :: "nat \<Rightarrow> (string + nat) \<times> nat" where
  "flaky n = (if n < 2 then Inl ''busy'' else Inr n, n + 1)"

theorem retry_bounded_witness:
  "retry_with_backoff 10 10 1000 flaky (\<lambda>e. e = ''busy'') 0 = (Inr 2, [10, 20], 3)
   \<and> fst (flaky (attempt_state flaky 0 0)) = Inl ''busy'' \<and> fst (flaky (attempt_state flaky 0 1)) = Inl ''busy''
   \<and> flaky (attempt_state flaky 0 2) = (Inr 2, 3)"
proof -
  have b: "backoff_delay_ms 0 10 1000 = 10" "backoff_delay_ms 1 10 1000 = 20"
    by (simp_all add: backoff_exact U64_MAX_def)
  let ?loop = "retry_loop 10 10 1000 flaky (\<lambda>e. e = ''busy'')"
  have l2: "?loop (Suc (Suc 0)) (Suc (Suc 0)) = (Inr 2, [], 3)" by (subst retry_loop.simps) (simp add: flaky_def)
  have l1: "?loop 1 1 = (Inr 2, [20], 3)"
    by (subst retry_loop.simps) (simp add: flaky_def l2 b(2) [unfolded One_nat_def])
  have "?loop 0 0 = (Inr 2, [10, 20], 3)"
    by (subst retry_loop.simps) (simp add: flaky_def l1 [unfolded One_nat_def] b)
  then have r: "retry_with_backoff 10 10 1000 flaky (\<lambda>e. e = ''busy'') 0 = (Inr 2, [10, 20], 3)"
    by (simp add: retry_with_backoff_def)
  have two: "length [10, 20::nat] = 2" by simp
  note e = retry_bounded [OF r, unfolded two]
  have "\<exists>err. fst (flaky (attempt_state flaky 0 k)) = Inl err \<and> err = ''busy''" if "k < 2" for k
    using e that by blast
  from this [of 0] this [of 1] show ?thesis using e r by simp
qed

text \<open>
  An error code is classified as busy exactly when it parses as an \<open>i32\<close> whose
  low byte is 5; the family 5, 261, 517 and 773 is classified as busy, a constraint violation is not.
\<close>

theorem busy_family_exact:
  "(is_busy_extended_code (Some s) \<longleftrightarrow> (\<exists>code. parse_i32 s = Some code \<and> code mod 256 = 5))
   \<and> list_all (\<lambda>c. is_busy_extended_code (Some c)) [''5'', ''261'', ''517'', ''773'']
   \<and> \<not> is_busy_extended_code (Some ''1555'')"
proof -
  have iff: "is_busy_extended_code (Some s) \<longleftrightarrow> (\<exists>code. parse_i32 s = Some code \<and> code mod 256 = 5)" for s
    by (auto simp: is_busy_extended_code_def word_and_255 word_of_int_mod_256 split: option.splits)
  have "parse_i32 ''5'' = Some 5" "parse_i32 ''261'' = Some 261" "parse_i32 ''517'' = Some 517"
      "parse_i32 ''773'' = Some 773" "parse_i32 ''1555'' = Some 1555"
    by (simp_all add: parse_i32_digits digit_value_def i32_in_range_def)
  then show ?thesis by (simp add: iff)
qed

end
