(* ===== verification/Projection.thy ===== *)
theory Projection
  imports Lifecycle Sqlite_Es Reactor
begin

text \<open>
  Materialized views, \<open>projection.rs\<close>: the reactor that folds one committed event into its view row
  under optimistic concurrency with bounded retries, the startup catch-up that replays missed events,
  the rebuilds, and the read paths. A projection is a dictionary of its entity and codecs; the view
  table is a list of rows. What other writers do to the table around a reaction is the argument
  \<open>env\<close>: it maps the attempt number to the change made before the load and to the one made between
  the load and the update.
\<close>

section \<open>Definitions\<close>

record ('s, 'c, 'e, 'err) projection =
  pj_entity :: "('s, 'c, 'e, 'err) event_sourced"
  pj_enc :: "('s, 'e, 'err) lifecycle \<Rightarrow> json"
  pj_dec :: "json \<Rightarrow> ('s, 'e, 'err) lifecycle option"
  pj_dec_event :: "json \<Rightarrow> 'e option"

datatype ('s, 'e, 'err) projection_error =
    ProjSerde string
  | ProjPersistence persistence_error
  | ProjLifecycle "('s, 'e, 'err) lifecycle_error"
  | ColumnNotFound string
  | StaleColumn string nat

type_synonym view_env = "nat \<Rightarrow> (view_row list \<Rightarrow> view_row list) \<times> (view_row list \<Rightarrow> view_row list)"

function react_from ::
  "('s, 'c, 'e, 'err) projection \<Rightarrow> view_env \<Rightarrow> string \<Rightarrow> 'e \<Rightarrow> nat \<Rightarrow> view_row list \<Rightarrow> view_row list" where
  "react_from pj env view_id event attempt rows =
     (let loaded = fst (env attempt) rows in
      case view_load_with_context (pj_dec pj) view_id loaded of
        Inl _ \<Rightarrow> loaded
      | Inr found \<Rightarrow>
          (let (lifecycle, context) =
                 (case found of
                    Some (l, i, v) \<Rightarrow> (l, (i, v))
                  | None \<Rightarrow> (Uninitialized, (view_id, 0)));
               rows' = snd (env attempt) loaded
           in case update_view (pj_enc pj (apply_event (pj_entity pj) lifecycle event)) context rows' of
                Inr updated \<Rightarrow> updated
              | Inl OptimisticLockError \<Rightarrow>
                  if attempt < RETRY_MAX_ATTEMPTS
                  then react_from pj env view_id event (attempt + 1) rows'
                  else rows'
              | Inl _ \<Rightarrow> rows'))"
  by pat_completeness auto
termination
  by (relation "measure (\<lambda>(_, _, _, _, a, _). RETRY_MAX_ATTEMPTS - a)") auto

declare react_from.simps [simp del]

definition react ::
  "('s, 'c, 'e, 'err) projection \<Rightarrow> view_env \<Rightarrow> string \<Rightarrow> 'e \<Rightarrow> view_row list \<Rightarrow> view_row list" where
  "react pj env view_id event rows = react_from pj env view_id event 0 rows"

definition load_view ::
  "('s, 'c, 'e, 'err) projection \<Rightarrow> string \<Rightarrow> view_row list
     \<Rightarrow> ('s, 'e, 'err) projection_error + 's option" where
  "load_view pj i rows =
     (case view_load (pj_dec pj) i rows of
        Inr (Some l) \<Rightarrow> map_err ProjLifecycle (into_result l)
      | Inr None \<Rightarrow> Inr None
      | Inl e \<Rightarrow> Inl (ProjPersistence e))"

text \<open>\<open>parse_id\<close> is the entity id's \<open>FromStr\<close>; a row that does not parse, decode or hold a live entity is skipped.\<close>

definition parse_rows ::
  "('s, 'c, 'e, 'err) projection \<Rightarrow> (string \<Rightarrow> 'id option) \<Rightarrow> view_row list \<Rightarrow> ('id \<times> 's) list" where
  "parse_rows pj parse_id rows =
     List.map_filter (\<lambda>r.
       case parse_id (vw_id r) of None \<Rightarrow> None | Some i \<Rightarrow>
       (case Option.bind (from_text (vw_payload r)) (pj_dec pj) of
          Some (Live s) \<Rightarrow> Some (i, s) | _ \<Rightarrow> None)) rows"

definition load_all ::
  "('s, 'c, 'e, 'err) projection \<Rightarrow> (string \<Rightarrow> 'id option) \<Rightarrow> view_row list \<Rightarrow> ('id \<times> 's) list" where
  "load_all pj parse_id rows = parse_rows pj parse_id (sort_key vw_id rows)"

definition validate_column ::
  "string list \<Rightarrow> (view_row \<Rightarrow> string \<Rightarrow> sql_value) \<Rightarrow> string \<Rightarrow> view_row list
     \<Rightarrow> ('s, 'e, 'err) projection_error + unit" where
  "validate_column schema col column rows =
     (if column \<notin> set schema then Inl (ColumnNotFound column)
      else if rows \<noteq> [] \<and> filter (\<lambda>r. col r column \<noteq> SqlNull) rows = []
      then Inl (StaleColumn column (length rows))
      else Inr ())"

definition filter_views ::
  "('s, 'c, 'e, 'err) projection \<Rightarrow> (string \<Rightarrow> 'id option) \<Rightarrow> string list
     \<Rightarrow> (view_row \<Rightarrow> string \<Rightarrow> sql_value) \<Rightarrow> string \<Rightarrow> sql_value \<Rightarrow> view_row list
     \<Rightarrow> ('s, 'e, 'err) projection_error + ('id \<times> 's) list" where
  "filter_views pj parse_id schema col column value rows =
     bind_result (validate_column schema col column rows) (\<lambda>_.
       Inr (parse_rows pj parse_id
         (sort_key vw_id (filter (\<lambda>r. value \<noteq> SqlNull \<and> col r column = value) rows))))"

subsection \<open>Catch-up\<close>

definition stream_ids :: "string \<Rightarrow> event_row list \<Rightarrow> string list" where
  "stream_ids ty rows = remdups (map er_id (filter (\<lambda>r. er_type r = ty) rows))"

definition is_stale :: "view_row list \<Rightarrow> string \<Rightarrow> int \<Rightarrow> bool" where
  "is_stale rows i m = (case tbl_get vw_id i rows of None \<Rightarrow> True | Some r \<Rightarrow> m > vw_version r)"

definition view_version_or_0 :: "view_row list \<Rightarrow> string \<Rightarrow> int" where
  "view_version_or_0 rows i = (case tbl_get vw_id i rows of None \<Rightarrow> 0 | Some r \<Rightarrow> vw_version r)"

definition stale_aggregates ::
  "string \<Rightarrow> event_row list \<Rightarrow> view_row list \<Rightarrow> (string \<times> int \<times> int) list" where
  "stale_aggregates ty evrows rows =
     map (\<lambda>i. (i, view_version_or_0 rows i, max_sequence ty i evrows))
       (filter (\<lambda>i. is_stale rows i (max_sequence ty i evrows)) (stream_ids ty evrows))"

text \<open>The direct write: an insert, or an update of version and payload that keeps the lease column.\<close>

definition put_view :: "string \<Rightarrow> int \<Rightarrow> text_cell \<Rightarrow> view_row list \<Rightarrow> view_row list" where
  "put_view i v p rows =
     (case tbl_get vw_id i rows of
        None \<Rightarrow> rows @ [\<lparr>vw_id = i, vw_version = v, vw_payload = p, vw_lease = None\<rparr>]
      | Some r \<Rightarrow> tbl_upsert vw_id (r\<lparr>vw_version := v, vw_payload := p\<rparr>) rows)"

definition decode_event_row ::
  "('s, 'c, 'e, 'err) projection \<Rightarrow> string \<Rightarrow> event_row \<Rightarrow> ('s, 'e, 'err) projection_error + 'e" where
  "decode_event_row pj view_id r =
     ok_or (ProjSerde view_id) (Option.bind (from_text (er_payload r)) (pj_dec_event pj))"

definition replay_missed_events ::
  "('s, 'c, 'e, 'err) projection \<Rightarrow> event_row list \<Rightarrow> string \<Rightarrow> string \<Rightarrow> int \<Rightarrow> int \<Rightarrow> view_row list
     \<Rightarrow> ('s, 'e, 'err) projection_error + view_row list" where
  "replay_missed_events pj evrows ty view_id view_version m rows =
     bind_result (case view_load_with_context (pj_dec pj) view_id rows of
         Inr (Some (l, _, _)) \<Rightarrow> Inr (l, view_version)
       | Inr None \<Rightarrow> Inr (Uninitialized, 0)
       | Inl DeserializationError \<Rightarrow> Inr (Uninitialized, 0)
       | Inl e \<Rightarrow> Inl (ProjPersistence e)) (\<lambda>(lifecycle, replay_from).
     bind_result (collect_results (decode_event_row pj view_id)
         (get_last_events ty view_id replay_from evrows)) (\<lambda>missed.
       Inr (put_view view_id m (to_text (pj_enc pj (replay (pj_entity pj) lifecycle missed))) rows)))"

text \<open>Each aggregate is written on its own: an error keeps the rows written before it.\<close>

fun replay_stale ::
  "('s, 'c, 'e, 'err) projection \<Rightarrow> event_row list \<Rightarrow> string \<Rightarrow> (string \<times> int \<times> int) list \<Rightarrow> view_row list
     \<Rightarrow> view_row list \<times> (('s, 'e, 'err) projection_error + unit)" where
  "replay_stale pj evrows ty [] rows = (rows, Inr ())"
| "replay_stale pj evrows ty ((i, v, m) # rest) rows =
     (case replay_missed_events pj evrows ty i v m rows of
        Inl e \<Rightarrow> (rows, Inl e)
      | Inr rows' \<Rightarrow> replay_stale pj evrows ty rest rows')"

definition catch_up ::
  "('s, 'c, 'e, 'err) projection \<Rightarrow> event_row list \<Rightarrow> view_row list
     \<Rightarrow> view_row list \<times> (('s, 'e, 'err) projection_error + unit)" where
  "catch_up pj evrows rows =
     (let ty = es_aggregate_type (pj_entity pj)
      in replay_stale pj evrows ty (stale_aggregates ty evrows rows) rows)"

definition rebuild ::
  "('s, 'c, 'e, 'err) projection \<Rightarrow> event_row list \<Rightarrow> string \<Rightarrow> view_row list
     \<Rightarrow> view_row list \<times> (('s, 'e, 'err) projection_error + unit)" where
  "rebuild pj evrows i rows = catch_up pj evrows (tbl_delete (\<lambda>r. vw_id r = i) rows)"

definition rebuild_all ::
  "('s, 'c, 'e, 'err) projection \<Rightarrow> event_row list \<Rightarrow> view_row list
     \<Rightarrow> view_row list \<times> (('s, 'e, 'err) projection_error + unit)" where
  "rebuild_all pj evrows rows = catch_up pj evrows (tbl_delete (\<lambda>_. True) rows)"

section \<open>Lemmas\<close>

lemma put_view_get:
  "tbl_get vw_id j (put_view i v p rows) =
     (if j = i then Some (case tbl_get vw_id i rows of
          None \<Rightarrow> \<lparr>vw_id = i, vw_version = v, vw_payload = p, vw_lease = None\<rparr>
        | Some r \<Rightarrow> r\<lparr>vw_version := v, vw_payload := p\<rparr>)
      else tbl_get vw_id j rows)"
proof (cases "tbl_get vw_id i rows")
  case None
  then show ?thesis by (auto simp: put_view_def tbl_get_append_new tbl_get_None [symmetric])
next
  case (Some r)
  then have "vw_id r = i" by (auto dest: tbl_get_Some_in)
  then show ?thesis using Some by (simp add: put_view_def jq.get_put)
qed

lemma put_view_unique: "tbl_unique vw_id rows \<Longrightarrow> tbl_unique vw_id (put_view i v p rows)"
proof (cases "tbl_get vw_id i rows")
  case None
  assume "tbl_unique vw_id rows"
  moreover have "i \<notin> vw_id ` set rows" using None by (simp add: tbl_get_None)
  ultimately show ?thesis using None by (simp add: put_view_def tbl_unique_def)
next
  case (Some r)
  assume "tbl_unique vw_id rows"
  then show ?thesis using Some by (simp add: put_view_def jq.invar_put)
qed

lemma sorted_split_at:
  assumes "sorted (map f xs)"
  shows "xs = filter (\<lambda>x. f x \<le> v) xs @ filter (\<lambda>x. v < (f x :: int)) xs"
  using assms
proof (induction xs)
  case (Cons x xs)
  show ?case
  proof (cases "f x \<le> v")
    case False
    then have "filter (\<lambda>y. f y \<le> v) xs = []" and "filter (\<lambda>y. v < f y) xs = xs"
      using Cons.prems by (auto simp: filter_empty_conv filter_id_conv)
    then show ?thesis using False by simp
  qed (use Cons in auto)
qed simp

definition events_upto ::
  "('s, 'c, 'e, 'err) projection \<Rightarrow> event_row list \<Rightarrow> string \<Rightarrow> int \<Rightarrow> ('s, 'e, 'err) projection_error + 'e list" where
  "events_upto pj evrows i v =
     collect_results (decode_event_row pj i)
       (filter (\<lambda>r. er_seq r \<le> v) (select_events (es_aggregate_type (pj_entity pj)) i evrows))"

definition stream_of ::
  "('s, 'c, 'e, 'err) projection \<Rightarrow> event_row list \<Rightarrow> string \<Rightarrow> ('s, 'e, 'err) projection_error + 'e list" where
  "stream_of pj evrows i =
     collect_results (decode_event_row pj i) (select_events (es_aggregate_type (pj_entity pj)) i evrows)"

text \<open>A row that decodes holds the fold of the events up to its version.\<close>

definition view_consistent :: "('s, 'c, 'e, 'err) projection \<Rightarrow> event_row list \<Rightarrow> view_row \<Rightarrow> bool" where
  "view_consistent pj evrows r =
     (case Option.bind (from_text (vw_payload r)) (pj_dec pj) of
        None \<Rightarrow> True
      | Some l \<Rightarrow>
          (case events_upto pj evrows (vw_id r) (vw_version r) of
             Inl _ \<Rightarrow> False
           | Inr pre \<Rightarrow> l = replay (pj_entity pj) Uninitialized pre))"

lemma select_events_sorted: "sorted (map er_seq (select_events ty i rows))"
  by (simp add: select_events_def)

lemma stream_split:
  assumes "stream_of pj evrows i = Inr evs" and "events_upto pj evrows i v = Inr pre"
  obtains post where
    "collect_results (decode_event_row pj i)
       (get_last_events (es_aggregate_type (pj_entity pj)) i v evrows) = Inr post"
    "evs = pre @ post"
proof -
  let ?S = "select_events (es_aggregate_type (pj_entity pj)) i evrows"
  have "collect_results (decode_event_row pj i)
      (filter (\<lambda>r. er_seq r \<le> v) ?S @ filter (\<lambda>r. v < er_seq r) ?S) = Inr evs"
    using assms(1) sorted_split_at [OF select_events_sorted, of _ i evrows v] by (simp add: stream_of_def)
  then show ?thesis
    using assms(2) that
    by (auto simp: collect_results_append events_upto_def get_last_events_filter)
qed

lemma get_last_events_all:
  assumes "\<forall>r \<in> set evrows. er_type r = ty \<longrightarrow> 0 < er_seq r"
  shows "get_last_events ty i 0 evrows = select_events ty i evrows"
  using assms by (auto simp: get_last_events_filter filter_id_conv set_select_events in_stream_def)

lemma replay_missed_eq:
  assumes "\<forall>r \<in> set evrows. er_type r = es_aggregate_type (pj_entity pj) \<longrightarrow> 0 < er_seq r" and "stream_of pj evrows i = Inr evs"
    and "case tbl_get vw_id i rows of None \<Rightarrow> True | Some r \<Rightarrow> view_consistent pj evrows r"
  shows "replay_missed_events pj evrows (es_aggregate_type (pj_entity pj)) i (view_version_or_0 rows i) m rows =
    Inr (put_view i m (to_text (pj_enc pj (replay (pj_entity pj) Uninitialized evs))) rows)"
proof -
  have fresh: "collect_results (decode_event_row pj i)
      (get_last_events (es_aggregate_type (pj_entity pj)) i 0 evrows) = Inr evs"
    using assms(2) get_last_events_all [OF assms(1)] by (simp add: stream_of_def)
  show ?thesis
  proof (cases "tbl_get vw_id i rows")
    case None
    then show ?thesis
      by (simp add: replay_missed_events_def view_load_with_context_def select_view_def fresh)
  next
    case (Some r)
    then have r: "vw_id r = i" "view_version_or_0 rows i = vw_version r"
      by (auto dest: tbl_get_Some_in simp: view_version_or_0_def)
    show ?thesis
    proof (cases "Option.bind (from_text (vw_payload r)) (pj_dec pj)")
      case None
      then show ?thesis
        using Some by (simp add: replay_missed_events_def view_load_with_context_def select_view_def fresh)
    next
      case dec: (Some l)
      then obtain pre where pre: "events_upto pj evrows i (vw_version r) = Inr pre"
        and l: "l = replay (pj_entity pj) Uninitialized pre"
        using assms(3) Some r(1) by (auto simp: view_consistent_def split: sum.splits)
      obtain post where "collect_results (decode_event_row pj i)
          (get_last_events (es_aggregate_type (pj_entity pj)) i (vw_version r) evrows) = Inr post"
          and "evs = pre @ post"
        using stream_split [OF assms(2) pre] by blast
      then show ?thesis
        using Some dec l r
        by (simp add: replay_missed_events_def view_load_with_context_def select_view_def)
    qed
  qed
qed

text \<open>The rows a catch-up leaves: the fold of the stream for a listed aggregate, the old row otherwise.\<close>

definition caught_up_row ::
  "('s, 'c, 'e, 'err) projection \<Rightarrow> event_row list \<Rightarrow> view_row list \<Rightarrow> string \<Rightarrow> 'e list \<Rightarrow> view_row" where
  "caught_up_row pj evrows rows i evs =
     (let m = max_sequence (es_aggregate_type (pj_entity pj)) i evrows;
          p = to_text (pj_enc pj (replay (pj_entity pj) Uninitialized evs))
      in case tbl_get vw_id i rows of
           None \<Rightarrow> \<lparr>vw_id = i, vw_version = m, vw_payload = p, vw_lease = None\<rparr>
         | Some r \<Rightarrow> r\<lparr>vw_version := m, vw_payload := p\<rparr>)"

lemma replay_stale_rows:
  assumes "\<forall>r \<in> set evrows. er_type r = es_aggregate_type (pj_entity pj) \<longrightarrow> 0 < er_seq r" and "distinct ids"
    and "\<forall>i \<in> set ids. stream_of pj evrows i = Inr (evs i)"
    and "\<forall>i \<in> set ids. \<forall>r. tbl_get vw_id i rows = Some r \<longrightarrow> view_consistent pj evrows r"
    and "tbl_unique vw_id rows"
  shows "\<exists>rows'. replay_stale pj evrows (es_aggregate_type (pj_entity pj))
      (map (\<lambda>i. (i, view_version_or_0 rows i, max_sequence (es_aggregate_type (pj_entity pj)) i evrows)) ids)
      rows = (rows', Inr ())
    \<and> tbl_unique vw_id rows'
    \<and> (\<forall>j. tbl_get vw_id j rows' =
          (if j \<in> set ids then Some (caught_up_row pj evrows rows j (evs j)) else tbl_get vw_id j rows))"
  using assms(2-5)
proof (induction ids arbitrary: rows)
  case (Cons i ids)
  let ?ty = "es_aggregate_type (pj_entity pj)"
  let ?rows1 = "put_view i (max_sequence ?ty i evrows)
      (to_text (pj_enc pj (replay (pj_entity pj) Uninitialized (evs i)))) rows"
  have step: "replay_missed_events pj evrows ?ty i (view_version_or_0 rows i) (max_sequence ?ty i evrows) rows =
      Inr ?rows1"
    using replay_missed_eq [OF assms(1), of i "evs i" rows] Cons.prems(2,3)
    by (simp split: option.splits)
  have get1: "tbl_get vw_id j ?rows1 =
      (if j = i then Some (caught_up_row pj evrows rows i (evs i)) else tbl_get vw_id j rows)" for j
    by (auto simp: put_view_get caught_up_row_def Let_def split: option.splits)
  have others: "map (\<lambda>j. (j, view_version_or_0 rows j, max_sequence ?ty j evrows)) ids =
      map (\<lambda>j. (j, view_version_or_0 ?rows1 j, max_sequence ?ty j evrows)) ids"
    using Cons.prems(1) by (auto simp: view_version_or_0_def get1)
  have "\<exists>rows'. replay_stale pj evrows ?ty
      (map (\<lambda>j. (j, view_version_or_0 ?rows1 j, max_sequence ?ty j evrows)) ids) ?rows1 = (rows', Inr ())
    \<and> tbl_unique vw_id rows'
    \<and> (\<forall>j. tbl_get vw_id j rows' =
          (if j \<in> set ids then Some (caught_up_row pj evrows ?rows1 j (evs j)) else tbl_get vw_id j ?rows1))"
    using Cons.prems put_view_unique [of rows] by (intro Cons.IH) (auto simp: get1)
  moreover have "caught_up_row pj evrows ?rows1 j (evs j) = caught_up_row pj evrows rows j (evs j)"
    if "j \<in> set ids" for j
    using that Cons.prems(1) by (auto simp: caught_up_row_def get1)
  ultimately show ?case
    using step Cons.prems(1) by (auto simp: others get1)
qed simp

lemma catch_up_rows:
  assumes "\<forall>r \<in> set evrows. er_type r = es_aggregate_type (pj_entity pj) \<longrightarrow> 0 < er_seq r" and "tbl_unique vw_id rows"
    and "\<forall>i \<in> set (stream_ids (es_aggregate_type (pj_entity pj)) evrows). stream_of pj evrows i = Inr (evs i)"
    and "\<forall>r \<in> set rows. view_consistent pj evrows r"
  shows "\<exists>rows'. catch_up pj evrows rows = (rows', Inr ()) \<and> tbl_unique vw_id rows'
    \<and> (\<forall>j. tbl_get vw_id j rows' =
          (if j \<in> set (stream_ids (es_aggregate_type (pj_entity pj)) evrows)
              \<and> is_stale rows j (max_sequence (es_aggregate_type (pj_entity pj)) j evrows)
           then Some (caught_up_row pj evrows rows j (evs j)) else tbl_get vw_id j rows))"
proof -
  let ?ty = "es_aggregate_type (pj_entity pj)"
  have "\<forall>i r. tbl_get vw_id i rows = Some r \<longrightarrow> view_consistent pj evrows r"
    using assms(4) by (auto dest: tbl_get_Some_in)
  then show ?thesis
    using replay_stale_rows [OF assms(1),
        of "filter (\<lambda>i. is_stale rows i (max_sequence ?ty i evrows)) (stream_ids ?ty evrows)" evs rows]
      assms(2,3)
    by (auto simp: catch_up_def stale_aggregates_def Let_def stream_ids_def)
qed

section \<open>Catch-up against the codec contract\<close>

text \<open>
  What catch-up relies on: the codec of the lifecycle reads back the fold of any decodable stream.
\<close>

locale view_projection =
  fixes pj :: "('s, 'c, 'e, 'err) projection"
    and valid_event :: "'e \<Rightarrow> bool"
  assumes decoded_valid: "pj_dec_event pj j = Some e \<Longrightarrow> valid_event e"
    and fold_codec: "list_all valid_event evs \<Longrightarrow>
      pj_dec pj (pj_enc pj (replay (pj_entity pj) Uninitialized evs)) =
        Some (replay (pj_entity pj) Uninitialized evs)"
begin

lemma stream_valid: "stream_of pj evrows i = Inr evs \<Longrightarrow> list_all valid_event evs"
  unfolding stream_of_def collect_results_Inr
  by (induction rule: list_all2_induct)
    (auto simp: decode_event_row_def bind_eq_Some_conv dest: decoded_valid)

lemma upto_newest:
  assumes "max_sequence (es_aggregate_type (pj_entity pj)) i evrows \<le> v"
  shows "events_upto pj evrows i v = stream_of pj evrows i"
proof -
  have "filter (\<lambda>r. er_seq r \<le> v) (select_events (es_aggregate_type (pj_entity pj)) i evrows) =
      select_events (es_aggregate_type (pj_entity pj)) i evrows"
    using assms max_sequence_ge [of _ evrows "es_aggregate_type (pj_entity pj)" i]
    by (fastforce simp: filter_id_conv set_select_events)
  then show ?thesis by (simp add: events_upto_def stream_of_def)
qed

lemma caught_up_row_decodes:
  assumes "stream_of pj evrows i = Inr evs"
  shows "Option.bind (from_text (vw_payload (caught_up_row pj evrows rows i evs))) (pj_dec pj) =
    Some (replay (pj_entity pj) Uninitialized evs)"
  using fold_codec [OF stream_valid [OF assms]]
  by (auto simp: caught_up_row_def Let_def split: option.splits)

lemma fresh_row_reads_stream:
  assumes "tbl_get vw_id i rows = Some r" and "view_consistent pj evrows r"
    and "stream_of pj evrows i = Inr evs"
    and "\<not> is_stale rows i (max_sequence (es_aggregate_type (pj_entity pj)) i evrows)"
  shows "case Option.bind (from_text (vw_payload r)) (pj_dec pj) of
      None \<Rightarrow> True | Some l \<Rightarrow> l = replay (pj_entity pj) Uninitialized evs"
proof -
  have "vw_id r = i" "max_sequence (es_aggregate_type (pj_entity pj)) i evrows \<le> vw_version r"
    using assms(1,4) by (auto simp: is_stale_def dest: tbl_get_Some_in)
  then show ?thesis
    using assms(2,3) upto_newest [of i evrows "vw_version r"]
    by (auto simp: view_consistent_def split: option.splits)
qed

lemma catch_up_current:
  assumes "\<forall>r \<in> set evrows. er_type r = es_aggregate_type (pj_entity pj) \<longrightarrow> 0 < er_seq r" and "tbl_unique vw_id rows"
    and "\<forall>i \<in> set (stream_ids (es_aggregate_type (pj_entity pj)) evrows). stream_of pj evrows i = Inr (evs i)"
    and "\<forall>r \<in> set rows. view_consistent pj evrows r"
  shows "\<exists>rows'. catch_up pj evrows rows = (rows', Inr ()) \<and> tbl_unique vw_id rows'
    \<and> (\<forall>i. if i \<in> set (stream_ids (es_aggregate_type (pj_entity pj)) evrows)
         then \<exists>r. tbl_get vw_id i rows' = Some r
           \<and> max_sequence (es_aggregate_type (pj_entity pj)) i evrows \<le> vw_version r
           \<and> vw_lease r = Option.bind (tbl_get vw_id i rows) vw_lease
           \<and> (case Option.bind (from_text (vw_payload r)) (pj_dec pj) of
                None \<Rightarrow> \<not> is_stale rows i (max_sequence (es_aggregate_type (pj_entity pj)) i evrows)
              | Some l \<Rightarrow> l = replay (pj_entity pj) Uninitialized (evs i))
         else tbl_get vw_id i rows' = tbl_get vw_id i rows)"
proof -
  let ?ty = "es_aggregate_type (pj_entity pj)"
  have cons: "\<forall>i r. tbl_get vw_id i rows = Some r \<longrightarrow> view_consistent pj evrows r"
    using assms(4) by (auto dest: tbl_get_Some_in)
  obtain rows' where cu: "catch_up pj evrows rows = (rows', Inr ())" and u: "tbl_unique vw_id rows'"
    and get: "\<And>j. tbl_get vw_id j rows' =
      (if j \<in> set (stream_ids ?ty evrows) \<and> is_stale rows j (max_sequence ?ty j evrows)
       then Some (caught_up_row pj evrows rows j (evs j)) else tbl_get vw_id j rows)"
    using catch_up_rows [OF assms] by auto
  have "\<exists>r. tbl_get vw_id i rows' = Some r \<and> max_sequence ?ty i evrows \<le> vw_version r
      \<and> vw_lease r = Option.bind (tbl_get vw_id i rows) vw_lease
      \<and> (case Option.bind (from_text (vw_payload r)) (pj_dec pj) of
           None \<Rightarrow> \<not> is_stale rows i (max_sequence ?ty i evrows)
         | Some l \<Rightarrow> l = replay (pj_entity pj) Uninitialized (evs i))"
    if i: "i \<in> set (stream_ids ?ty evrows)" for i
  proof (cases "is_stale rows i (max_sequence ?ty i evrows)")
    case True
    then have "tbl_get vw_id i rows' = Some (caught_up_row pj evrows rows i (evs i))" using get i by simp
    moreover have "vw_version (caught_up_row pj evrows rows i (evs i)) = max_sequence ?ty i evrows
        \<and> vw_lease (caught_up_row pj evrows rows i (evs i)) = Option.bind (tbl_get vw_id i rows) vw_lease"
      by (auto simp: caught_up_row_def Let_def split: option.splits)
    ultimately show ?thesis using caught_up_row_decodes assms(3) i by auto
  next
    case False
    then obtain r where row: "tbl_get vw_id i rows = Some r" "max_sequence ?ty i evrows \<le> vw_version r"
      by (auto simp: is_stale_def split: option.splits)
    then show ?thesis
      using fresh_row_reads_stream [OF row(1) _ _ False] cons assms(3) i get False
      by (auto split: option.splits)
  qed
  then show ?thesis using cu u get by (intro exI [of _ rows']) auto
qed

end

section \<open>Properties\<close>

text \<open>Nobody else writes the table during the reaction.\<close>

definition quiet :: view_env where
  "quiet n = (id, id)"

lemma react_quiet:
  "react pj quiet i e rows =
     (case view_load_with_context (pj_dec pj) i rows of
        Inl _ \<Rightarrow> rows
      | Inr found \<Rightarrow>
          (case update_view (pj_enc pj (apply_event (pj_entity pj)
                   (case found of Some (l, _, _) \<Rightarrow> l | None \<Rightarrow> Uninitialized) e))
                 (case found of Some (_, j, v) \<Rightarrow> (j, v) | None \<Rightarrow> (i, 0)) rows of
             Inr rows' \<Rightarrow> rows'
           | Inl OptimisticLockError \<Rightarrow> react_from pj quiet i e 1 rows
           | Inl _ \<Rightarrow> rows))"
  unfolding react_def
  by (subst react_from.simps)
    (auto simp: quiet_def Let_def RETRY_MAX_ATTEMPTS_def split: sum.splits option.splits persistence_error.splits)

lemma react_quiet_get:
  assumes "tbl_unique vw_id rows" and "\<forall>r \<in> set rows. vw_version r \<noteq> 0"
  shows "tbl_get vw_id j (react pj quiet i e rows) =
    (if j \<noteq> i then tbl_get vw_id j rows
     else case tbl_get vw_id i rows of
       None \<Rightarrow> Some \<lparr>vw_id = i, vw_version = 1,
                 vw_payload = to_text (pj_enc pj (apply_event (pj_entity pj) Uninitialized e)), vw_lease = None\<rparr>
     | Some r \<Rightarrow>
         (case Option.bind (from_text (vw_payload r)) (pj_dec pj) of
            None \<Rightarrow> Some r
          | Some l \<Rightarrow> Some (r\<lparr>vw_version := vw_version r + 1,
                            vw_payload := to_text (pj_enc pj (apply_event (pj_entity pj) l e))\<rparr>)))"
proof (cases "tbl_get vw_id i rows")
  case None
  then have "react pj quiet i e rows = rows @ [\<lparr>vw_id = i, vw_version = 1,
      vw_payload = to_text (pj_enc pj (apply_event (pj_entity pj) Uninitialized e)), vw_lease = None\<rparr>]"
    by (simp add: react_quiet view_load_with_context_def select_view_def update_view_insert
        del: apply_event.simps)
  then show ?thesis
    using None by (auto simp: tbl_get_snoc simp del: apply_event.simps split: option.splits)
next
  case (Some r)
  then have r: "vw_id r = i" "vw_version r \<noteq> 0" using assms(2) by (auto dest: tbl_get_Some_in)
  show ?thesis
  proof (cases "Option.bind (from_text (vw_payload r)) (pj_dec pj)")
    case None
    then show ?thesis
      using Some by (simp add: react_quiet view_load_with_context_def select_view_def)
  next
    case dec: (Some l)
    then obtain rows' where
      u: "update_view (pj_enc pj (apply_event (pj_entity pj) l e)) (i, vw_version r) rows = Inr rows'"
      and get: "\<forall>j. tbl_get vw_id j rows' = (if j = i then Some (r\<lparr>vw_version := vw_version r + 1,
          vw_payload := to_text (pj_enc pj (apply_event (pj_entity pj) l e))\<rparr>) else tbl_get vw_id j rows)"
      using update_view_cas_hit [OF assms(1) Some r(2)] by blast
    have "react pj quiet i e rows = rows'"
      using Some dec u r(1) by (simp add: react_quiet view_load_with_context_def select_view_def)
    then show ?thesis using Some dec get by simp
  qed
qed

text \<open>
  Left alone, a reaction folds exactly one event into its view row: a missing
  row is created at version 1 from the event, a decodable row moves to the next version with the event
  applied and its lease column kept, a row that does not decode is left as it is, and no other row
  changes.
\<close>

theorem react_folds_event:
  assumes "tbl_unique vw_id rows" and "\<forall>r \<in> set rows. vw_version r \<noteq> 0"
  shows "tbl_get vw_id j (react pj quiet i e rows) =
    (if j \<noteq> i then tbl_get vw_id j rows
     else case tbl_get vw_id i rows of
       None \<Rightarrow> Some \<lparr>vw_id = i, vw_version = 1,
                 vw_payload = to_text (pj_enc pj (apply_event (pj_entity pj) Uninitialized e)), vw_lease = None\<rparr>
     | Some r \<Rightarrow>
         (case Option.bind (from_text (vw_payload r)) (pj_dec pj) of
            None \<Rightarrow> Some r
          | Some l \<Rightarrow> Some (r\<lparr>vw_version := vw_version r + 1,
                            vw_payload := to_text (pj_enc pj (apply_event (pj_entity pj) l e))\<rparr>)))"
  using assms by (rule react_quiet_get)

definition sample_projection :: "(nat, nat, nat, string) projection" where
  "sample_projection = \<lparr>pj_entity = sample_counter,
     pj_enc = lifecycle_to_json (\<lambda>n. of_int_json (int n)) (\<lambda>n. of_int_json (int n)) JString,
     pj_dec = lifecycle_from_json (\<lambda>j. map_option nat (json_int j)) (\<lambda>j. map_option nat (json_int j)) json_str,
     pj_dec_event = (\<lambda>j. map_option nat (json_int j))\<rparr>"

theorem react_folds_event_witness:
  "tbl_get vw_id ''c'' (react sample_projection quiet ''c'' 1
     [\<lparr>vw_id = ''c'', vw_version = 1, vw_payload = to_text (tagged ''Live'' (JNumber (JInt 0))), vw_lease = Some 7\<rparr>]) =
   Some \<lparr>vw_id = ''c'', vw_version = 2, vw_payload = to_text (tagged ''Live'' (JNumber (JInt 1))), vw_lease = Some 7\<rparr>"
proof -
  let ?rows = "[\<lparr>vw_id = ''c'', vw_version = 1, vw_payload = to_text (tagged ''Live'' (JNumber (JInt 0))),
      vw_lease = Some 7\<rparr>]"
  have u: "tbl_unique vw_id ?rows" by (simp add: tbl_unique_def)
  have v: "\<forall>r \<in> set ?rows. vw_version r \<noteq> 0" by simp
  show ?thesis
    unfolding react_folds_event [OF u v, of "''c''" sample_projection "''c''" 1]
    by (simp add: tbl_get_def sample_projection_def lifecycle_from_json_def json_int_def sample_counter_def
        of_int_json_def)
qed

text \<open>
  C16 (insert_race_drops_event). When the row does not exist at the load but another writer inserts it
  before the update, the reaction ends without applying its event and without a retry: the insertion's
  key violation is reported as a connection error, not as an optimistic-lock conflict.
\<close>

theorem insert_race_drops_event:
  assumes "tbl_get vw_id i rows = None" and "env 0 = (id, other)"
    and "tbl_get vw_id i (other rows) \<noteq> None"
  shows "react pj env i e rows = other rows"
proof -
  have "update_view p (i, 0) (other rows) = Inl (ConnectionError UniqueViolation)" for p
    using assms(3) by (auto simp: update_view_insert split: option.splits)
  then show ?thesis
    unfolding react_def
    by (subst react_from.simps)
      (simp add: assms(1,2) view_load_with_context_def select_view_def del: apply_event.simps)
qed

theorem insert_race_drops_event_witness:
  "react sample_projection (\<lambda>_. (id, \<lambda>rows. rows @ [\<lparr>vw_id = ''c'', vw_version = 1,
      vw_payload = to_text (tagged ''Live'' (JNumber (JInt 0))), vw_lease = None\<rparr>])) ''c'' 1 [] =
   [\<lparr>vw_id = ''c'', vw_version = 1, vw_payload = to_text (tagged ''Live'' (JNumber (JInt 0))), vw_lease = None\<rparr>]"
  by (subst insert_race_drops_event [where other = "\<lambda>rows. rows @ [\<lparr>vw_id = ''c'', vw_version = 1,
      vw_payload = to_text (tagged ''Live'' (JNumber (JInt 0))), vw_lease = None\<rparr>]"])
    (simp_all add: tbl_get_def)

end
