(* ===== verification/Job_Backend.thy ===== *)
theory Job_Backend
  imports Engine Projection
begin

text \<open>
  The job runtime and worker adapter, \<open>job_backend.rs\<close>: enqueue, poll, claim, renewal and fenced
  settlement over the engine, the mapping from an execution result to its acknowledgement, and the
  renewal and acknowledgement loops of a worker. \<open>Store::send\<close> runs cqrs-es' \<open>execute\<close>, which is not part
  of the repository: it is the argument \<open>send\<close>. The clock, fresh ULIDs and the backoff schedule (float
  arithmetic) are arguments too.
\<close>

section \<open>Results and errors\<close>

record job_claim_handle =
  jh_job_id :: string
  jh_claim_seq :: int
  jh_claim_id :: string
  jh_attempt :: u32

definition handle_is_first_execution :: "job_claim_handle \<Rightarrow> bool" where
  "handle_is_first_execution h \<longleftrightarrow> jh_claim_seq h = 2"

record claimed_job =
  cj_handle :: job_claim_handle
  cj_payload :: json

datatype job_claim_result =
    RClaimed claimed_job
  | RAbandoned
  | RContended
  | RSkipped

datatype job_settlement_result = Applied | SettlementFenced

datatype 'e aggregate_error =
    UserError 'e
  | AggregateConflict
  | DatabaseConnectionError
  | AggregateDeserializationError
  | UnexpectedError

type_synonym job_lifecycle_error = "(job_state, job_event, job_error) lifecycle_error"
type_synonym job_send_error = "job_lifecycle_error aggregate_error"
type_synonym 'st job_send = "string \<Rightarrow> job_command \<Rightarrow> 'st \<Rightarrow> (job_send_error + unit) \<times> 'st"

datatype job_runtime_error =
    RtBackend sqlite_job_error
  | RtAggregate
  | RtSettlementRefused string job_send_error
  | RtInvalidInstant int
  | RtAttemptExhausted
  | RtInvalidClaimPolicy

fun runtime_job_error :: "job_store_error \<Rightarrow> job_runtime_error" where
  "runtime_job_error (InvalidInstant millis) = RtInvalidInstant millis"
| "runtime_job_error _ = RtAggregate"

section \<open>Enqueue and poll\<close>

definition enqueue_job_payload ::
  "(int \<Rightarrow> bool) \<Rightarrow> string \<Rightarrow> string \<Rightarrow> json \<Rightarrow> int \<Rightarrow> db \<Rightarrow> job_runtime_error + db" where
  "enqueue_job_payload ts_range job_id kind payload run_at_ms d =
     (let request = \<lparr>eq_job_id = job_id, eq_kind = kind, eq_payload = payload, eq_run_at_ms = run_at_ms\<rparr>
      in bind_result (map_err runtime_job_error (enqueued_event ts_range request)) (\<lambda>event.
         bind_result (map_err runtime_job_error (pending_seed_payload ts_range request)) (\<lambda>seed.
           map_err RtBackend (enqueue_job event seed d))))"

datatype job_enqueue_error = EnqBuild job_store_error | EnqBackend sqlite_job_error

definition enqueue_resolved ::
  "(int \<Rightarrow> bool) \<Rightarrow> int \<Rightarrow> string \<Rightarrow> string \<Rightarrow> json option \<Rightarrow> nat option \<Rightarrow> db
     \<Rightarrow> job_enqueue_error + string \<times> db" where
  "enqueue_resolved ts_range now_ns fresh_id kind encoded delay d =
     bind_result (map_err EnqBuild (enqueue_request ts_range now_ns fresh_id kind encoded delay)) (\<lambda>request.
     bind_result (map_err EnqBuild (enqueued_event ts_range request)) (\<lambda>event.
     bind_result (map_err EnqBuild (pending_seed_payload ts_range request)) (\<lambda>payload.
     bind_result (map_err EnqBackend (enqueue_job event payload d)) (\<lambda>d'.
       Inr (eq_job_id request, d')))))"

definition eq_term :: "string \<Rightarrow> string \<Rightarrow> query_term" where
  "eq_term column value = \<lparr>tm_column = column, tm_cmp = Eq, tm_value = Some (BText value)\<rparr>"

definition poll_predicate :: "string \<Rightarrow> int \<Rightarrow> query_predicate" where
  "poll_predicate kind now_ms =
     [[eq_term ''kind'' kind, eq_term ''status'' ''pending'',
       \<lparr>tm_column = ''run_at'', tm_cmp = Le, tm_value = Some (BInt now_ms)\<rparr>],
      [eq_term ''kind'' kind, eq_term ''status'' ''claimed'',
       \<lparr>tm_column = ''lease_until'', tm_cmp = Lt, tm_value = Some (BInt now_ms)\<rparr>],
      [eq_term ''kind'' kind, eq_term ''status'' ''claimed'',
       \<lparr>tm_column = ''lease_until'', tm_cmp = IsNull, tm_value = None\<rparr>] ]"

definition poll_order :: query_order where
  "poll_order = \<lparr>or_column = ''run_at'', or_ascending = True\<rparr>"

definition poll_jobs :: "string \<Rightarrow> int \<Rightarrow> u32 \<Rightarrow> db \<Rightarrow> string list" where
  "poll_jobs kind now_ms limit d =
     find_view job_column (poll_predicate kind now_ms) (Some poll_order) (uint limit) (job_queue d)"

section \<open>Claim and renewal\<close>

definition claim_result_of :: "string \<Rightarrow> won_claim claim_outcome \<Rightarrow> job_claim_result" where
  "claim_result_of job_id outcome =
     (case outcome of
        Won won \<Rightarrow> RClaimed \<lparr>cj_handle = \<lparr>jh_job_id = job_id, jh_claim_seq = wc_claim_seq won,
            jh_claim_id = wc_claim_id won, jh_attempt = wc_attempt won\<rparr>, cj_payload = wc_args won\<rparr>
      | AbandonedOutcome \<Rightarrow> RAbandoned
      | Contended \<Rightarrow> RContended
      | Skipped \<Rightarrow> RSkipped)"

definition claim_job_as ::
  "(int \<Rightarrow> bool) \<Rightarrow> string \<Rightarrow> string \<Rightarrow> string \<Rightarrow> int \<Rightarrow> int \<Rightarrow> u32 \<Rightarrow> db
     \<Rightarrow> job_runtime_error + job_claim_result \<times> db" where
  "claim_job_as ts_range fresh job_id worker now_ms lease_ms max_claims d =
     (let lease_is_representable =
            (case i64_checked_add now_ms lease_ms of None \<Rightarrow> False | Some millis \<Rightarrow> ts_range millis)
      in if lease_ms \<le> 0 \<or> max_claims = 0 \<or> \<not> lease_is_representable then Inl RtInvalidClaimPolicy
         else bind_result (map_err RtBackend (claim_job job_id
                (\<lambda>read. plan_claim ts_range fresh job_id read worker now_ms lease_ms max_claims) d))
              (\<lambda>(outcome, d'). Inr (claim_result_of job_id outcome, d')))"

text \<open>The facade claim mints a worker id per call: the name, a colon and a fresh ULID.\<close>

definition claim_job_named ::
  "(int \<Rightarrow> bool) \<Rightarrow> string \<Rightarrow> string \<Rightarrow> string \<Rightarrow> string \<Rightarrow> int \<Rightarrow> int \<Rightarrow> u32 \<Rightarrow> db
     \<Rightarrow> job_runtime_error + job_claim_result \<times> db" where
  "claim_job_named ts_range fresh worker_ulid job_id worker_name now_ms lease_ms max_claims d =
     claim_job_as ts_range fresh job_id (worker_name @ '':'' @ worker_ulid) now_ms lease_ms max_claims d"

definition renew_claim :: "job_claim_handle \<Rightarrow> int \<Rightarrow> db \<Rightarrow> lease_renewal \<times> db" where
  "renew_claim claim new_lease_until_ms d =
     renew_job (jh_job_id claim) (jh_claim_seq claim) new_lease_until_ms d"

section \<open>Settlement\<close>

datatype settlement_verdict = VApplied | VFenced | VTransient | VRejected job_send_error

fun classify_settlement :: "job_send_error + unit \<Rightarrow> settlement_verdict" where
  "classify_settlement (Inr _) = VApplied"
| "classify_settlement (Inl (UserError (Apply Fenced))) = VFenced"
| "classify_settlement (Inl AggregateConflict) = VFenced"
| "classify_settlement (Inl DatabaseConnectionError) = VTransient"
| "classify_settlement (Inl err) = VRejected err"

datatype settled = OutcomeSucceeded | OutcomeUnsuccessful

fun settled_outcome :: "job_command \<Rightarrow> settled" where
  "settled_outcome (CmdSucceed _) = OutcomeSucceeded"
| "settled_outcome _ = OutcomeUnsuccessful"

definition settle_job ::
  "'st job_send \<Rightarrow> string \<Rightarrow> job_command \<Rightarrow> 'st \<Rightarrow> (job_runtime_error + job_settlement_result) \<times> 'st" where
  "settle_job send job_id command d =
     (case send job_id command d of (sent, d') \<Rightarrow>
       (case classify_settlement sent of
          VApplied \<Rightarrow> Inr Applied
        | VFenced \<Rightarrow> Inr SettlementFenced
        | VTransient \<Rightarrow> Inl RtAggregate
        | VRejected err \<Rightarrow> Inl (RtSettlementRefused job_id err), d'))"

definition acknowledge_job ::
  "'st job_send \<Rightarrow> job_claim_handle \<Rightarrow> 'st \<Rightarrow> (job_runtime_error + job_settlement_result) \<times> 'st" where
  "acknowledge_job send claim d = settle_job send (jh_job_id claim) (CmdSucceed (jh_claim_id claim)) d"

definition retry_job ::
  "(int \<Rightarrow> bool) \<Rightarrow> 'st job_send \<Rightarrow> job_claim_handle \<Rightarrow> int \<Rightarrow> string \<Rightarrow> 'st
     \<Rightarrow> (job_runtime_error + job_settlement_result) \<times> 'st" where
  "retry_job ts_range send claim run_at_ms err d =
     (if \<not> ts_range run_at_ms then (Inl (RtInvalidInstant run_at_ms), d)
      else case u32_checked_add (jh_attempt claim) 1 of
        None \<Rightarrow> (Inl RtAttemptExhausted, d)
      | Some attempt \<Rightarrow>
          settle_job send (jh_job_id claim)
            (CmdRetrySchedule (jh_claim_id claim) run_at_ms attempt err) d)"

definition defer_job ::
  "(int \<Rightarrow> bool) \<Rightarrow> 'st job_send \<Rightarrow> job_claim_handle \<Rightarrow> int \<Rightarrow> 'st
     \<Rightarrow> (job_runtime_error + job_settlement_result) \<times> 'st" where
  "defer_job ts_range send claim run_at_ms d =
     (if \<not> ts_range run_at_ms then (Inl (RtInvalidInstant run_at_ms), d)
      else settle_job send (jh_job_id claim) (CmdReschedule (jh_claim_id claim) run_at_ms) d)"

definition dead_letter_job ::
  "'st job_send \<Rightarrow> job_claim_handle \<Rightarrow> dead_reason \<Rightarrow> string \<Rightarrow> 'st
     \<Rightarrow> (job_runtime_error + job_settlement_result) \<times> 'st" where
  "dead_letter_job send claim reason err d =
     settle_job send (jh_job_id claim) (CmdKill (jh_claim_id claim) reason err) d"

section \<open>The worker\<close>

text \<open>Durations in nanoseconds; \<open>wk_backoff\<close> is \<open>Backoff::delay\<close> of the configured schedule.\<close>

record job_worker_config =
  wk_poll_interval :: nat
  wk_scan_limit :: int
  wk_max_concurrency :: nat
  wk_lease_duration :: nat
  wk_renew_interval :: nat
  wk_execution_timeout :: nat
  wk_max_attempts :: u32
  wk_max_claims :: u32
  wk_backoff :: "u32 \<Rightarrow> nat"
  wk_delivery :: delivery_policy

definition lease_millis :: "nat \<Rightarrow> int" where
  "lease_millis duration_ns =
     (case i64_try_from (duration_ns div 1000000) of Some ms \<Rightarrow> ms | None \<Rightarrow> 30000)"

definition lease_delta :: "nat \<Rightarrow> int" where
  "lease_delta duration_ns =
     (if int duration_ns > I64_MAX * 1000000 then 30 * 1000000000 else int duration_ns)"

text \<open>\<open>clock.now() + delta\<close>, as milliseconds; \<open>None\<close> is the panic of an unrepresentable instant.\<close>

definition add_instant :: "(int \<Rightarrow> bool) \<Rightarrow> int \<Rightarrow> int \<Rightarrow> int option" where
  "add_instant ts_range now_ns delta_ns =
     (let ms = (now_ns + delta_ns) div 1000000 in if ts_range ms then Some ms else None)"

definition claim_one ::
  "(int \<Rightarrow> bool) \<Rightarrow> string \<Rightarrow> string \<Rightarrow> job_worker_config \<Rightarrow> string \<Rightarrow> int \<Rightarrow> db
     \<Rightarrow> job_runtime_error + job_claim_result \<times> db" where
  "claim_one ts_range fresh worker_id config job_id now_ms d =
     claim_job_as ts_range fresh job_id worker_id now_ms (lease_millis (wk_lease_duration config))
       (wk_max_claims config) d"

text \<open>\<open>dec\<close> is the job type's \<open>Deserialize\<close>; \<open>None\<close> is a poison row the worker skips.\<close>

definition build_task ::
  "(json \<Rightarrow> 'j option) \<Rightarrow> claimed_job \<Rightarrow> job_worker_config \<Rightarrow> ('j \<times> job_context) option" where
  "build_task dec claimed config =
     (case dec (cj_payload claimed) of
        None \<Rightarrow> None
      | Some job \<Rightarrow> Some (job, \<lparr>cx_job_id = jh_job_id (cj_handle claimed),
          cx_claim_seq = jh_claim_seq (cj_handle claimed), cx_claim_id = jh_claim_id (cj_handle claimed),
          cx_attempt = jh_attempt (cj_handle claimed), cx_max_attempts = wk_max_attempts config,
          cx_delivery = wk_delivery config\<rparr>))"

text \<open>The candidate loop of one poll tick; each claim gets the next fresh claim id.\<close>

fun try_candidates ::
  "(int \<Rightarrow> bool) \<Rightarrow> (json \<Rightarrow> 'j option) \<Rightarrow> (string \<Rightarrow> bool) \<Rightarrow> string \<Rightarrow> job_worker_config \<Rightarrow> int
     \<Rightarrow> (string \<times> string) list \<Rightarrow> db \<Rightarrow> ('j \<times> job_context) option \<times> db" where
  "try_candidates tr dec is_id worker config now_ms [] d = (None, d)"
| "try_candidates tr dec is_id worker config now_ms ((view_id, fresh) # rest) d =
     (if \<not> is_id view_id then try_candidates tr dec is_id worker config now_ms rest d
      else case claim_one tr fresh worker config view_id now_ms d of
        Inl _ \<Rightarrow> (None, d)
      | Inr (RClaimed claimed, d') \<Rightarrow>
          (case build_task dec claimed config of
             Some task \<Rightarrow> (Some task, d')
           | None \<Rightarrow> try_candidates tr dec is_id worker config now_ms rest d')
      | Inr (_, d') \<Rightarrow> try_candidates tr dec is_id worker config now_ms rest d')"

definition poll_tick ::
  "(int \<Rightarrow> bool) \<Rightarrow> (json \<Rightarrow> 'j option) \<Rightarrow> (string \<Rightarrow> bool) \<Rightarrow> string \<Rightarrow> string \<Rightarrow> job_worker_config \<Rightarrow> int
     \<Rightarrow> (nat \<Rightarrow> string) \<Rightarrow> db \<Rightarrow> ('j \<times> job_context) option \<times> db" where
  "poll_tick tr dec is_id kind worker config now_ms fresh d =
     (let candidates = find_view job_column (poll_predicate kind now_ms) (Some poll_order)
            (wk_scan_limit config) (job_queue d)
      in try_candidates tr dec is_id worker config now_ms (zip candidates (map fresh [0..<length candidates])) d)"

subsection \<open>Acknowledgement\<close>

datatype 'o job_outcome = Done 'o | Defer nat

datatype failure_class = Transient | Terminal

record exec_error =
  ee_class :: "failure_class option"
  ee_chain :: "string list"

datatype ack = AckSucceeded | AckDeferred nat | AckFailed string | AckRejected string

fun error_chain :: "string list \<Rightarrow> string" where
  "error_chain [] = []"
| "error_chain [message] = message"
| "error_chain (message # causes) = message @ '': '' @ error_chain causes"

fun ack_plan :: "exec_error + 'o job_outcome \<Rightarrow> ack" where
  "ack_plan (Inr (Done _)) = AckSucceeded"
| "ack_plan (Inr (Defer delay)) = AckDeferred delay"
| "ack_plan (Inl err) =
     (case ee_class err of
        Some Terminal \<Rightarrow> AckRejected (error_chain (ee_chain err))
      | _ \<Rightarrow> AckFailed (error_chain (ee_chain err)))"

text \<open>\<open>None\<close> is the panic of an unrepresentable instant; \<open>attempt + 1\<close> wraps as a \<open>u32\<close>.\<close>

fun ack_command ::
  "(int \<Rightarrow> bool) \<Rightarrow> job_worker_config \<Rightarrow> int \<Rightarrow> job_context \<Rightarrow> ack \<Rightarrow> job_command option" where
  "ack_command tr config now_ns ctx AckSucceeded = Some (CmdSucceed (cx_claim_id ctx))"
| "ack_command tr config now_ns ctx (AckDeferred delay) =
     map_option (CmdReschedule (cx_claim_id ctx)) (add_instant tr now_ns (lease_delta delay))"
| "ack_command tr config now_ns ctx (AckRejected err) = Some (CmdKill (cx_claim_id ctx) Rejected err)"
| "ack_command tr config now_ns ctx (AckFailed err) =
     (let failed = cx_attempt ctx + 1
      in if failed \<ge> wk_max_attempts config then Some (CmdKill (cx_claim_id ctx) RetriesExhausted err)
         else map_option (\<lambda>run_at. CmdRetrySchedule (cx_claim_id ctx) run_at failed err)
                (add_instant tr now_ns (lease_delta (wk_backoff config (cx_attempt ctx)))))"

text \<open>
  The acknowledgement loop resends while the transaction fails transiently; with an outage that never
  ends it never returns, so it is run with fuel and \<open>None\<close> means that the fuel ran out.
\<close>

fun ack_loop :: "nat \<Rightarrow> 'st job_send \<Rightarrow> string \<Rightarrow> job_command \<Rightarrow> 'st \<Rightarrow> (settlement_verdict \<times> 'st) option" where
  "ack_loop 0 send job_id command d = None"
| "ack_loop (Suc fuel) send job_id command d =
     (case send job_id command d of (sent, d') \<Rightarrow>
       (case classify_settlement sent of
          VTransient \<Rightarrow> ack_loop fuel send job_id command d'
        | verdict \<Rightarrow> Some (verdict, d')))"

text \<open>
  The renewal loop: one entry per interval that elapses before cancellation, with what the rest of the
  system did to the database meanwhile and the clock. The flag is \<open>lost\<close>.
\<close>

fun renew_loop ::
  "(int \<Rightarrow> bool) \<Rightarrow> job_worker_config \<Rightarrow> job_context \<Rightarrow> ((db \<Rightarrow> db) \<times> int) list \<Rightarrow> db \<Rightarrow> bool \<times> db" where
  "renew_loop tr config ctx [] d = (False, d)"
| "renew_loop tr config ctx ((env, now_ns) # ticks) d =
     (case add_instant tr now_ns (lease_delta (wk_lease_duration config)) of
        None \<Rightarrow> (False, env d)
      | Some new_lease \<Rightarrow>
          (case renew_job (cx_job_id ctx) (cx_claim_seq ctx) new_lease (env d) of
             (Lost, d') \<Rightarrow> (True, d')
           | (Held, d') \<Rightarrow> renew_loop tr config ctx ticks d'))"

text \<open>What the acknowledgement service does once the job has run: a lost lease records nothing.\<close>

definition ack_service ::
  "(int \<Rightarrow> bool) \<Rightarrow> job_worker_config \<Rightarrow> 'st job_send \<Rightarrow> nat \<Rightarrow> int \<Rightarrow> job_context \<Rightarrow> bool
     \<Rightarrow> exec_error + 'o job_outcome \<Rightarrow> 'st \<Rightarrow> (settlement_verdict option \<times> 'st) option" where
  "ack_service tr config send fuel now_ns ctx lost result d =
     (if lost then Some (None, d)
      else case ack_command tr config now_ns ctx (ack_plan result) of
        None \<Rightarrow> None
      | Some command \<Rightarrow>
          map_option (\<lambda>(v, d'). (Some v, d')) (ack_loop fuel send (cx_job_id ctx) command d))"

section \<open>The poll reads the planner's condition\<close>

lemma payload_path_job:
  "vw_payload r = job_payload (Live st) \<Longrightarrow> payload_path r (''Live'' # path) = json_path path (job_state_to_json st)"
  by (simp add: payload_path_def job_payload_def tagged_def)

lemma job_columns:
  assumes "vw_payload r = job_payload (Live st)"
  shows "col_kind r = (case claim_parts st of None \<Rightarrow> SqlNull | Some (kind, _) \<Rightarrow> SqlText kind)"
    and "col_run_at r = (case claim_parts st of None \<Rightarrow> SqlNull | Some (_, _, run_at, _) \<Rightarrow> SqlInt run_at)"
    and "col_status r = SqlText (case st of StPending _ _ _ _ _ \<Rightarrow> ''pending''
      | StClaimed _ _ _ _ _ _ _ \<Rightarrow> ''claimed'' | StDone \<Rightarrow> ''done'' | StDead _ \<Rightarrow> ''dead'')"
  by (cases st; simp add: col_kind_def col_run_at_def col_status_def payload_path_job [OF assms]
      json_sql_def coalesce_def tagged_def of_int_json_def)+

lemma poll_predicate_holds:
  assumes "vw_payload r = job_payload (Live st)"
  shows "pred_holds (job_column r) (poll_predicate kind now) \<longleftrightarrow>
    runnable st (vw_lease r) now \<and> (\<exists>parts. claim_parts st = Some (kind, parts))"
  by (cases st; cases "vw_lease r")
    (auto simp: pred_holds_def poll_predicate_def eq_term_def term_holds_def job_column_def
      job_columns [OF assms] less_sql_value_def)

lemma poll_rows:
  assumes "int (length (job_queue d)) \<le> limit"
  shows "find_view job_column (poll_predicate kind now) (Some poll_order) limit (job_queue d) =
    map vw_id (sort_key col_run_at (filter (\<lambda>r. pred_holds (job_column r) (poll_predicate kind now)) (job_queue d)))"
proof -
  let ?hits = "filter (\<lambda>r. pred_holds (job_column r) (poll_predicate kind now)) (job_queue d)"
  have "length ?hits \<le> nat limit" using assms length_filter_le [of "\<lambda>r. pred_holds (job_column r) (poll_predicate kind now)" "job_queue d"] by linarith
  then show ?thesis
    using assms by (simp add: find_view_def limit_rows_def order_rows_def poll_order_def poll_predicate_def job_column_def)
qed

lemma poll_unlimited:
  assumes "length (job_queue d) \<le> unat limit"
  shows "poll_jobs kind now limit d =
    map vw_id (sort_key col_run_at (filter (\<lambda>r. pred_holds (job_column r) (poll_predicate kind now)) (job_queue d)))"
proof -
  have "int (length (job_queue d)) \<le> uint limit" using assms unfolding uint_nat by (rule of_nat_mono)
  then show ?thesis unfolding poll_jobs_def by (rule poll_rows)
qed

section \<open>Properties\<close>

lemma poll_hits:
  "poll_jobs kind now limit d =
     map vw_id (take (unat limit) (sort_key col_run_at (filter (\<lambda>r. pred_holds (job_column r) (poll_predicate kind now)) (job_queue d))))"
  by (simp add: poll_jobs_def find_view_def limit_rows_def order_rows_def poll_order_def poll_predicate_def job_column_def)

text \<open>When a job that can still run is due; \<open>None\<close> for a finished one.\<close>

definition due_at :: "job_state \<Rightarrow> int option" where
  "due_at st = map_option (\<lambda>(_, _, run_at, _). run_at) (claim_parts st)"

lemma col_run_at_due: "vw_payload r = job_payload (Live st) \<Longrightarrow> due_at st = Some t \<Longrightarrow> col_run_at r = SqlInt t"
  by (auto simp: job_columns due_at_def)

text \<open>
  C13 (poll_finds_exactly_runnable). On a queue whose rows hold live jobs, the SQL poll and the claim
  planner agree: the candidates, in order, are the ids of the first \<open>limit\<close> rows of an arrangement of exactly those
  rows of the table (each as often as the table has it) whose job has the polled kind and is runnable by the planner's
  own test, and that arrangement is ascending in the instant the jobs are due.
\<close>

theorem poll_finds_exactly_runnable:
  assumes "\<forall>r \<in> set (job_queue d). vw_payload r = job_payload (Live (state r))"
  shows "\<exists>rows. poll_jobs kind now limit d = map vw_id (take (unat limit) rows)
    \<and> mset rows = mset (filter (\<lambda>r. runnable (state r) (vw_lease r) now
        \<and> (\<exists>parts. claim_parts (state r) = Some (kind, parts))) (job_queue d))
    \<and> sorted (map (\<lambda>r. the (due_at (state r))) rows)"
proof -
  let ?fits = "\<lambda>r. runnable (state r) (vw_lease r) now \<and> (\<exists>parts. claim_parts (state r) = Some (kind, parts))"
  let ?rows = "sort_key col_run_at (filter ?fits (job_queue d))"
  have "filter (\<lambda>r. pred_holds (job_column r) (poll_predicate kind now)) (job_queue d) = filter ?fits (job_queue d)"
    using poll_predicate_holds assms by (auto intro: filter_cong)
  then have poll: "poll_jobs kind now limit d = map vw_id (take (unat limit) ?rows)" by (simp add: poll_hits)
  have due: "col_run_at r = SqlInt (the (due_at (state r)))" if "r \<in> set ?rows" for r
    using col_run_at_due [of r "state r"] assms that by (auto simp: due_at_def)
  have "sorted_wrt (\<lambda>x y. col_run_at x \<le> col_run_at y) ?rows" using sorted_sort_key [of col_run_at] by (simp add: sorted_map)
  then have "sorted (map (\<lambda>r. the (due_at (state r))) ?rows)"
    unfolding sorted_map by (rule sorted_wrt_mono_rel [rotated]) (simp add: due)
  then show ?thesis using poll by (intro exI [of _ ?rows]) simp
qed

definition sample_queue_row :: view_row where
  "sample_queue_row = \<lparr>vw_id = ''j'', vw_version = 1,
     vw_payload = job_payload (Live (StPending ''mail'' JNull 5 0 0)), vw_lease = None\<rparr>"

definition later_queue_row :: view_row where
  "later_queue_row = \<lparr>vw_id = ''k'', vw_version = 1,
     vw_payload = job_payload (Live (StPending ''mail'' JNull 7 0 0)), vw_lease = None\<rparr>"

theorem poll_finds_exactly_runnable_witness:
  "poll_jobs ''mail'' 9 1 (empty_db\<lparr>job_queue := [later_queue_row, sample_queue_row]\<rparr>) = [''j'']"
proof -
  let ?d = "empty_db\<lparr>job_queue := [later_queue_row, sample_queue_row]\<rparr>"
  let ?state = "\<lambda>r. if vw_id r = ''j'' then StPending ''mail'' JNull 5 0 0 else StPending ''mail'' JNull 7 0 0"
  have p: "\<forall>r \<in> set (job_queue ?d). vw_payload r = job_payload (Live (?state r))"
    by (simp add: sample_queue_row_def later_queue_row_def)
  obtain rows where rows: "poll_jobs ''mail'' 9 1 ?d = map vw_id (take (unat (1 :: u32)) rows)"
      "mset rows = {#later_queue_row, sample_queue_row#}" "sorted (map (\<lambda>r. the (due_at (?state r))) rows)"
    using poll_finds_exactly_runnable [OF p, of "''mail''" 9 1]
    by (auto simp: sample_queue_row_def later_queue_row_def)
  have "length rows = 2" using rows(2) size_mset [of rows] by simp
  then obtain a b where ab: "rows = [a, b]" by (auto simp: length_Suc_conv numeral_2_eq_2)
  have "set rows = {later_queue_row, sample_queue_row}" using arg_cong [OF rows(2), of set_mset] by simp
  then have "(a, b) = (later_queue_row, sample_queue_row) \<or> (a, b) = (sample_queue_row, later_queue_row)"
    by (simp add: ab doubleton_eq_iff)
  then show ?thesis using rows(1,3) ab by (auto simp: due_at_def sample_queue_row_def later_queue_row_def)
qed

text \<open>
  A failed execution is acknowledged by the retry budget: when recording it
  would exhaust the worker's \<open>max_attempts\<close> the job is killed as \<open>RetriesExhausted\<close>, exactly the runs
  \<open>is_final_attempt\<close> announced to the job; otherwise it is rescheduled with the attempt counter
  advanced by one without wrap-around, and only an explicit terminal failure skips the budget.
\<close>

theorem failed_attempt_budget:
  assumes "cx_max_attempts ctx = wk_max_attempts config" and "0 < wk_max_attempts config"
    and "cx_attempt ctx < wk_max_attempts config"
    and "ack_command tr config now_ns ctx (ack_plan (Inl err)) = Some cmd"
  shows "cmd_claim_id cmd = cx_claim_id ctx
    \<and> (case ee_class err of
         Some Terminal \<Rightarrow> cmd = CmdKill (cx_claim_id ctx) Rejected (error_chain (ee_chain err))
       | _ \<Rightarrow>
           if is_final_attempt ctx
           then cmd = CmdKill (cx_claim_id ctx) RetriesExhausted (error_chain (ee_chain err))
           else \<exists>run_at attempt. cmd = CmdRetrySchedule (cx_claim_id ctx) run_at attempt (error_chain (ee_chain err))
             \<and> unat attempt = Suc (unat (cx_attempt ctx)) \<and> tr run_at)"
proof -
  have suc: "unat (cx_attempt ctx + 1) = Suc (unat (cx_attempt ctx))"
    using assms(3) by (rule unat_Suc_below)
  show ?thesis
    using assms suc
    by (auto simp: is_final_attempt_def Let_def add_instant_def split: option.splits failure_class.splits if_splits)
qed

definition sample_config :: job_worker_config where
  "sample_config = \<lparr>wk_poll_interval = 250000000, wk_scan_limit = 16, wk_max_concurrency = 8,
     wk_lease_duration = 30000000000, wk_renew_interval = 10000000000, wk_execution_timeout = 300000000000, wk_max_attempts = 5,
     wk_max_claims = 50, wk_backoff = (\<lambda>_. 1000000000),
     wk_delivery = \<lparr>dl_retry_delay = 1, dl_refused_backoff = 2\<rparr>\<rparr>"

definition sample_ctx :: "u32 \<Rightarrow> job_context" where
  "sample_ctx attempt = \<lparr>cx_job_id = ''j'', cx_claim_seq = 2, cx_claim_id = ''c1'', cx_attempt = attempt,
     cx_max_attempts = 5, cx_delivery = \<lparr>dl_retry_delay = 1, dl_refused_backoff = 2\<rparr>\<rparr>"

theorem failed_attempt_budget_witness:
  "ack_command (\<lambda>_. True) sample_config 0 (sample_ctx 4)
     (ack_plan (Inl \<lparr>ee_class = None, ee_chain = [''boom'']\<rparr> :: exec_error + unit job_outcome)) =
   Some (CmdKill ''c1'' RetriesExhausted ''boom'')
   \<and> is_final_attempt (sample_ctx 4)"
proof -
  let ?err = "\<lparr>ee_class = None, ee_chain = [''boom'']\<rparr>"
  have c: "cx_max_attempts (sample_ctx 4) = wk_max_attempts sample_config" "0 < wk_max_attempts sample_config"
      "cx_attempt (sample_ctx 4) < wk_max_attempts sample_config"
    by (simp_all add: sample_ctx_def sample_config_def)
  have cmd: "ack_command (\<lambda>_. True) sample_config 0 (sample_ctx 4)
      (ack_plan (Inl ?err :: exec_error + unit job_outcome)) = Some (CmdKill ''c1'' RetriesExhausted ''boom'')"
    by (simp add: sample_ctx_def sample_config_def)
  show ?thesis
    using failed_attempt_budget [OF c cmd] cmd by (auto split: if_splits)
qed

definition resend :: "'st job_send \<Rightarrow> string \<Rightarrow> job_command \<Rightarrow> 'st \<Rightarrow> 'st" where
  "resend send job_id command d = snd (send job_id command d)"

text \<open>
  The acknowledgement loop returns as soon as one send is not a transient
  failure: if the \<open>k\<close>-th resend resolves, \<open>k + 1\<close> rounds of fuel suffice, and the verdict is that send's
  applied, fenced or rejected verdict.
\<close>

theorem ack_loop_returns:
  assumes "classify_settlement (fst (send job_id command ((resend send job_id command ^^ k) d))) \<noteq> VTransient"
  shows "\<exists>n \<le> k. ack_loop (Suc k) send job_id command d =
      Some (classify_settlement (fst (send job_id command ((resend send job_id command ^^ n) d))),
            (resend send job_id command ^^ Suc n) d)
    \<and> classify_settlement (fst (send job_id command ((resend send job_id command ^^ n) d))) \<noteq> VTransient"
  using assms
proof (induction k arbitrary: d)
  case 0
  then show ?case
    by (auto simp: resend_def split: prod.splits settlement_verdict.splits)
next
  case (Suc k)
  obtain sent d' where s: "send job_id command d = (sent, d')" by fastforce
  show ?case
  proof (cases "classify_settlement sent = VTransient")
    case True
    have "(resend send job_id command ^^ Suc n) d = (resend send job_id command ^^ n) d'" for n
      using s by (simp add: resend_def funpow_swap1)
    then obtain n where "n \<le> k" and "ack_loop (Suc k) send job_id command d' =
        Some (classify_settlement (fst (send job_id command ((resend send job_id command ^^ n) d'))),
              (resend send job_id command ^^ Suc n) d')"
        and "classify_settlement (fst (send job_id command ((resend send job_id command ^^ n) d'))) \<noteq> VTransient"
      using Suc.IH [of d'] Suc.prems by auto
    then show ?thesis
      using True s \<open>\<And>n. (resend send job_id command ^^ Suc n) d = (resend send job_id command ^^ n) d'\<close>
      by (intro exI [of _ "Suc n"]) (simp del: funpow.simps(2))
  next
    case False
    then show ?thesis
      using s by (intro exI [of _ 0]) (auto simp: resend_def split: settlement_verdict.splits)
  qed
qed

text \<open>A database that is unreachable for the first two sends.\<close>

definition flaky_send :: "nat job_send" where
  "flaky_send job_id command n = (if n < 2 then Inl DatabaseConnectionError else Inr (), n + 1)"

theorem ack_loop_returns_witness:
  "\<exists>v n. ack_loop 3 flaky_send ''j'' (CmdSucceed ''c'') 0 = Some (v, n) \<and> v \<noteq> VTransient"
proof -
  have two: "classify_settlement (fst (flaky_send ''j'' (CmdSucceed ''c'')
      ((resend flaky_send ''j'' (CmdSucceed ''c'') ^^ 2) 0))) \<noteq> VTransient"
    by (simp add: flaky_send_def resend_def numeral_2_eq_2)
  have "Suc 2 = 3" by simp
  then show ?thesis
    using ack_loop_returns [of flaky_send "''j''" "CmdSucceed ''c''" 2 0, OF two] by auto
qed

end
