(* ===== verification/Schema_Registry.thy ===== *)
theory Schema_Registry
  imports Maintenance Job_Backend
begin

text \<open>
  Startup: the schema registry and its reconciler (\<open>schema_registry.rs\<close>) and the store builder (\<open>wire.rs\<close>),
  which reconciles the schema version of an entity, recovers its view table and only then records the
  version. The registry is an event-sourced aggregate that is read by replaying its stream. \<open>execute\<close> of the
  cqrs-es framework, through which the version is recorded, is an argument; \<open>register_contract\<close> is what the
  reconciler relies on: the command is handled on the replayed registry and its events are appended.
\<close>

section \<open>The registry aggregate\<close>

definition REGISTRY_ID :: string where "REGISTRY_ID = ''schema''"
definition REGISTRY_TYPE :: string where "REGISTRY_TYPE = ''SchemaRegistry''"

record schema_target =
  tg_aggregate_type :: string
  tg_version :: nat
  tg_compaction :: compaction_policy

type_synonym schema_registry = "string \<rightharpoonup> nat"

definition version_of :: "schema_registry \<Rightarrow> string \<Rightarrow> nat option" where
  "version_of versions name = versions name"

datatype registry_event = VersionUpdated string nat

datatype registry_command = Register string nat

fun registry_originate :: "registry_event \<Rightarrow> schema_registry option" where
  "registry_originate (VersionUpdated name version) = Some (Map.empty(name \<mapsto> version))"

text \<open>The error type of the registry is \<open>Never\<close>; \<open>unit\<close> stands for it and is never built.\<close>

fun registry_evolve :: "schema_registry \<Rightarrow> registry_event \<Rightarrow> unit + schema_registry option" where
  "registry_evolve versions (VersionUpdated name version) = Inr (Some (versions(name \<mapsto> version)))"

fun registry_initialize :: "registry_command \<Rightarrow> unit + registry_event effect" where
  "registry_initialize (Register name version) = Inr (Events [VersionUpdated name version])"

fun registry_transition :: "schema_registry \<Rightarrow> registry_command \<Rightarrow> unit + registry_event effect" where
  "registry_transition versions (Register name version) =
     (if version_of versions name = Some version then Inr (Events [])
      else Inr (Events [VersionUpdated name version]))"

definition registry_entity :: "(schema_registry, registry_command, registry_event, unit) event_sourced" where
  "registry_entity = \<lparr>es_originate = registry_originate, es_evolve = registry_evolve,
     es_initialize = registry_initialize, es_transition = registry_transition,
     es_aggregate_type = REGISTRY_TYPE, es_schema_version = 1, es_snapshot_size = 10,
     es_compaction_policy = Retain\<rparr>"

definition json_u64 :: "json \<Rightarrow> nat option" where
  "json_u64 j = (case json_int j of Some i \<Rightarrow> if 0 \<le> i \<and> i < 2 ^ 64 then Some (nat i) else None | None \<Rightarrow> None)"

fun registry_event_to_json :: "registry_event \<Rightarrow> json" where
  "registry_event_to_json (VersionUpdated name version) =
     tagged ''VersionUpdated'' (JObject [(''name'', JString name), (''version'', of_int_json (int version))])"

definition registry_event_from_json :: "json \<Rightarrow> registry_event option" where
  "registry_event_from_json j =
     (case untag ''VersionUpdated'' j of
        None \<Rightarrow> None
      | Some b \<Rightarrow>
          Option.bind (Option.bind (json_field ''name'' b) json_str) (\<lambda>name.
            map_option (VersionUpdated name) (Option.bind (json_field ''version'' b) json_u64)))"

section \<open>Reconciliation\<close>

datatype reconcile_error =
    RecJson
  | RecAggregate "(schema_registry, registry_event, unit) lifecycle_error aggregate_error"
  | RecPersistence persistence_error
  | CompactedSnapshotClear string "nat option" nat

datatype schema_reconciliation = Changed | Unchanged

text \<open>\<open>From<Never>\<close>: \<open>registry_evolve\<close> never errs, so the value is irrelevant.\<close>

definition from_never :: "unit \<Rightarrow> reconcile_error" where
  "from_never never = RecJson"

text \<open>The loop of \<open>load_registry\<close> over the payload column.\<close>

fun fold_registry :: "text_cell list \<Rightarrow> schema_registry option \<Rightarrow> reconcile_error + schema_registry option" where
  "fold_registry [] state = Inr state"
| "fold_registry (payload # rest) state =
     (case Option.bind (from_text payload) registry_event_from_json of
        None \<Rightarrow> Inl RecJson
      | Some event \<Rightarrow>
          (case state of
             None \<Rightarrow> fold_registry rest (registry_originate event)
           | Some current \<Rightarrow>
               (case registry_evolve current event of
                  Inr evolved \<Rightarrow> fold_registry rest (Some (case evolved of Some s \<Rightarrow> s | None \<Rightarrow> current))
                | Inl never \<Rightarrow> Inl (from_never never))))"

definition load_registry :: "db \<Rightarrow> reconcile_error + schema_registry option" where
  "load_registry d = fold_registry (map er_payload (select_events REGISTRY_TYPE REGISTRY_ID (events d))) None"

definition clear_snapshots :: "string \<Rightarrow> db \<Rightarrow> db" where
  "clear_snapshots ty d = d\<lparr>snapshots := tbl_delete (\<lambda>s. sr_type s = ty) (snapshots d)\<rparr>"

definition reconcile_target :: "schema_target \<Rightarrow> db \<Rightarrow> reconcile_error + schema_reconciliation \<times> db" where
  "reconcile_target target d =
     bind_result (load_registry d) (\<lambda>registry.
       let stored = Option.bind registry (\<lambda>r. version_of r (tg_aggregate_type target))
       in if stored = Some (tg_version target) then Inr (Unchanged, d)
          else if stored \<noteq> None \<and> tg_compaction target = CompactAfterSnapshot
          then Inl (CompactedSnapshotClear (tg_aggregate_type target) stored (tg_version target))
          else Inr (Changed, clear_snapshots (tg_aggregate_type target) d))"

type_synonym registry_execute =
  "string \<Rightarrow> registry_command \<Rightarrow> db
     \<Rightarrow> ((schema_registry, registry_event, unit) lifecycle_error aggregate_error + unit) \<times> db"

definition record_target :: "registry_execute \<Rightarrow> schema_target \<Rightarrow> db \<Rightarrow> (reconcile_error + unit) \<times> db" where
  "record_target execute target d =
     (case execute REGISTRY_ID (Register (tg_aggregate_type target) (tg_version target)) d of
        (r, d') \<Rightarrow> (map_err RecAggregate r, d'))"

definition entity_target :: "('s, 'c, 'e, 'err) event_sourced \<Rightarrow> schema_target" where
  "entity_target es = \<lparr>tg_aggregate_type = es_aggregate_type es, tg_version = es_schema_version es,
     tg_compaction = es_compaction_policy es\<rparr>"

definition reconcile :: "('s, 'c, 'e, 'err) event_sourced \<Rightarrow> db \<Rightarrow> reconcile_error + schema_reconciliation \<times> db" where
  "reconcile es d = reconcile_target (entity_target es) d"

definition record_version :: "registry_execute \<Rightarrow> ('s, 'c, 'e, 'err) event_sourced \<Rightarrow> db \<Rightarrow> (reconcile_error + unit) \<times> db" where
  "record_version execute es d = record_target execute (entity_target es) d"

section \<open>The store builder\<close>

fun recovery_error :: "('s, 'e, 'err) projection_error \<Rightarrow> reconcile_error" where
  "recovery_error (ProjPersistence e) = RecPersistence e"
| "recovery_error _ = RecPersistence (UnknownError Cause_Projection)"

definition recover ::
  "('s, 'c, 'e, 'err) projection \<Rightarrow> schema_reconciliation \<Rightarrow> event_row list \<Rightarrow> view_row list
     \<Rightarrow> view_row list \<times> (('s, 'e, 'err) projection_error + unit)" where
  "recover pj outcome evrows rows =
     (case outcome of Changed \<Rightarrow> rebuild_all pj evrows rows | Unchanged \<Rightarrow> catch_up pj evrows rows)"

text \<open>
  The view tables a recovery leaves behind one after the other: a rebuild deletes all rows first, and each stale
  aggregate is then replayed and written on its own. A crash leaves the table as one of them.
\<close>

fun replay_states ::
  "('s, 'c, 'e, 'err) projection \<Rightarrow> event_row list \<Rightarrow> string \<Rightarrow> (string \<times> int \<times> int) list \<Rightarrow> view_row list
     \<Rightarrow> view_row list list" where
  "replay_states pj evrows ty [] rows = [rows]"
| "replay_states pj evrows ty ((i, v, m) # rest) rows =
     rows # (case replay_missed_events pj evrows ty i v m rows of
        Inl _ \<Rightarrow> []
      | Inr rows' \<Rightarrow> replay_states pj evrows ty rest rows')"

definition recovery_states ::
  "('s, 'c, 'e, 'err) projection \<Rightarrow> schema_reconciliation \<Rightarrow> event_row list \<Rightarrow> view_row list \<Rightarrow> view_row list list" where
  "recovery_states pj outcome evrows rows =
     (let ty = es_aggregate_type (pj_entity pj); none = tbl_delete (\<lambda>_. True) rows
      in case outcome of
        Changed \<Rightarrow> rows # replay_states pj evrows ty (stale_aggregates ty evrows none) none
      | Unchanged \<Rightarrow> replay_states pj evrows ty (stale_aggregates ty evrows rows) rows)"

text \<open>
  \<open>build\<close> of a projected entity, on the event database and the entity's view table: its result, and the durable states it
  passes through, from the one it starts in to the one it ends in. Reconciling clears the snapshots in one statement,
  recording the version is one commit. The builder refuses compactable entities at compile time, so it is used with
  \<open>Retain\<close> entities only.
\<close>

definition build_trace ::
  "registry_execute \<Rightarrow> ('s, 'c, 'e, 'err) projection \<Rightarrow> db \<times> view_row list
     \<Rightarrow> (reconcile_error + unit) \<times> (db \<times> view_row list) list" where
  "build_trace execute pj st =
     (case reconcile (pj_entity pj) (fst st) of
        Inl err \<Rightarrow> (Inl err, [st])
      | Inr (outcome, d) \<Rightarrow>
          (let recovered = st # map (Pair d) (recovery_states pj outcome (events d) (snd st))
           in case snd (recover pj outcome (events d) (snd st)) of
             Inl err \<Rightarrow> (Inl (recovery_error err), recovered)
           | Inr _ \<Rightarrow>
               (case record_version execute (pj_entity pj) d of (r, d') \<Rightarrow>
                  (r, recovered @ [(d', snd (last recovered))]))))"

definition build_projected ::
  "registry_execute \<Rightarrow> ('s, 'c, 'e, 'err) projection \<Rightarrow> db \<times> view_row list
     \<Rightarrow> (reconcile_error + unit) \<times> db \<times> view_row list" where
  "build_projected execute pj st = map_prod id last (build_trace execute pj st)"

text \<open>A build that a crash stops, after any of its writes: the next startup finds a state the build passed through.\<close>

definition interrupted_build ::
  "registry_execute \<Rightarrow> ('s, 'c, 'e, 'err) projection \<Rightarrow> db \<times> view_row list \<Rightarrow> db \<times> view_row list \<Rightarrow> bool" where
  "interrupted_build execute pj st st' \<longleftrightarrow> st' \<in> set (snd (build_trace execute pj st))"

definition build_plain ::
  "registry_execute \<Rightarrow> ('s, 'c, 'e, 'err) event_sourced \<Rightarrow> db \<Rightarrow> (reconcile_error + unit) \<times> db" where
  "build_plain execute es d =
     (case reconcile es d of
        Inl err \<Rightarrow> (Inl err, d)
      | Inr (_, d') \<Rightarrow> record_version execute es d')"

section \<open>Reading the registry\<close>

definition decode_registry_row :: "event_row \<Rightarrow> reconcile_error + registry_event" where
  "decode_registry_row r = ok_or RecJson (Option.bind (from_text (er_payload r)) registry_event_from_json)"

definition registry_events :: "db \<Rightarrow> reconcile_error + registry_event list" where
  "registry_events d = collect_results decode_registry_row (select_events REGISTRY_TYPE REGISTRY_ID (events d))"

fun registered :: "schema_registry \<Rightarrow> registry_event \<Rightarrow> schema_registry" where
  "registered versions (VersionUpdated name version) = versions(name \<mapsto> version)"

definition registry_state :: "registry_event list \<Rightarrow> schema_registry option" where
  "registry_state evs = (if evs = [] then None else Some (foldl registered Map.empty evs))"

definition stored_version :: "registry_event list \<Rightarrow> string \<Rightarrow> nat option" where
  "stored_version evs name = foldl registered Map.empty evs name"

lemma registry_entity_simps [simp]:
  "es_originate registry_entity = registry_originate" "es_evolve registry_entity = registry_evolve"
  "es_initialize registry_entity = registry_initialize" "es_transition registry_entity = registry_transition"
  by (simp_all add: registry_entity_def)

lemma decode_registry_row_Inr [simp]:
  "decode_registry_row r = Inr e \<longleftrightarrow> Option.bind (from_text (er_payload r)) registry_event_from_json = Some e"
  by (simp add: decode_registry_row_def)

lemma fold_registry_step:
  "collect_results decode_registry_row rows = Inr evs \<Longrightarrow>
   fold_registry (map er_payload rows) (Some m) = Inr (Some (foldl registered m evs))"
proof (induction rows arbitrary: m evs)
  case (Cons r rows)
  then obtain e es where "evs = e # es" "decode_registry_row r = Inr e" "collect_results decode_registry_row rows = Inr es"
    by auto
  then show ?case using Cons.IH [of es] by (cases e) simp
qed simp

lemma load_registry_events:
  assumes "registry_events d = Inr evs"
  shows "load_registry d = Inr (registry_state evs)"
proof (cases "select_events REGISTRY_TYPE REGISTRY_ID (events d)")
  case (Cons r rows)
  then obtain e es where "evs = e # es" "decode_registry_row r = Inr e" "collect_results decode_registry_row rows = Inr es"
    using assms by (auto simp: registry_events_def)
  then show ?thesis
    using fold_registry_step [of rows es] Cons
    by (cases e) (simp add: load_registry_def registry_state_def)
qed (use assms in \<open>simp add: registry_events_def load_registry_def registry_state_def\<close>)

lemma replay_registry:
  "replay registry_entity Uninitialized evs =
     (case registry_state evs of None \<Rightarrow> Uninitialized | Some s \<Rightarrow> Live s)"
proof (cases evs)
  case (Cons e es)
  have "replay registry_entity (Live m) es' = Live (foldl registered m es')" for m es'
  proof (induction es' arbitrary: m)
    case (Cons e' es')
    then show ?case by (cases e') (simp add: fun_upd_def)
  qed simp
  then show ?thesis using Cons by (cases e) (simp add: registry_state_def)
qed (simp add: registry_state_def)

lemma stored_version_state: "Option.bind (registry_state evs) (\<lambda>r. version_of r name) = stored_version evs name"
  by (simp add: registry_state_def stored_version_def version_of_def)

lemma reconcile_events:
  assumes "registry_events d = Inr evs"
  shows "reconcile es d =
    (let stored = stored_version evs (es_aggregate_type es)
     in if stored = Some (es_schema_version es) then Inr (Unchanged, d)
        else if stored \<noteq> None \<and> es_compaction_policy es = CompactAfterSnapshot
        then Inl (CompactedSnapshotClear (es_aggregate_type es) stored (es_schema_version es))
        else Inr (Changed, clear_snapshots (es_aggregate_type es) d))"
  by (simp add: reconcile_def reconcile_target_def load_registry_events [OF assms] entity_target_def
      stored_version_state Let_def)

section \<open>Recording a version\<close>

text \<open>The events \<open>Register\<close> leads to on the replayed registry.\<close>

definition register_events :: "registry_event list \<Rightarrow> string \<Rightarrow> nat \<Rightarrow> registry_event list" where
  "register_events evs name version =
     (case decide registry_entity (replay registry_entity Uninitialized evs) (Register name version) of
        Inr (Events new) \<Rightarrow> new
      | _ \<Rightarrow> [])"

definition other_rows :: "db \<Rightarrow> event_row list" where
  "other_rows d = filter (\<lambda>r. \<not> in_stream REGISTRY_TYPE REGISTRY_ID r) (events d)"

definition register_contract :: "registry_execute \<Rightarrow> bool" where
  "register_contract execute \<longleftrightarrow> (\<forall>name version d evs. version < 2 ^ 64 \<longrightarrow> registry_events d = Inr evs \<longrightarrow>
     (\<exists>d'. execute REGISTRY_ID (Register name version) d = (Inr (), d')
        \<and> registry_events d' = Inr (evs @ register_events evs name version)
        \<and> other_rows d' = other_rows d \<and> snapshots d' = snapshots d \<and> job_queue d' = job_queue d
        \<and> (register_events evs name version = [] \<longrightarrow> d' = d)))"

lemma register_events_eq:
  "register_events evs name version =
     (if stored_version evs name = Some version then [] else [VersionUpdated name version])"
  by (auto simp: register_events_def replay_registry decide_def registry_state_def
      stored_version_def version_of_def split: option.splits)

lemma stored_after_register:
  "stored_version (evs @ register_events evs name version) name = Some version"
  by (simp add: register_events_eq stored_version_def)

lemma record_version_effect:
  assumes "register_contract execute" and "es_schema_version es < 2 ^ 64" and "registry_events d = Inr evs"
  obtains d' evs' where "record_version execute es d = (Inr (), d')" "registry_events d' = Inr evs'"
    "stored_version evs' (es_aggregate_type es) = Some (es_schema_version es)"
    "other_rows d' = other_rows d" "snapshots d' = snapshots d" "job_queue d' = job_queue d"
    "stored_version evs (es_aggregate_type es) = Some (es_schema_version es) \<longrightarrow> d' = d"
proof -
  let ?ty = "es_aggregate_type es" and ?v = "es_schema_version es"
  obtain d' where d': "execute REGISTRY_ID (Register ?ty ?v) d = (Inr (), d')"
    "registry_events d' = Inr (evs @ register_events evs ?ty ?v)" "other_rows d' = other_rows d"
    "snapshots d' = snapshots d" "job_queue d' = job_queue d" "register_events evs ?ty ?v = [] \<longrightarrow> d' = d"
    using assms unfolding register_contract_def by blast
  have "record_version execute es d = (Inr (), d')"
    by (simp add: record_version_def record_target_def entity_target_def d'(1))
  then show ?thesis
    using that [OF _ d'(2) stored_after_register d'(3-5)] d'(6) register_events_eq by simp
qed

section \<open>Recovery\<close>

lemma other_type_rows:
  assumes "other_rows d' = other_rows d" and "ty \<noteq> REGISTRY_TYPE"
  shows "filter (\<lambda>r. er_type r = ty) (events d') = filter (\<lambda>r. er_type r = ty) (events d)"
proof -
  have "filter (\<lambda>r. er_type r = ty) (events x) = filter (\<lambda>r. er_type r = ty) (other_rows x)" for x
    using assms(2) by (auto simp: other_rows_def in_stream_def intro: filter_cong)
  then show ?thesis using assms(1) by simp
qed

lemma stream_frame:
  assumes "filter (\<lambda>r. er_type r = ty) evrows' = filter (\<lambda>r. er_type r = ty) evrows"
  shows "stream_ids ty evrows' = stream_ids ty evrows" "select_events ty i evrows' = select_events ty i evrows"
    "max_sequence ty i evrows' = max_sequence ty i evrows"
proof -
  show "stream_ids ty evrows' = stream_ids ty evrows" by (simp add: stream_ids_def assms)
  have sel: "filter (in_stream ty i) xs = filter (in_stream ty i) (filter (\<lambda>r. er_type r = ty) xs)" for xs
    by (auto simp: in_stream_def intro: filter_cong)
  then have eq: "filter (in_stream ty i) evrows' = filter (in_stream ty i) evrows" using assms by metis
  then show "select_events ty i evrows' = select_events ty i evrows" by (simp add: select_events_def)
  show "max_sequence ty i evrows' = max_sequence ty i evrows" using eq by (simp add: max_sequence_def)
qed

lemma rebuild_all_rows:
  assumes "\<forall>r \<in> set evrows. er_type r = es_aggregate_type (pj_entity pj) \<longrightarrow> 0 < er_seq r"
    and "\<forall>i \<in> set (stream_ids (es_aggregate_type (pj_entity pj)) evrows). stream_of pj evrows i = Inr (evs i)"
  shows "\<exists>rows'. rebuild_all pj evrows rows = (rows', Inr ()) \<and> tbl_unique vw_id rows'
    \<and> (\<forall>i. tbl_get vw_id i rows' =
          (if i \<in> set (stream_ids (es_aggregate_type (pj_entity pj)) evrows)
           then Some \<lparr>vw_id = i, vw_version = max_sequence (es_aggregate_type (pj_entity pj)) i evrows,
             vw_payload = to_text (pj_enc pj (replay (pj_entity pj) Uninitialized (evs i))), vw_lease = None\<rparr>
           else None))"
proof -
  have "tbl_delete (\<lambda>_. True) rows = []" by (simp add: tbl_delete_def)
  then show ?thesis
    using catch_up_rows [OF assms(1) _ assms(2), of "[]"]
    by (simp add: rebuild_all_def tbl_unique_def is_stale_def caught_up_row_def Let_def cong: if_cong)
qed

lemma clear_snapshots_simps [simp]:
  "events (clear_snapshots ty d) = events d" "job_queue (clear_snapshots ty d) = job_queue d"
  "clear_snapshots ty (clear_snapshots ty d) = clear_snapshots ty d"
  "registry_events (clear_snapshots ty d) = registry_events d" "other_rows (clear_snapshots ty d) = other_rows d"
  by (simp_all add: clear_snapshots_def registry_events_def other_rows_def tbl_delete_def conj_commute)

lemma clear_snapshots_others:
  "filter (\<lambda>s. sr_type s \<noteq> ty) (snapshots (clear_snapshots ty d)) = filter (\<lambda>s. sr_type s \<noteq> ty) (snapshots d)"
  by (simp add: clear_snapshots_def tbl_delete_def)

lemma last_replay_states: "replay_states pj evrows ty stale rows \<noteq> []
    \<and> last (replay_states pj evrows ty stale rows) = fst (replay_stale pj evrows ty stale rows)"
  by (induction pj evrows ty stale rows rule: replay_states.induct) (auto split: sum.splits)

lemma last_recovery_states: "recovery_states pj outcome evrows rows \<noteq> []
    \<and> last (recovery_states pj outcome evrows rows) = fst (recover pj outcome evrows rows)"
  by (cases outcome) (simp_all add: recovery_states_def recover_def rebuild_all_def catch_up_def Let_def last_replay_states)

text \<open>The build as a function: reconcile, recover, record.\<close>

lemma build_projected_eq:
  "build_projected execute pj (d, rows) =
     (case reconcile (pj_entity pj) d of
        Inl err \<Rightarrow> (Inl err, d, rows)
      | Inr (outcome, d') \<Rightarrow>
          (case recover pj outcome (events d') rows of
             (rows', Inl err) \<Rightarrow> (Inl (recovery_error err), d', rows')
           | (rows', Inr _) \<Rightarrow>
               (case record_version execute (pj_entity pj) d' of (r, d'') \<Rightarrow> (r, d'', rows'))))"
  using last_recovery_states [of pj _ _ rows]
  by (auto simp: build_projected_def build_trace_def Let_def last_map split: sum.splits prod.splits)

section \<open>Crashes during startup\<close>

text \<open>What a schema change of \<open>pj\<close> starts from, and what it ends in when the streams are \<open>history\<close>.\<close>

definition outdated ::
  "registry_execute \<Rightarrow> ('s, 'c, 'e, 'err) projection \<Rightarrow> (string \<Rightarrow> 'e list) \<Rightarrow> registry_event list \<Rightarrow> db \<Rightarrow> bool" where
  "outdated execute pj history evs d \<longleftrightarrow>
     register_contract execute \<and> es_schema_version (pj_entity pj) < 2 ^ 64
     \<and> es_aggregate_type (pj_entity pj) \<noteq> REGISTRY_TYPE \<and> es_compaction_policy (pj_entity pj) = Retain
     \<and> registry_events d = Inr evs
     \<and> stored_version evs (es_aggregate_type (pj_entity pj)) \<noteq> Some (es_schema_version (pj_entity pj))
     \<and> (\<forall>r \<in> set (events d). er_type r = es_aggregate_type (pj_entity pj) \<longrightarrow> 0 < er_seq r)
     \<and> (\<forall>i \<in> set (stream_ids (es_aggregate_type (pj_entity pj)) (events d)). stream_of pj (events d) i = Inr (history i))"

definition rebuilt_rows :: "('s, 'c, 'e, 'err) projection \<Rightarrow> (string \<Rightarrow> 'e list) \<Rightarrow> event_row list \<Rightarrow> view_row list \<Rightarrow> bool" where
  "rebuilt_rows pj history evrows rows \<longleftrightarrow> (\<forall>i. tbl_get vw_id i rows =
     (if i \<in> set (stream_ids (es_aggregate_type (pj_entity pj)) evrows)
      then Some \<lparr>vw_id = i, vw_version = max_sequence (es_aggregate_type (pj_entity pj)) i evrows,
        vw_payload = to_text (pj_enc pj (replay (pj_entity pj) Uninitialized (history i))), vw_lease = None\<rparr>
      else None))"

definition upgraded ::
  "('s, 'c, 'e, 'err) projection \<Rightarrow> (string \<Rightarrow> 'e list) \<Rightarrow> db \<Rightarrow> db \<times> view_row list \<Rightarrow> bool" where
  "upgraded pj history d st \<longleftrightarrow>
     (\<exists>evs. registry_events (fst st) = Inr evs
       \<and> stored_version evs (es_aggregate_type (pj_entity pj)) = Some (es_schema_version (pj_entity pj)))
     \<and> snapshots (fst st) = filter (\<lambda>r. sr_type r \<noteq> es_aggregate_type (pj_entity pj)) (snapshots d)
     \<and> other_rows (fst st) = other_rows d \<and> rebuilt_rows pj history (events d) (snd st)"

lemma upgraded_trace:
  assumes old: "outdated execute pj history evs d" and up: "upgraded pj history d st"
  shows "build_trace execute pj st = (Inr (), [st, st, st])"
proof -
  let ?ty = "es_aggregate_type (pj_entity pj)" and ?d = "fst st"
  obtain evs2 where e: "registry_events ?d = Inr evs2" "stored_version evs2 ?ty = Some (es_schema_version (pj_entity pj))"
    and rows: "rebuilt_rows pj history (events d) (snd st)" and other: "other_rows ?d = other_rows d"
    using up by (auto simp: upgraded_def)
  have frame: "filter (\<lambda>r. er_type r = ?ty) (events ?d) = filter (\<lambda>r. er_type r = ?ty) (events d)"
    using other_type_rows [OF other] old by (simp add: outdated_def)
  have "stale_aggregates ?ty (events ?d) (snd st) = []"
    using rows by (auto simp: stale_aggregates_def filter_empty_conv stream_frame [OF frame] is_stale_def rebuilt_rows_def)
  then have "recovery_states pj Unchanged (events ?d) (snd st) = [snd st]"
      "recover pj Unchanged (events ?d) (snd st) = (snd st, Inr ())"
    by (simp_all add: recovery_states_def recover_def catch_up_def Let_def)
  moreover have "record_version execute (pj_entity pj) ?d = (Inr (), ?d)"
    using record_version_effect [of execute "pj_entity pj" ?d evs2] old e by (auto simp: outdated_def)
  ultimately show ?thesis by (simp add: build_trace_def reconcile_events [OF e(1)] e(2) Let_def)
qed

lemma outdated_trace:
  assumes old: "outdated execute pj history evs d"
    and d1: "d1 = d \<or> d1 = clear_snapshots (es_aggregate_type (pj_entity pj)) d"
  obtains states st where "build_trace execute pj (d1, rows1) = (Inr (), states @ [st])" "upgraded pj history d st"
    "\<forall>x \<in> set states. fst x = d \<or> fst x = clear_snapshots (es_aggregate_type (pj_entity pj)) d"
proof -
  let ?ty = "es_aggregate_type (pj_entity pj)" and ?d = "clear_snapshots (es_aggregate_type (pj_entity pj)) d"
  have ev1: "registry_events d1 = Inr evs" "clear_snapshots ?ty d1 = ?d" "events d1 = events d"
    using d1 old by (auto simp: outdated_def)
  have rec: "reconcile (pj_entity pj) d1 = Inr (Changed, ?d)"
    using old by (simp add: reconcile_events [OF ev1(1)] ev1(2) outdated_def Let_def)
  obtain rows2 where rows2: "rebuild_all pj (events d) rows1 = (rows2, Inr ())" "rebuilt_rows pj history (events d) rows2"
    using rebuild_all_rows [of "events d" pj history rows1] old by (auto simp: outdated_def rebuilt_rows_def)
  have "register_contract execute" "es_schema_version (pj_entity pj) < 2 ^ 64" "registry_events ?d = Inr evs"
    using old by (simp_all add: outdated_def)
  from record_version_effect [OF this]
  obtain d2 evs2 where d2: "record_version execute (pj_entity pj) ?d = (Inr (), d2)" "registry_events d2 = Inr evs2"
      "stored_version evs2 ?ty = Some (es_schema_version (pj_entity pj))" "other_rows d2 = other_rows ?d" "snapshots d2 = snapshots ?d" by metis
  let ?states = "(d1, rows1) # map (Pair ?d) (recovery_states pj Changed (events d) rows1)"
  have "build_trace execute pj (d1, rows1) = (Inr (), ?states @ [(d2, rows2)])"
    using last_recovery_states [of pj Changed "events d" rows1]
    by (simp add: build_trace_def rec Let_def recover_def rows2(1) d2(1) last_map)
  moreover have "upgraded pj history d (d2, rows2)"
    using d2 rows2(2) by (simp add: upgraded_def clear_snapshots_def tbl_delete_def other_rows_def)
  ultimately show ?thesis using that [of ?states "(d2, rows2)"] d1 by auto
qed

lemma crashes_kept:
  assumes old: "outdated execute pj history evs d" and steps: "(interrupted_build execute pj)\<^sup>*\<^sup>* (d, rows) st"
  shows "fst st = d \<or> fst st = clear_snapshots (es_aggregate_type (pj_entity pj)) d \<or> upgraded pj history d st"
  using steps
proof (induction rule: rtranclp_induct)
  case (step st1 st2)
  show ?case
  proof (cases "upgraded pj history d st1")
    case True
    then show ?thesis using step(2) upgraded_trace [OF old True] by (simp add: interrupted_build_def)
  next
    case False
    then have "fst st1 = d \<or> fst st1 = clear_snapshots (es_aggregate_type (pj_entity pj)) d" using step.IH by blast
    from outdated_trace [OF old this, of "snd st1"] obtain states st where
      "build_trace execute pj st1 = (Inr (), states @ [st])" "upgraded pj history d st"
      "\<forall>x \<in> set states. fst x = d \<or> fst x = clear_snapshots (es_aggregate_type (pj_entity pj)) d" by auto
    then show ?thesis using step(2) by (auto simp: interrupted_build_def)
  qed
qed simp

section \<open>Properties\<close>

text \<open>
  C25 (startup_crash_safe). A schema change is recovered however often startup crashes. Take any state whose
  registry holds another version (or none) for a projected entity, and let any number of builds start and crash, each
  after any of its writes: before or after the snapshots are cleared, before, between or after the rewritten view rows, and
  before or after the version is recorded. The next build that runs to its end succeeds: the registry
  then holds the entity's version, the entity's snapshots are gone and no others, and the view table is
  the one rebuilt from the event streams alone, whatever rows it held. A further build changes nothing.
\<close>

theorem startup_crash_safe:
  fixes pj :: "('s, 'c, 'e, 'err) projection"
  defines "ty \<equiv> es_aggregate_type (pj_entity pj)" and "version \<equiv> es_schema_version (pj_entity pj)"
  assumes "register_contract execute" and "version < 2 ^ 64" and "ty \<noteq> REGISTRY_TYPE"
    and "es_compaction_policy (pj_entity pj) = Retain"
    and "registry_events d = Inr evs" and "stored_version evs ty \<noteq> Some version"
    and "\<forall>r \<in> set (events d). er_type r = ty \<longrightarrow> 0 < er_seq r"
    and "\<forall>i \<in> set (stream_ids ty (events d)). stream_of pj (events d) i = Inr (history i)"
    and "(interrupted_build execute pj)\<^sup>*\<^sup>* (d, rows) (d1, rows1)"
  shows "\<exists>d2 rows2 evs2. build_projected execute pj (d1, rows1) = (Inr (), d2, rows2)
    \<and> registry_events d2 = Inr evs2 \<and> stored_version evs2 ty = Some version
    \<and> snapshots d2 = filter (\<lambda>s. sr_type s \<noteq> ty) (snapshots d) \<and> other_rows d2 = other_rows d
    \<and> (\<forall>i. tbl_get vw_id i rows2 =
          (if i \<in> set (stream_ids ty (events d))
           then Some \<lparr>vw_id = i, vw_version = max_sequence ty i (events d),
             vw_payload = to_text (pj_enc pj (replay (pj_entity pj) Uninitialized (history i))), vw_lease = None\<rparr>
           else None))
    \<and> build_projected execute pj (d2, rows2) = (Inr (), d2, rows2)"
proof -
  have old: "outdated execute pj history evs d" using assms(3-10) by (simp add: outdated_def ty_def version_def)
  obtain st where st: "build_projected execute pj (d1, rows1) = (Inr (), st)" "upgraded pj history d st"
  proof (cases "upgraded pj history d (d1, rows1)")
    case True
    then show thesis using that [of "(d1, rows1)"] upgraded_trace [OF old True] by (simp add: build_projected_def)
  next
    case False
    then have "d1 = d \<or> d1 = clear_snapshots (es_aggregate_type (pj_entity pj)) d"
      using crashes_kept [OF old assms(11)] by simp
    from outdated_trace [OF old this, of rows1] obtain states st where
      "build_trace execute pj (d1, rows1) = (Inr (), states @ [st])" "upgraded pj history d st" by metis
    then show thesis using that by (simp add: build_projected_def)
  qed
  have "build_projected execute pj st = (Inr (), st)"
    using upgraded_trace [OF old st(2)] by (simp add: build_projected_def)
  then show ?thesis
    using st unfolding ty_def version_def
    by (intro exI [of _ "fst st"] exI [of _ "snd st"]) (auto simp: upgraded_def rebuilt_rows_def)
qed

text \<open>An execution of the registry's command as cqrs-es performs it on one connection.\<close>

definition registry_row :: "int \<Rightarrow> registry_event \<Rightarrow> event_row" where
  "registry_row sequence event = \<lparr>er_type = REGISTRY_TYPE, er_id = REGISTRY_ID, er_seq = sequence,
     er_event_type = ''SchemaRegistryEvent::VersionUpdated'', er_event_version = ''1.0'',
     er_payload = to_text (registry_event_to_json event), er_metadata = to_text (JObject [])\<rparr>"

fun sample_execute :: registry_execute where
  "sample_execute i (Register name version) d =
     (case registry_events d of
        Inl _ \<Rightarrow> (Inl UnexpectedError, d)
      | Inr evs \<Rightarrow>
          (Inr (), d\<lparr>events := events d @
             map (registry_row (max_sequence REGISTRY_TYPE REGISTRY_ID (events d) + 1)) (register_events evs name version)\<rparr>))"

lemma decode_written_registry_row:
  "version < 2 ^ 64 \<Longrightarrow> decode_registry_row (registry_row q (VersionUpdated name version)) = Inr (VersionUpdated name version)"
  by (simp add: registry_row_def registry_event_from_json_def json_u64_def json_int_def of_int_json_def)

lemma sample_execute_contract: "register_contract sample_execute"
  unfolding register_contract_def
proof (intro allI impI)
  fix name version d evs
  assume v: "version < (2::nat) ^ 64" and evs: "registry_events d = Inr evs"
  let ?new = "register_events evs name version"
  let ?rows = "map (registry_row (max_sequence REGISTRY_TYPE REGISTRY_ID (events d) + 1)) ?new"
  let ?d = "d\<lparr>events := events d @ ?rows\<rparr>"
  have in_reg: "\<forall>r \<in> set ?rows. in_stream REGISTRY_TYPE REGISTRY_ID r" by (auto simp: registry_row_def in_stream_def)
  have "select_events REGISTRY_TYPE REGISTRY_ID (events d @ ?rows) =
      select_events REGISTRY_TYPE REGISTRY_ID (events d) @ ?rows"
    using in_reg by (intro select_events_append)
      (auto simp: registry_row_def register_events_eq dest!: max_sequence_ge split: if_splits)
  moreover have "collect_results decode_registry_row ?rows = Inr ?new"
    using v by (simp add: register_events_eq decode_written_registry_row del: decode_registry_row_Inr)
  ultimately have "registry_events ?d = Inr (evs @ ?new)"
    using evs by (simp add: registry_events_def collect_results_append)
  moreover have "other_rows ?d = other_rows d" using in_reg by (auto simp: other_rows_def filter_empty_conv)
  ultimately show "\<exists>d'. sample_execute REGISTRY_ID (Register name version) d = (Inr (), d')
      \<and> registry_events d' = Inr (evs @ ?new) \<and> other_rows d' = other_rows d \<and> snapshots d' = snapshots d
      \<and> job_queue d' = job_queue d \<and> (?new = [] \<longrightarrow> d' = d)"
    using evs by (intro exI [of _ ?d]) simp
qed

definition sample_counter_row :: event_row where
  "sample_counter_row = \<lparr>er_type = ''Counter'', er_id = ''c'', er_seq = 1, er_event_type = ''Counted'',
     er_event_version = ''1.0'', er_payload = to_text (JNumber (JInt 0)), er_metadata = to_text (JObject [])\<rparr>"

definition sample_stale_db :: db where
  "sample_stale_db = \<lparr>events = [sample_counter_row], snapshots = [\<lparr>sr_type = ''Counter'', sr_id = ''c'',
     sr_last_sequence = 1, sr_version = 1, sr_payload = to_text JNull\<rparr>], job_queue = []\<rparr>"

lemma sample_stale_registry: "registry_events sample_stale_db = Inr []"
  by (simp add: registry_events_def select_events_def sample_stale_db_def sample_counter_row_def in_stream_def
      REGISTRY_TYPE_def)

theorem startup_crash_safe_witness:
  "\<exists>d2 rows2 evs2. build_projected sample_execute sample_projection (sample_stale_db, []) = (Inr (), d2, rows2)
     \<and> registry_events d2 = Inr evs2 \<and> stored_version evs2 ''Counter'' = Some 1 \<and> snapshots d2 = []"
proof -
  note d = sample_projection_def sample_counter_def sample_stale_db_def sample_counter_row_def
  have pre: "es_schema_version (pj_entity sample_projection) < 2 ^ 64"
    "es_aggregate_type (pj_entity sample_projection) \<noteq> REGISTRY_TYPE"
    "es_compaction_policy (pj_entity sample_projection) = Retain"
    "stored_version [] (es_aggregate_type (pj_entity sample_projection)) \<noteq> Some (es_schema_version (pj_entity sample_projection))"
    "\<forall>r \<in> set (events sample_stale_db). er_type r = es_aggregate_type (pj_entity sample_projection) \<longrightarrow> 0 < er_seq r"
    "\<forall>i \<in> set (stream_ids (es_aggregate_type (pj_entity sample_projection)) (events sample_stale_db)).
       stream_of sample_projection (events sample_stale_db) i = Inr ((\<lambda>_. [0]) i)"
    by (simp_all add: d REGISTRY_TYPE_def stored_version_def stream_ids_def stream_of_def decode_event_row_def
        select_events_def in_stream_def json_int_def)
  from startup_crash_safe [OF sample_execute_contract pre(1-3) sample_stale_registry pre(4-6) rtranclp.rtrancl_refl, of "[]"]
  show ?thesis by (force simp: d)
qed

text \<open>
  A schema change of a compactable aggregate is refused before anything
  is deleted: when the registry holds another version for it, the build fails with the two versions and the
  database is untouched, also on every later attempt.
\<close>

theorem compacted_schema_change_refused:
  assumes "es_compaction_policy es = CompactAfterSnapshot" and "registry_events d = Inr evs"
    and "stored_version evs (es_aggregate_type es) = Some old" and "old \<noteq> es_schema_version es"
  shows "build_plain execute es d =
      (Inl (CompactedSnapshotClear (es_aggregate_type es) (Some old) (es_schema_version es)), d)"
  using assms by (simp add: build_plain_def reconcile_events [OF assms(2)] Let_def)

definition sample_versioned :: "nat \<Rightarrow> (nat, nat, nat, string) event_sourced" where
  "sample_versioned version = sample_counter\<lparr>es_schema_version := version, es_compaction_policy := CompactAfterSnapshot\<rparr>"

theorem compacted_schema_change_refused_witness:
  "build_plain sample_execute (sample_versioned 2) (sample_stale_db\<lparr>events := [registry_row 1 (VersionUpdated ''Counter'' 1)]\<rparr>) =
     (Inl (CompactedSnapshotClear ''Counter'' (Some 1) 2),
      sample_stale_db\<lparr>events := [registry_row 1 (VersionUpdated ''Counter'' 1)]\<rparr>)"
proof -
  let ?d = "sample_stale_db\<lparr>events := [registry_row 1 (VersionUpdated ''Counter'' 1)]\<rparr>"
  have reg: "registry_events ?d = Inr [VersionUpdated ''Counter'' 1]"
    by (simp add: registry_events_def select_events_def in_stream_def registry_row_def registry_event_from_json_def
        json_u64_def json_int_def of_int_json_def)
  show ?thesis
    using compacted_schema_change_refused [OF _ reg, of "sample_versioned 2" 1 sample_execute]
    by (simp add: sample_versioned_def sample_counter_def stored_version_def)
qed

text \<open>
  C26 (unregistered_compaction_loses_state). The refusal depends on a recorded version. A compactable aggregate
  that was written and compacted before its type was ever registered (\<open>send_command\<close> and \<open>compact_events\<close> do
  not register) loses its state at the first build: the snapshot that stood for its compacted events is
  deleted, and the aggregate disappears from the enumeration.
\<close>

theorem unregistered_compaction_loses_state:
  assumes "register_contract execute" and "es_schema_version es < 2 ^ 64" and "es_aggregate_type es \<noteq> REGISTRY_TYPE"
    and "registry_events d = Inr evs" and "stored_version evs (es_aggregate_type es) = None"
    and "select_snapshot (es_aggregate_type es) i (snapshots d) = Some s"
    and "\<forall>r \<in> set (events d). in_stream (es_aggregate_type es) i r \<longrightarrow> er_seq r \<le> sr_last_sequence s"
    and "compact_events CompactAfterSnapshot (es_aggregate_type es) d = (n, d1)"
  shows "\<exists>d2. build_plain execute es d1 = (Inr (), d2)
    \<and> i \<in> set (aggregate_ids (es_aggregate_type es) d1) \<and> i \<notin> set (aggregate_ids (es_aggregate_type es) d2)"
proof -
  let ?ty = "es_aggregate_type es"
  have d1: "d1 = d\<lparr>events := tbl_delete (covered ?ty d) (events d)\<rparr>" using assms(8) by (simp add: compact_events_def)
  have "filter (in_stream REGISTRY_TYPE REGISTRY_ID) (events d1) = filter (in_stream REGISTRY_TYPE REGISTRY_ID) (events d)"
    using assms(3) by (auto simp: d1 tbl_delete_def covered_def in_stream_def intro!: filter_cong)
  then have reg: "registry_events d1 = Inr evs" using assms(4) by (simp add: registry_events_def select_events_def)
  have clear: "reconcile es d1 = Inr (Changed, clear_snapshots ?ty d1)"
    using assms(5) by (simp add: reconcile_events [OF reg] Let_def)
  have "registry_events (clear_snapshots ?ty d1) = Inr evs" using reg by simp
  from record_version_effect [OF assms(1,2) this]
  obtain d2 where d2: "record_version execute es (clear_snapshots ?ty d1) = (Inr (), d2)"
    "other_rows d2 = other_rows (clear_snapshots ?ty d1)" "snapshots d2 = snapshots (clear_snapshots ?ty d1)" by metis
  have rows: "filter (\<lambda>r. er_type r = ?ty) (events d2) = filter (\<lambda>r. er_type r = ?ty) (events d1)"
    using other_type_rows [of d2 "clear_snapshots ?ty d1" ?ty] d2(2) assms(3) by simp
  have gone: "i \<notin> er_id ` set (filter (\<lambda>r. er_type r = ?ty) (events d1))"
    using assms(6,7) by (auto simp: d1 tbl_delete_def covered_def snapshot_sequence_def in_stream_def)
  have "s \<in> set (snapshots d1)" "sr_type s = ?ty" "sr_id s = i"
    using assms(6) by (auto simp: d1 select_snapshot_def snap_pk_def dest: tbl_get_Some_in)
  then have "i \<in> set (aggregate_ids ?ty d1)" by (auto simp: aggregate_ids_def)
  moreover have "i \<notin> set (aggregate_ids ?ty d2)"
    using gone rows d2(3) by (auto simp: aggregate_ids_def clear_snapshots_def tbl_delete_def)
  ultimately show ?thesis using d2(1) by (simp add: build_plain_def clear)
qed

theorem unregistered_compaction_loses_state_witness:
  "\<exists>n d1 d2. compact_events CompactAfterSnapshot ''Counter'' sample_stale_db = (n, d1)
     \<and> build_plain sample_execute (sample_versioned 1) d1 = (Inr (), d2)
     \<and> ''c'' \<in> set (aggregate_ids ''Counter'' d1) \<and> ''c'' \<notin> set (aggregate_ids ''Counter'' d2)"
proof -
  let ?es = "sample_versioned 1"
  have es: "es_aggregate_type (sample_versioned v) = ''Counter''" "es_schema_version (sample_versioned v) = v" for v
    by (simp_all add: sample_versioned_def sample_counter_def)
  obtain n d1 where c: "compact_events CompactAfterSnapshot (es_aggregate_type ?es) sample_stale_db = (n, d1)" by fastforce
  have snap: "select_snapshot (es_aggregate_type ?es) ''c'' (snapshots sample_stale_db) =
      Some \<lparr>sr_type = ''Counter'', sr_id = ''c'', sr_last_sequence = 1, sr_version = 1, sr_payload = to_text JNull\<rparr>"
    by (simp add: es select_snapshot_def tbl_get_def snap_pk_def sample_stale_db_def)
  have "\<exists>d2. build_plain sample_execute ?es d1 = (Inr (), d2)
      \<and> ''c'' \<in> set (aggregate_ids (es_aggregate_type ?es) d1) \<and> ''c'' \<notin> set (aggregate_ids (es_aggregate_type ?es) d2)"
    by (rule unregistered_compaction_loses_state [OF sample_execute_contract _ _ sample_stale_registry _ snap _ c])
      (simp_all add: es REGISTRY_TYPE_def stored_version_def sample_stale_db_def sample_counter_row_def del: One_nat_def)
  then show ?thesis using c by (auto simp: es simp del: One_nat_def)
qed

end
