(* ===== verification/Ffi_Abi.thy ===== *)
theory Ffi_Abi
  imports Schema_Registry
begin

unbundle bit_operations_syntax

text \<open>
  The data of the C ABI, \<open>crates/event-sorcery-ffi/src/lib.rs\<close>: limits, the error type with its class codes
  and error details, the conversions from engine and job errors, decoding of requests, the bounded response
  writer with the event page encoder, and the validation of request products. CBOR (the \<open>ciborium\<close> crate)
  is a parameter: a decoder and an encoder for requests, and the pieces the serializer writes for responses.
  Strings are byte strings, so \<open>length\<close> is Rust's \<open>str::len\<close>.
\<close>

section \<open>Limits and errors\<close>

definition ABI_MAJOR :: u32 where "ABI_MAJOR = 0"
definition ABI_MINOR :: u32 where "ABI_MINOR = 5"
definition ES_OK :: int where "ES_OK = 0"
definition ES_ERR_DECODE :: int where "ES_ERR_DECODE = 1"
definition ES_ERR_CONFLICT :: int where "ES_ERR_CONFLICT = 2"
definition ES_ERR_JOB_REFUSAL :: int where "ES_ERR_JOB_REFUSAL = 3"
definition ES_ERR_STORAGE :: int where "ES_ERR_STORAGE = 4"
definition ES_ERR_STATE :: int where "ES_ERR_STATE = 5"
definition ES_ERR_RESOURCE_LIMIT :: int where "ES_ERR_RESOURCE_LIMIT = 6"
definition ES_ERR_PANIC :: int where "ES_ERR_PANIC = 100"

definition MAX_REQUEST_BYTES :: nat where "MAX_REQUEST_BYTES = 16 * 1024 * 1024"
definition MAX_RESPONSE_BYTES :: nat where "MAX_RESPONSE_BYTES = 64 * 1024 * 1024"
definition MAX_STORED_EVENT_PAGE_BYTES :: nat where
  "MAX_STORED_EVENT_PAGE_BYTES = 4 * MAX_RESPONSE_BYTES + MAX_REQUEST_BYTES"
definition MAX_PAYLOAD_BYTES :: nat where "MAX_PAYLOAD_BYTES = 1024 * 1024"
definition MAX_COMMIT_EVENTS :: nat where "MAX_COMMIT_EVENTS = 1024"
definition MAX_LIST_ITEMS :: nat where "MAX_LIST_ITEMS = 4096"
definition MAX_ACTIVE_CLAIMS :: nat where "MAX_ACTIVE_CLAIMS = MAX_LIST_ITEMS"
definition MAX_ERROR_TEXT_BYTES :: nat where "MAX_ERROR_TEXT_BYTES = 4 * 1024"
definition MAX_IDENTIFIER_BYTES :: nat where "MAX_IDENTIFIER_BYTES = 4 * 1024"
definition MAX_RUNTIME_THREADS :: u32 where "MAX_RUNTIME_THREADS = 256"
definition MAX_BUSY_TIMEOUT_MS :: u32 where "MAX_BUSY_TIMEOUT_MS = 2147483647"

definition es_abi_version :: u32 where
  "es_abi_version = (push_bit 16 ABI_MAJOR) OR ABI_MINOR"

datatype job_refusal =
    AttemptExhausted | InvalidClaimPolicy | SettlementRefused
  | PayloadNotOpaqueBytes | PayloadByteOutOfRange | PayloadAboveAbiLimit

text \<open>\<open>EngineError\<close> with its \<open>Schema\<close> variant, which the engine's schema entry points return.\<close>

datatype engine_fault = EngineFault engine_error | Schema reconcile_error

datatype abi_error =
    MalformedInput
  | CborDecode
  | SqliteOptions
  | InputInteger
  | CanonicalCbor
  | AbiConflict string string nat nat
  | JobIdentifier
  | JobRefusal string job_refusal
  | JobRuntime job_runtime_error
  | JobPayload
  | AbiEngine engine_fault
  | AbiSql
  | Migration
  | StorageInteger
  | CborEncode
  | ResponseIo
  | AbiRuntime
  | State string
  | ResourceLimit string nat nat
  | AbiPanic

fun from_engine_error :: "engine_fault \<Rightarrow> abi_error" where
  "from_engine_error (EngineFault (EventPageTooLarge observed limit)) =
     ResourceLimit ''stored_event_page'' observed limit"
| "from_engine_error (EngineFault (JobFlush (InvalidInstant _))) = MalformedInput"
| "from_engine_error (Schema (CompactedSnapshotClear _ _ _)) =
     State ''compacted snapshot retention cannot be cleared''"
| "from_engine_error other = AbiEngine other"

fun abi_code :: "abi_error \<Rightarrow> int" where
  "abi_code MalformedInput = ES_ERR_DECODE"
| "abi_code CborDecode = ES_ERR_DECODE"
| "abi_code SqliteOptions = ES_ERR_DECODE"
| "abi_code InputInteger = ES_ERR_DECODE"
| "abi_code CanonicalCbor = ES_ERR_DECODE"
| "abi_code JobIdentifier = ES_ERR_DECODE"
| "abi_code (AbiConflict _ _ _ _) = ES_ERR_CONFLICT"
| "abi_code (JobRefusal _ _) = ES_ERR_JOB_REFUSAL"
| "abi_code (AbiEngine _) = ES_ERR_STORAGE"
| "abi_code AbiSql = ES_ERR_STORAGE"
| "abi_code Migration = ES_ERR_STORAGE"
| "abi_code StorageInteger = ES_ERR_STORAGE"
| "abi_code (JobRuntime _) = ES_ERR_STORAGE"
| "abi_code JobPayload = ES_ERR_STORAGE"
| "abi_code CborEncode = ES_ERR_STATE"
| "abi_code ResponseIo = ES_ERR_STATE"
| "abi_code AbiRuntime = ES_ERR_STATE"
| "abi_code (State _) = ES_ERR_STATE"
| "abi_code (ResourceLimit _ _ _) = ES_ERR_RESOURCE_LIMIT"
| "abi_code AbiPanic = ES_ERR_PANIC"

text \<open>The conversion of a job-runtime error, attributed to the job the request named.\<close>

fun abi_job_error :: "string \<Rightarrow> job_runtime_error \<Rightarrow> abi_error" where
  "abi_job_error job_id (RtInvalidInstant _) = MalformedInput"
| "abi_job_error job_id RtAttemptExhausted = JobRefusal job_id AttemptExhausted"
| "abi_job_error job_id RtInvalidClaimPolicy = JobRefusal job_id InvalidClaimPolicy"
| "abi_job_error job_id (RtSettlementRefused refused _) = JobRefusal refused SettlementRefused"
| "abi_job_error job_id infrastructure = JobRuntime infrastructure"

fun refusal_text :: "job_refusal \<Rightarrow> string" where
  "refusal_text AttemptExhausted = ''job attempt counter exhausted''"
| "refusal_text InvalidClaimPolicy = ''invalid job claim policy''"
| "refusal_text SettlementRefused = ''job aggregate refused the settlement''"
| "refusal_text PayloadNotOpaqueBytes = ''claimed job payload is not opaque bytes''"
| "refusal_text PayloadByteOutOfRange = ''claimed job payload contains an invalid byte''"
| "refusal_text PayloadAboveAbiLimit = ''claimed job payload exceeds the ABI payload limit''"

datatype cbor_value = CborText string | CborInt nat | CborNull | CborArray "cbor_value list"

fun error_detail :: "abi_error \<Rightarrow> cbor_value" where
  "error_detail (JobRefusal job_id refusal) = CborArray [CborText job_id, CborText (refusal_text refusal)]"
| "error_detail (AbiConflict ty aid expected actual) =
     CborArray [CborText ty, CborText aid, CborInt expected, CborInt actual]"
| "error_detail CborEncode = CborText ''response encoding failed''"
| "error_detail ResponseIo = CborText ''response encoding failed''"
| "error_detail AbiRuntime = CborText ''runtime initialization failed''"
| "error_detail (State detail) = CborText detail"
| "error_detail (ResourceLimit resource observed limit) =
     CborArray [CborText resource, CborInt observed, CborInt limit]"
| "error_detail AbiPanic = CborNull"
| "error_detail err =
     (if abi_code err = ES_ERR_DECODE then CborText ''malformed input'' else CborText ''storage failure'')"

text \<open>
  What a call leaves in its error output (\<open>None\<close>: cleared) and returns. \<open>ser\<close> is the serializer of the
  triple of version, class and detail, \<open>has_out\<close> whether the caller passed an error cell.
\<close>

definition write_error :: "(nat \<times> int \<times> cbor_value \<Rightarrow> 8 word list option) \<Rightarrow> bool \<Rightarrow> abi_error \<Rightarrow> int \<times> 8 word list option" where
  "write_error ser has_out err =
     (abi_code err,
      if has_out then
        (case ser (1, abi_code err, error_detail err) of
           Some bytes \<Rightarrow> if length bytes \<le> MAX_RESPONSE_BYTES then Some bytes else None
         | None \<Rightarrow> None)
      else None)"

section \<open>Request validation\<close>

definition require_version :: "8 word \<Rightarrow> abi_error + unit" where
  "require_version version = (if version = 1 then Inr () else Inl MalformedInput)"

definition require_payload_limit :: "nat \<Rightarrow> abi_error + unit" where
  "require_payload_limit observed =
     (if observed \<le> MAX_PAYLOAD_BYTES then Inr ()
      else Inl (ResourceLimit ''opaque_domain_payload'' observed MAX_PAYLOAD_BYTES))"

definition require_error_text_limit :: "nat \<Rightarrow> abi_error + unit" where
  "require_error_text_limit observed =
     (if observed \<le> MAX_ERROR_TEXT_BYTES then Inr ()
      else Inl (ResourceLimit ''error_detail_text'' observed MAX_ERROR_TEXT_BYTES))"

definition require_commit_event_count :: "nat \<Rightarrow> abi_error + unit" where
  "require_commit_event_count observed =
     (if observed \<le> MAX_COMMIT_EVENTS then Inr ()
      else Inl (ResourceLimit ''commit_events'' observed MAX_COMMIT_EVENTS))"

definition require_identifier_limit :: "nat \<Rightarrow> abi_error + unit" where
  "require_identifier_limit observed =
     (if observed \<le> MAX_IDENTIFIER_BYTES then Inr ()
      else Inl (ResourceLimit ''identifier_text'' observed MAX_IDENTIFIER_BYTES))"

text \<open>
  A request buffer: the outer option is the pointer to the \<open>EsBuf\<close>, the inner one its data pointer.
  \<open>cb_dec\<close> reads a prefix of the bytes as a value (\<open>None\<close>: the decoder's error), \<open>cb_enc\<close> is its encoding.
\<close>

type_synonym es_request = "8 word list option option"

record 'w cbor_codec =
  cb_dec :: "8 word list \<Rightarrow> 'w option"
  cb_enc :: "'w \<Rightarrow> 8 word list option"

definition decode_validated ::
  "'w cbor_codec \<Rightarrow> ('w \<Rightarrow> abi_error + unit) \<Rightarrow> es_request \<Rightarrow> abi_error + 'w" where
  "decode_validated cb validate req =
     (case req of
        None \<Rightarrow> Inl MalformedInput
      | Some None \<Rightarrow> Inl MalformedInput
      | Some (Some bytes) \<Rightarrow>
          if length bytes > MAX_REQUEST_BYTES
          then Inl (ResourceLimit ''encoded_request_buffer'' (length bytes) MAX_REQUEST_BYTES)
          else bind_result (ok_or CborDecode (cb_dec cb bytes)) (\<lambda>decoded.
               bind_result (validate decoded) (\<lambda>_.
               bind_result (ok_or CanonicalCbor (cb_enc cb decoded)) (\<lambda>canonical.
                 if canonical \<noteq> bytes then Inl MalformedInput else Inr decoded))))"

definition decode :: "'w cbor_codec \<Rightarrow> es_request \<Rightarrow> abi_error + 'w" where
  "decode cb req = decode_validated cb (\<lambda>_. Inr ()) req"

text \<open>
  \<open>CommitEventsVisitor::visit_seq\<close> over the items of the CBOR sequence: \<open>typed\<close> decodes an item as a
  proposed event, \<open>ignored\<close> skips one (\<open>None\<close> is a malformed item). At most one item past the limit is
  looked at.
\<close>

record 'ev commit_events =
  ce_values :: "'ev list"
  ce_observed :: nat

fun visit_values :: "('item \<Rightarrow> 'ev option) \<Rightarrow> nat \<Rightarrow> 'item list \<Rightarrow> ('ev list \<times> 'item list) option" where
  "visit_values typed 0 items = Some ([], items)"
| "visit_values typed (Suc room) [] = Some ([], [])"
| "visit_values typed (Suc room) (item # items) =
     (case typed item of
        None \<Rightarrow> None
      | Some ev \<Rightarrow> (case visit_values typed room items of
            None \<Rightarrow> None
          | Some (evs, rest) \<Rightarrow> Some (ev # evs, rest)))"

definition visit_seq ::
  "('item \<Rightarrow> 'ev option) \<Rightarrow> ('item \<Rightarrow> bool) \<Rightarrow> 'item list \<Rightarrow> 'ev commit_events option" where
  "visit_seq typed ignored items =
     (case visit_values typed MAX_COMMIT_EVENTS items of
        None \<Rightarrow> None
      | Some (values, rest) \<Rightarrow>
          if length values < MAX_COMMIT_EVENTS
          then Some \<lparr>ce_values = values, ce_observed = length values\<rparr>
          else (case rest of
              [] \<Rightarrow> Some \<lparr>ce_values = values, ce_observed = length values\<rparr>
            | item # _ \<Rightarrow>
                if ignored item
                then map_option (\<lambda>observed. \<lparr>ce_values = values, ce_observed = observed\<rparr>)
                       (usize_checked_add (length values) 1)
                else None))"

section \<open>Commit requests\<close>

type_synonym proposed_event_wire = "string \<times> string \<times> 8 word list"

record commit_parts =
  pt_aggregate_type :: string
  pt_aggregate_id :: string
  pt_expected :: nat
  pt_events :: "opaque_proposed_event list"

definition proposed_event :: "proposed_event_wire \<Rightarrow> abi_error + opaque_proposed_event" where
  "proposed_event wire =
     (case wire of (ty, version, payload) \<Rightarrow>
        bind_result (require_payload_limit (length payload)) (\<lambda>_.
          Inr \<lparr>op_event_type = ty, op_event_version = version, op_payload = payload\<rparr>))"

definition commit_parts_of ::
  "8 word \<Rightarrow> string \<Rightarrow> string \<Rightarrow> nat \<Rightarrow> proposed_event_wire commit_events \<Rightarrow> abi_error + commit_parts" where
  "commit_parts_of version ty aid expected evs =
     bind_result (require_version version) (\<lambda>_.
     bind_result (require_identifier_limit (length ty)) (\<lambda>_.
     bind_result (require_identifier_limit (length aid)) (\<lambda>_.
     bind_result (require_commit_event_count (ce_observed evs)) (\<lambda>_.
     if ce_values evs = [] then Inl MalformedInput else
     bind_result (ok_or InputInteger (usize_try_from (int expected))) (\<lambda>expected_sequence.
     bind_result (ok_or MalformedInput (usize_checked_add expected_sequence (length (ce_values evs)))) (\<lambda>_.
     bind_result (collect_results proposed_event (ce_values evs)) (\<lambda>proposed.
       Inr \<lparr>pt_aggregate_type = ty, pt_aggregate_id = aid, pt_expected = expected_sequence,
            pt_events = proposed\<rparr>)))))))"

text \<open>
  The commit; on a conflict the durable version is read back for the error detail. \<open>later\<close> is what other
  writers did to the database between the refused commit and that read.
\<close>

definition commit_result ::
  "(int \<Rightarrow> bool) \<Rightarrow> (db \<Rightarrow> db) \<Rightarrow> commit_parts \<Rightarrow> nat \<Rightarrow> enqueue_request option \<Rightarrow> db \<Rightarrow> abi_error + db" where
  "commit_result tr later parts expected job d =
     (let stream = \<lparr>st_type = pt_aggregate_type parts, st_id = pt_aggregate_id parts\<rparr>;
          request = \<lparr>oc_stream = stream, oc_expected = pt_expected parts, oc_events = pt_events parts,
            oc_jobs = (case job of Some seed \<Rightarrow> [seed] | None \<Rightarrow> [])\<rparr>
      in case commit_opaque tr request d of
           Inr d' \<Rightarrow> Inr d'
         | Inl OptimisticLock \<Rightarrow>
             bind_result (map_err (from_engine_error \<circ> EngineFault) (current_version stream (later d))) (\<lambda>actual.
             bind_result (ok_or StorageInteger (usize_try_from (int actual))) (\<lambda>actual'.
               Inl (AbiConflict (pt_aggregate_type parts) (pt_aggregate_id parts) expected actual')))
         | Inl err \<Rightarrow> Inl (from_engine_error (EngineFault err)))"

section \<open>Responses\<close>

record bounded_writer =
  bw_bytes :: "8 word list"
  bw_overflow :: "nat option"

definition new_writer :: bounded_writer where
  "new_writer = \<lparr>bw_bytes = [], bw_overflow = None\<rparr>"

text \<open>\<open>Write::write\<close>; the result is whether the bytes were taken, and the writer.\<close>

definition writer_write :: "8 word list \<Rightarrow> bounded_writer \<Rightarrow> bool \<times> bounded_writer" where
  "writer_write chunk w =
     (case usize_checked_add (length (bw_bytes w)) (length chunk) of
        None \<Rightarrow> (False, w)
      | Some observed \<Rightarrow>
          if observed > MAX_RESPONSE_BYTES then (False, w\<lparr>bw_overflow := Some observed\<rparr>)
          else (True, w\<lparr>bw_bytes := bw_bytes w @ chunk\<rparr>))"

text \<open>\<open>write_all\<close> of the standard library: nothing for an empty chunk, else one \<open>write\<close> takes it all.\<close>

definition write_all :: "8 word list \<Rightarrow> bounded_writer \<Rightarrow> bool \<times> bounded_writer" where
  "write_all chunk w = (if chunk = [] then (True, w) else writer_write chunk w)"

text \<open>\<open>ciborium::into_writer\<close> issues a sequence of writes, stopping at the first that fails.\<close>

fun into_writer :: "8 word list list \<Rightarrow> bounded_writer \<Rightarrow> bool \<times> bounded_writer" where
  "into_writer [] w = (True, w)"
| "into_writer (piece # pieces) w =
     (case write_all piece w of
        (False, w') \<Rightarrow> (False, w')
      | (True, w') \<Rightarrow> into_writer pieces w')"

definition writer_error :: "abi_error \<Rightarrow> bounded_writer \<Rightarrow> abi_error" where
  "writer_error source w =
     (case bw_overflow w of
        None \<Rightarrow> source
      | Some observed \<Rightarrow> ResourceLimit ''encoded_response_buffer'' observed MAX_RESPONSE_BYTES)"

definition array_header :: "nat \<Rightarrow> abi_error + 8 word list" where
  "array_header len =
     (if len \<le> 23 then Inr [0x80 OR word_of_nat len]
      else if len \<le> 255 then Inr [0x98, word_of_nat len]
      else if len \<le> 65535 then Inr [0x99, word_of_nat (len div 256), word_of_nat (len mod 256)]
      else Inl (State ''event page length exceeds ABI limit''))"

definition write_array_header :: "bounded_writer \<Rightarrow> nat \<Rightarrow> abi_error + bounded_writer" where
  "write_array_header w len =
     bind_result (array_header len) (\<lambda>encoded.
       case write_all encoded w of
         (True, w') \<Rightarrow> Inr w'
       | (False, w') \<Rightarrow> Inl (writer_error ResponseIo w'))"

type_synonym stored_event_wire = "nat \<times> string \<times> string \<times> 8 word list"

definition event_to_wire :: "opaque_stored_event \<Rightarrow> abi_error + stored_event_wire" where
  "event_to_wire event =
     bind_result (require_payload_limit (length (os_payload event))) (\<lambda>_.
     bind_result (ok_or StorageInteger (usize_try_from (int (os_sequence event)))) (\<lambda>sequence.
       Inr (sequence, os_event_type event, os_event_version event, os_payload event)))"

text \<open>\<open>ser\<close> gives the writes ciborium issues for one wire event.\<close>

fun write_events ::
  "(stored_event_wire \<Rightarrow> 8 word list list) \<Rightarrow> opaque_stored_event list \<Rightarrow> bounded_writer
     \<Rightarrow> abi_error + bounded_writer" where
  "write_events ser [] w = Inr w"
| "write_events ser (event # evs) w =
     bind_result (event_to_wire event) (\<lambda>wire.
       case into_writer (ser wire) w of
         (True, w') \<Rightarrow> write_events ser evs w'
       | (False, w') \<Rightarrow> Inl (writer_error CborEncode w'))"

definition encode_event_page ::
  "(stored_event_wire \<Rightarrow> 8 word list list) \<Rightarrow> opaque_stored_event list \<Rightarrow> abi_error + 8 word list" where
  "encode_event_page ser evs =
     (case write_all [0x82, 0x01] new_writer of
        (False, w) \<Rightarrow> Inl (writer_error ResponseIo w)
      | (True, w) \<Rightarrow>
          bind_result (write_array_header w (length evs)) (\<lambda>w'.
          bind_result (write_events ser evs w') (\<lambda>w''. Inr (bw_bytes w''))))"

definition encode_response :: "('v \<Rightarrow> 8 word list list) \<Rightarrow> 'v \<Rightarrow> abi_error + 8 word list" where
  "encode_response ser value =
     (case into_writer (ser value) new_writer of
        (True, w) \<Rightarrow> Inr (bw_bytes w)
      | (False, w) \<Rightarrow> Inl (writer_error CborEncode w))"

definition snapshot_to_wire :: "serialized_snapshot \<Rightarrow> abi_error + nat \<times> nat \<times> 8 word list" where
  "snapshot_to_wire snapshot =
     bind_result (map_err (from_engine_error \<circ> EngineFault) (decode_opaque_payload (ss_aggregate snapshot))) (\<lambda>payload.
     bind_result (require_payload_limit (length payload)) (\<lambda>_.
     bind_result (ok_or StorageInteger (usize_try_from (int (ss_current_sequence snapshot)))) (\<lambda>sequence.
     bind_result (ok_or StorageInteger (usize_try_from (int (ss_current_snapshot snapshot)))) (\<lambda>version.
       Inr (sequence, version, payload)))))"

section \<open>Jobs\<close>

text \<open>\<open>serde_json::to_value\<close> of a byte vector, and \<open>Value::as_u64\<close> with \<open>u8::try_from\<close>.\<close>

definition payload_value :: "8 word list \<Rightarrow> json" where
  "payload_value payload = JArray (map byte_to_json payload)"

definition claimed_byte :: "json \<Rightarrow> job_refusal + 8 word" where
  "claimed_byte byte = ok_or PayloadByteOutOfRange (json_u8 byte)"

definition claimed_payload_bytes :: "json \<Rightarrow> job_refusal + 8 word list" where
  "claimed_payload_bytes payload =
     (case payload of
        JArray bytes \<Rightarrow>
          bind_result (collect_results claimed_byte bytes) (\<lambda>bs.
            if length bs > MAX_PAYLOAD_BYTES then Inl PayloadAboveAbiLimit else Inr bs)
      | _ \<Rightarrow> Inl PayloadNotOpaqueBytes)"

type_synonym claim_token = "8 word list"

definition decode_claim_token :: "8 word list \<Rightarrow> abi_error + claim_token" where
  "decode_claim_token encoded = (if length encoded = 16 then Inr encoded else Inl MalformedInput)"

fun settlement_tag :: "job_settlement_result \<Rightarrow> 8 word" where
  "settlement_tag Applied = 0"
| "settlement_tag SettlementFenced = 1"

definition dead_reason_of :: "8 word \<Rightarrow> abi_error + dead_reason" where
  "dead_reason_of tag =
     (if tag = 0 then Inr RetriesExhausted
      else if tag = 1 then Inr Rejected
      else if tag = 2 then Inr Undecodable
      else if tag = 3 then Inr Abandoned
      else Inl MalformedInput)"

section \<open>Store options and schema targets\<close>

definition decode_schema_target :: "(8 word \<times> string \<times> nat \<times> 8 word) cbor_codec \<Rightarrow> es_request \<Rightarrow> abi_error + schema_target" where
  "decode_schema_target cb req =
     bind_result (decode cb req) (\<lambda>(version, ty, schema_version, compaction).
     bind_result (require_version version) (\<lambda>_.
     bind_result (require_identifier_limit (length ty)) (\<lambda>_.
     bind_result (if compaction = 0 then Inr Retain
                  else if compaction = 1 then Inr CompactAfterSnapshot
                  else Inl MalformedInput) (\<lambda>policy.
       Inr \<lparr>tg_aggregate_type = ty, tg_version = schema_version, tg_compaction = policy\<rparr>))))"

datatype sqlite_cache_mode = CacheShared | CachePrivate

text \<open>\<open>str::trim_start_matches\<close> removes the prefix as often as it occurs.\<close>

lemma prefix_shortens: "prefix \<noteq> [] \<Longrightarrow> take (length prefix) s = prefix \<Longrightarrow> length s - length prefix < length s"
  by (cases s; cases prefix) auto

function trim_start_matches :: "string \<Rightarrow> string \<Rightarrow> string" where
  "trim_start_matches prefix s =
     (if prefix \<noteq> [] \<and> take (length prefix) s = prefix
      then trim_start_matches prefix (drop (length prefix) s) else s)"
  by pat_completeness auto
termination
  by (relation "measure (\<lambda>(prefix, s). length s)") (auto simp: prefix_shortens)

definition split_query :: "string \<Rightarrow> string \<times> string" where
  "split_query path = (takeWhile (\<lambda>c. c \<noteq> CHR ''?'') path, drop 1 (dropWhile (\<lambda>c. c \<noteq> CHR ''?'') path))"

fun cache_parameter :: "bool \<times> sqlite_cache_mode \<Rightarrow> string \<times> string \<Rightarrow> bool \<times> sqlite_cache_mode" where
  "cache_parameter (in_memory, cache_mode) (key, val) =
     (if key = ''mode'' \<and> val = ''memory'' then (True, CacheShared)
      else if key = ''cache'' \<and> val = ''private'' then (in_memory, CachePrivate)
      else if key = ''cache'' \<and> val = ''shared'' then (in_memory, CacheShared)
      else (in_memory, cache_mode))"

text \<open>
  \<open>from_str\<close> is \<open>SqliteConnectOptions::from_str\<close> and \<open>urlencoded\<close> \<open>form_urlencoded::parse\<close>, both of other
  crates.
\<close>

definition parse_sqlite_options ::
  "(string \<Rightarrow> 'conn option) \<Rightarrow> (string \<Rightarrow> (string \<times> string) list) \<Rightarrow> string
     \<Rightarrow> abi_error + 'conn \<times> sqlite_cache_mode option" where
  "parse_sqlite_options from_str urlencoded path =
     bind_result (ok_or SqliteOptions (from_str path)) (\<lambda>conn.
       let (database, parameters) =
             split_query (trim_start_matches ''sqlite:'' (trim_start_matches ''sqlite://'' path));
           is_memory = (database = '':memory:'');
           (in_memory, cache_mode) = foldl cache_parameter
             (is_memory, if is_memory then CacheShared else CachePrivate) (urlencoded parameters)
       in Inr (conn, if in_memory then Some cache_mode else None))"

record 'conn open_options =
  oo_connect :: 'conn
  oo_busy_timeout_ms :: nat
  oo_pool_size :: u32
  oo_runtime_threads :: nat

definition decode_open_options ::
  "(string \<Rightarrow> 'conn option) \<Rightarrow> (string \<Rightarrow> (string \<times> string) list)
     \<Rightarrow> (8 word \<times> string \<times> nat \<times> u32 \<times> u32) cbor_codec \<Rightarrow> es_request \<Rightarrow> abi_error + 'conn open_options" where
  "decode_open_options from_str urlencoded cb req =
     bind_result (decode cb req) (\<lambda>(version, path, busy_timeout_ms, pool_size, runtime_threads).
     if version \<noteq> 1 \<or> pool_size = 0 \<or> runtime_threads = 0 then Inl MalformedInput else
     bind_result (require_identifier_limit (length path)) (\<lambda>_.
     if busy_timeout_ms > unat MAX_BUSY_TIMEOUT_MS
     then Inl (ResourceLimit ''busy_timeout_ms'' busy_timeout_ms (unat MAX_BUSY_TIMEOUT_MS)) else
     bind_result (parse_sqlite_options from_str urlencoded path) (\<lambda>(conn, memory_cache).
     if memory_cache = Some CachePrivate then Inl MalformedInput else
     if unat runtime_threads > unat MAX_RUNTIME_THREADS
     then Inl (ResourceLimit ''runtime_threads'' (unat runtime_threads) (unat MAX_RUNTIME_THREADS)) else
       Inr \<lparr>oo_connect = conn, oo_busy_timeout_ms = busy_timeout_ms, oo_pool_size = pool_size,
            oo_runtime_threads = unat runtime_threads\<rparr>)))"

section \<open>Requests are canonical and bounded\<close>

lemma require_Inr [simp]:
  "require_version v = Inr u \<longleftrightarrow> v = 1"
  "require_payload_limit n = Inr u \<longleftrightarrow> n \<le> MAX_PAYLOAD_BYTES"
  "require_error_text_limit n = Inr u \<longleftrightarrow> n \<le> MAX_ERROR_TEXT_BYTES"
  "require_commit_event_count n = Inr u \<longleftrightarrow> n \<le> MAX_COMMIT_EVENTS"
  "require_identifier_limit n = Inr u \<longleftrightarrow> n \<le> MAX_IDENTIFIER_BYTES"
  by (simp_all add: require_version_def require_payload_limit_def require_error_text_limit_def
      require_commit_event_count_def require_identifier_limit_def)

lemma decode_validated_Inr:
  "decode_validated cb validate req = Inr v \<longleftrightarrow>
     (\<exists>bytes. req = Some (Some bytes) \<and> length bytes \<le> MAX_REQUEST_BYTES \<and> cb_dec cb bytes = Some v
        \<and> (\<exists>u. validate v = Inr u) \<and> cb_enc cb v = Some bytes)"
  by (auto simp: decode_validated_def split: option.splits)

lemma visit_values_Some:
  "visit_values typed room items = Some (evs, rest) \<Longrightarrow>
     map typed (take room items) = map Some evs \<and> rest = drop room items"
proof (induction room arbitrary: items evs)
  case (Suc room)
  then show ?case by (cases items) (auto split: option.splits)
qed auto

lemma visit_seq_Some:
  assumes "visit_seq typed ignored items = Some ce"
  shows "map typed (take MAX_COMMIT_EVENTS items) = map Some (ce_values ce)"
    "ce_observed ce = min (length items) (MAX_COMMIT_EVENTS + 1)"
proof -
  obtain evs rest where v: "visit_values typed MAX_COMMIT_EVENTS items = Some (evs, rest)"
    using assms by (auto simp: visit_seq_def split: option.splits)
  then have evs: "map typed (take MAX_COMMIT_EVENTS items) = map Some evs" and rest: "rest = drop MAX_COMMIT_EVENTS items"
    using visit_values_Some by blast+
  have len: "length evs = min (length items) MAX_COMMIT_EVENTS" using arg_cong [OF evs, of length] by simp
  show "map typed (take MAX_COMMIT_EVENTS items) = map Some (ce_values ce)"
    using assms v evs by (auto simp: visit_seq_def split: if_splits list.splits)
  show "ce_observed ce = min (length items) (MAX_COMMIT_EVENTS + 1)"
    using assms v len rest
    by (auto simp: visit_seq_def split: if_splits list.splits dest: arg_cong [where f = length])
qed

section \<open>The event page\<close>

definition event_bytes :: "(stored_event_wire \<Rightarrow> 8 word list list) \<Rightarrow> opaque_stored_event \<Rightarrow> 8 word list" where
  "event_bytes ser ev = concat (ser (os_sequence ev, os_event_type ev, os_event_version ev, os_payload ev))"

text \<open>A reader for the head of a CBOR array (RFC 8949), written independently of the encoder.\<close>

fun read_array_header :: "8 word list \<Rightarrow> (nat \<times> 8 word list) option" where
  "read_array_header [] = None"
| "read_array_header (b # rest) =
     (if 128 \<le> unat b \<and> unat b \<le> 151 then Some (unat b - 128, rest)
      else if unat b = 152 then (case rest of l # more_bytes \<Rightarrow> Some (unat l, more_bytes) | _ \<Rightarrow> None)
      else if unat b = 153
      then (case rest of h # l # more_bytes \<Rightarrow> Some (256 * unat h + unat l, more_bytes) | _ \<Rightarrow> None)
      else None)"

lemma writer_write_ok:
  assumes "length (bw_bytes w) \<le> MAX_RESPONSE_BYTES"
  shows "writer_write chunk w = (True, w') \<longleftrightarrow>
    w' = w\<lparr>bw_bytes := bw_bytes w @ chunk\<rparr> \<and> length (bw_bytes w') \<le> MAX_RESPONSE_BYTES"
  using assms
  by (auto simp: writer_write_def MAX_RESPONSE_BYTES_def USIZE_MAX_def usize_checked_add_def)

lemma write_all_ok:
  assumes "length (bw_bytes w) \<le> MAX_RESPONSE_BYTES"
  shows "write_all chunk w = (True, w') \<longleftrightarrow>
    w' = w\<lparr>bw_bytes := bw_bytes w @ chunk\<rparr> \<and> length (bw_bytes w') \<le> MAX_RESPONSE_BYTES"
  using assms writer_write_ok [OF assms, of chunk w'] by (auto simp: write_all_def)

lemma into_writer_ok:
  assumes "length (bw_bytes w) \<le> MAX_RESPONSE_BYTES"
  shows "into_writer pieces w = (True, w') \<longleftrightarrow>
    w' = w\<lparr>bw_bytes := bw_bytes w @ concat pieces\<rparr> \<and> length (bw_bytes w') \<le> MAX_RESPONSE_BYTES"
  using assms
proof (induction pieces arbitrary: w)
  case (Cons piece pieces)
  show ?case
  proof (cases "write_all piece w")
    case (Pair ok v)
    show ?thesis
    proof (cases ok)
      case True
      with Pair write_all_ok [OF Cons.prems, of piece v] Cons.IH [of v]
      show ?thesis by auto
    next
      case False
      then have "\<not> (\<exists>v. write_all piece w = (True, v))" using Pair by simp
      then have "length (bw_bytes w @ piece) > MAX_RESPONSE_BYTES"
        using write_all_ok [OF Cons.prems, of piece "w\<lparr>bw_bytes := bw_bytes w @ piece\<rparr>"] by force
      then show ?thesis using Pair False by auto
    qed
  qed
qed auto

lemma event_to_wire_Inr:
  "event_to_wire ev = Inr wire \<longleftrightarrow> length (os_payload ev) \<le> MAX_PAYLOAD_BYTES \<and> os_sequence ev \<le> USIZE_MAX
     \<and> wire = (os_sequence ev, os_event_type ev, os_event_version ev, os_payload ev)"
  by (auto simp: event_to_wire_def usize_try_from_def)

lemma write_events_ok:
  assumes "length (bw_bytes w) \<le> MAX_RESPONSE_BYTES"
  shows "write_events ser evs w = Inr w' \<longleftrightarrow>
    (\<forall>ev \<in> set evs. length (os_payload ev) \<le> MAX_PAYLOAD_BYTES \<and> os_sequence ev \<le> USIZE_MAX)
    \<and> w' = w\<lparr>bw_bytes := bw_bytes w @ concat (map (event_bytes ser) evs)\<rparr>
    \<and> length (bw_bytes w') \<le> MAX_RESPONSE_BYTES"
  using assms
proof (induction evs arbitrary: w)
  case (Cons ev evs)
  let ?wire = "(os_sequence ev, os_event_type ev, os_event_version ev, os_payload ev)"
  show ?case
  proof (cases "into_writer (ser ?wire) w")
    case (Pair ok v)
    show ?thesis
    proof (cases ok)
      case True
      with Pair into_writer_ok [OF Cons.prems, of "ser ?wire" v] Cons.IH [of v]
      show ?thesis by (auto simp: event_to_wire_Inr event_bytes_def)
    next
      case False
      then have "length (bw_bytes w @ event_bytes ser ev) > MAX_RESPONSE_BYTES"
        using Pair into_writer_ok [OF Cons.prems, of "ser ?wire" "w\<lparr>bw_bytes := bw_bytes w @ event_bytes ser ev\<rparr>"]
        by (force simp: event_bytes_def)
      then show ?thesis using Pair False by (auto simp: event_to_wire_Inr)
    qed
  qed
qed auto

definition page_header :: "nat \<Rightarrow> 8 word list" where
  "page_header n =
     (if n \<le> 23 then [word_of_nat (128 + n)]
      else if n \<le> 255 then [152, word_of_nat n]
      else [153, word_of_nat (n div 256), word_of_nat (n mod 256)])"

lemma small_header: "n \<le> 23 \<Longrightarrow> (0x80 :: 8 word) OR word_of_nat n = word_of_nat (128 + n)"
proof -
  assume "n \<le> 23"
  then have "n \<in> set [0..<24]" by simp
  moreover have "\<forall>n \<in> set [0..<24]. (0x80 :: 8 word) OR word_of_nat n = word_of_nat (128 + n)"
    by (simp add: upt_rec)
  ultimately show ?thesis by blast
qed

lemma array_header_Inr: "array_header n = Inr header \<longleftrightarrow> n \<le> 65535 \<and> header = page_header n"
  by (auto simp: array_header_def page_header_def small_header)

lemma unat_byte [simp]: "n < 256 \<Longrightarrow> unat (word_of_nat n :: 8 word) = n"
  by (simp add: unat_of_nat)

lemma unat_small_header [simp]: "n \<le> 23 \<Longrightarrow> unat (128 + word_of_nat n :: 8 word) = 128 + n"
  using unat_byte [of "128 + n"] by simp

lemma read_page_header: "n \<le> 65535 \<Longrightarrow> read_array_header (page_header n @ rest) = Some (n, rest)"
  by (auto simp: page_header_def)

lemma encode_event_page_Inr:
  "encode_event_page ser evs = Inr bytes \<longleftrightarrow>
     (\<forall>ev \<in> set evs. length (os_payload ev) \<le> MAX_PAYLOAD_BYTES \<and> os_sequence ev \<le> USIZE_MAX)
     \<and> length evs \<le> 65535
     \<and> bytes = [0x82, 0x01] @ page_header (length evs) @ concat (map (event_bytes ser) evs)
     \<and> length bytes \<le> MAX_RESPONSE_BYTES"
proof -
  let ?w = "\<lparr>bw_bytes = [0x82, 0x01], bw_overflow = None\<rparr>"
  let ?v = "\<lparr>bw_bytes = [0x82, 0x01] @ page_header (length evs), bw_overflow = None\<rparr>"
  have start: "write_all [0x82, 0x01] new_writer = (True, ?w)"
    by (subst write_all_ok) (simp_all add: new_writer_def MAX_RESPONSE_BYTES_def)
  have small: "length (page_header n) \<le> 3" for n by (simp add: page_header_def)
  have room: "length (bw_bytes ?v) \<le> MAX_RESPONSE_BYTES" "length (bw_bytes ?w) \<le> MAX_RESPONSE_BYTES"
    using small [of "length evs"] by (simp_all add: MAX_RESPONSE_BYTES_def)
  have "write_all (page_header (length evs)) ?w = (True, ?v)"
    using write_all_ok [OF room(2), of "page_header (length evs)" ?v] room(1) by simp
  then have "write_array_header ?w (length evs) =
      (if length evs \<le> 65535 then Inr ?v else Inl (State ''event page length exceeds ABI limit''))"
    by (cases "array_header (length evs)")
      (auto simp: write_array_header_def array_header_Inr, auto simp: array_header_def split: if_splits)
  then show ?thesis
    using write_events_ok [OF room(1), of ser evs]
    by (auto simp: encode_event_page_def start)
qed

text \<open>
  C33 (event_page_exact). The event page of a stream load is encoded exactly or not at all: the response is
  the two-byte product head, the array head for the number of events and the encodings of all events in
  order, within the response limit; otherwise (a payload over its limit, a page of more than 65535 events, or
  a response over 64 MiB) the call fails and nothing is truncated. The array head is a valid CBOR head of
  that length, in each of its three forms.
\<close>

theorem event_page_exact:
  "(encode_event_page ser evs = Inr bytes \<longleftrightarrow>
      (\<forall>ev \<in> set evs. length (os_payload ev) \<le> MAX_PAYLOAD_BYTES \<and> os_sequence ev \<le> USIZE_MAX)
      \<and> length evs \<le> 65535
      \<and> bytes = [0x82, 0x01] @ page_header (length evs) @ concat (map (event_bytes ser) evs)
      \<and> length bytes \<le> MAX_RESPONSE_BYTES)
   \<and> (length evs \<le> 65535 \<longrightarrow> read_array_header (page_header (length evs) @ rest) = Some (length evs, rest))"
  using encode_event_page_Inr [of ser evs bytes] read_page_header [of "length evs" rest] by blast

definition sample_stored :: opaque_stored_event where
  "sample_stored = \<lparr>os_sequence = 1, os_event_type = ''Opened'', os_event_version = ''1.0'', os_payload = [7, 255]\<rparr>"

theorem event_page_exact_witness:
  "encode_event_page (\<lambda>(n, ty, v, payload). [ [0x84, word_of_nat n], payload]) [sample_stored]
     = Inr [0x82, 0x01, 0x81, 0x84, 1, 7, 255]
   \<and> read_array_header [0x81, 0x84, 1, 7, 255] = Some (1, [0x84, 1, 7, 255])"
  using event_page_exact [of "\<lambda>(n, ty, v, payload). [ [0x84, word_of_nat n], payload]" "[sample_stored]"
      "[0x82, 0x01, 0x81, 0x84, 1, 7, 255]" "[0x84, 1, 7, 255]"]
  by (simp add: sample_stored_def event_bytes_def page_header_def MAX_PAYLOAD_BYTES_def MAX_RESPONSE_BYTES_def
      USIZE_MAX_def)

end
