(* ===== verification/Ffi_Claims.thy ===== *)
theory Ffi_Claims
  imports Ffi_Abi
begin

text \<open>
  The claim registry of an open store, \<open>crates/event-sorcery-ffi/src/lib.rs\<close>: the tokens handed out for won
  claims, with the reservation, renewal and settlement guards whose destructors give a token or a slot back.
  The hash map is an association list with distinct keys; its order stands for the iteration order. The
  registry lock makes every operation atomic, so concurrent calls are an interleaving of them: \<open>claim_step\<close>.
\<close>

section \<open>The registry\<close>

datatype claim_state = Available | Renewing | Settling

record retained_claim =
  rc_handle :: job_claim_handle
  rc_lease_until :: int
  rc_state :: claim_state

record claim_registry =
  cr_retained :: "(claim_token \<times> retained_claim) list"
  cr_reservations :: nat

definition empty_registry :: claim_registry where
  "empty_registry = \<lparr>cr_retained = [], cr_reservations = 0\<rparr>"

definition is_expired :: "int \<Rightarrow> retained_claim \<Rightarrow> bool" where
  "is_expired now_ms claim \<longleftrightarrow> rc_state claim = Available \<and> rc_lease_until claim < now_ms"

text \<open>\<open>Iterator::min_by_key\<close>: the first of the least elements.\<close>

fun min_by_key :: "('a \<Rightarrow> int) \<Rightarrow> 'a list \<Rightarrow> 'a option" where
  "min_by_key key [] = None"
| "min_by_key key (x # xs) =
     (case min_by_key key xs of
        None \<Rightarrow> Some x
      | Some y \<Rightarrow> Some (if key x \<le> key y then x else y))"

definition remove_token :: "claim_token \<Rightarrow> (claim_token \<times> retained_claim) list \<Rightarrow> (claim_token \<times> retained_claim) list" where
  "remove_token token retained = filter (\<lambda>(t, _). t \<noteq> token) retained"

definition evict_oldest_expired :: "int \<Rightarrow> claim_registry \<Rightarrow> (claim_token \<times> claim_registry) option" where
  "evict_oldest_expired now_ms reg =
     (case min_by_key (rc_lease_until \<circ> snd) (filter (\<lambda>(_, c). is_expired now_ms c) (cr_retained reg)) of
        None \<Rightarrow> None
      | Some (token, _) \<Rightarrow> Some (token, reg\<lparr>cr_retained := remove_token token (cr_retained reg)\<rparr>))"

definition release_reservation :: "claim_registry \<Rightarrow> claim_registry" where
  "release_reservation reg = reg\<lparr>cr_reservations := cr_reservations reg - 1\<rparr>"

definition prepare_claim :: "int \<Rightarrow> claim_registry \<Rightarrow> abi_error + claim_registry" where
  "prepare_claim now_ms reg =
     bind_result (ok_or (State ''active claim capacity overflowed'')
       (Option.bind (usize_checked_add (length (cr_retained reg)) (cr_reservations reg))
         (\<lambda>used. usize_checked_add used 1))) (\<lambda>observed.
     bind_result (if observed > MAX_ACTIVE_CLAIMS
                  then (case evict_oldest_expired now_ms reg of
                          None \<Rightarrow> Inl (ResourceLimit ''active_claims'' observed MAX_ACTIVE_CLAIMS)
                        | Some (_, reg') \<Rightarrow> Inr reg')
                  else Inr reg) (\<lambda>reg'.
     bind_result (ok_or (State ''active claim capacity overflowed'') (usize_checked_add (cr_reservations reg') 1))
       (\<lambda>reservations. Inr (reg'\<lparr>cr_reservations := reservations\<rparr>))))"

text \<open>A mutation through \<open>get_mut(&token)\<close>.\<close>

definition change_token ::
  "claim_token \<Rightarrow> (retained_claim \<Rightarrow> retained_claim) \<Rightarrow> (claim_token \<times> retained_claim) list
     \<Rightarrow> (claim_token \<times> retained_claim) list" where
  "change_token token f retained = map (\<lambda>(t, c). (t, if t = token then f c else c)) retained"

definition set_state :: "claim_token \<Rightarrow> claim_state \<Rightarrow> claim_registry \<Rightarrow> claim_registry" where
  "set_state token st reg =
     reg\<lparr>cr_retained := change_token token (rc_state_update (\<lambda>_. st)) (cr_retained reg)\<rparr>"

text \<open>\<open>get_mut(&token).filter(|claim| claim.state == st)\<close>.\<close>

definition retained_in :: "claim_token \<Rightarrow> claim_state \<Rightarrow> claim_registry \<Rightarrow> retained_claim option" where
  "retained_in token st reg =
     (case map_of (cr_retained reg) token of
        None \<Rightarrow> None
      | Some claim \<Rightarrow> if rc_state claim = st then Some claim else None)"

definition begin_renewal :: "claim_token \<Rightarrow> claim_registry \<Rightarrow> abi_error + job_claim_handle \<times> claim_registry" where
  "begin_renewal token reg =
     bind_result (ok_or (State ''claim handle is invalid'') (retained_in token Available reg))
       (\<lambda>claim. Inr (rc_handle claim, set_state token Renewing reg))"

definition begin_settlement :: "claim_token \<Rightarrow> claim_registry \<Rightarrow> abi_error + job_claim_handle \<times> claim_registry" where
  "begin_settlement token reg =
     bind_result (ok_or (State ''claim handle is invalid'') (retained_in token Available reg))
       (\<lambda>claim. Inr (rc_handle claim, set_state token Settling reg))"

definition retire_expired_claims :: "string \<Rightarrow> int \<Rightarrow> claim_registry \<Rightarrow> claim_registry" where
  "retire_expired_claims job_id now_ms reg =
     reg\<lparr>cr_retained := filter (\<lambda>(_, c). jh_job_id (rc_handle c) \<noteq> job_id \<or> \<not> is_expired now_ms c) (cr_retained reg)\<rparr>"

definition retire_claim :: "claim_token \<Rightarrow> claim_registry \<Rightarrow> claim_registry" where
  "retire_claim token reg = reg\<lparr>cr_retained := remove_token token (cr_retained reg)\<rparr>"

section \<open>Guards\<close>

text \<open>\<open>HashMap::insert\<close> replaces the value of an existing key.\<close>

definition insert_token ::
  "claim_token \<Rightarrow> retained_claim \<Rightarrow> (claim_token \<times> retained_claim) list \<Rightarrow> (claim_token \<times> retained_claim) list" where
  "insert_token token claim retained = remove_token token retained @ [(token, claim)]"

text \<open>The claims \<open>issue\<close> keeps: those of other jobs, and those an operation is under way on.\<close>

definition kept_by :: "string \<Rightarrow> retained_claim \<Rightarrow> bool" where
  "kept_by job_id claim \<longleftrightarrow> rc_state claim \<noteq> Available \<or> jh_job_id (rc_handle claim) \<noteq> job_id"

definition issue :: "claim_token \<Rightarrow> job_claim_handle \<Rightarrow> int \<Rightarrow> claim_registry \<Rightarrow> claim_registry" where
  "issue token won lease_until_ms reg =
     release_reservation
       (reg\<lparr>cr_retained := insert_token token
          \<lparr>rc_handle = won, rc_lease_until = lease_until_ms, rc_state = Available\<rparr>
          (filter (\<lambda>(_, c). kept_by (jh_job_id won) c) (cr_retained reg))\<rparr>)"

text \<open>Dropping a pending guard: a reservation frees its slot, a renewal or settlement its token.\<close>

definition drop_reservation :: "claim_registry \<Rightarrow> claim_registry" where
  "drop_reservation reg = release_reservation reg"

definition drop_renewal :: "claim_token \<Rightarrow> claim_registry \<Rightarrow> claim_registry" where
  "drop_renewal token reg =
     (case retained_in token Renewing reg of None \<Rightarrow> reg | Some _ \<Rightarrow> set_state token Available reg)"

definition drop_settlement :: "claim_token \<Rightarrow> claim_registry \<Rightarrow> claim_registry" where
  "drop_settlement token reg =
     (case retained_in token Settling reg of None \<Rightarrow> reg | Some _ \<Rightarrow> set_state token Available reg)"

text \<open>On failure the guard is still pending, so its destructor runs.\<close>

definition complete_renewal :: "claim_token \<Rightarrow> int \<Rightarrow> claim_registry \<Rightarrow> (abi_error + unit) \<times> claim_registry" where
  "complete_renewal token lease_until_ms reg =
     (case retained_in token Renewing reg of
        None \<Rightarrow> (Inl (State ''renewing claim is no longer retained''), drop_renewal token reg)
      | Some _ \<Rightarrow>
          (Inr (), reg\<lparr>cr_retained :=
             change_token token (\<lambda>c. c\<lparr>rc_lease_until := lease_until_ms, rc_state := Available\<rparr>)
               (cr_retained reg)\<rparr>))"

definition retire_renewal :: "claim_token \<Rightarrow> claim_registry \<Rightarrow> claim_registry" where
  "retire_renewal token reg = retire_claim token reg"

definition complete_settlement :: "claim_token \<Rightarrow> claim_registry \<Rightarrow> claim_registry" where
  "complete_settlement token reg = retire_claim token reg"

section \<open>Concurrent calls\<close>

text \<open>
  The registry with the guards alive: the number of pending reservations, the tokens being renewed and
  settled, every token ever minted, and the tokens whose settlement completed. Minted tokens are 16 random
  bytes; a step mints one that was never minted before.
\<close>

record claim_sys =
  cs_registry :: claim_registry
  cs_reserving :: nat
  cs_renewing :: "claim_token list"
  cs_settling :: "claim_token list"
  cs_minted :: "claim_token list"
  cs_settled :: "claim_token list"

definition claim_init :: claim_sys where
  "claim_init = \<lparr>cs_registry = empty_registry, cs_reserving = 0, cs_renewing = [], cs_settling = [],
     cs_minted = [], cs_settled = []\<rparr>"

inductive claim_step :: "claim_sys \<Rightarrow> claim_sys \<Rightarrow> bool" where
  reserve: "prepare_claim now_ms (cs_registry s) = Inr reg \<Longrightarrow>
    claim_step s (s\<lparr>cs_registry := reg, cs_reserving := Suc (cs_reserving s)\<rparr>)"
| issued: "0 < cs_reserving s \<Longrightarrow> token \<notin> set (cs_minted s) \<Longrightarrow>
    claim_step s (s\<lparr>cs_registry := issue token won lease_until_ms (cs_registry s),
      cs_reserving := cs_reserving s - 1, cs_minted := token # cs_minted s\<rparr>)"
| unreserve: "0 < cs_reserving s \<Longrightarrow>
    claim_step s (s\<lparr>cs_registry := drop_reservation (cs_registry s), cs_reserving := cs_reserving s - 1\<rparr>)"
| lapsed: "claim_step s (s\<lparr>cs_registry := retire_expired_claims job_id now_ms (cs_registry s)\<rparr>)"
| renewal: "begin_renewal token (cs_registry s) = Inr (won, reg) \<Longrightarrow>
    claim_step s (s\<lparr>cs_registry := reg, cs_renewing := token # cs_renewing s\<rparr>)"
| renewed: "token \<in> set (cs_renewing s) \<Longrightarrow> complete_renewal token lease_until_ms (cs_registry s) = (r, reg) \<Longrightarrow>
    claim_step s (s\<lparr>cs_registry := reg, cs_renewing := remove1 token (cs_renewing s)\<rparr>)"
| lost: "token \<in> set (cs_renewing s) \<Longrightarrow>
    claim_step s (s\<lparr>cs_registry := retire_renewal token (cs_registry s), cs_renewing := remove1 token (cs_renewing s)\<rparr>)"
| unrenewed: "token \<in> set (cs_renewing s) \<Longrightarrow>
    claim_step s (s\<lparr>cs_registry := drop_renewal token (cs_registry s), cs_renewing := remove1 token (cs_renewing s)\<rparr>)"
| settlement: "begin_settlement token (cs_registry s) = Inr (won, reg) \<Longrightarrow>
    claim_step s (s\<lparr>cs_registry := reg, cs_settling := token # cs_settling s\<rparr>)"
| settled: "token \<in> set (cs_settling s) \<Longrightarrow>
    claim_step s (s\<lparr>cs_registry := complete_settlement token (cs_registry s),
      cs_settling := remove1 token (cs_settling s), cs_settled := token # cs_settled s\<rparr>)"
| unsettled: "token \<in> set (cs_settling s) \<Longrightarrow>
    claim_step s (s\<lparr>cs_registry := drop_settlement token (cs_registry s),
      cs_settling := remove1 token (cs_settling s)\<rparr>)"

inductive claim_reachable :: "claim_sys \<Rightarrow> bool" where
  start: "claim_reachable claim_init"
| step: "claim_reachable s \<Longrightarrow> claim_step s s' \<Longrightarrow> claim_reachable s'"

inductive_cases claim_stepE: "claim_step s s'"

section \<open>Lookups after each operation\<close>

lemma map_of_remove_token [simp]: "map_of (remove_token token xs) = (map_of xs)(token := None)"
  by (induction xs) (auto simp: remove_token_def)

lemma map_of_insert_token [simp]:
  "token \<notin> fst ` set xs \<Longrightarrow> map_of (insert_token token claim xs) = (map_of xs)(token \<mapsto> claim)"
  by (auto simp: insert_token_def map_add_def fun_eq_iff split: option.splits)

lemma map_of_change [simp]:
  "map_of (change_token token f xs) u = (if u = token then map_option f (map_of xs u) else map_of xs u)"
  by (induction xs) (auto simp: change_token_def)

lemma map_of_filter_claims:
  "distinct (map fst xs) \<Longrightarrow>
     map_of (filter (\<lambda>(_, c). P c) xs) t = Option.bind (map_of xs t) (\<lambda>c. if P c then Some c else None)"
  by (induction xs) (auto simp: map_of_eq_None_iff Option.bind_eq_None_conv split: option.splits if_splits)

lemma keys_of_filter: "distinct (map fst xs) \<Longrightarrow> distinct (map fst (filter P xs))"
  by (induction xs) auto

lemma keys_remove [simp]: "fst ` set (remove_token token xs) = fst ` set xs - {token}"
  by (force simp: remove_token_def)

lemma keys_change [simp]:
  "map fst (change_token token f xs) = map fst xs" "fst ` set (change_token token f xs) = fst ` set xs"
  by (induction xs) (auto simp: change_token_def)

lemma remove_token_absent: "t \<notin> fst ` set xs \<Longrightarrow> remove_token t xs = xs"
  by (induction xs) (auto simp: remove_token_def)

lemma remove_token_shortens: "t \<in> fst ` set xs \<Longrightarrow> length (remove_token t xs) < length xs"
  by (induction xs) (auto simp: remove_token_def intro: le_imp_less_Suc)

lemma min_by_key_None [simp]: "min_by_key key xs = None \<longleftrightarrow> xs = []"
  by (induction xs) (auto split: option.splits)

lemma min_by_key_Some: "min_by_key key xs = Some x \<Longrightarrow> x \<in> set xs \<and> (\<forall>y \<in> set xs. key x \<le> key y)"
proof (induction xs arbitrary: x)
  case (Cons a xs)
  show ?case
  proof (cases "min_by_key key xs")
    case (Some y)
    then show ?thesis using Cons.IH [OF Some] Cons.prems by (auto split: if_splits)
  qed (use Cons.prems in simp)
qed simp

lemma evict_oldest_Some:
  assumes "evict_oldest_expired now_ms reg = Some (token, reg')"
  shows "reg' = retire_claim token reg"
    "\<exists>claim. (token, claim) \<in> set (cr_retained reg) \<and> is_expired now_ms claim
       \<and> (\<forall>(_, c) \<in> set (cr_retained reg). is_expired now_ms c \<longrightarrow> rc_lease_until claim \<le> rc_lease_until c)"
  using assms
  by (auto simp: evict_oldest_expired_def retire_claim_def split: option.splits dest!: min_by_key_Some)

lemma prepare_claim_Inr:
  assumes "prepare_claim now_ms reg = Inr reg'"
  shows "(length (cr_retained reg) + cr_reservations reg < MAX_ACTIVE_CLAIMS
          \<and> reg' = reg\<lparr>cr_reservations := Suc (cr_reservations reg)\<rparr>)
    \<or> (\<exists>token. evict_oldest_expired now_ms reg = Some (token, retire_claim token reg)
          \<and> reg' = (retire_claim token reg)\<lparr>cr_reservations := Suc (cr_reservations reg)\<rparr>)"
  using assms
  by (auto simp: prepare_claim_def retire_claim_def Option.bind_eq_Some_conv
      split: if_splits option.splits dest: evict_oldest_Some(1))

section \<open>The invariant\<close>

definition phase :: "claim_registry \<Rightarrow> claim_token \<Rightarrow> claim_state option" where
  "phase reg token = map_option rc_state (map_of (cr_retained reg) token)"

definition tokens :: "claim_registry \<Rightarrow> claim_token set" where
  "tokens reg = fst ` set (cr_retained reg)"

definition registry_ok :: "claim_registry \<Rightarrow> nat \<Rightarrow> bool" where
  "registry_ok reg reserving \<longleftrightarrow> distinct (map fst (cr_retained reg)) \<and> cr_reservations reg = reserving
     \<and> length (cr_retained reg) + reserving \<le> MAX_ACTIVE_CLAIMS"

definition guards_ok :: "claim_sys \<Rightarrow> bool" where
  "guards_ok s \<longleftrightarrow> distinct (cs_renewing s) \<and> distinct (cs_settling s)
     \<and> (\<forall>t. phase (cs_registry s) t = Some Renewing \<longleftrightarrow> t \<in> set (cs_renewing s))
     \<and> (\<forall>t. phase (cs_registry s) t = Some Settling \<longleftrightarrow> t \<in> set (cs_settling s))"

definition tokens_ok :: "claim_sys \<Rightarrow> bool" where
  "tokens_ok s \<longleftrightarrow> tokens (cs_registry s) \<subseteq> set (cs_minted s) \<and> set (cs_settled s) \<subseteq> set (cs_minted s)
     \<and> distinct (cs_settled s) \<and> set (cs_settled s) \<inter> tokens (cs_registry s) = {}"

lemma phase_None [simp]: "phase reg t = None \<longleftrightarrow> t \<notin> tokens reg"
  by (simp add: phase_def tokens_def map_of_eq_None_iff)

lemma phase_Some: "phase reg t = Some st \<Longrightarrow> t \<in> tokens reg"
  using phase_None [of reg t] by (cases "t \<in> tokens reg") auto

text \<open>What each operation does to the phases, the tokens and the counters.\<close>

lemma phase_retire [simp]:
  "phase (retire_claim token reg) t = (if t = token then None else phase reg t)"
  "tokens (retire_claim token reg) = tokens reg - {token}"
  "cr_reservations (retire_claim token reg) = cr_reservations reg"
  by (auto simp: phase_def tokens_def retire_claim_def)

lemma phase_change:
  assumes "\<And>c. rc_state (f c) = st"
  shows "phase (reg\<lparr>cr_retained := change_token token f (cr_retained reg)\<rparr>) t =
     (if t = token \<and> token \<in> tokens reg then Some st else phase reg t)"
proof (cases "map_of (cr_retained reg) token")
  case None
  then have "token \<notin> tokens reg" by (simp add: tokens_def map_of_eq_None_iff)
  then show ?thesis using None by (simp add: phase_def)
next
  case (Some c)
  then have "token \<in> tokens reg" by (force simp: tokens_def dest: map_of_SomeD)
  then show ?thesis using Some assms by (simp add: phase_def)
qed

lemma phase_set_state [simp]:
  "phase (set_state token st reg) t = (if t = token \<and> token \<in> tokens reg then Some st else phase reg t)"
  "tokens (set_state token st reg) = tokens reg"
  "cr_reservations (set_state token st reg) = cr_reservations reg"
  "map fst (cr_retained (set_state token st reg)) = map fst (cr_retained reg)"
  unfolding set_state_def by (rule phase_change, simp) (simp_all add: tokens_def)

lemma phase_reservations [simp]:
  "phase (reg\<lparr>cr_reservations := n\<rparr>) = phase reg" "tokens (reg\<lparr>cr_reservations := n\<rparr>) = tokens reg"
  "phase (release_reservation reg) = phase reg" "tokens (release_reservation reg) = tokens reg"
  by (auto simp: phase_def tokens_def release_reservation_def)

lemma phase_filter:
  assumes "distinct (map fst (cr_retained reg))"
  shows "phase (reg\<lparr>cr_retained := filter (\<lambda>(_, c). P c) (cr_retained reg)\<rparr>) t =
      Option.bind (map_of (cr_retained reg) t) (\<lambda>c. if P c then Some (rc_state c) else None)"
    "tokens (reg\<lparr>cr_retained := filter (\<lambda>(_, c). P c) (cr_retained reg)\<rparr>) \<subseteq> tokens reg"
  using assms by (auto simp: phase_def tokens_def map_of_filter_claims split: Option.bind_splits)

lemma retained_in_Some:
  "retained_in token st reg = Some claim \<longleftrightarrow> map_of (cr_retained reg) token = Some claim \<and> rc_state claim = st"
  by (auto simp: retained_in_def split: option.splits if_splits)

lemma retained_in_None: "retained_in token st reg = None \<longleftrightarrow> phase reg token \<noteq> Some st"
  by (auto simp: retained_in_def phase_def split: option.splits if_splits)

lemma registry_ok_filter:
  "registry_ok reg n \<Longrightarrow> registry_ok (reg\<lparr>cr_retained := filter P (cr_retained reg)\<rparr>) n"
  using length_filter_le [of P "cr_retained reg"] by (auto simp: registry_ok_def keys_of_filter simp del: length_filter_le)

lemma registry_ok_retire: "registry_ok reg n \<Longrightarrow> registry_ok (retire_claim token reg) n"
  unfolding retire_claim_def remove_token_def by (rule registry_ok_filter)

lemma registry_ok_keys:
  "registry_ok reg n \<Longrightarrow> map fst (cr_retained reg') = map fst (cr_retained reg) \<Longrightarrow>
     cr_reservations reg' = cr_reservations reg \<Longrightarrow> registry_ok reg' n"
  unfolding registry_ok_def by (metis length_map)

lemma registry_ok_prepare:
  assumes ok: "registry_ok reg n" and prep: "prepare_claim now_ms reg = Inr reg'"
  shows "registry_ok reg' (Suc n)"
  using prepare_claim_Inr [OF prep]
proof (elim disjE conjE exE)
  fix token assume ev: "evict_oldest_expired now_ms reg = Some (token, retire_claim token reg)"
    and reg': "reg' = (retire_claim token reg)\<lparr>cr_reservations := Suc (cr_reservations reg)\<rparr>"
  have "token \<in> fst ` set (cr_retained reg)" using evict_oldest_Some(2) [OF ev] by force
  then have "length (cr_retained (retire_claim token reg)) < length (cr_retained reg)"
    by (simp add: retire_claim_def remove_token_shortens)
  then show ?thesis using registry_ok_retire [OF ok, of token] ok by (simp add: reg' registry_ok_def)
qed (use ok in \<open>simp add: registry_ok_def\<close>)

lemma registry_ok_issue:
  assumes ok: "registry_ok reg n" and fresh: "token \<notin> tokens reg" and n: "0 < n"
  shows "registry_ok (issue token won lease_until_ms reg) (n - 1)"
proof -
  define kept where "kept = filter (\<lambda>(_, c). kept_by (jh_job_id won) c) (cr_retained reg)"
  have "registry_ok (reg\<lparr>cr_retained := kept\<rparr>) n" unfolding kept_def by (rule registry_ok_filter [OF ok])
  moreover have "token \<notin> fst ` set kept" using fresh by (force simp: tokens_def kept_def)
  ultimately show ?thesis
    using n by (simp add: issue_def release_reservation_def insert_token_def remove_token_absent registry_ok_def
        flip: kept_def)
qed

lemma phase_issue:
  assumes ok: "registry_ok reg n" and fresh: "token \<notin> tokens reg"
  shows "phase (issue token won lease_until_ms reg) t =
      (if t = token then Some Available
       else Option.bind (map_of (cr_retained reg) t) (\<lambda>c.
         if kept_by (jh_job_id won) c then Some (rc_state c) else None))"
    "tokens (issue token won lease_until_ms reg) \<subseteq> insert token (tokens reg)"
proof -
  define kept where "kept = filter (\<lambda>(_, c). kept_by (jh_job_id won) c) (cr_retained reg)"
  have dist: "distinct (map fst (cr_retained reg))" using ok by (simp add: registry_ok_def)
  have issue: "issue token won lease_until_ms reg = release_reservation (reg\<lparr>cr_retained :=
      insert_token token \<lparr>rc_handle = won, rc_lease_until = lease_until_ms, rc_state = Available\<rparr> kept\<rparr>)"
    by (simp add: issue_def kept_def)
  have new: "token \<notin> fst ` set kept" using fresh by (force simp: tokens_def kept_def)
  show "phase (issue token won lease_until_ms reg) t =
      (if t = token then Some Available
       else Option.bind (map_of (cr_retained reg) t) (\<lambda>c.
         if kept_by (jh_job_id won) c then Some (rc_state c) else None))"
    using new phase_filter(1) [OF dist, of "kept_by (jh_job_id won)" t]
    by (simp add: issue phase_def flip: kept_def)
  show "tokens (issue token won lease_until_ms reg) \<subseteq> insert token (tokens reg)"
    by (force simp: issue tokens_def insert_token_def remove_token_def kept_def release_reservation_def)
qed

definition claims_ok :: "claim_sys \<Rightarrow> bool" where
  "claims_ok s \<longleftrightarrow> registry_ok (cs_registry s) (cs_reserving s) \<and> guards_ok s \<and> tokens_ok s"

lemma claims_okD:
  assumes "claims_ok s"
  shows "registry_ok (cs_registry s) (cs_reserving s)" "guards_ok s" "tokens_ok s"
    "distinct (map fst (cr_retained (cs_registry s)))"
  using assms by (simp_all add: claims_ok_def registry_ok_def)

lemma begin_Inr:
  "begin_renewal token reg = Inr (won, reg') \<Longrightarrow>
     phase reg token = Some Available \<and> reg' = set_state token Renewing reg"
  "begin_settlement token reg = Inr (won, reg') \<Longrightarrow>
     phase reg token = Some Available \<and> reg' = set_state token Settling reg"
  by (auto simp: begin_renewal_def begin_settlement_def retained_in_Some phase_def)

lemma complete_renewal_eq:
  assumes "phase reg token = Some Renewing"
  shows "complete_renewal token lease reg = (Inr (), reg\<lparr>cr_retained :=
      change_token token (\<lambda>c. c\<lparr>rc_lease_until := lease, rc_state := Available\<rparr>) (cr_retained reg)\<rparr>)"
proof -
  obtain claim where "retained_in token Renewing reg = Some claim"
    using assms retained_in_None [of token Renewing reg] by auto
  then show ?thesis by (simp add: complete_renewal_def)
qed

lemma complete_renewal_ok:
  assumes "phase reg token = Some Renewing" and "complete_renewal token lease reg = (r, reg')"
  shows "phase reg' t = (if t = token then Some Available else phase reg t)" "tokens reg' = tokens reg"
    "map fst (cr_retained reg') = map fst (cr_retained reg)" "cr_reservations reg' = cr_reservations reg"
  using assms phase_Some [OF assms(1)]
  by (auto simp: complete_renewal_eq phase_change) (auto simp: tokens_def)

lemma drop_guard:
  "phase reg token = Some Renewing \<Longrightarrow> drop_renewal token reg = set_state token Available reg"
  "phase reg token = Some Settling \<Longrightarrow> drop_settlement token reg = set_state token Available reg"
  by (auto simp: drop_renewal_def drop_settlement_def retained_in_None split: option.splits)

lemma claims_registry_step:
  assumes ok: "claims_ok s" and step: "claim_step s s'"
  shows "registry_ok (cs_registry s') (cs_reserving s')"
  using step
proof cases
  case (issued token won lease)
  then show ?thesis
    using ok registry_ok_issue [of "cs_registry s" "cs_reserving s" token] by (auto simp: claims_ok_def tokens_ok_def)
next
  case (renewed token lease r reg)
  then have ph: "phase (cs_registry s) token = Some Renewing"
    using claims_okD(2) [OF ok] by (simp add: guards_ok_def)
  show ?thesis
    using registry_ok_keys [OF claims_okD(1) [OF ok]] complete_renewal_ok(3,4) [OF ph renewed(3)] renewed(1) by simp
next
  case (unreserve)
  then show ?thesis using claims_okD(1) [OF ok]
    by (auto simp: drop_reservation_def release_reservation_def registry_ok_def)
next
  case (unrenewed token)
  then have "phase (cs_registry s) token = Some Renewing"
    using claims_okD(2) [OF ok] by (simp add: guards_ok_def)
  then show ?thesis using registry_ok_keys [OF claims_okD(1) [OF ok]] unrenewed(1) by (simp add: drop_guard)
next
  case (unsettled token)
  then have "phase (cs_registry s) token = Some Settling"
    using claims_okD(2) [OF ok] by (simp add: guards_ok_def)
  then show ?thesis using registry_ok_keys [OF claims_okD(1) [OF ok]] unsettled(1) by (simp add: drop_guard)
next
  case (renewal token won reg)
  then show ?thesis using registry_ok_keys [OF claims_okD(1) [OF ok]] begin_Inr(1) [OF renewal(2)] by simp
next
  case (settlement token won reg)
  then show ?thesis using registry_ok_keys [OF claims_okD(1) [OF ok]] begin_Inr(2) [OF settlement(2)] by simp
qed (use claims_okD(1) [OF ok] in \<open>auto simp: retire_renewal_def complete_settlement_def retire_expired_claims_def
      intro: registry_ok_prepare registry_ok_retire registry_ok_filter\<close>)

text \<open>Reservation, issue and retirement leave the tokens of running operations alone.\<close>

lemma busy_prepare:
  assumes dist: "distinct (map fst (cr_retained reg))" and prep: "prepare_claim now_ms reg = Inr reg'" and st: "st \<noteq> Available"
  shows "phase reg' t = Some st \<longleftrightarrow> phase reg t = Some st"
  using prepare_claim_Inr [OF prep]
proof (elim disjE conjE exE)
  fix token assume ev: "evict_oldest_expired now_ms reg = Some (token, retire_claim token reg)"
    and reg': "reg' = (retire_claim token reg)\<lparr>cr_reservations := Suc (cr_reservations reg)\<rparr>"
  obtain claim where "(token, claim) \<in> set (cr_retained reg)" "is_expired now_ms claim"
    using evict_oldest_Some(2) [OF ev] by blast
  then have "phase reg token = Some Available" using dist by (simp add: phase_def is_expired_def)
  then show ?thesis using st by (simp add: reg')
qed simp

lemma busy_issue:
  assumes ok: "registry_ok reg n" and fresh: "token \<notin> tokens reg" and st: "st \<noteq> Available"
  shows "phase (issue token won lease_until_ms reg) t = Some st \<longleftrightarrow> phase reg t = Some st"
proof -
  have "map_of (cr_retained reg) token = None" using fresh by (simp add: tokens_def map_of_eq_None_iff)
  then show ?thesis using st unfolding phase_issue(1) [OF ok fresh] unfolding phase_def
    by (cases "map_of (cr_retained reg) t") (auto simp: kept_by_def)
qed

lemma busy_lapsed:
  assumes dist: "distinct (map fst (cr_retained reg))" and st: "st \<noteq> Available"
  shows "phase (retire_expired_claims job_id now_ms reg) t = Some st \<longleftrightarrow> phase reg t = Some st"
  using st unfolding retire_expired_claims_def phase_filter(1) [OF dist]
  by (cases "map_of (cr_retained reg) t") (auto simp: phase_def is_expired_def)

lemma guards_step:
  assumes ok: "claims_ok s" and step: "claim_step s s'"
  shows "guards_ok s'"
proof -
  note dist = claims_okD(4) [OF ok] and reg = claims_okD(1) [OF ok]
  have g: "distinct (cs_renewing s)" "distinct (cs_settling s)"
      "\<And>t. phase (cs_registry s) t = Some Renewing \<longleftrightarrow> t \<in> set (cs_renewing s)"
      "\<And>t. phase (cs_registry s) t = Some Settling \<longleftrightarrow> t \<in> set (cs_settling s)"
    using claims_okD(2) [OF ok] by (simp_all add: guards_ok_def)
  show ?thesis using step
  proof cases
    case (reserve now_ms reg)
    then show ?thesis using g busy_prepare [OF dist reserve(2)] by (simp add: guards_ok_def)
  next
    case (issued token won lease)
    then have "token \<notin> tokens (cs_registry s)" using claims_okD(3) [OF ok] by (auto simp: tokens_ok_def)
    then show ?thesis using g issued(1) busy_issue [OF reg] by (simp add: guards_ok_def)
  next
    case (lapsed job_id now_ms)
    then show ?thesis using g busy_lapsed [OF dist] by (simp add: guards_ok_def)
  next
    case (renewal token won reg)
    have ph: "phase (cs_registry s) token = Some Available" using begin_Inr(1) [OF renewal(2)] by simp
    then have "token \<notin> set (cs_renewing s)" "token \<notin> set (cs_settling s)"
      using g(3,4) [of token] by simp_all
    then show ?thesis using g renewal(1) begin_Inr(1) [OF renewal(2)] phase_Some [OF ph] by (auto simp: guards_ok_def)
  next
    case (settlement token won reg)
    have ph: "phase (cs_registry s) token = Some Available" using begin_Inr(2) [OF settlement(2)] by simp
    then have "token \<notin> set (cs_renewing s)" "token \<notin> set (cs_settling s)"
      using g(3,4) [of token] by simp_all
    then show ?thesis using g settlement(1) begin_Inr(2) [OF settlement(2)] phase_Some [OF ph] by (auto simp: guards_ok_def)
  next
    case (renewed token lease r reg)
    then have "token \<notin> set (cs_settling s)" using g(3,4) [of token] by auto
    then show ?thesis
      using renewed(1,2) g complete_renewal_ok(1) [OF _ renewed(3)] by (auto simp: guards_ok_def)
  next
    case (unrenewed token)
    then have ph: "phase (cs_registry s) token = Some Renewing" and "token \<notin> set (cs_settling s)"
      using g(3,4) [of token] by auto
    then show ?thesis using unrenewed(1) g by (auto simp: guards_ok_def drop_guard phase_Some [OF ph])
  next
    case (unsettled token)
    then have ph: "phase (cs_registry s) token = Some Settling" and "token \<notin> set (cs_renewing s)"
      using g(3,4) [of token] by auto
    then show ?thesis using unsettled(1) g by (auto simp: guards_ok_def drop_guard phase_Some [OF ph])
  next
    case (lost token)
    then have "token \<notin> set (cs_settling s)" using g(3,4) [of token] by auto
    then show ?thesis using g lost by (auto simp: guards_ok_def retire_renewal_def)
  next
    case (settled token)
    then have "token \<notin> set (cs_renewing s)" using g(3,4) [of token] by auto
    then show ?thesis using g settled by (auto simp: guards_ok_def complete_settlement_def)
  qed (use g in \<open>simp add: guards_ok_def drop_reservation_def\<close>)
qed

lemma tokens_step:
  assumes ok: "claims_ok s" and step: "claim_step s s'"
  shows "tokens_ok s'"
proof -
  note dist = claims_okD(4) [OF ok] and reg = claims_okD(1) [OF ok]
  note t = claims_okD(3) [OF ok, unfolded tokens_ok_def]
  have g: "\<And>t. t \<in> set (cs_renewing s) \<Longrightarrow> phase (cs_registry s) t = Some Renewing"
      "\<And>t. t \<in> set (cs_settling s) \<Longrightarrow> phase (cs_registry s) t = Some Settling"
    using claims_okD(2) [OF ok] by (simp_all add: guards_ok_def)
  show ?thesis using step
  proof cases
    case (reserve now_ms reg)
    then show ?thesis using t prepare_claim_Inr [OF reserve(2)] by (auto simp: tokens_ok_def)
  next
    case (issued token won lease)
    then have "token \<notin> tokens (cs_registry s)" using t by auto
    from phase_issue(2) [OF reg this, of won lease] show ?thesis using t issued by (auto simp: tokens_ok_def)
  next
    case (lapsed job_id now_ms)
    then show ?thesis using t phase_filter(2) [OF dist] by (force simp: tokens_ok_def retire_expired_claims_def)
  next
    case (renewed token lease r reg)
    then show ?thesis using t g complete_renewal_ok(2) [OF _ renewed(3)] by (auto simp: tokens_ok_def)
  next
    case (settled token)
    then have "token \<in> tokens (cs_registry s)" using g phase_Some by blast
    then show ?thesis using t settled by (auto simp: tokens_ok_def complete_settlement_def)
  qed (use t g in \<open>auto simp: tokens_ok_def drop_reservation_def drop_guard retire_renewal_def dest!: begin_Inr\<close>)
qed

lemma reachable_claims: "claim_reachable s \<Longrightarrow> claims_ok s"
proof (induction rule: claim_reachable.induct)
  case start
  have "phase empty_registry = (\<lambda>_. None)" by (simp add: phase_def empty_registry_def fun_eq_iff del: phase_None)
  moreover have "tokens empty_registry = {}" by (simp add: tokens_def empty_registry_def)
  moreover have "registry_ok empty_registry 0" by (simp add: registry_ok_def empty_registry_def)
  ultimately show ?case
    by (simp add: claims_ok_def guards_ok_def tokens_ok_def claim_init_def)
next
  case (step s s')
  show ?case unfolding claims_ok_def
    by (intro conjI claims_registry_step [OF step.IH step.hyps(2)] guards_step [OF step.IH step.hyps(2)]
        tokens_step [OF step.IH step.hyps(2)])
qed

section \<open>Properties of the registry\<close>

lemma begin_Inr_iff:
  "(\<exists>won reg'. begin_renewal token reg = Inr (won, reg')) \<longleftrightarrow> phase reg token = Some Available"
  "(\<exists>won reg'. begin_settlement token reg = Inr (won, reg')) \<longleftrightarrow> phase reg token = Some Available"
  by (cases "retained_in token Available reg";
      auto simp: begin_renewal_def begin_settlement_def retained_in_None retained_in_Some phase_def)+

lemma claim_state_cases: "st = Available \<or> st = Renewing \<or> st = Settling"
  by (cases st) auto

lemma idle_token:
  assumes "claims_ok s"
  shows "phase (cs_registry s) t = Some Available \<longleftrightarrow>
    t \<in> tokens (cs_registry s) - set (cs_renewing s) - set (cs_settling s)"
proof -
  have g: "phase (cs_registry s) t = Some Renewing \<longleftrightarrow> t \<in> set (cs_renewing s)"
      "phase (cs_registry s) t = Some Settling \<longleftrightarrow> t \<in> set (cs_settling s)"
    using claims_okD(2) [OF assms] by (simp_all add: guards_ok_def)
  show ?thesis
  proof (cases "phase (cs_registry s) t")
    case None
    then show ?thesis by (auto dest: phase_Some)
  next
    case (Some st)
    then have "t \<in> tokens (cs_registry s)" by (rule phase_Some)
    then show ?thesis using Some g claim_state_cases [of st] by auto
  qed
qed

lemma prepare_claim_possible:
  assumes ok: "registry_ok reg n"
  shows "(\<exists>reg'. prepare_claim now_ms reg = Inr reg') \<longleftrightarrow>
    length (cr_retained reg) + n < MAX_ACTIVE_CLAIMS \<or> (\<exists>(t, c) \<in> set (cr_retained reg). is_expired now_ms c)"
proof -
  let ?used = "length (cr_retained reg) + cr_reservations reg"
  have n: "cr_reservations reg = n" "?used \<le> MAX_ACTIVE_CLAIMS" using ok by (simp_all add: registry_ok_def)
  then have small: "Suc ?used \<le> USIZE_MAX" "Suc (cr_reservations reg) \<le> USIZE_MAX"
    by (simp_all add: MAX_ACTIVE_CLAIMS_def MAX_LIST_ITEMS_def USIZE_MAX_def)
  have ev: "evict_oldest_expired now_ms reg = None \<longleftrightarrow> \<not> (\<exists>(t, c) \<in> set (cr_retained reg). is_expired now_ms c)"
    using min_by_key_None [of "rc_lease_until \<circ> snd" "filter (\<lambda>(_, c). is_expired now_ms c) (cr_retained reg)"]
    by (cases "min_by_key (rc_lease_until \<circ> snd) (filter (\<lambda>(_, c). is_expired now_ms c) (cr_retained reg))")
      (auto simp: evict_oldest_expired_def filter_empty_conv)
  have res: "cr_reservations reg' = cr_reservations reg" if "evict_oldest_expired now_ms reg = Some (t, reg')" for t reg'
    using evict_oldest_Some(1) [OF that] by simp
  have obs: "Option.bind (usize_checked_add (length (cr_retained reg)) (cr_reservations reg))
      (\<lambda>used. usize_checked_add used 1) = Some (Suc ?used)"
    using small by (simp add: usize_checked_add_def)
  show ?thesis
  proof (cases "?used < MAX_ACTIVE_CLAIMS")
    case True
    then show ?thesis using small n by (simp add: prepare_claim_def obs usize_checked_add_def)
  next
    case full: False
    show ?thesis
    proof (cases "evict_oldest_expired now_ms reg")
      case None
      then have "prepare_claim now_ms reg = Inl (ResourceLimit ''active_claims'' (Suc ?used) MAX_ACTIVE_CLAIMS)"
        using full unfolding prepare_claim_def obs by simp
      then show ?thesis using None full ev n by auto
    next
      case (Some r)
      obtain t reg' where r: "r = (t, reg')" by (cases r)
      then have "prepare_claim now_ms reg = Inr (reg'\<lparr>cr_reservations := Suc (cr_reservations reg')\<rparr>)"
        using Some full small res by (simp add: prepare_claim_def obs usize_checked_add_def)
      then show ?thesis using Some ev by auto
    qed
  qed
qed

text \<open>
  C34 (claim_registry_accounts). Whatever calls run concurrently on one store: the retained tokens and the
  pending reservations together never exceed the active-claim limit, and every pending reservation is
  counted exactly once. A new claim can be prepared exactly when a slot is free or a lapsed token can make
  room. A token can be renewed or settled exactly when it is retained and no other call is renewing or
  settling it, and completing a renewal never finds its token gone.
\<close>

theorem claim_registry_accounts:
  assumes "claim_reachable s"
  shows "length (cr_retained (cs_registry s)) + cs_reserving s \<le> MAX_ACTIVE_CLAIMS
    \<and> cr_reservations (cs_registry s) = cs_reserving s
    \<and> ((\<exists>reg. prepare_claim now_ms (cs_registry s) = Inr reg) \<longleftrightarrow>
         length (cr_retained (cs_registry s)) + cs_reserving s < MAX_ACTIVE_CLAIMS
         \<or> (\<exists>(t, c) \<in> set (cr_retained (cs_registry s)). is_expired now_ms c))
    \<and> ((\<exists>won reg. begin_renewal token (cs_registry s) = Inr (won, reg)) \<longleftrightarrow>
         token \<in> tokens (cs_registry s) - set (cs_renewing s) - set (cs_settling s))
    \<and> ((\<exists>won reg. begin_settlement token (cs_registry s) = Inr (won, reg)) \<longleftrightarrow>
         token \<in> tokens (cs_registry s) - set (cs_renewing s) - set (cs_settling s))
    \<and> (token \<in> set (cs_renewing s) \<longrightarrow> fst (complete_renewal token lease (cs_registry s)) = Inr ())"
proof -
  note ok = reachable_claims [OF assms]
  have "token \<in> set (cs_renewing s) \<Longrightarrow> phase (cs_registry s) token = Some Renewing"
    using claims_okD(2) [OF ok] by (simp add: guards_ok_def)
  then show ?thesis
    using claims_okD(1) [OF ok] unfolding begin_Inr_iff idle_token [OF ok] prepare_claim_possible [OF claims_okD(1) [OF ok]]
    by (auto simp: registry_ok_def complete_renewal_eq)
qed

text \<open>
  C35 (token_settles_once). A claim token settles at most once: the settlements that completed are of
  pairwise different tokens, and a settled token is neither retained nor accepted for another renewal or
  settlement.
\<close>

theorem token_settles_once:
  assumes "claim_reachable s"
  shows "distinct (cs_settled s)
    \<and> (\<forall>token \<in> set (cs_settled s). token \<notin> tokens (cs_registry s)
         \<and> begin_settlement token (cs_registry s) = Inl (State ''claim handle is invalid'')
         \<and> begin_renewal token (cs_registry s) = Inl (State ''claim handle is invalid''))"
proof -
  have t: "distinct (cs_settled s)" "set (cs_settled s) \<inter> tokens (cs_registry s) = {}"
    using claims_okD(3) [OF reachable_claims [OF assms]] by (simp_all add: tokens_ok_def)
  have "retained_in token Available (cs_registry s) = None" if "token \<in> set (cs_settled s)" for token
    using that t(2) phase_Some [of "cs_registry s" token Available] by (auto simp: retained_in_None)
  then show ?thesis using t by (auto simp: begin_settlement_def begin_renewal_def)
qed

text \<open>
  A token whose lease has not passed, or that a call is using, survives every
  operation on other jobs: preparing a claim evicts only lapsed idle tokens (the longest lapsed one first),
  retirement after a re-claim drops only lapsed idle tokens, and issuing a token displaces only idle tokens
  of the same job.
\<close>

theorem live_tokens_kept:
  assumes reach: "claim_reachable s" and held: "map_of (cr_retained (cs_registry s)) t = Some claim"
    and live: "\<not> is_expired now_ms claim"
  shows "(\<forall>reg. prepare_claim now_ms (cs_registry s) = Inr reg \<longrightarrow> map_of (cr_retained reg) t = Some claim)
    \<and> map_of (cr_retained (retire_expired_claims job_id now_ms (cs_registry s))) t = Some claim
    \<and> (token \<notin> set (cs_minted s) \<and> (jh_job_id (rc_handle claim) \<noteq> jh_job_id won \<or> rc_state claim \<noteq> Available) \<longrightarrow>
         map_of (cr_retained (issue token won lease (cs_registry s))) t = Some claim)"
proof (intro conjI allI impI)
  note ok = reachable_claims [OF reach]
  note dist = claims_okD(4) [OF ok]
  fix reg assume prep: "prepare_claim now_ms (cs_registry s) = Inr reg"
  have "t \<noteq> token" if "evict_oldest_expired now_ms (cs_registry s) = Some (token, retire_claim token (cs_registry s))" for token
    using evict_oldest_Some(2) [OF that] held live eq_key_imp_eq_value [OF dist] by (auto dest: map_of_SomeD)
  then show "map_of (cr_retained reg) t = Some claim"
    using prepare_claim_Inr [OF prep] held by (auto simp: retire_claim_def)
next
  show "map_of (cr_retained (retire_expired_claims job_id now_ms (cs_registry s))) t = Some claim"
    using held live claims_okD(4) [OF reachable_claims [OF reach]]
    by (simp add: retire_expired_claims_def map_of_filter_claims)
next
  assume a: "token \<notin> set (cs_minted s) \<and> (jh_job_id (rc_handle claim) \<noteq> jh_job_id won \<or> rc_state claim \<noteq> Available)"
  note ok = reachable_claims [OF reach]
  have fresh: "token \<notin> tokens (cs_registry s)" using a claims_okD(3) [OF ok] by (auto simp: tokens_ok_def)
  then have "token \<notin> fst ` set (filter (\<lambda>(_, c). kept_by (jh_job_id won) c) (cr_retained (cs_registry s)))" "t \<noteq> token"
    using held by (force simp: tokens_def dest: map_of_SomeD)+
  then show "map_of (cr_retained (issue token won lease (cs_registry s))) t = Some claim"
    using a held claims_okD(4) [OF ok]
    by (auto simp: issue_def release_reservation_def map_of_filter_claims kept_by_def)
qed

section \<open>A run with two tokens of one job\<close>

text \<open>
  One caller claims the job ''j'' and starts a renewal; while it is under way the job is claimed again; then
  the renewal fails and its guard gives the first token back.
\<close>

definition sample_handle :: "int \<Rightarrow> job_claim_handle" where
  "sample_handle n = \<lparr>jh_job_id = ''j'', jh_claim_seq = n, jh_claim_id = ''c'', jh_attempt = 0\<rparr>"

definition sample_claim :: "int \<Rightarrow> int \<Rightarrow> claim_state \<Rightarrow> retained_claim" where
  "sample_claim n lease st = \<lparr>rc_handle = sample_handle n, rc_lease_until = lease, rc_state = st\<rparr>"

definition sample_claims :: "(claim_token \<times> retained_claim) list \<Rightarrow> nat \<Rightarrow> claim_token list \<Rightarrow> claim_token list \<Rightarrow> claim_token list
     \<Rightarrow> claim_token list \<Rightarrow> claim_sys" where
  "sample_claims retained reserving renewing settling minted finished =
     \<lparr>cs_registry = \<lparr>cr_retained = retained, cr_reservations = reserving\<rparr>, cs_reserving = reserving,
      cs_renewing = renewing, cs_settling = settling, cs_minted = minted, cs_settled = finished\<rparr>"

lemmas sample_claim_defs = sample_claims_def sample_claim_def sample_handle_def claim_init_def empty_registry_def
  prepare_claim_def issue_def release_reservation_def insert_token_def remove_token_def kept_by_def
  begin_renewal_def begin_settlement_def retained_in_def set_state_def change_token_def drop_renewal_def
  complete_settlement_def retire_claim_def MAX_ACTIVE_CLAIMS_def MAX_LIST_ITEMS_def USIZE_MAX_def
  usize_checked_add_def

lemma claim_reachable_via: "claim_reachable s \<Longrightarrow> claim_step s t \<Longrightarrow> t = s' \<Longrightarrow> claim_reachable s'"
  by (blast intro: claim_reachable.step)

lemma sample_reserved: "claim_reachable (sample_claims [] 1 [] [] [] [])"
  by (rule claim_reachable_via [OF start reserve [of 0 claim_init "\<lparr>cr_retained = [], cr_reservations = 1\<rparr>"] ])
    (simp_all add: sample_claim_defs)

lemma sample_issued: "claim_reachable (sample_claims [([1], sample_claim 2 50 Available)] 0 [] [] [ [1] ] [])"
  by (rule claim_reachable_via [OF sample_reserved issued [of _ "[1]" "sample_handle 2" 50] ])
    (simp_all add: sample_claim_defs)

lemma sample_renewing: "claim_reachable (sample_claims [([1], sample_claim 2 50 Renewing)] 0 [ [1] ] [] [ [1] ] [])"
  by (rule claim_reachable_via [OF sample_issued renewal [of "[1]" _ "sample_handle 2"
          "\<lparr>cr_retained = [([1], sample_claim 2 50 Renewing)], cr_reservations = 0\<rparr>"] ])
    (simp_all add: sample_claim_defs)

lemma sample_reserved_again:
  "claim_reachable (sample_claims [([1], sample_claim 2 50 Renewing)] 1 [ [1] ] [] [ [1] ] [])"
  by (rule claim_reachable_via [OF sample_renewing reserve [of 60 _
          "\<lparr>cr_retained = [([1], sample_claim 2 50 Renewing)], cr_reservations = 1\<rparr>"] ])
    (simp_all add: sample_claim_defs)

lemma sample_reissued:
  "claim_reachable (sample_claims [([1], sample_claim 2 50 Renewing), ([2], sample_claim 3 90 Available)] 0 [ [1] ] []
     [ [2], [1] ] [])"
  by (rule claim_reachable_via [OF sample_reserved_again issued [of _ "[2]" "sample_handle 3" 90] ])
    (simp_all add: sample_claim_defs)

lemma sample_two_tokens:
  "claim_reachable (sample_claims [([1], sample_claim 2 50 Available), ([2], sample_claim 3 90 Available)] 0 [] []
     [ [2], [1] ] [])"
  by (rule claim_reachable_via [OF sample_reissued unrenewed [of "[1]"] ]) (simp_all add: sample_claim_defs)

lemma sample_settling:
  "claim_reachable (sample_claims [([1], sample_claim 2 50 Available), ([2], sample_claim 3 90 Settling)] 0 [] [ [2] ]
     [ [2], [1] ] [])"
  by (rule claim_reachable_via [OF sample_two_tokens settlement [of "[2]" _ "sample_handle 3"
          "\<lparr>cr_retained = [([1], sample_claim 2 50 Available), ([2], sample_claim 3 90 Settling)], cr_reservations = 0\<rparr>"] ])
    (simp_all add: sample_claim_defs)

lemma sample_token_settled:
  "claim_reachable (sample_claims [([1], sample_claim 2 50 Available)] 0 [] [] [ [2], [1] ] [ [2] ])"
  by (rule claim_reachable_via [OF sample_settling settled [of "[2]"] ]) (simp_all add: sample_claim_defs)

text \<open>
  The comment on \<open>issue\<close> says that it retains the new token as the job's only settleable claim. The run shows
  two tokens of one job that are both accepted for settlement; the engine's fence, not the registry, rejects
  the older one.
\<close>

lemma older_token_settleable:
  "\<exists>s. claim_reachable s \<and> begin_settlement [1] (cs_registry s) \<noteq> Inl (State ''claim handle is invalid'')
     \<and> begin_settlement [2] (cs_registry s) \<noteq> Inl (State ''claim handle is invalid'')
     \<and> map_option (jh_job_id \<circ> rc_handle) (map_of (cr_retained (cs_registry s)) [1])
       = map_option (jh_job_id \<circ> rc_handle) (map_of (cr_retained (cs_registry s)) [2])"
  by (rule exI, rule conjI [OF sample_two_tokens]) (simp add: sample_claim_defs)

theorem claim_registry_accounts_witness:
  "cr_reservations (cs_registry (sample_claims [([1], sample_claim 2 50 Renewing)] 1 [ [1] ] [] [ [1] ] [])) = 1
   \<and> \<not> (\<exists>won reg. begin_settlement [1]
          (cs_registry (sample_claims [([1], sample_claim 2 50 Renewing)] 1 [ [1] ] [] [ [1] ] [])) = Inr (won, reg))
   \<and> fst (complete_renewal [1] 70
        (cs_registry (sample_claims [([1], sample_claim 2 50 Renewing)] 1 [ [1] ] [] [ [1] ] []))) = Inr ()"
  using claim_registry_accounts [OF sample_reserved_again, of 60 "[1]" 70]
  by (simp add: sample_claims_def)

theorem token_settles_once_witness:
  "begin_settlement [2] (cs_registry (sample_claims [([1], sample_claim 2 50 Available)] 0 [] [] [ [2], [1] ] [ [2] ]))
     = Inl (State ''claim handle is invalid'')"
  using token_settles_once [OF sample_token_settled] by (simp add: sample_claims_def)

theorem live_tokens_kept_witness:
  "map_of (cr_retained (issue [3] \<lparr>jh_job_id = ''k'', jh_claim_seq = 2, jh_claim_id = ''d'', jh_attempt = 0\<rparr> 99
      (cs_registry (sample_claims [([1], sample_claim 2 50 Available)] 0 [] [] [ [1] ] [])))) [1]
     = Some (sample_claim 2 50 Available)"
proof -
  have held: "map_of (cr_retained (cs_registry (sample_claims [([1], sample_claim 2 50 Available)] 0 [] [] [ [1] ] []))) [1]
      = Some (sample_claim 2 50 Available)" by (simp add: sample_claims_def)
  have live: "\<not> is_expired 50 (sample_claim 2 50 Available)" by (simp add: is_expired_def sample_claim_def)
  show ?thesis
    using live_tokens_kept [OF sample_issued held live, where token = "[3]" and lease = 99
        and won = "\<lparr>jh_job_id = ''k'', jh_claim_seq = 2, jh_claim_id = ''d'', jh_attempt = 0\<rparr>"]
    by (simp add: sample_claims_def) (simp add: sample_claim_def sample_handle_def)
qed

end
