(* ===== verification/Ffi_Store.thy ===== *)
theory Ffi_Store
  imports Ffi_Abi "HOL-Library.Multiset"
begin

text \<open>
  The store handle of the C ABI, \<open>crates/event-sorcery-ffi/src/lib.rs\<close>: the registry of open stores by owner
  cell, leases taken by calls, the open/closing/closed protocol of \<open>es_close\<close>, and the poisoning of
  \<open>ffi_call\<close>. Stores are named by their allocation; an owner cell holds such a name or null. The mutexes make
  each operation atomic; \<open>store_step\<close> interleaves the operations of concurrent calls, with one step per
  critical section of \<open>close\<close>. The condition variable \<open>state_changed\<close> is explicit: a closer that waits on it takes no
  further step until \<open>notify_all\<close> (or a spurious wake-up) releases it.
\<close>

section \<open>Stores and the registry\<close>

datatype close_outcome = CloseOk | ClosePanic

datatype store_state = Open nat | Closing nat | Closed close_outcome

datatype close_role = Destroy | Join

type_synonym owner = nat
type_synonym store_id = nat

text \<open>
  A close call: its owner and store, and how far it is. \<open>Draining\<close> is the destroying closer before it takes
  the inner state, \<open>Tearing\<close> after; \<open>Joining\<close> a joining closer; \<open>Retiring\<close> a closer whose \<open>close\<close> returned.
\<close>

datatype closing = Draining | Tearing | Joining | Retiring "abi_error + unit"

type_synonym closer = "owner \<times> store_id \<times> closing"

text \<open>\<open>'i\<close> is \<open>StoreInner\<close>: runtime, engine, jobs and the claim registry. \<open>es_waiters\<close> are the closers waiting on \<open>state_changed\<close>.\<close>

record 'i es_store =
  es_state :: store_state
  es_inner :: "'i option"
  es_poisoned :: bool
  es_waiters :: "closer multiset"

definition notify_all :: "'i es_store \<Rightarrow> 'i es_store" where
  "notify_all st = st\<lparr>es_waiters := {#}\<rparr>"

definition wait_changed :: "closer \<Rightarrow> 'i es_store \<Rightarrow> 'i es_store" where
  "wait_changed closer st = st\<lparr>es_waiters := add_mset closer (es_waiters st)\<rparr>"

text \<open>The process: registry, owner cells, and the stores by name.\<close>

record 'i store_heap =
  sh_registry :: "owner \<rightharpoonup> store_id"
  sh_cells :: "owner \<rightharpoonup> store_id"
  sh_stores :: "store_id \<rightharpoonup> 'i es_store"

definition set_cell :: "owner \<Rightarrow> store_id option \<Rightarrow> ('i, 'm) store_heap_scheme \<Rightarrow> ('i, 'm) store_heap_scheme" where
  "set_cell owner raw h = h\<lparr>sh_cells := (sh_cells h)(owner := raw)\<rparr>"

definition set_store :: "store_id \<Rightarrow> 'i es_store \<Rightarrow> ('i, 'm) store_heap_scheme \<Rightarrow> ('i, 'm) store_heap_scheme" where
  "set_store sid st h = h\<lparr>sh_stores := (sh_stores h)(sid \<mapsto> st)\<rparr>"

definition new_store :: "'i \<Rightarrow> 'i es_store" where
  "new_store inner = \<lparr>es_state = Open 0, es_inner = Some inner, es_poisoned = False, es_waiters = {#}\<rparr>"

text \<open>\<open>publish_store\<close>; \<open>sid\<close> is the new allocation. \<open>es_open\<close> has already written null to the cell.\<close>

definition publish_store ::
  "owner \<Rightarrow> store_id \<Rightarrow> 'i \<Rightarrow> ('i, 'm) store_heap_scheme \<Rightarrow> (abi_error + unit) \<times> ('i, 'm) store_heap_scheme" where
  "publish_store owner sid inner h =
     (case sh_registry h owner of
        Some _ \<Rightarrow> (Inl (State ''store owner is already open''), h)
      | None \<Rightarrow> (Inr (), set_cell owner (Some sid)
          (set_store sid (new_store inner) (h\<lparr>sh_registry := (sh_registry h)(owner \<mapsto> sid)\<rparr>))))"

definition open_store ::
  "owner \<Rightarrow> store_id \<Rightarrow> 'i \<Rightarrow> ('i, 'm) store_heap_scheme \<Rightarrow> (abi_error + unit) \<times> ('i, 'm) store_heap_scheme" where
  "open_store owner sid inner h = publish_store owner sid inner (set_cell owner None h)"

text \<open>
  \<open>acquire\<close>; \<open>None\<close> is a null owner pointer. A registry entry owns its store, so \<open>sh_stores\<close> is defined for it
  (part of the invariant below) and the branch for a missing store is never taken.
\<close>

definition acquire ::
  "owner option \<Rightarrow> ('i, 'm) store_heap_scheme \<Rightarrow> abi_error + (store_id \<times> 'i) \<times> ('i, 'm) store_heap_scheme" where
  "acquire cell h =
     bind_result (ok_or (State ''store owner is null'') cell) (\<lambda>owner.
     bind_result (ok_or (State ''store is closed'') (sh_registry h owner)) (\<lambda>sid.
     if sh_cells h owner \<noteq> Some sid then Inl (State ''store is closed'') else
     bind_result (ok_or (State ''store is closed'') (sh_stores h sid)) (\<lambda>st.
       case es_state st of
         Open active_calls \<Rightarrow>
           bind_result (ok_or (State ''store is closed'') (es_inner st)) (\<lambda>inner.
           bind_result (ok_or (State ''active call count overflow'') (usize_checked_add active_calls 1)) (\<lambda>calls.
             Inr ((sid, inner), set_store sid (st\<lparr>es_state := Open calls\<rparr>) h)))
       | _ \<Rightarrow> Inl (State ''store is closing''))))"

text \<open>The destructor of a lease: the last one, and one that finds the count wrong, notifies.\<close>

definition release_lease :: "'i es_store \<Rightarrow> 'i es_store" where
  "release_lease st =
     (let (drained, st') =
        (case es_state st of
           Open active_calls \<Rightarrow>
             if 0 < active_calls then (active_calls - 1 = 0, st\<lparr>es_state := Open (active_calls - 1)\<rparr>)
             else (True, st\<lparr>es_poisoned := True\<rparr>)
         | Closing active_calls \<Rightarrow>
             if 0 < active_calls then (active_calls - 1 = 0, st\<lparr>es_state := Closing (active_calls - 1)\<rparr>)
             else (True, st\<lparr>es_poisoned := True\<rparr>)
         | Closed _ \<Rightarrow> (True, st\<lparr>es_poisoned := True\<rparr>))
      in if drained then notify_all st' else st')"

text \<open>What a call did: it returned, or it panicked and the panic was caught.\<close>

datatype call_end = Returned "abi_error + unit" | Panicked

definition ffi_call :: "'i es_store \<Rightarrow> call_end \<Rightarrow> (abi_error + unit) \<times> 'i es_store" where
  "ffi_call st call =
     (if es_poisoned st then (Inl (State ''store is poisoned''), st)
      else case call of
        Returned r \<Rightarrow> (r, st)
      | Panicked \<Rightarrow> (Inl AbiPanic, st\<lparr>es_poisoned := True\<rparr>))"

section \<open>Closing\<close>

definition linearize_close ::
  "owner \<Rightarrow> ('i, 'm) store_heap_scheme \<Rightarrow> (abi_error + (store_id \<times> close_role) option) \<times> ('i, 'm) store_heap_scheme" where
  "linearize_close owner h =
     (case sh_registry h owner of
        None \<Rightarrow> (Inr None, set_cell owner None h)
      | Some sid \<Rightarrow>
          if sh_cells h owner \<noteq> None \<and> sh_cells h owner \<noteq> Some sid
          then (Inl (State ''store owner does not match its handle''), h)
          else case sh_stores h sid of
            None \<Rightarrow> (Inr None, h)
          | Some st \<Rightarrow>
              (case es_state st of
                 Open active_calls \<Rightarrow>
                   (Inr (Some (sid, Destroy)),
                    set_cell owner None (set_store sid (notify_all (st\<lparr>es_state := Closing active_calls\<rparr>)) h))
               | _ \<Rightarrow> (Inr (Some (sid, Join)), set_cell owner None (set_store sid (notify_all st) h))))"

text \<open>The loop condition of the destroying closer: it waits until no acquired call is left.\<close>

definition drained :: "'i es_store \<Rightarrow> bool" where
  "drained st = (case es_state st of Closing active_calls \<Rightarrow> active_calls = 0 | _ \<Rightarrow> True)"

definition take_inner :: "'i es_store \<Rightarrow> 'i option \<times> 'i es_store" where
  "take_inner st = (es_inner st, st\<lparr>es_inner := None\<rparr>)"

definition finish_close :: "bool \<Rightarrow> 'i es_store \<Rightarrow> (abi_error + unit) \<times> 'i es_store" where
  "finish_close panicked st =
     (if panicked then (Inl AbiPanic, notify_all (st\<lparr>es_state := Closed ClosePanic\<rparr>))
      else (Inr (), notify_all (st\<lparr>es_state := Closed CloseOk\<rparr>)))"

text \<open>The loop body of a joining closer: it returns once the store is \<open>Closed\<close>; \<open>None\<close> is one more wait.\<close>

definition join_close :: "'i es_store \<Rightarrow> (abi_error + unit) option" where
  "join_close st =
     (case es_state st of
        Closed CloseOk \<Rightarrow> Some (Inr ())
      | Closed ClosePanic \<Rightarrow> Some (Inl AbiPanic)
      | _ \<Rightarrow> None)"

text \<open>\<open>retire_store\<close>; the flag says whether the raw reference of the registry entry was released.\<close>

definition retire_store :: "owner \<Rightarrow> store_id \<Rightarrow> ('i, 'm) store_heap_scheme \<Rightarrow> bool \<times> ('i, 'm) store_heap_scheme" where
  "retire_store owner sid h =
     (if sh_registry h owner = Some sid
      then (True, h\<lparr>sh_registry := (sh_registry h)(owner := None)\<rparr>) else (False, h))"

section \<open>Concurrent calls\<close>

record 'i store_sys = "'i store_heap" +
  sy_leases :: "store_id multiset"
  sy_closers :: "closer multiset"
  sy_destroyed :: "store_id list"
  sy_freed :: "store_id list"

definition store_init :: "'i store_sys" where
  "store_init = \<lparr>sh_registry = Map.empty, sh_cells = Map.empty, sh_stores = Map.empty, sy_leases = {#}, sy_closers = {#},
     sy_destroyed = [], sy_freed = []\<rparr>"

fun role_start :: "close_role \<Rightarrow> closing" where
  "role_start Destroy = Draining"
| "role_start Join = Joining"

text \<open>A closer that does not wait: equal closers are told apart by their number only.\<close>

definition awake :: "'i store_sys \<Rightarrow> 'i es_store \<Rightarrow> closer \<Rightarrow> bool" where
  "awake s st closer \<longleftrightarrow> count (es_waiters st) closer < count (sy_closers s) closer"

text \<open>
  An operation notifies in the step that releases the mutex: a notification that comes later only wakes more closers, as
  \<open>woken\<close> may at any time.
\<close>

inductive store_step :: "'i store_sys \<Rightarrow> 'i store_sys \<Rightarrow> bool" where
  opened: "sid \<notin> dom (sh_stores s) \<Longrightarrow> open_store owner sid inner s = (r, s') \<Longrightarrow> store_step s s'"
| acquired: "acquire cell s = Inr ((sid, inner), s') \<Longrightarrow>
    store_step s (s'\<lparr>sy_leases := add_mset sid (sy_leases s)\<rparr>)"
| called: "sid \<in># sy_leases s \<Longrightarrow> sh_stores s sid = Some st \<Longrightarrow> ffi_call st call = (r, st') \<Longrightarrow>
    store_step s (set_store sid st' s)"
| released: "sid \<in># sy_leases s \<Longrightarrow> sh_stores s sid = Some st \<Longrightarrow>
    store_step s (set_store sid (release_lease st) (s\<lparr>sy_leases := sy_leases s - {#sid#}\<rparr>))"
| close_refused: "linearize_close owner s = (Inl err, s') \<Longrightarrow> store_step s s'"
| close_absorbed: "linearize_close owner s = (Inr None, s') \<Longrightarrow> store_step s s'"
| close_started: "linearize_close owner s = (Inr (Some (sid, role)), s') \<Longrightarrow>
    store_step s (s'\<lparr>sy_closers := add_mset (owner, sid, role_start role) (sy_closers s)\<rparr>)"
| taken: "(owner, sid, Draining) \<in># sy_closers s \<Longrightarrow> sh_stores s sid = Some st \<Longrightarrow> drained st \<Longrightarrow>
    take_inner st = (inner, st') \<Longrightarrow> awake s st (owner, sid, Draining) \<Longrightarrow>
    store_step s (set_store sid st' (s\<lparr>sy_closers := add_mset (owner, sid, Tearing) (sy_closers s - {#(owner, sid, Draining)#}),
      sy_destroyed := (if inner = None then sy_destroyed s else sid # sy_destroyed s)\<rparr>))"
| torn: "(owner, sid, Tearing) \<in># sy_closers s \<Longrightarrow> sh_stores s sid = Some st \<Longrightarrow>
    finish_close panicked st = (r, st') \<Longrightarrow>
    store_step s (set_store sid st'
      (s\<lparr>sy_closers := add_mset (owner, sid, Retiring r) (sy_closers s - {#(owner, sid, Tearing)#})\<rparr>))"
| joined: "(owner, sid, Joining) \<in># sy_closers s \<Longrightarrow> sh_stores s sid = Some st \<Longrightarrow> join_close st = Some r \<Longrightarrow>
    awake s st (owner, sid, Joining) \<Longrightarrow>
    store_step s (s\<lparr>sy_closers := add_mset (owner, sid, Retiring r) (sy_closers s - {#(owner, sid, Joining)#})\<rparr>)"
| drain_waits: "sh_stores s sid = Some st \<Longrightarrow> \<not> drained st \<Longrightarrow> awake s st (owner, sid, Draining) \<Longrightarrow>
    store_step s (set_store sid (wait_changed (owner, sid, Draining) st) s)"
| join_waits: "sh_stores s sid = Some st \<Longrightarrow> join_close st = None \<Longrightarrow> awake s st (owner, sid, Joining) \<Longrightarrow>
    store_step s (set_store sid (wait_changed (owner, sid, Joining) st) s)"
| woken: "sh_stores s sid = Some st \<Longrightarrow> store_step s (set_store sid (st\<lparr>es_waiters := es_waiters st - {#closer#}\<rparr>) s)"
| retired: "(owner, sid, Retiring r) \<in># sy_closers s \<Longrightarrow> retire_store owner sid s = (released, s') \<Longrightarrow>
    store_step s (s'\<lparr>sy_closers := sy_closers s - {#(owner, sid, Retiring r)#},
      sy_freed := (if released then sid # sy_freed s else sy_freed s)\<rparr>)"

inductive store_reachable :: "'i store_sys \<Rightarrow> bool" where
  start: "store_reachable store_init"
| step: "store_reachable s \<Longrightarrow> store_step s s' \<Longrightarrow> store_reachable s'"

section \<open>The invariant\<close>

fun active :: "store_state \<Rightarrow> nat" where
  "active (Open n) = n"
| "active (Closing n) = n"
| "active (Closed _) = 0"

fun is_open :: "store_state \<Rightarrow> bool" where
  "is_open (Open _) = True"
| "is_open _ = False"

fun is_closed :: "store_state \<Rightarrow> bool" where
  "is_closed (Closed _) = True"
| "is_closed _ = False"

definition at_store :: "'i store_sys \<Rightarrow> store_id \<Rightarrow> closer multiset" where
  "at_store s sid = {#x \<in># sy_closers s. fst (snd x) = sid#}"

text \<open>
  The closers of one store in each of its states: none while it is open; one destroying closer and joining
  ones while it closes, with the inner state taken only after the calls have drained; no destroying closer
  once it is closed.
\<close>

definition sole_destroyer :: "closing \<Rightarrow> closer multiset \<Rightarrow> bool" where
  "sole_destroyer c K \<longleftrightarrow> (\<exists>owner sid J. K = add_mset (owner, sid, c) J \<and> (\<forall>x \<in># J. snd (snd x) = Joining))"

definition closers_fit :: "'i es_store \<Rightarrow> closer multiset \<Rightarrow> bool" where
  "closers_fit st K =
     (case es_state st of
        Open _ \<Rightarrow> es_inner st \<noteq> None \<and> K = {#}
      | Closing n \<Rightarrow> (es_inner st \<noteq> None \<and> sole_destroyer Draining K) \<or> (es_inner st = None \<and> n = 0 \<and> sole_destroyer Tearing K)
      | Closed _ \<Rightarrow> es_inner st = None \<and> (\<forall>x \<in># K. snd (snd x) \<noteq> Draining \<and> snd (snd x) \<noteq> Tearing))"

definition store_ok :: "'i store_sys \<Rightarrow> store_id \<Rightarrow> 'i es_store \<Rightarrow> bool" where
  "store_ok s sid st \<longleftrightarrow> active (es_state st) = count (sy_leases s) sid \<and> closers_fit st (at_store s sid)
     \<and> (sid \<in> set (sy_destroyed s) \<longleftrightarrow> es_inner st = None)"

definition registry_sound :: "'i store_sys \<Rightarrow> bool" where
  "registry_sound s \<longleftrightarrow> ran (sh_registry s) \<subseteq> dom (sh_stores s) \<and> inj_on (sh_registry s) (dom (sh_registry s))
     \<and> (\<forall>owner sid. sh_cells s owner = Some sid \<longrightarrow> sh_registry s owner = Some sid)
     \<and> (\<forall>owner sid st. sh_cells s owner = Some sid \<longrightarrow> sh_stores s sid = Some st \<longrightarrow> is_open (es_state st))
     \<and> dom (sh_stores s) \<subseteq> ran (sh_registry s) \<union> set (sy_freed s)"

definition record_sound :: "'i store_sys \<Rightarrow> bool" where
  "record_sound s \<longleftrightarrow> set_mset (sy_leases s) \<subseteq> dom (sh_stores s)
     \<and> (\<forall>x \<in># sy_closers s. fst (snd x) \<in> dom (sh_stores s))
     \<and> set (sy_destroyed s) \<subseteq> dom (sh_stores s) \<and> distinct (sy_destroyed s)
     \<and> set (sy_freed s) \<subseteq> dom (sh_stores s) \<and> distinct (sy_freed s)
     \<and> set (sy_freed s) \<inter> ran (sh_registry s) = {}
     \<and> (\<forall>sid st. sid \<in> set (sy_freed s) \<longrightarrow> sh_stores s sid = Some st \<longrightarrow> is_closed (es_state st))
     \<and> (\<forall>x \<in># sy_closers s. sh_registry s (fst x) = Some (fst (snd x)) \<or> fst (snd x) \<in> set (sy_freed s))"

definition store_inv :: "'i store_sys \<Rightarrow> bool" where
  "store_inv s \<longleftrightarrow> (\<forall>sid st. sh_stores s sid = Some st \<longrightarrow> store_ok s sid st) \<and> registry_sound s \<and> record_sound s"

subsection \<open>What the operations change\<close>

lemma waiters_simps [simp]:
  "es_state (notify_all st) = es_state st" "es_inner (notify_all st) = es_inner st"
  "es_poisoned (notify_all st) = es_poisoned st" "es_waiters (notify_all st) = {#}"
  "es_state (wait_changed c st) = es_state st" "es_inner (wait_changed c st) = es_inner st"
  "es_waiters (wait_changed c st) = add_mset c (es_waiters st)"
  by (simp_all add: notify_all_def wait_changed_def)

lemma heap_simps [simp]:
  "sh_registry (set_cell owner raw h) = sh_registry h" "sh_stores (set_cell owner raw h) = sh_stores h"
  "sh_cells (set_cell owner raw h) = (sh_cells h)(owner := raw)"
  "sh_registry (set_store sid st h) = sh_registry h" "sh_cells (set_store sid st h) = sh_cells h"
  "sh_stores (set_store sid st h) = (sh_stores h)(sid \<mapsto> st)"
  by (simp_all add: set_cell_def set_store_def)

lemma sys_simps [simp]:
  "sy_leases (set_cell owner raw s) = sy_leases s" "sy_closers (set_cell owner raw s) = sy_closers s"
  "sy_destroyed (set_cell owner raw s) = sy_destroyed s" "sy_freed (set_cell owner raw s) = sy_freed s"
  "sy_leases (set_store sid st s) = sy_leases s" "sy_closers (set_store sid st s) = sy_closers s"
  "sy_destroyed (set_store sid st s) = sy_destroyed s" "sy_freed (set_store sid st s) = sy_freed s"
  by (simp_all add: set_cell_def set_store_def)

lemma store_ok_frame:
  "store_ok s sid st \<Longrightarrow> at_store s' sid = at_store s sid \<Longrightarrow> count (sy_leases s') sid = count (sy_leases s) sid \<Longrightarrow>
     (sid \<in> set (sy_destroyed s') \<longleftrightarrow> sid \<in> set (sy_destroyed s)) \<Longrightarrow> store_ok s' sid st"
  by (simp add: store_ok_def)

lemma acquire_Inr:
  assumes "acquire cell h = Inr ((sid, inner), h')"
  shows "\<exists>owner st n. cell = Some owner \<and> sh_registry h owner = Some sid \<and> sh_cells h owner = Some sid
    \<and> sh_stores h sid = Some st \<and> es_state st = Open n \<and> es_inner st = Some inner
    \<and> h' = set_store sid (st\<lparr>es_state := Open (Suc n)\<rparr>) h"
proof -
  obtain owner st where o: "cell = Some owner" "sh_registry h owner \<noteq> None" "sh_cells h owner = sh_registry h owner"
      "sh_stores h (the (sh_registry h owner)) = Some st"
    using assms by (auto simp: acquire_def split: if_splits)
  then obtain i where i: "sh_registry h owner = Some i" by auto
  show ?thesis
    by (cases "es_state st") (use assms o i in \<open>auto simp: acquire_def\<close>)
qed

lemma open_store_cases:
  assumes "open_store owner sid inner h = (r, h')"
  obtains (refused) "sh_registry h owner \<noteq> None" "h' = set_cell owner None h"
  | (fresh) "sh_registry h owner = None"
      "h' = set_cell owner (Some sid) (set_store sid (new_store inner)
        (set_cell owner None h\<lparr>sh_registry := (sh_registry h)(owner \<mapsto> sid)\<rparr>))"
  using assms by (auto simp: open_store_def publish_store_def split: option.splits)

lemma linearize_cases:
  assumes "linearize_close owner h = (r, h')"
  obtains (none) "sh_registry h owner = None" "r = Inr None" "h' = set_cell owner None h"
  | (mismatch) "r = Inl (State ''store owner does not match its handle'')" "h' = h"
  | (missing) sid where "sh_registry h owner = Some sid" "sh_stores h sid = None"
  | (destroy) sid st n where "sh_registry h owner = Some sid" "sh_stores h sid = Some st" "es_state st = Open n"
      "r = Inr (Some (sid, Destroy))" "h' = set_cell owner None (set_store sid (notify_all (st\<lparr>es_state := Closing n\<rparr>)) h)"
  | (join) sid st where "sh_registry h owner = Some sid" "sh_stores h sid = Some st" "\<not> is_open (es_state st)"
      "r = Inr (Some (sid, Join))" "h' = set_cell owner None (set_store sid (notify_all st) h)"
proof (cases "sh_registry h owner")
  case None
  then show thesis using assms none by (simp add: linearize_close_def)
next
  case reg: (Some sid)
  show thesis
  proof (cases "sh_cells h owner \<noteq> None \<and> sh_cells h owner \<noteq> Some sid")
    case True
    then show thesis using assms reg mismatch by (simp add: linearize_close_def)
  next
    case ok: False
    show thesis
    proof (cases "sh_stores h sid")
      case None
      then show thesis using reg missing by blast
    next
      case (Some st)
      have "(r, h') = (case es_state st of
          Open n \<Rightarrow> (Inr (Some (sid, Destroy)), set_cell owner None (set_store sid (notify_all (st\<lparr>es_state := Closing n\<rparr>)) h))
        | _ \<Rightarrow> (Inr (Some (sid, Join)), set_cell owner None (set_store sid (notify_all st) h)))"
        unfolding assms [symmetric] linearize_close_def reg option.case if_not_P [OF ok] Some by (rule refl)
      then show thesis using reg Some destroy join by (cases "es_state st") simp_all
    qed
  qed
qed

lemma release_lease_state:
  assumes "0 < active (es_state st)"
  shows "active (es_state (release_lease st)) = active (es_state st) - 1"
    "es_inner (release_lease st) = es_inner st" "es_poisoned (release_lease st) = es_poisoned st"
    "is_open (es_state (release_lease st)) = is_open (es_state st)"
    "is_closed (es_state (release_lease st)) = is_closed (es_state st)"
  by (cases "es_state st"; use assms in \<open>simp add: release_lease_def\<close>)+

lemma release_lease_closers:
  assumes "0 < active (es_state st)" and "closers_fit st K"
  shows "closers_fit (release_lease st) K"
  by (cases "es_state st"; use assms in \<open>simp add: release_lease_def closers_fit_def\<close>)

lemma ffi_call_ok:
  assumes "ffi_call st call = (r, st')"
  shows "es_state st' = es_state st" "es_inner st' = es_inner st"
  using assms by (auto simp: ffi_call_def split: if_splits call_end.splits)

lemma store_invD:
  assumes "store_inv s"
  shows "\<And>sid st. sh_stores s sid = Some st \<Longrightarrow> store_ok s sid st" "registry_sound s" "record_sound s"
  using assms by (simp_all add: store_inv_def)

lemma closers_fit_cong:
  "es_state st' = es_state st \<Longrightarrow> es_inner st' = es_inner st \<Longrightarrow> closers_fit st' K = closers_fit st K"
  by (simp add: closers_fit_def cong: store_state.case_cong)

lemma sole_destroyerI: "\<forall>x \<in># J. snd (snd x) = Joining \<Longrightarrow> sole_destroyer c (add_mset (owner, sid, c) J)"
  by (auto simp: sole_destroyer_def)

lemma sole_destroyer_mem: "sole_destroyer c K \<Longrightarrow> x \<in># K \<Longrightarrow> snd (snd x) = c \<or> snd (snd x) = Joining"
  by (auto simp: sole_destroyer_def)

lemma sole_destroyer_join: "sole_destroyer c K \<Longrightarrow> sole_destroyer c (add_mset (owner, sid, Joining) K)"
  unfolding sole_destroyer_def
proof (elim exE conjE)
  fix o' i J assume "K = add_mset (o', i, c) J" and "\<forall>x \<in># J. snd (snd x) = Joining"
  then show "\<exists>owner' sid' J. add_mset (owner, sid, Joining) K = add_mset (owner', sid', c) J
      \<and> (\<forall>x \<in># J. snd (snd x) = Joining)"
    by (intro exI [of _ o'] exI [of _ i] exI [of _ "add_mset (owner, sid, Joining) J"]) auto
qed

lemma joining_store: "\<not> is_open (es_state st) \<Longrightarrow> closers_fit st K \<Longrightarrow> closers_fit st (add_mset (owner, sid, Joining) K)"
  by (cases "es_state st") (auto simp: closers_fit_def sole_destroyer_join)

lemma sole_destroyer_replace:
  assumes "sole_destroyer c K" and "(owner, sid, c) \<in># K" and "c \<noteq> Joining"
  shows "\<exists>J. K = add_mset (owner, sid, c) J \<and> (\<forall>x \<in># J. snd (snd x) = Joining)"
proof -
  obtain o' i' J where J: "K = add_mset (o', i', c) J" "\<forall>x \<in># J. snd (snd x) = Joining"
    using assms(1) by (auto simp: sole_destroyer_def)
  then have "(owner, sid, c) \<notin># J" using assms(3) by force
  then show ?thesis using J assms(2) by auto
qed

lemma fit_draining:
  assumes "closers_fit st K" and "(owner, sid, Draining) \<in># K" and "drained st"
  shows "\<exists>J. es_state st = Closing 0 \<and> es_inner st \<noteq> None \<and> K = add_mset (owner, sid, Draining) J
    \<and> (\<forall>x \<in># J. snd (snd x) = Joining)"
proof (cases "es_state st")
  case (Closing n)
  have "\<not> sole_destroyer Tearing K" using assms(2) sole_destroyer_mem [of Tearing K] by force
  then show ?thesis using assms Closing sole_destroyer_replace [of Draining K owner sid]
    by (auto simp: closers_fit_def drained_def)
qed (use assms in \<open>auto simp: closers_fit_def\<close>)

lemma fit_tearing:
  assumes "closers_fit st K" and "(owner, sid, Tearing) \<in># K"
  shows "\<exists>J. es_state st = Closing 0 \<and> es_inner st = None \<and> K = add_mset (owner, sid, Tearing) J
    \<and> (\<forall>x \<in># J. snd (snd x) = Joining)"
proof (cases "es_state st")
  case (Closing n)
  have "\<not> sole_destroyer Draining K" using assms(2) sole_destroyer_mem [of Draining K] by force
  then show ?thesis using assms Closing sole_destroyer_replace [of Tearing K owner sid]
    by (auto simp: closers_fit_def)
qed (use assms in \<open>auto simp: closers_fit_def\<close>)

lemma fit_joined:
  assumes "closers_fit st K" and "is_closed (es_state st)"
  shows "closers_fit st (add_mset (owner, sid, Retiring r) (K - {#x#}))"
  using assms by (cases "es_state st") (auto simp: closers_fit_def dest: in_diffD)

lemma fit_retiring:
  assumes "closers_fit st K" and "(owner, sid, Retiring r) \<in># K"
  shows "is_closed (es_state st) \<and> closers_fit st (K - {#x#})"
proof -
  have "\<not> sole_destroyer c K" if "c = Draining \<or> c = Tearing" for c
    using that assms(2) sole_destroyer_mem [of c K "(owner, sid, Retiring r)"] by auto
  then show ?thesis using assms by (cases "es_state st") (auto simp: closers_fit_def dest: in_diffD)
qed

lemma at_store_other:
  "fst (snd x) \<noteq> sid \<Longrightarrow> {#y \<in># add_mset x K. fst (snd y) = sid#} = {#y \<in># K. fst (snd y) = sid#}"
  "fst (snd x) \<noteq> sid \<Longrightarrow> {#y \<in># K - {#x#}. fst (snd y) = sid#} = {#y \<in># K. fst (snd y) = sid#}"
  by simp_all

lemma at_store_same:
  "fst (snd x) = sid \<Longrightarrow> {#y \<in># add_mset x K. fst (snd y) = sid#} = add_mset x {#y \<in># K. fst (snd y) = sid#}"
  "fst (snd x) = sid \<Longrightarrow> {#y \<in># K - {#x#}. fst (snd y) = sid#} = {#y \<in># K. fst (snd y) = sid#} - {#x#}"
  by simp_all

lemma stores_update:
  assumes inv: "store_inv s" and st: "sh_stores s' = (sh_stores s)(sid \<mapsto> st)" and ok: "store_ok s' sid st"
    and K: "\<And>i. i \<noteq> sid \<Longrightarrow> at_store s' i = at_store s i"
    and L: "\<And>i. i \<noteq> sid \<Longrightarrow> count (sy_leases s') i = count (sy_leases s) i"
    and D: "\<And>i. i \<noteq> sid \<Longrightarrow> i \<in> set (sy_destroyed s') \<longleftrightarrow> i \<in> set (sy_destroyed s)"
  shows "\<forall>i st. sh_stores s' i = Some st \<longrightarrow> store_ok s' i st"
proof (intro allI impI)
  fix i st' assume i: "sh_stores s' i = Some st'"
  show "store_ok s' i st'"
  proof (cases "i = sid")
    case True
    then show ?thesis using i st ok by simp
  next
    case False
    then have "sh_stores s i = Some st'" using i st by simp
    from store_invD(1) [OF inv this] show ?thesis
      by (rule store_ok_frame) (use False K L D in simp_all)
  qed
qed

lemma stores_acquired:
  assumes inv: "store_inv s" and acq: "acquire cell s = Inr ((sid, inner), h)"
    and s': "s' = h\<lparr>sy_leases := add_mset sid (sy_leases s)\<rparr>"
  shows "\<forall>i st. sh_stores s' i = Some st \<longrightarrow> store_ok s' i st"
proof -
  obtain st n where st: "sh_stores s sid = Some st" "es_state st = Open n" "h = set_store sid (st\<lparr>es_state := Open (Suc n)\<rparr>) s"
    using acquire_Inr [OF acq] by blast
  have "store_ok s' sid (st\<lparr>es_state := Open (Suc n)\<rparr>)"
    using store_invD(1) [OF inv st(1)] st(2) by (simp add: s' st(3) store_ok_def at_store_def closers_fit_def)
  then show ?thesis by (rule stores_update [OF inv, rotated]) (simp_all add: s' st(3) at_store_def)
qed

lemma stores_released:
  assumes inv: "store_inv s" and lease: "sid \<in># sy_leases s" and st: "sh_stores s sid = Some st"
    and s': "s' = set_store sid (release_lease st) (s\<lparr>sy_leases := sy_leases s - {#sid#}\<rparr>)"
  shows "\<forall>i st. sh_stores s' i = Some st \<longrightarrow> store_ok s' i st"
proof -
  have ok: "store_ok s sid st" by (rule store_invD(1) [OF inv st])
  then have pos: "0 < active (es_state st)" using lease by (simp add: store_ok_def)
  have "store_ok s' sid (release_lease st)"
    using ok release_lease_closers [OF pos] release_lease_state [OF pos] by (simp add: s' store_ok_def at_store_def)
  then show ?thesis by (rule stores_update [OF inv, rotated]) (simp_all add: s' at_store_def)
qed

lemma stores_same_state:
  assumes inv: "store_inv s" and st: "sh_stores s sid = Some st"
    and same: "es_state st' = es_state st" "es_inner st' = es_inner st" and s': "s' = set_store sid st' s"
  shows "\<forall>i st. sh_stores s' i = Some st \<longrightarrow> store_ok s' i st"
proof -
  have "store_ok s' sid st'"
    using store_invD(1) [OF inv st] same closers_fit_cong [OF same] by (simp add: s' store_ok_def at_store_def)
  then show ?thesis by (rule stores_update [OF inv, rotated]) (simp_all add: s' at_store_def)
qed

lemma stores_opened:
  assumes inv: "store_inv s" and fresh: "sid \<notin> dom (sh_stores s)" and op: "open_store owner sid inner s = (r, s')"
  shows "\<forall>i st. sh_stores s' i = Some st \<longrightarrow> store_ok s' i st"
  using op
proof (cases rule: open_store_cases)
  case refused
  then show ?thesis using store_invD(1) [OF inv] by (simp add: store_ok_def at_store_def)
next
  case fresh: fresh
  have new: "count (sy_leases s) sid = 0" "at_store s sid = {#}" "sid \<notin> set (sy_destroyed s)"
    using assms(2) store_invD(3) [OF inv]
    by (auto simp: record_sound_def at_store_def count_eq_zero_iff)
  then have "store_ok s' sid (new_store inner)"
    by (simp add: fresh(2) store_ok_def at_store_def closers_fit_def new_store_def)
  then show ?thesis by (rule stores_update [OF inv, rotated]) (simp_all add: fresh(2) at_store_def)
qed

lemma linearize_Some:
  assumes "linearize_close owner s = (Inr (Some (sid, role)), h)"
  obtains (destroy) st n where "sh_registry s owner = Some sid" "sh_stores s sid = Some st" "es_state st = Open n"
      "role = Destroy" "h = set_cell owner None (set_store sid (notify_all (st\<lparr>es_state := Closing n\<rparr>)) s)"
  | (join) st where "sh_registry s owner = Some sid" "sh_stores s sid = Some st" "\<not> is_open (es_state st)"
      "role = Join" "h = set_cell owner None (set_store sid (notify_all st) s)"
  using assms
proof (cases rule: linearize_cases)
  case (missing i)
  then show thesis using assms by (auto simp: linearize_close_def split: if_splits)
qed auto

lemma stores_close_started:
  assumes inv: "store_inv s" and lin: "linearize_close owner s = (Inr (Some (sid, role)), h)"
    and s': "s' = h\<lparr>sy_closers := add_mset (owner, sid, role_start role) (sy_closers s)\<rparr>"
  shows "\<forall>i st. sh_stores s' i = Some st \<longrightarrow> store_ok s' i st"
  using lin
proof (cases rule: linearize_Some)
  case (destroy st n)
  have ok: "store_ok s sid st" by (rule store_invD(1) [OF inv destroy(2)])
  then have "at_store s sid = {#}" using destroy(3) by (simp add: store_ok_def closers_fit_def)
  then have "at_store s' sid = {#(owner, sid, Draining)#}" by (simp add: s' destroy at_store_def)
  then have "store_ok s' sid (notify_all (st\<lparr>es_state := Closing n\<rparr>))"
    using ok destroy(3) sole_destroyerI [of "{#}"] by (simp add: s' destroy store_ok_def closers_fit_def)
  then show ?thesis by (rule stores_update [OF inv, rotated]) (simp_all add: s' destroy at_store_def)
next
  case (join st)
  have "store_ok s' sid (notify_all st)"
    using store_invD(1) [OF inv join(2)] joining_store [OF join(3), of "at_store s sid"] closers_fit_cong [of "notify_all st" st]
    by (simp add: s' join store_ok_def at_store_def)
  then show ?thesis by (rule stores_update [OF inv, rotated]) (simp_all add: s' join at_store_def)
qed

lemma stores_taken:
  assumes inv: "store_inv s" and closer: "(owner, sid, Draining) \<in># sy_closers s" and st: "sh_stores s sid = Some st"
    and drained: "drained st" and take: "take_inner st = (inner, st')"
    and s': "s' = set_store sid st' (s\<lparr>sy_closers := add_mset (owner, sid, Tearing) (sy_closers s - {#(owner, sid, Draining)#}),
      sy_destroyed := (if inner = None then sy_destroyed s else sid # sy_destroyed s)\<rparr>)"
  shows "(\<forall>i st. sh_stores s' i = Some st \<longrightarrow> store_ok s' i st) \<and> inner \<noteq> None \<and> es_state st = Closing 0"
proof -
  have ok: "store_ok s sid st" by (rule store_invD(1) [OF inv st])
  have "(owner, sid, Draining) \<in># at_store s sid" using closer by (simp add: at_store_def)
  then obtain J where J: "es_state st = Closing 0" "es_inner st \<noteq> None" "at_store s sid = add_mset (owner, sid, Draining) J"
      "\<forall>x \<in># J. snd (snd x) = Joining"
    using fit_draining [OF _ _ drained] ok unfolding store_ok_def by blast
  have "at_store s' sid = add_mset (owner, sid, Tearing) J" using J(3) by (simp add: s' at_store_def)
  then have "store_ok s' sid st'"
    using J ok take sole_destroyerI [OF J(4)] by (auto simp: s' store_ok_def closers_fit_def take_inner_def)
  then have "\<forall>i st. sh_stores s' i = Some st \<longrightarrow> store_ok s' i st"
    by (rule stores_update [OF inv, rotated]) (simp_all add: s' at_store_def)
  then show ?thesis using J take by (simp add: take_inner_def)
qed

lemma stores_torn:
  assumes inv: "store_inv s" and closer: "(owner, sid, Tearing) \<in># sy_closers s" and st: "sh_stores s sid = Some st"
    and fin: "finish_close panicked st = (r, st')"
    and s': "s' = set_store sid st' (s\<lparr>sy_closers := add_mset (owner, sid, Retiring r) (sy_closers s - {#(owner, sid, Tearing)#})\<rparr>)"
  shows "\<forall>i st. sh_stores s' i = Some st \<longrightarrow> store_ok s' i st"
proof -
  have ok: "store_ok s sid st" by (rule store_invD(1) [OF inv st])
  have "(owner, sid, Tearing) \<in># at_store s sid" using closer by (simp add: at_store_def)
  then obtain J where J: "es_state st = Closing 0" "es_inner st = None" "at_store s sid = add_mset (owner, sid, Tearing) J"
      "\<forall>x \<in># J. snd (snd x) = Joining"
    using fit_tearing ok unfolding store_ok_def by blast
  have "at_store s' sid = add_mset (owner, sid, Retiring r) J" using J(3) by (simp add: s' at_store_def)
  then have "store_ok s' sid st'"
    using J ok fin by (auto simp: s' store_ok_def closers_fit_def finish_close_def split: if_splits)
  then show ?thesis by (rule stores_update [OF inv, rotated]) (simp_all add: s' at_store_def)
qed

lemma stores_joined:
  assumes inv: "store_inv s" and st: "sh_stores s sid = Some st" and join: "join_close st = Some r"
    and s': "s' = s\<lparr>sy_closers := add_mset (owner, sid, Retiring r) (sy_closers s - {#(owner, sid, Joining)#})\<rparr>"
  shows "\<forall>i st. sh_stores s' i = Some st \<longrightarrow> store_ok s' i st"
proof -
  have ok: "store_ok s sid st" by (rule store_invD(1) [OF inv st])
  have closed: "is_closed (es_state st)" using join by (cases "es_state st") (auto simp: join_close_def)
  have "store_ok s' sid st"
    using ok fit_joined [OF _ closed, of "at_store s sid"] by (simp add: s' store_ok_def at_store_def)
  then show ?thesis by (rule stores_update [OF inv, rotated]) (simp_all add: s' st at_store_def fun_upd_idem)
qed

lemma stores_retired:
  assumes inv: "store_inv s" and closer: "(owner, sid, Retiring r) \<in># sy_closers s" and st: "sh_stores s sid = Some st"
    and ret: "retire_store owner sid s = (released, h)"
    and s': "s' = h\<lparr>sy_closers := sy_closers s - {#(owner, sid, Retiring r)#}, sy_freed := freed\<rparr>"
  shows "(\<forall>i st. sh_stores s' i = Some st \<longrightarrow> store_ok s' i st) \<and> is_closed (es_state st)"
proof -
  have h: "sh_stores h = sh_stores s" "sy_leases h = sy_leases s" "sy_destroyed h = sy_destroyed s"
    using ret by (auto simp: retire_store_def split: if_splits)
  have ok: "store_ok s sid st" by (rule store_invD(1) [OF inv st])
  have "(owner, sid, Retiring r) \<in># at_store s sid" using closer by (simp add: at_store_def)
  then have fit: "is_closed (es_state st) \<and> closers_fit st (at_store s sid - {#(owner, sid, Retiring r)#})"
    using fit_retiring ok unfolding store_ok_def by blast
  then have "store_ok s' sid st" using ok by (simp add: s' h store_ok_def at_store_def)
  then have "\<forall>i st. sh_stores s' i = Some st \<longrightarrow> store_ok s' i st"
    by (rule stores_update [OF inv, rotated]) (simp_all add: s' h st at_store_def fun_upd_idem)
  then show ?thesis using fit by blast
qed

lemma linearize_other:
  "linearize_close owner h = (Inl err, h') \<Longrightarrow> h' = h"
  "linearize_close owner h = (Inr None, h') \<Longrightarrow> h' = h \<or> h' = set_cell owner None h"
  by (auto simp: linearize_close_def split: option.splits if_splits store_state.splits)

lemma stores_step:
  assumes inv: "store_inv s" and step: "store_step s s'"
  shows "\<forall>sid st. sh_stores s' sid = Some st \<longrightarrow> store_ok s' sid st"
  using step
proof cases
  case (close_refused owner err)
  then show ?thesis using store_invD(1) [OF inv] linearize_other(1) by blast
next
  case (close_absorbed owner)
  then show ?thesis using store_invD(1) [OF inv] linearize_other(2) [OF close_absorbed]
    by (auto simp: store_ok_def at_store_def)
next
  case (retired owner sid r released h)
  have "sid \<in> dom (sh_stores s)" using retired(2) store_invD(3) [OF inv] by (force simp: record_sound_def)
  then show ?thesis using stores_retired [OF inv retired(2) _ retired(3) retired(1)] by auto
next
  case (taken owner sid st inner st')
  show ?thesis using stores_taken [OF inv taken(2-5) taken(1)] by blast
next
  case (opened sid owner inner r)
  show ?thesis by (rule stores_opened [OF inv opened])
next
  case (acquired cell sid inner h)
  show ?thesis by (rule stores_acquired [OF inv acquired(2,1)])
next
  case (called sid st call r st')
  show ?thesis by (rule stores_same_state [OF inv called(3) ffi_call_ok [OF called(4)] called(1)])
next
  case (drain_waits sid st owner)
  show ?thesis by (rule stores_same_state [OF inv drain_waits(2) _ _ drain_waits(1)]) simp_all
next
  case (join_waits sid st owner)
  show ?thesis by (rule stores_same_state [OF inv join_waits(2) _ _ join_waits(1)]) simp_all
next
  case (woken sid st closer)
  show ?thesis by (rule stores_same_state [OF inv woken(2) _ _ woken(1)]) simp_all
next
  case (released sid st)
  show ?thesis by (rule stores_released [OF inv released(2,3,1)])
next
  case (close_started owner sid role h)
  show ?thesis by (rule stores_close_started [OF inv close_started(2,1)])
next
  case (torn owner sid st panicked r st')
  show ?thesis by (rule stores_torn [OF inv torn(2-4,1)])
next
  case (joined owner sid st r)
  show ?thesis by (rule stores_joined [OF inv joined(3,4,1)])
qed

lemma registry_frame:
  assumes "registry_sound s" and "sh_registry s' = sh_registry s" and "\<And>owner. sh_cells s' owner = sh_cells s owner \<or> sh_cells s' owner = None"
    and "dom (sh_stores s') = dom (sh_stores s)" and "sy_freed s' = sy_freed s"
    and "\<And>owner sid st. sh_cells s' owner = Some sid \<Longrightarrow> sh_stores s' sid = Some st \<Longrightarrow> is_open (es_state st)"
  shows "registry_sound s'"
  using assms unfolding registry_sound_def by (metis option.distinct(1))

lemma registry_null: "registry_sound s \<Longrightarrow> registry_sound (set_cell owner None s)"
  by (rule registry_frame) (auto simp: registry_sound_def split: if_splits)

lemma registry_same_store:
  assumes "registry_sound s" and "sh_stores s sid = Some st" and "is_open (es_state st') = is_open (es_state st)"
    and "sh_registry s' = sh_registry s" and "sh_cells s' = sh_cells s" and "sh_stores s' = (sh_stores s)(sid \<mapsto> st')"
    and "sy_freed s' = sy_freed s"
  shows "registry_sound s'"
proof (rule registry_frame [OF assms(1) assms(4)])
  fix owner i st'' assume "sh_cells s' owner = Some i" and "sh_stores s' i = Some st''"
  then show "is_open (es_state st'')" using assms unfolding registry_sound_def by (cases "i = sid") auto
qed (use assms in auto)

lemma registry_opened:
  assumes R: "registry_sound s" and fresh: "sid \<notin> dom (sh_stores s)" and op: "open_store owner sid inner s = (r, s')"
  shows "registry_sound s'"
  using op
proof (cases rule: open_store_cases)
  case refused
  then show ?thesis using registry_null [OF R] by simp
next
  case new: fresh
  have reg: "sid \<notin> ran (sh_registry s)" using R fresh by (auto simp: registry_sound_def)
  have inj: "inj_on (sh_registry s) (dom (sh_registry s))" using R by (simp add: registry_sound_def)
  have dom: "dom (sh_registry s') = insert owner (dom (sh_registry s))" by (simp add: new(2))
  have "inj_on (sh_registry s') (dom (sh_registry s'))"
    unfolding dom using inj reg new(1) by (auto simp: new(2) inj_on_def ran_def dom_def)
  moreover have "ran (sh_registry s') = insert sid (ran (sh_registry s))" using new(1) by (simp add: new(2) ran_map_upd)
  moreover have "sh_cells s o' \<noteq> Some sid" for o'
    using R reg unfolding registry_sound_def ran_def by blast
  ultimately show ?thesis using R by (auto simp: new(2) registry_sound_def new_store_def)
qed

lemma registry_close_started:
  assumes R: "registry_sound s" and lin: "linearize_close owner s = (Inr (Some (sid, role)), h)"
    and s': "s' = h\<lparr>sy_closers := K\<rparr>"
  shows "registry_sound s'"
  using lin
proof (cases rule: linearize_Some)
  case (destroy st n)
  have "sh_cells s o' \<noteq> Some sid" if "o' \<noteq> owner" for o'
  proof
    assume "sh_cells s o' = Some sid"
    then have "sh_registry s o' = Some sid" using R by (simp add: registry_sound_def)
    then show False using R destroy(1) that by (auto simp: registry_sound_def inj_on_def dom_def)
  qed
  then show ?thesis using R destroy
    by (intro registry_frame [OF R]) (auto simp: s' registry_sound_def split: if_splits)
next
  case (join st)
  then show ?thesis using R by (intro registry_frame [OF R]) (auto simp: s' registry_sound_def split: if_splits)
qed

lemma registry_retired:
  assumes R: "registry_sound s" and ret: "retire_store owner sid s = (released, h)" and st: "sh_stores s sid = Some st"
    and closed: "is_closed (es_state st)"
    and s': "s' = h\<lparr>sy_closers := K, sy_freed := (if released then sid # sy_freed s else sy_freed s)\<rparr>"
  shows "registry_sound s'"
proof (cases "sh_registry s owner = Some sid")
  case True
  then have h: "released" "h = s\<lparr>sh_registry := (sh_registry s)(owner := None)\<rparr>" using ret by (auto simp: retire_store_def)
  have cell: "sh_cells s owner = None"
  proof (rule ccontr)
    assume "sh_cells s owner \<noteq> None"
    then have "sh_cells s owner = Some sid" using R True by (auto simp: registry_sound_def)
    then have "is_open (es_state st)" using R st by (simp add: registry_sound_def)
    then show False using closed by (cases "es_state st") auto
  qed
  have "ran (sh_registry s) \<subseteq> insert sid (ran ((sh_registry s)(owner := None)))"
    using True by (auto simp: ran_def) (metis option.inject)
  moreover have "ran ((sh_registry s)(owner := None)) \<subseteq> ran (sh_registry s)" by (auto simp: ran_def)
  moreover have "inj_on ((sh_registry s)(owner := None)) (dom ((sh_registry s)(owner := None)))"
    using R by (auto simp: registry_sound_def inj_on_def dom_def)
  ultimately show ?thesis using R cell by (auto simp: s' h registry_sound_def)
next
  case False
  then show ?thesis using ret R by (auto simp: s' retire_store_def registry_sound_def)
qed

lemma registry_step:
  assumes inv: "store_inv s" and step: "store_step s s'"
  shows "registry_sound s'"
  using step
proof cases
  case (acquired cell sid inner h)
  obtain st n where st: "sh_stores s sid = Some st" "es_state st = Open n"
      "h = set_store sid (st\<lparr>es_state := Open (Suc n)\<rparr>) s"
    using acquire_Inr [OF acquired(2)] by blast
  show ?thesis
    by (rule registry_same_store [OF store_invD(2) [OF inv] st(1), of "st\<lparr>es_state := Open (Suc n)\<rparr>"])
      (simp_all add: acquired(1) st)
next
  case (called sid st call r st')
  then show ?thesis using ffi_call_ok [OF called(4)]
    by (intro registry_same_store [OF store_invD(2) [OF inv] called(3), of st']) simp_all
next
  case (drain_waits sid st owner)
  then show ?thesis
    by (intro registry_same_store [OF store_invD(2) [OF inv] drain_waits(2), of "wait_changed (owner, sid, Draining) st"]) simp_all
next
  case (join_waits sid st owner)
  then show ?thesis
    by (intro registry_same_store [OF store_invD(2) [OF inv] join_waits(2), of "wait_changed (owner, sid, Joining) st"]) simp_all
next
  case (woken sid st closer)
  then show ?thesis
    by (intro registry_same_store [OF store_invD(2) [OF inv] woken(2), of "st\<lparr>es_waiters := es_waiters st - {#closer#}\<rparr>"]) simp_all
next
  case (released sid st)
  have "0 < active (es_state st)" using store_invD(1) [OF inv released(3)] released(2) by (simp add: store_ok_def)
  then show ?thesis using released release_lease_state(4)
    by (intro registry_same_store [OF store_invD(2) [OF inv] released(3), of "release_lease st"]) simp_all
next
  case (taken owner sid st inner st')
  then show ?thesis
    by (intro registry_same_store [OF store_invD(2) [OF inv] taken(3), of st']) (auto simp: take_inner_def)
next
  case (torn owner sid st panicked r st')
  have "(owner, sid, Tearing) \<in># at_store s sid" using torn(2) by (simp add: at_store_def)
  then have "es_state st = Closing 0"
    using store_invD(1) [OF inv torn(3)] fit_tearing unfolding store_ok_def by blast
  then show ?thesis using torn
    by (intro registry_same_store [OF store_invD(2) [OF inv] torn(3), of st']) (auto simp: finish_close_def split: if_splits)
next
  case (retired owner sid r released h)
  obtain st where st: "sh_stores s sid = Some st"
    using retired(2) store_invD(3) [OF inv] by (force simp: record_sound_def)
  show ?thesis
    using stores_retired [OF inv retired(2) st retired(3) retired(1)]
      registry_retired [OF store_invD(2) [OF inv] retired(3) st _ retired(1)] by blast
next
  case (close_absorbed owner)
  then show ?thesis using linearize_other(2) [OF close_absorbed] store_invD(2) [OF inv] registry_null by blast
next
  case (joined owner sid st r)
  then show ?thesis using store_invD(2) [OF inv] by (simp add: registry_sound_def)
next
  case (opened sid owner inner r)
  show ?thesis by (rule registry_opened [OF store_invD(2) [OF inv] opened])
next
  case (close_started owner sid role h)
  show ?thesis by (rule registry_close_started [OF store_invD(2) [OF inv] close_started(2,1)])
next
  case (close_refused owner err)
  then show ?thesis using linearize_other(1) store_invD(2) [OF inv] by blast
qed

lemma record_frame:
  assumes rec: "record_sound s" and dom: "dom (sh_stores s) \<subseteq> dom (sh_stores s')" and reg: "sh_registry s' = sh_registry s"
    and freed: "sy_freed s' = sy_freed s"
    and L: "set_mset (sy_leases s') \<subseteq> dom (sh_stores s')"
    and D: "set (sy_destroyed s') \<subseteq> dom (sh_stores s')" "distinct (sy_destroyed s')"
    and K: "\<And>x. x \<in># sy_closers s' \<Longrightarrow> (\<exists>y. y \<in># sy_closers s \<and> fst x = fst y \<and> fst (snd x) = fst (snd y))
        \<or> sh_registry s (fst x) = Some (fst (snd x)) \<and> fst (snd x) \<in> dom (sh_stores s)"
    and F: "\<And>sid st. sid \<in> set (sy_freed s) \<Longrightarrow> sh_stores s' sid = Some st \<Longrightarrow> is_closed (es_state st)"
  shows "record_sound s'"
proof -
  have "sh_registry s' (fst x) = Some (fst (snd x)) \<or> fst (snd x) \<in> set (sy_freed s')"
    and "fst (snd x) \<in> dom (sh_stores s')" if x: "x \<in># sy_closers s'" for x
    using K [OF x] rec dom unfolding record_sound_def reg freed by (metis subsetD)+
  moreover have "set (sy_freed s') \<subseteq> dom (sh_stores s')" "distinct (sy_freed s')"
      "set (sy_freed s') \<inter> ran (sh_registry s') = {}"
    using rec dom unfolding record_sound_def reg freed by blast+
  ultimately show ?thesis using L D F unfolding record_sound_def freed by blast
qed

lemma record_same_store:
  assumes inv: "store_inv s" and st: "sh_stores s sid = Some st" and "sh_stores s' = (sh_stores s)(sid \<mapsto> st')"
    and "is_closed (es_state st) \<Longrightarrow> is_closed (es_state st')"
    and "sh_registry s' = sh_registry s" and "sy_freed s' = sy_freed s"
    and "set_mset (sy_leases s') \<subseteq> insert sid (set_mset (sy_leases s))"
    and "sy_destroyed s' = sy_destroyed s \<or> sid \<notin> set (sy_destroyed s) \<and> sy_destroyed s' = sid # sy_destroyed s"
    and K: "\<And>x. x \<in># sy_closers s' \<Longrightarrow> \<exists>y. y \<in># sy_closers s \<and> fst x = fst y \<and> fst (snd x) = fst (snd y)"
  shows "record_sound s'"
proof (rule record_frame [OF store_invD(3) [OF inv]])
  show "set_mset (sy_leases s') \<subseteq> dom (sh_stores s')" "set (sy_destroyed s') \<subseteq> dom (sh_stores s')"
      "distinct (sy_destroyed s')"
    using assms store_invD(3) [OF inv] by (auto simp: record_sound_def)
  fix i st'' assume "i \<in> set (sy_freed s)" and "sh_stores s' i = Some st''"
  then show "is_closed (es_state st'')"
    using assms store_invD(3) [OF inv] by (cases "i = sid") (auto simp: record_sound_def)
qed (use assms in auto)

lemma record_opened:
  assumes inv: "store_inv s" and fresh: "sid \<notin> dom (sh_stores s)" and op: "open_store owner sid inner s = (r, s')"
  shows "record_sound s'"
  using op
proof (cases rule: open_store_cases)
  case refused
  then show ?thesis using store_invD(3) [OF inv] by (simp add: record_sound_def)
next
  case new: fresh
  have rec: "record_sound s" by (rule store_invD(3) [OF inv])
  have F: "sid \<notin> set (sy_freed s)" "\<And>x. x \<in># sy_closers s \<Longrightarrow> fst (snd x) \<noteq> sid"
    using rec fresh by (auto simp: record_sound_def)
  have K: "sh_registry s (fst x) = Some (fst (snd x)) \<or> fst (snd x) \<in> set (sy_freed s)" if "x \<in># sy_closers s" for x
    using rec that by (simp add: record_sound_def)
  have "ran (sh_registry s') = insert sid (ran (sh_registry s))" using new(1) by (simp add: new(2) ran_map_upd)
  moreover have "fst x \<noteq> owner \<or> fst (snd x) \<in> set (sy_freed s)" if "x \<in># sy_closers s" for x
    using K [OF that] new(1) by auto
  ultimately show ?thesis using rec F K
    unfolding record_sound_def by (simp add: new(2)) (auto simp: subset_iff)
qed

lemma record_retired:
  assumes inv: "store_inv s" and closer: "(owner, sid, Retiring r) \<in># sy_closers s" and st: "sh_stores s sid = Some st"
    and closed: "is_closed (es_state st)" and ret: "retire_store owner sid s = (released, h)"
    and s': "s' = h\<lparr>sy_closers := sy_closers s - {#(owner, sid, Retiring r)#},
      sy_freed := (if released then sid # sy_freed s else sy_freed s)\<rparr>"
  shows "record_sound s'"
proof (cases "sh_registry s owner = Some sid")
  case True
  have rec: "record_sound s" and R: "registry_sound s" using store_invD(2,3) [OF inv] by blast+
  have h: "released" "h = s\<lparr>sh_registry := (sh_registry s)(owner := None)\<rparr>" using ret True by (auto simp: retire_store_def)
  have nf: "sid \<notin> set (sy_freed s)" using rec True by (auto simp: record_sound_def ran_def)
  have other: "o' = owner" if "sh_registry s o' = Some sid" for o'
    using R True that by (auto simp: registry_sound_def inj_on_def dom_def)
  have ran: "ran ((sh_registry s)(owner := None)) \<subseteq> ran (sh_registry s) - {sid}"
  proof
    fix i assume "i \<in> ran ((sh_registry s)(owner := None))"
    then obtain o' where o': "((sh_registry s)(owner := None)) o' = Some i" by (auto simp: ran_def)
    then have "o' \<noteq> owner" "sh_registry s o' = Some i" by (auto split: if_splits)
    then show "i \<in> ran (sh_registry s) - {sid}" using other by (auto simp: ran_def)
  qed
  have K: "((sh_registry s)(owner := None)) (fst x) = Some (fst (snd x)) \<or> fst (snd x) \<in> set (sid # sy_freed s)"
    if "x \<in># sy_closers s" for x
    using rec that True unfolding record_sound_def by (cases "fst x = owner") auto
  have fields: "sh_registry s' = (sh_registry s)(owner := None)" "sh_stores s' = sh_stores s" "sy_freed s' = sid # sy_freed s"
      "sy_leases s' = sy_leases s" "sy_destroyed s' = sy_destroyed s"
    by (simp_all add: s' h)
  have sub: "x \<in># sy_closers s" if "x \<in># sy_closers s'" for x using that by (simp add: s' in_diffD)
  have "\<forall>x \<in># sy_closers s'. sh_registry s' (fst x) = Some (fst (snd x)) \<or> fst (snd x) \<in> set (sy_freed s')"
    unfolding fields using K sub by blast
  then show ?thesis using rec nf ran sub st closed unfolding record_sound_def fields by auto
next
  case False
  then have "h = s" "\<not> released" using ret by (auto simp: retire_store_def)
  then show ?thesis using store_invD(3) [OF inv] by (auto simp: s' record_sound_def dest: in_diffD)
qed

lemma record_close_started:
  assumes inv: "store_inv s" and lin: "linearize_close owner s = (Inr (Some (sid, role)), h)"
    and s': "s' = h\<lparr>sy_closers := add_mset (owner, sid, role_start role) (sy_closers s)\<rparr>"
  shows "record_sound s'"
proof (rule record_frame [OF store_invD(3) [OF inv]])
  have rec: "record_sound s" by (rule store_invD(3) [OF inv])
  have h: "sh_registry h = sh_registry s" "sy_freed h = sy_freed s" "sy_leases h = sy_leases s" "sy_destroyed h = sy_destroyed s"
      "dom (sh_stores h) = dom (sh_stores s)" and sid: "sh_registry s owner = Some sid" "sid \<in> dom (sh_stores s)"
    using lin by (cases rule: linearize_Some; auto)+
  show "dom (sh_stores s) \<subseteq> dom (sh_stores s')" "sh_registry s' = sh_registry s" "sy_freed s' = sy_freed s"
      "set_mset (sy_leases s') \<subseteq> dom (sh_stores s')" "set (sy_destroyed s') \<subseteq> dom (sh_stores s')"
      "distinct (sy_destroyed s')"
    using h rec by (simp_all add: s' record_sound_def)
  show "(\<exists>y. y \<in># sy_closers s \<and> fst x = fst y \<and> fst (snd x) = fst (snd y))
      \<or> sh_registry s (fst x) = Some (fst (snd x)) \<and> fst (snd x) \<in> dom (sh_stores s)" if "x \<in># sy_closers s'" for x
    using that sid unfolding s' by (cases "x \<in># sy_closers s") (blast, simp)
  show "is_closed (es_state st)" if "i \<in> set (sy_freed s)" and "sh_stores s' i = Some st" for i st
  proof -
    have "i \<noteq> sid" using rec sid(1) that(1) by (auto simp: record_sound_def ran_def)
    moreover have "sh_stores h i = sh_stores s i" if "i \<noteq> sid" using lin that by (cases rule: linearize_Some) auto
    ultimately show ?thesis using that rec by (simp add: s' record_sound_def)
  qed
qed

lemma closer_moved:
  assumes "x \<in># add_mset (owner, sid, c') (K - {#(owner, sid, c)#})" and "(owner, sid, c) \<in># K"
  shows "\<exists>y. y \<in># K \<and> fst x = fst y \<and> fst (snd x) = fst (snd y)"
proof (cases "x \<in># K")
  case False
  then have "x = (owner, sid, c')" using assms(1) by (auto dest: in_diffD)
  then show ?thesis using assms(2) by force
qed blast

lemma record_step:
  assumes inv: "store_inv s" and step: "store_step s s'"
  shows "record_sound s'"
  using step
proof cases
  case (opened sid owner inner r)
  show ?thesis by (rule record_opened [OF inv opened])
next
  case (acquired cell sid inner h)
  obtain st n where st: "sh_stores s sid = Some st" "es_state st = Open n"
      "h = set_store sid (st\<lparr>es_state := Open (Suc n)\<rparr>) s"
    using acquire_Inr [OF acquired(2)] by blast
  show ?thesis
    by (rule record_same_store [OF inv st(1), of _ "st\<lparr>es_state := Open (Suc n)\<rparr>"]) (auto simp: acquired(1) st)
next
  case (called sid st call r st')
  show ?thesis
    by (rule record_same_store [OF inv called(3), of _ st']) (auto simp: called(1) ffi_call_ok [OF called(4)])
next
  case (drain_waits sid st owner)
  show ?thesis
    by (rule record_same_store [OF inv drain_waits(2), of _ "wait_changed (owner, sid, Draining) st"]) (auto simp: drain_waits(1))
next
  case (join_waits sid st owner)
  show ?thesis
    by (rule record_same_store [OF inv join_waits(2), of _ "wait_changed (owner, sid, Joining) st"]) (auto simp: join_waits(1))
next
  case (woken sid st closer)
  show ?thesis
    by (rule record_same_store [OF inv woken(2), of _ "st\<lparr>es_waiters := es_waiters st - {#closer#}\<rparr>"]) (auto simp: woken(1))
next
  case (released sid st)
  have "0 < active (es_state st)" using store_invD(1) [OF inv released(3)] released(2) by (simp add: store_ok_def)
  then show ?thesis using release_lease_state(5)
    by (intro record_same_store [OF inv released(3), of _ "release_lease st"]) (auto simp: released(1) dest: in_diffD)
next
  case (close_started owner sid role h)
  show ?thesis by (rule record_close_started [OF inv close_started(2,1)])
next
  case (close_refused owner err)
  then show ?thesis using linearize_other(1) store_invD(3) [OF inv] by blast
next
  case (close_absorbed owner)
  have "record_sound (set_cell owner None s)" using store_invD(3) [OF inv] by (simp add: record_sound_def)
  then show ?thesis using linearize_other(2) [OF close_absorbed] store_invD(3) [OF inv] by blast
next
  case (taken owner sid st inner st')
  have "inner \<noteq> None" "es_state st = Closing 0" using stores_taken [OF inv taken(2-5) taken(1)] by blast+
  moreover from this have "sid \<notin> set (sy_destroyed s)"
    using store_invD(1) [OF inv taken(3)] taken(5) by (simp add: store_ok_def take_inner_def)
  ultimately show ?thesis using taken
    by (intro record_same_store [OF inv taken(3), of _ st'] closer_moved [OF _ taken(2)])
      (auto simp: take_inner_def)
next
  case (torn owner sid st panicked r st')
  then show ?thesis
    by (intro record_same_store [OF inv torn(3), of _ st'] closer_moved [OF _ torn(2)])
      (auto simp: finish_close_def split: if_splits)
next
  case (joined owner sid st r)
  then show ?thesis
    by (intro record_same_store [OF inv joined(3), of _ st] closer_moved [OF _ joined(2)]) auto
next
  case (retired owner sid r released h)
  obtain st where st: "sh_stores s sid = Some st"
    using retired(2) store_invD(3) [OF inv] by (force simp: record_sound_def)
  show ?thesis
    using stores_retired [OF inv retired(2) st retired(3) retired(1)] record_retired [OF inv retired(2) st _ retired(3) retired(1)]
    by blast
qed

lemma reachable_store_inv: "store_reachable s \<Longrightarrow> store_inv s"
proof (induction rule: store_reachable.induct)
  case start
  show ?case by (simp add: store_inv_def store_init_def registry_sound_def record_sound_def)
next
  case (step s s')
  show ?case unfolding store_inv_def
    by (intro conjI stores_step [OF step.IH step.hyps(2)] registry_step [OF step.IH step.hyps(2)]
        record_step [OF step.IH step.hyps(2)])
qed

subsection \<open>No lost wake-up\<close>

text \<open>A closer waits on the condition variable only while the condition it waits for does not hold.\<close>

definition waits_rightly :: "'i es_store \<Rightarrow> bool" where
  "waits_rightly st \<longleftrightarrow> (\<forall>x \<in># es_waiters st.
     snd (snd x) = Draining \<and> \<not> drained st \<or> snd (snd x) = Joining \<and> join_close st = None)"

lemma waits_rightly_notified [simp]: "waits_rightly (notify_all st)"
  by (simp add: waits_rightly_def)

lemma waits_rightly_same:
  assumes "waits_rightly st" and "es_state st' = es_state st" and "es_waiters st' \<subseteq># es_waiters st"
  shows "waits_rightly st'"
proof -
  have "drained st' = drained st" "join_close st' = join_close st" by (simp_all add: drained_def join_close_def assms(2))
  then show ?thesis using assms(1) mset_subset_eqD [OF assms(3)] unfolding waits_rightly_def by auto
qed

lemma waits_rightly_released: "waits_rightly st \<Longrightarrow> waits_rightly (release_lease st)"
  by (cases "es_state st") (auto simp: release_lease_def waits_rightly_def drained_def join_close_def)

definition all_wait_rightly :: "'i store_sys \<Rightarrow> bool" where
  "all_wait_rightly s \<longleftrightarrow> (\<forall>sid st. sh_stores s sid = Some st \<longrightarrow> waits_rightly st)"

lemma waits_update:
  assumes "all_wait_rightly s" and "sh_stores s' = (sh_stores s)(sid \<mapsto> st)" and "waits_rightly st"
  shows "all_wait_rightly s'"
  unfolding all_wait_rightly_def using assms(1,3) by (simp add: assms(2) all_wait_rightly_def)

lemma waits_frame: "all_wait_rightly s \<Longrightarrow> sh_stores s' = sh_stores s \<Longrightarrow> all_wait_rightly s'"
  by (simp add: all_wait_rightly_def)

lemma waits_rightly_step:
  assumes ok: "all_wait_rightly s" and step: "store_step s s'"
  shows "all_wait_rightly s'"
proof -
  have at: "waits_rightly st" if "sh_stores s sid = Some st" for sid st using ok that by (simp add: all_wait_rightly_def)
  from step show ?thesis
  proof cases
    case (opened sid owner inner r)
    from opened(2) show ?thesis
    proof (cases rule: open_store_cases)
      case fresh
      then show ?thesis by (intro waits_update [OF ok, of _ sid "new_store inner"]) (simp_all add: new_store_def waits_rightly_def)
    qed (simp add: waits_frame [OF ok])
  next
    case (acquired cell sid inner h)
    obtain st n where "sh_stores s sid = Some st" "es_state st = Open n" "h = set_store sid (st\<lparr>es_state := Open (Suc n)\<rparr>) s"
      using acquire_Inr [OF acquired(2)] by blast
    then show ?thesis using at [of sid st] acquired(1)
      by (intro waits_update [OF ok, of _ sid "st\<lparr>es_state := Open (Suc n)\<rparr>"]) (simp_all add: waits_rightly_def drained_def join_close_def)
  next
    case (called sid st call r st')
    have "es_waiters st' = es_waiters st" using called(4) by (auto simp: ffi_call_def split: if_splits call_end.splits)
    then have "waits_rightly st'" using waits_rightly_same [OF at [OF called(3)] ffi_call_ok(1) [OF called(4)]] by simp
    then show ?thesis by (intro waits_update [OF ok, of _ sid st']) (simp_all add: called(1))
  next
    case (released sid st)
    show ?thesis
      by (rule waits_update [OF ok _ waits_rightly_released [OF at [OF released(3)]], of _ sid]) (simp add: released(1))
  next
    case (close_started owner sid role h)
    from close_started(2) show ?thesis
    proof (cases rule: linearize_Some)
      case (destroy st n)
      show ?thesis
        by (rule waits_update [OF ok _ waits_rightly_notified, of _ sid "st\<lparr>es_state := Closing n\<rparr>"])
          (simp add: close_started(1) destroy(5))
    next
      case (join st)
      show ?thesis
        by (rule waits_update [OF ok _ waits_rightly_notified, of _ sid st]) (simp add: close_started(1) join(5))
    qed
  next
    case (taken owner sid st inner st')
    have "waits_rightly st'" by (rule waits_rightly_same [OF at [OF taken(3)]]) (use taken(5) in \<open>auto simp: take_inner_def\<close>)
    then show ?thesis by (intro waits_update [OF ok, of _ sid st']) (simp_all add: taken(1))
  next
    case (torn owner sid st panicked r st')
    have "waits_rightly st'" using torn(4) by (auto simp: finish_close_def split: if_splits)
    then show ?thesis by (intro waits_update [OF ok, of _ sid st']) (simp_all add: torn(1))
  next
    case (drain_waits sid st owner)
    have "waits_rightly (wait_changed (owner, sid, Draining) st)"
      using at [OF drain_waits(2)] drain_waits(3) by (auto simp: waits_rightly_def drained_def join_close_def)
    then show ?thesis by (rule waits_update [OF ok, rotated]) (simp add: drain_waits(1))
  next
    case (join_waits sid st owner)
    have "waits_rightly (wait_changed (owner, sid, Joining) st)"
      using at [OF join_waits(2)] join_waits(3) by (auto simp: waits_rightly_def drained_def join_close_def)
    then show ?thesis by (rule waits_update [OF ok, rotated]) (simp add: join_waits(1))
  next
    case (woken sid st closer)
    have "waits_rightly (st\<lparr>es_waiters := es_waiters st - {#closer#}\<rparr>)"
      by (rule waits_rightly_same [OF at [OF woken(2)]]) simp_all
    then show ?thesis by (rule waits_update [OF ok, rotated]) (simp add: woken(1))
  next
    case (retired owner sid r released h)
    then show ?thesis by (intro waits_frame [OF ok]) (auto simp: retire_store_def split: if_splits)
  next
    case (close_refused owner err)
    show ?thesis using linearize_other(1) [OF close_refused] ok by simp
  next
    case (close_absorbed owner)
    show ?thesis using linearize_other(2) [OF close_absorbed] by (auto intro: waits_frame [OF ok])
  next
    case (joined owner sid st r)
    then show ?thesis by (intro waits_frame [OF ok]) simp
  qed
qed

lemma init_no_stores: "sh_stores store_init sid = None"
  by (simp add: store_init_def)

lemma reachable_waits:
  assumes "store_reachable s" and "sh_stores s sid = Some st"
  shows "waits_rightly st"
proof -
  from assms(1) have "all_wait_rightly s"
    by (induction rule: store_reachable.induct) (auto simp: all_wait_rightly_def [of store_init] init_no_stores intro: waits_rightly_step)
  then show ?thesis using assms(2) by (simp add: all_wait_rightly_def)
qed

section \<open>Properties of the protocol\<close>

lemma closing_refused:
  assumes inv: "store_inv s" and reg: "sh_registry s owner = Some sid" and st: "sh_stores s sid = Some st"
    and closing: "\<not> is_open (es_state st)"
  shows "acquire (Some owner) s = Inl (State ''store is closed'')"
proof -
  have "sh_cells s owner \<noteq> Some sid" using store_invD(2) [OF inv] st closing by (auto simp: registry_sound_def)
  then show ?thesis using reg by (simp add: acquire_def)
qed

text \<open>
  C36 (store_teardown_exclusive). Under every interleaving of opens, calls and closes: a store counts exactly
  the calls that hold it, so releasing a lease never poisons it; from the moment its close is linearized no
  new call acquires it; its engine is taken down only when no call holds it, at most once; and its registry
  reference is released at most once, only after the store is closed.
\<close>

theorem store_teardown_exclusive:
  assumes reach: "store_reachable s" and st: "sh_stores s sid = Some st"
  shows "active (es_state st) = count (sy_leases s) sid
    \<and> (sid \<in># sy_leases s \<longrightarrow> es_poisoned (release_lease st) = es_poisoned st)
    \<and> (\<not> is_open (es_state st) \<and> sh_registry s owner = Some sid \<longrightarrow>
         acquire (Some owner) s = Inl (State ''store is closed''))
    \<and> (sid \<in> set (sy_destroyed s) \<longleftrightarrow> es_inner st = None)
    \<and> (es_inner st = None \<longrightarrow> sid \<notin># sy_leases s \<and> \<not> is_open (es_state st))
    \<and> distinct (sy_destroyed s) \<and> distinct (sy_freed s)
    \<and> (sid \<in> set (sy_freed s) \<longrightarrow> is_closed (es_state st) \<and> sid \<notin> ran (sh_registry s))"
proof -
  note inv = reachable_store_inv [OF reach]
  have ok: "active (es_state st) = count (sy_leases s) sid" "closers_fit st (at_store s sid)"
      "sid \<in> set (sy_destroyed s) \<longleftrightarrow> es_inner st = None"
    using store_invD(1) [OF inv st] by (simp_all add: store_ok_def)
  have "es_poisoned (release_lease st) = es_poisoned st" if "sid \<in># sy_leases s"
    using release_lease_state(3) [of st] ok(1) that by simp
  moreover have "sid \<notin># sy_leases s \<and> \<not> is_open (es_state st)" if "es_inner st = None"
    using ok(1,2) that by (cases "es_state st") (auto simp: closers_fit_def not_in_iff)
  ultimately show ?thesis
    using ok(1,3) closing_refused [OF inv _ st] store_invD(3) [OF inv] st by (auto simp: record_sound_def)
qed

fun closing_rank :: "closing \<Rightarrow> nat" where
  "closing_rank Draining = 3"
| "closing_rank Tearing = 2"
| "closing_rank Joining = 2"
| "closing_rank (Retiring _) = 1"

definition close_work :: "'i store_sys \<Rightarrow> nat" where
  "close_work s = sum_mset (image_mset (closing_rank \<circ> snd \<circ> snd) (sy_closers s))"

lemma close_work_split:
  assumes "x \<in># sy_closers s"
  shows "close_work s = closing_rank (snd (snd x))
    + sum_mset (image_mset (closing_rank \<circ> snd \<circ> snd) (sy_closers s - {#x#}))"
proof -
  have "sy_closers s = add_mset x (sy_closers s - {#x#})" using assms by simp
  then show ?thesis unfolding close_work_def by (metis (no_types, lifting) comp_apply image_mset_add_mset sum_mset.add_mset)
qed

lemma progressI:
  "store_step s s' \<Longrightarrow> close_work s' < close_work s \<Longrightarrow> sy_leases s' = {#} \<Longrightarrow>
     \<exists>s'. store_step s s' \<and> close_work s' < close_work s \<and> sy_leases s' = {#}"
  by blast

lemma closer_kinds:
  assumes "sy_closers s \<noteq> {#}"
  obtains (retiring) owner sid r where "(owner, sid, Retiring r) \<in># sy_closers s"
  | (tearing) owner sid where "(owner, sid, Tearing) \<in># sy_closers s"
  | (draining) owner sid where "(owner, sid, Draining) \<in># sy_closers s"
  | (joining) owner sid where "(owner, sid, Joining) \<in># sy_closers s" "\<forall>x \<in># sy_closers s. snd (snd x) = Joining"
proof -
  obtain owner sid c where x: "(owner, sid, c) \<in># sy_closers s" using assms by (metis multiset_nonemptyE prod_cases3)
  show thesis
  proof (cases "\<forall>x \<in># sy_closers s. snd (snd x) = Joining")
    case True
    then show thesis using joining x by force
  next
    case False
    then obtain o' i c' where "(o', i, c') \<in># sy_closers s" "c' \<noteq> Joining" by auto
    then show thesis using retiring tearing draining by (cases c') auto
  qed
qed

lemma closer_store:
  assumes "store_inv s" and "(owner, sid, c) \<in># sy_closers s"
  obtains st where "sh_stores s sid = Some st"
  using assms store_invD(3) [OF assms(1)] by (force simp: record_sound_def)

text \<open>When only joiners are left at a store, its destroyer has finished, and they can return.\<close>

lemma joiner_ready:
  assumes inv: "store_inv s" and "(owner, sid, Joining) \<in># sy_closers s" "\<forall>x \<in># sy_closers s. snd (snd x) = Joining"
    and st: "sh_stores s sid = Some st"
  shows "\<exists>r. join_close st = Some r"
proof -
  have fit: "closers_fit st (at_store s sid)" using store_invD(1) [OF inv st] by (simp add: store_ok_def)
  have mem: "(owner, sid, Joining) \<in># at_store s sid" "\<forall>x \<in># at_store s sid. snd (snd x) = Joining"
    using assms(2,3) by (auto simp: at_store_def)
  have "\<not> sole_destroyer Draining (at_store s sid)" "\<not> sole_destroyer Tearing (at_store s sid)"
    using mem(2) by (auto simp: sole_destroyer_def)
  then obtain out where "es_state st = Closed out"
    using fit mem(1) by (cases "es_state st") (auto simp: closers_fit_def)
  then show ?thesis by (cases out) (auto simp: join_close_def)
qed

lemma ready_awake:
  assumes "waits_rightly st" and "closer \<in># sy_closers s"
    and "snd (snd closer) = Draining \<and> drained st \<or> snd (snd closer) = Joining \<and> join_close st \<noteq> None"
  shows "awake s st closer"
proof -
  have "closer \<notin># es_waiters st" using assms(1,3) by (auto simp: waits_rightly_def)
  then show ?thesis using assms(2) by (simp add: awake_def not_in_iff)
qed

lemma closer_progress:
  assumes reach: "store_reachable s" and closers: "sy_closers s \<noteq> {#}" and idle: "sy_leases s = {#}"
  shows "\<exists>s'. store_step s s' \<and> close_work s' < close_work s \<and> sy_leases s' = {#}"
proof -
  note inv = reachable_store_inv [OF reach]
  from closers show ?thesis
  proof (cases rule: closer_kinds)
    case (retiring owner sid r)
    obtain released h where ret: "retire_store owner sid s = (released, h)" by (cases "retire_store owner sid s")
    have "sy_leases h = sy_leases s" using ret by (auto simp: retire_store_def split: if_splits)
    then show ?thesis using close_work_split [OF retiring] idle
      by (intro progressI [OF store_step.retired [OF retiring ret] ]) (simp_all add: close_work_def)
  next
    case (tearing owner sid)
    obtain st where st: "sh_stores s sid = Some st" using closer_store [OF inv tearing] .
    obtain r st' where fin: "finish_close False st = (r, st')" by (cases "finish_close False st")
    show ?thesis using close_work_split [OF tearing] idle
      by (intro progressI [OF store_step.torn [OF tearing st fin] ]) (simp_all add: close_work_def)
  next
    case (draining owner sid)
    obtain st where st: "sh_stores s sid = Some st" using closer_store [OF inv draining] .
    have "active (es_state st) = 0" using store_invD(1) [OF inv st] idle by (simp add: store_ok_def)
    then have dr: "drained st" by (cases "es_state st") (auto simp: drained_def)
    have aw: "awake s st (owner, sid, Draining)" using ready_awake [OF reachable_waits [OF reach st] draining] dr by simp
    show ?thesis using close_work_split [OF draining] idle
      by (intro progressI [OF store_step.taken [OF draining st dr take_inner_def aw] ]) (simp_all add: close_work_def)
  next
    case (joining owner sid)
    obtain st where st: "sh_stores s sid = Some st" using closer_store [OF inv joining(1)] .
    obtain r where jn: "join_close st = Some r" using joiner_ready [OF inv joining st] by blast
    have aw: "awake s st (owner, sid, Joining)" using ready_awake [OF reachable_waits [OF reach st] joining(1)] jn by simp
    show ?thesis using close_work_split [OF joining(1)] idle
      by (intro progressI [OF store_step.joined [OF joining(1) st jn aw] ]) (simp_all add: close_work_def)
  qed
qed

lemma closers_finish:
  assumes "store_reachable s" and "sy_leases s = {#}"
  shows "\<exists>s'. (\<lambda>a b. store_step a b \<and> close_work b < close_work a)\<^sup>*\<^sup>* s s' \<and> sy_closers s' = {#}"
  using assms
proof (induction "close_work s" arbitrary: s rule: less_induct)
  case less
  show ?case
  proof (cases "sy_closers s = {#}")
    case False
    obtain t where t: "store_step s t" "close_work t < close_work s" "sy_leases t = {#}"
      using closer_progress [OF less.prems(1) False less.prems(2)] by blast
    then obtain s' where "(\<lambda>a b. store_step a b \<and> close_work b < close_work a)\<^sup>*\<^sup>* t s'" "sy_closers s' = {#}"
      using less.hyps [OF t(2) store_reachable.step [OF less.prems(1) t(1)] t(3)] by blast
    then show ?thesis using t(1,2) converse_rtranclp_into_rtranclp [of "\<lambda>a b. store_step a b \<and> close_work b < close_work a" s t s']
      by blast
  qed blast
qed

text \<open>
  C37 (close_returns). Closing cannot hang. No wake-up is lost: a closer that waits on the condition variable is the
  destroying one while calls still hold the store, or a joining one while the store is not closed - the last
  returning call and the finished teardown have notified all others. And once the acquired calls have returned, the close
  calls in progress, waiting, destroying and joining ones alike, can all run to their end, with no other call taking part and
  no spurious wake-up (every step on the way lowers the work the closers have left, which a wake-up does not).
\<close>

theorem close_returns:
  assumes "store_reachable s"
  shows "(\<forall>sid st closer. sh_stores s sid = Some st \<and> closer \<in># es_waiters st \<longrightarrow>
      (snd (snd closer) = Draining \<and> (\<exists>n > 0. es_state st = Closing n))
      \<or> (snd (snd closer) = Joining \<and> \<not> is_closed (es_state st)))
    \<and> (sy_leases s = {#} \<longrightarrow>
        (\<exists>s'. (\<lambda>a b. store_step a b \<and> close_work b < close_work a)\<^sup>*\<^sup>* s s' \<and> sy_closers s' = {#}))"
proof (intro conjI allI impI)
  fix sid st closer assume w: "sh_stores s sid = Some st \<and> closer \<in># es_waiters st"
  then have "snd (snd closer) = Draining \<and> \<not> drained st \<or> snd (snd closer) = Joining \<and> join_close st = None"
    using reachable_waits [OF assms] unfolding waits_rightly_def by blast
  then show "(snd (snd closer) = Draining \<and> (\<exists>n > 0. es_state st = Closing n))
      \<or> (snd (snd closer) = Joining \<and> \<not> is_closed (es_state st))"
    by (cases "es_state st") (auto simp: drained_def join_close_def split: close_outcome.splits)
qed (rule closers_finish [OF assms])

subsection \<open>A run: open, call, close while the call runs\<close>

definition sample_store :: "store_state \<Rightarrow> unit es_store" where
  "sample_store st = \<lparr>es_state = st, es_inner = Some (), es_poisoned = False, es_waiters = {#}\<rparr>"

definition sample_store_sys ::
  "store_id option \<Rightarrow> unit es_store \<Rightarrow> store_id multiset \<Rightarrow> closer multiset \<Rightarrow> unit store_sys" where
  "sample_store_sys cell st leases closers =
     \<lparr>sh_registry = [7 \<mapsto> 1], sh_cells = Map.empty(7 := cell), sh_stores = [1 \<mapsto> st], sy_leases = leases,
      sy_closers = closers, sy_destroyed = [], sy_freed = []\<rparr>"

lemmas sample_store_defs = sample_store_sys_def sample_store_def store_init_def open_store_def publish_store_def
  new_store_def set_cell_def set_store_def acquire_def linearize_close_def release_lease_def
  notify_all_def wait_changed_def

lemma store_reachable_via: "store_reachable s \<Longrightarrow> store_step s t \<Longrightarrow> t = s' \<Longrightarrow> store_reachable s'"
  by (blast intro: store_reachable.step)

lemma sample_opened: "store_reachable (sample_store_sys (Some 1) (sample_store (Open 0)) {#} {#})"
  by (rule store_reachable_via [OF start opened [of 1 _ 7 "()" "Inr ()" "sample_store_sys (Some 1) (sample_store (Open 0)) {#} {#}"] ])
    (simp_all add: sample_store_defs)

lemma sample_acquired: "store_reachable (sample_store_sys (Some 1) (sample_store (Open 1)) {#1#} {#})"
  by (rule store_reachable_via [OF sample_opened acquired [of "Some 7" _ 1 "()"
          "sample_store_sys (Some 1) (sample_store (Open 1)) {#} {#}"] ])
    (simp_all add: sample_store_defs usize_checked_add_def USIZE_MAX_def)

lemma sample_closing: "store_reachable (sample_store_sys None (sample_store (Closing 1)) {#1#} {#(7, 1, Draining)#})"
  by (rule store_reachable_via [OF sample_acquired close_started [of 7 _ 1 Destroy
          "sample_store_sys None (sample_store (Closing 1)) {#1#} {#}"] ])
    (simp_all add: sample_store_defs)

text \<open>The destroying closer waits for the running call; releasing the lease wakes it.\<close>

definition waiting_store :: "unit es_store" where
  "waiting_store = wait_changed (7, 1, Draining) (sample_store (Closing 1))"

lemma sample_waiting: "store_reachable (sample_store_sys None waiting_store {#1#} {#(7, 1, Draining)#})"
  by (rule store_reachable_via [OF sample_closing drain_waits [of _ 1 "sample_store (Closing 1)" 7] ])
    (simp_all add: sample_store_defs waiting_store_def drained_def awake_def)

lemma sample_drained: "store_reachable (sample_store_sys None (sample_store (Closing 0)) {#} {#(7, 1, Draining)#})"
  by (rule store_reachable_via [OF sample_waiting released [of 1 _ waiting_store] ])
    (simp_all add: sample_store_defs waiting_store_def)

theorem store_teardown_exclusive_witness:
  "acquire (Some 7) (sample_store_sys None (sample_store (Closing 1)) {#1#} {#(7, 1, Draining)#})
     = Inl (State ''store is closed'')
   \<and> es_poisoned (release_lease (sample_store (Closing 1))) = False"
  using store_teardown_exclusive [OF sample_closing, of 1 "sample_store (Closing 1)" 7]
  by (simp add: sample_store_sys_def) (simp add: sample_store_def)

theorem close_returns_witness:
  "(7, 1, Draining) \<in># es_waiters waiting_store \<and> (\<exists>n > 0. es_state waiting_store = Closing n)
   \<and> (\<exists>s'. (\<lambda>a b. store_step a b \<and> close_work b < close_work a)\<^sup>*\<^sup>*
        (sample_store_sys None (sample_store (Closing 0)) {#} {#(7, 1, Draining)#}) s' \<and> sy_closers s' = {#})"
proof -
  have w: "(7, 1, Draining) \<in># es_waiters waiting_store" by (simp add: waiting_store_def)
  have "sh_stores (sample_store_sys None waiting_store {#1#} {#(7, 1, Draining)#}) 1 = Some waiting_store"
      "sy_leases (sample_store_sys None (sample_store (Closing 0)) {#} {#(7, 1, Draining)#}) = {#}"
    by (simp_all add: sample_store_sys_def)
  then show ?thesis using close_returns [OF sample_waiting] close_returns [OF sample_drained] w by fastforce
qed

end
