(* ===== verification/Job_Queue.thy ===== *)
theory Job_Queue
  imports Job_Backend "HOL-Library.Sublist"
begin

text \<open>
  The job queue as a read model of the job streams. \<open>queue_db_ok\<close> relates each \<open>job_queue\<close> row to the event
  stream of its job, and each operation of the previous theories is shown to do one of two things to a
  job: change nothing but its lease (\<open>job_same\<close>), or append one event to its stream (\<open>job_appends\<close>).

  \<open>wrap\<close> stands for the part of cqrs-es that turns new events into serialized ones (\<open>wrap_contract\<close>).
\<close>

section \<open>Streams and rows\<close>

definition job_projection :: "(int \<Rightarrow> bool) \<Rightarrow> (job_state, job_command, job_event, job_error) projection" where
  "job_projection tr = \<lparr>pj_entity = job_entity,
     pj_enc = lifecycle_to_json job_state_to_json job_event_to_json job_error_to_json,
     pj_dec = job_lifecycle_from_json tr, pj_dec_event = job_event_from_json tr\<rparr>"

definition job_rows :: "db \<Rightarrow> string \<Rightarrow> event_row list" where
  "job_rows d j = filter (in_stream JOB_AGGREGATE_TYPE j) (events d)"

definition decode_job_row :: "(int \<Rightarrow> bool) \<Rightarrow> event_row \<Rightarrow> job_event option" where
  "decode_job_row tr r = Option.bind (from_text (er_payload r)) (job_event_from_json tr)"

definition job_stream :: "(int \<Rightarrow> bool) \<Rightarrow> db \<Rightarrow> string \<Rightarrow> job_event list" where
  "job_stream tr d j = List.map_filter (decode_job_row tr) (job_rows d j)"

definition queue_row :: "db \<Rightarrow> string \<Rightarrow> view_row option" where
  "queue_row d j = tbl_get vw_id j (job_queue d)"

definition claim_ids :: "job_event list \<Rightarrow> string list" where
  "claim_ids evs = map ev_claim_id (filter is_claim evs)"

type_synonym job_wrap = "string \<Rightarrow> nat \<Rightarrow> job_event list \<Rightarrow> serialized_event list"

text \<open>
  cqrs-es' documented wrapping: consecutive sequences after the loaded version, the aggregate's type and
  id, and the event's JSON as the payload.
\<close>

definition wrap_contract :: "job_wrap \<Rightarrow> bool" where
  "wrap_contract wrap \<longleftrightarrow>
     (\<forall>j n evs. list_all2 (\<lambda>s (k, e). se_aggregate_id s = j \<and> se_aggregate_type s = JOB_AGGREGATE_TYPE
        \<and> se_sequence s = n + k + 1 \<and> se_payload s = job_event_to_json e)
      (wrap j n evs) (zip [0..<length evs] evs))"

definition valid_command :: "(int \<Rightarrow> bool) \<Rightarrow> job_command \<Rightarrow> bool" where
  "valid_command tr cmd = valid_job_event tr (ack_event cmd)"

section \<open>The invariant\<close>

text \<open>
  A row is the fold of a prefix of its stream that is complete or lacks exactly the last event, and the
  missing event is then never a claim.
\<close>

definition row_ok :: "(int \<Rightarrow> bool) \<Rightarrow> db \<Rightarrow> string \<Rightarrow> bool" where
  "row_ok tr d j =
     (case queue_row d j of
        None \<Rightarrow> job_rows d j = []
      | Some r \<Rightarrow>
          (\<exists>n > 0. vw_version r = int n \<and> vw_payload r = job_payload (job_fold (take n (job_stream tr d j)))
             \<and> (n = length (job_stream tr d j)
                \<or> Suc n = length (job_stream tr d j) \<and> \<not> is_claim (last (job_stream tr d j)))))"

definition stream_wf :: "(int \<Rightarrow> bool) \<Rightarrow> db \<Rightarrow> string \<Rightarrow> bool" where
  "stream_wf tr d j \<longleftrightarrow>
     map er_seq (job_rows d j) = map int [1..<Suc (length (job_stream tr d j))]
     \<and> (job_stream tr d j \<noteq> [] \<longrightarrow> (\<exists>st. job_fold (job_stream tr d j) = Live st))
     \<and> distinct (claim_ids (job_stream tr d j))"

definition queue_db_ok :: "(int \<Rightarrow> bool) \<Rightarrow> db \<Rightarrow> bool" where
  "queue_db_ok tr d \<longleftrightarrow> db_keys_unique d \<and> (\<forall>j. \<forall>r \<in> set (job_rows d j). in_i64 (er_seq r))
     \<and> (\<forall>j. stream_wf tr d j \<and> row_ok tr d j)"

section \<open>One job at a time\<close>

lemma map_filter_snoc:
  "List.map_filter f (xs @ [x]) = List.map_filter f xs @ (case f x of None \<Rightarrow> [] | Some y \<Rightarrow> [y])"
  by (auto simp: List.map_filter_def split: option.splits)

lemma job_stream_rows: "job_rows d' j = job_rows d j \<Longrightarrow> job_stream tr d' j = job_stream tr d j"
  by (simp add: job_stream_def)

lemma job_rows_length: "stream_wf tr d j \<Longrightarrow> length (job_rows d j) = length (job_stream tr d j)"
  by (metis diff_Suc_1 length_map length_upt stream_wf_def)

lemma decode_written:
  "se_payload s = job_event_to_json e \<Longrightarrow> valid_job_event tr e \<Longrightarrow> decode_job_row tr (event_row_of s) = Some e"
  by (simp add: decode_job_row_def job_event_codec.dec_enc)

text \<open>What an operation may do to one job: nothing but its lease, or append one event.\<close>

definition job_same :: "db \<Rightarrow> db \<Rightarrow> string \<Rightarrow> bool" where
  "job_same d d' j \<longleftrightarrow> job_rows d' j = job_rows d j
     \<and> map_option (\<lambda>r. (vw_version r, vw_payload r)) (queue_row d' j) =
        map_option (\<lambda>r. (vw_version r, vw_payload r)) (queue_row d j)"

definition job_appends :: "(int \<Rightarrow> bool) \<Rightarrow> db \<Rightarrow> db \<Rightarrow> string \<Rightarrow> job_event \<Rightarrow> bool" where
  "job_appends tr d d' j e \<longleftrightarrow>
     (\<exists>row. job_rows d' j = job_rows d j @ [row] \<and> decode_job_row tr row = Some e
        \<and> er_seq row = int (Suc (length (job_stream tr d j))))"

lemma job_appends_stream: "job_appends tr d d' j e \<Longrightarrow> job_stream tr d' j = job_stream tr d j @ [e]"
  by (auto simp: job_appends_def job_stream_def map_filter_snoc)

lemma stream_wf_appends:
  assumes "stream_wf tr d j" and "job_appends tr d d' j e"
    and "job_fold (job_stream tr d j @ [e]) = Live st"
    and "is_claim e \<longrightarrow> ev_claim_id e \<notin> set (claim_ids (job_stream tr d j))"
  shows "stream_wf tr d' j"
  using assms job_appends_stream [OF assms(2)]
  by (auto simp: stream_wf_def job_appends_def claim_ids_def simp del: job_fold_snoc)

lemma row_ok_same: "job_same d d' j \<Longrightarrow> row_ok tr d j \<Longrightarrow> row_ok tr d' j"
  using job_stream_rows [of d' j d tr]
  by (auto simp: job_same_def row_ok_def split: option.splits)

lemma stream_wf_same: "job_same d d' j \<Longrightarrow> stream_wf tr d j \<Longrightarrow> stream_wf tr d' j"
  using job_stream_rows [of d' j d tr] by (simp add: job_same_def stream_wf_def)

lemma row_ok_written:
  assumes "job_appends tr d d' j e" and "job_fold (job_stream tr d j @ [e]) = Live st"
    and "queue_row d' j = Some r" and "vw_version r = int (Suc (length (job_stream tr d j)))"
    and "vw_payload r = job_payload (Live st)"
  shows "row_ok tr d' j"
  using assms job_appends_stream [OF assms(1)]
  by (auto simp: row_ok_def simp del: job_fold_snoc intro!: exI [of _ "Suc (length (job_stream tr d j))"])

lemma row_ok_lags:
  assumes "job_appends tr d d' j e" and "\<not> is_claim e"
    and "queue_row d' j = Some r" and "job_stream tr d j \<noteq> []"
    and "vw_version r = int (length (job_stream tr d j))"
    and "vw_payload r = job_payload (job_fold (job_stream tr d j))"
  shows "row_ok tr d' j"
  using assms job_appends_stream [OF assms(1)]
  by (auto simp: row_ok_def intro!: exI [of _ "length (job_stream tr d j)"])

lemma seq_taken:
  assumes "stream_wf tr d j" and "0 < k" and "k \<le> length (job_stream tr d j)"
  shows "(JOB_AGGREGATE_TYPE, j, int k) \<in> event_pk ` set (events d)"
proof -
  have "int k \<in> set (map int [1..<Suc (length (job_stream tr d j))])" using assms(2,3) by auto
  then have "int k \<in> set (map er_seq (job_rows d j))" using assms(1) by (metis stream_wf_def)
  then obtain r where "r \<in> set (job_rows d j)" "er_seq r = int k" by auto
  then have "r \<in> set (events d)" "event_pk r = (JOB_AGGREGATE_TYPE, j, int k)"
    by (auto simp: job_rows_def in_stream_def event_pk_def)
  then show ?thesis by (metis imageI)
qed

lemma fresh_seq_is_next:
  assumes "stream_wf tr d j" and "(JOB_AGGREGATE_TYPE, j, int (Suc n)) \<notin> event_pk ` set (events d)"
    and "n \<le> length (job_stream tr d j)"
  shows "n = length (job_stream tr d j)"
  using seq_taken [OF assms(1), of "Suc n"] assms(2,3) by fastforce

text \<open>Appending one row of a job's stream to the events table.\<close>

lemma job_rows_snoc:
  "job_rows (d\<lparr>events := events d @ [r], job_queue := q\<rparr>) i =
     job_rows d i @ (if in_stream JOB_AGGREGATE_TYPE i r then [r] else [])"
  by (simp add: job_rows_def)

lemma append_event_effect:
  assumes "se_aggregate_type s = JOB_AGGREGATE_TYPE" and "se_aggregate_id s = j"
    and "se_sequence s = Suc (length (job_stream tr d j))" and "se_payload s = job_event_to_json e"
    and "valid_job_event tr e" and "events d' = events d @ [event_row_of s]"
  shows "job_appends tr d d' j e" and "i \<noteq> j \<Longrightarrow> job_rows d' i = job_rows d i"
  using assms decode_written [OF assms(4,5)] by (auto simp: job_appends_def job_rows_def)

section \<open>The database invariant, operation by operation\<close>

lemma queue_db_okD:
  assumes "queue_db_ok tr d"
  shows "db_keys_unique d" "stream_wf tr d j" "row_ok tr d j"
  using assms by (simp_all add: queue_db_ok_def)

lemma queue_db_okI_append:
  assumes "queue_db_ok tr d" and "db_keys_unique d'" and "\<And>i. i \<noteq> j \<Longrightarrow> job_same d d' i"
    and "job_appends tr d d' j e" and "job_fold (job_stream tr d j @ [e]) = Live st"
    and "is_claim e \<longrightarrow> ev_claim_id e \<notin> set (claim_ids (job_stream tr d j))"
    and "in_i64 (int (Suc (length (job_stream tr d j))))" and "row_ok tr d' j"
  shows "queue_db_ok tr d'"
  unfolding queue_db_ok_def
proof (intro conjI allI)
  show "db_keys_unique d'" by (rule assms(2))
  fix i
  show "\<forall>r \<in> set (job_rows d' i). in_i64 (er_seq r)"
  proof (cases "i = j")
    case True
    then show ?thesis using assms(1,4,7) by (auto simp: job_appends_def queue_db_ok_def)
  next
    case False
    then show ?thesis using assms(1,3) by (auto simp: job_same_def queue_db_ok_def)
  qed
  show "stream_wf tr d' i"
    using stream_wf_appends [OF queue_db_okD(2) [OF assms(1)] assms(4,5,6)]
      stream_wf_same assms(3) queue_db_okD(2) [OF assms(1)] by (cases "i = j") blast+
  show "row_ok tr d' i"
    using assms(8) row_ok_same assms(3) queue_db_okD(3) [OF assms(1)] by (cases "i = j") blast+
qed

lemma queue_db_okI_same:
  assumes "queue_db_ok tr d" and "db_keys_unique d'" and "\<And>i. job_same d d' i"
  shows "queue_db_ok tr d'"
  using assms row_ok_same stream_wf_same
  unfolding queue_db_ok_def job_same_def by (auto simp: job_same_def)

lemma append_job_event_Some:
  "append_job_event ev d = Inr (Some (v, tx)) \<longleftrightarrow>
     seq_fits ev \<and> event_pk (event_row_of ev) \<notin> event_pk ` set (events d)
     \<and> v = int (se_sequence ev) \<and> tx = d\<lparr>events := events d @ [event_row_of ev]\<rparr>"
  by (auto simp: append_job_event_def insert_batch_single seq_fits_def split: if_splits)

lemma queue_row_written:
  "queue_row (write_job_projection j v p l tx) i =
     (if i = j then Some \<lparr>vw_id = j, vw_version = v, vw_payload = p, vw_lease = l\<rparr> else queue_row tx i)"
  by (simp add: queue_row_def write_job_projection_def jq.get_put)

text \<open>Appending a job event and writing its row, which claims, abandons and enqueues do.\<close>

lemma append_and_write:
  assumes "append_job_event (serialized e j n) d = Inr (Some (v, tx))"
    and "n = Suc (length (job_stream tr d j))" and "valid_job_event tr e" and "db_keys_unique d"
    and d'_def: "d' = write_job_projection j v p l tx"
  shows "job_appends tr d d' j e" "\<And>i. i \<noteq> j \<Longrightarrow> job_same d d' i" "db_keys_unique d'"
    "queue_row d' j = Some \<lparr>vw_id = j, vw_version = int n, vw_payload = p, vw_lease = l\<rparr>"
    "in_i64 (int n)"
proof -
  let ?s = "serialized e j n"
  have a: "seq_fits ?s" "event_pk (event_row_of ?s) \<notin> event_pk ` set (events d)" "v = int n"
      "tx = d\<lparr>events := events d @ [event_row_of ?s]\<rparr>"
    using assms(1) by (simp_all add: append_job_event_Some)
  have ev: "events d' = events d @ [event_row_of ?s]"
    using a(4) by (simp add: d'_def write_job_projection_def)
  show "job_appends tr d d' j e" "\<And>i. i \<noteq> j \<Longrightarrow> job_same d d' i"
    using append_event_effect [where s = ?s and e = e and d' = d', OF _ _ _ _ assms(3) ev] assms(2) a(4)
    by (auto simp: job_same_def d'_def queue_row_def write_job_projection_def jq.get_put)
  show "db_keys_unique d'"
  proof -
    have "tbl_unique event_pk (events d')"
      using assms(4) a(2) ev by (auto simp: db_keys_unique_def tbl_unique_def)
    moreover have "tbl_unique vw_id (job_queue d')"
      using assms(4) a(4) by (simp add: db_keys_unique_def d'_def write_job_projection_def jq.invar_put)
    moreover have "snapshots d' = snapshots d"
      using a(4) by (simp add: d'_def write_job_projection_def)
    ultimately show ?thesis using assms(4) by (simp add: db_keys_unique_def)
  qed
  show "queue_row d' j = Some \<lparr>vw_id = j, vw_version = int n, vw_payload = p, vw_lease = l\<rparr>"
    using a(3) by (simp add: d'_def queue_row_written)
  show "in_i64 (int n)" using a(1) by (simp add: seq_fits_def in_i64_def I64_MIN_def)
qed

lemma claim_job_cases:
  assumes "claim_job j plan d = Inr (outcome, d')"
  obtains (none) "d' = d" "outcome = Contended \<or> outcome = Skipped"
  | (won) ev cell until won v tx where
      "plan (read_job_projection_for_claim j d) = Claim ev cell until won" "outcome = Won won"
      "append_job_event ev d = Inr (Some (v, tx))" "d' = write_job_projection j v cell (Some until) tx"
  | (abandoned) ev cell v tx where
      "plan (read_job_projection_for_claim j d) = Abandon ev cell" "outcome = AbandonedOutcome"
      "append_job_event ev d = Inr (Some (v, tx))" "d' = write_job_projection j v cell None tx"
  using assms
  by (auto simp: claim_job_unfold claim_job_in_transaction_def
      split: claim_decision.splits option.splits prod.splits claim_outcome.splits)

lemma claim_job_as_Inr:
  "claim_job_as tr fresh j worker now lease budget d = Inr (result, d') \<Longrightarrow>
     \<exists>outcome. claim_job j (\<lambda>read. plan_claim tr fresh j read worker now lease budget) d = Inr (outcome, d')
       \<and> result = claim_result_of j outcome"
  by (auto simp: claim_job_as_def Let_def split: if_splits prod.splits)

text \<open>The row a claim read is current: an append at its next sequence only succeeds then.\<close>

lemma claimed_row_current:
  assumes "queue_db_ok tr d" and "queue_row d j = Some r"
    and "(JOB_AGGREGATE_TYPE, j, vw_version r + 1) \<notin> event_pk ` set (events d)"
  shows "vw_version r = int (length (job_stream tr d j))"
    and "vw_payload r = job_payload (job_fold (job_stream tr d j))"
    and "job_stream tr d j \<noteq> []"
proof -
  obtain n where n: "0 < n" "vw_version r = int n"
      "vw_payload r = job_payload (job_fold (take n (job_stream tr d j)))" "n \<le> length (job_stream tr d j)"
    using queue_db_okD(3) [OF assms(1), of j] assms(2) by (auto simp: row_ok_def)
  have "(JOB_AGGREGATE_TYPE, j, int (Suc n)) \<notin> event_pk ` set (events d)"
    using assms(3) n(2) by (simp add: add.commute)
  then have "n = length (job_stream tr d j)"
    using fresh_seq_is_next queue_db_okD(2) [OF assms(1)] n(4) by blast
  then show "vw_version r = int (length (job_stream tr d j))"
    and "vw_payload r = job_payload (job_fold (job_stream tr d j))" and "job_stream tr d j \<noteq> []"
    using n by auto
qed

text \<open>
  What a claim does in a consistent database: nothing, or it appends one event to a current stream and
  writes the row that is the new fold.
\<close>

definition claim_effect :: "(int \<Rightarrow> bool) \<Rightarrow> db \<Rightarrow> db \<Rightarrow> string \<Rightarrow> job_event \<Rightarrow> bool" where
  "claim_effect tr d d' j e \<longleftrightarrow>
     job_appends tr d d' j e \<and> (\<forall>i. i \<noteq> j \<longrightarrow> job_same d d' i) \<and> db_keys_unique d'
     \<and> in_i64 (int (Suc (length (job_stream tr d j))))
     \<and> (\<exists>r. queue_row d j = Some r \<and> vw_version r = int (length (job_stream tr d j)))
     \<and> (\<exists>st r'. job_fold (job_stream tr d j @ [e]) = Live st \<and> queue_row d' j = Some r'
          \<and> vw_version r' = int (Suc (length (job_stream tr d j))) \<and> vw_payload r' = job_payload (Live st))"

lemma claim_effect_ok:
  assumes "queue_db_ok tr d" and "claim_effect tr d d' j e"
    and "is_claim e \<longrightarrow> ev_claim_id e \<notin> set (claim_ids (job_stream tr d j))"
  shows "queue_db_ok tr d'"
proof -
  obtain st r' where st: "job_fold (job_stream tr d j @ [e]) = Live st" "queue_row d' j = Some r'"
      "vw_version r' = int (Suc (length (job_stream tr d j)))" "vw_payload r' = job_payload (Live st)"
    using assms(2) by (auto simp: claim_effect_def)
  have a: "job_appends tr d d' j e" "db_keys_unique d'" "\<And>i. i \<noteq> j \<Longrightarrow> job_same d d' i"
      "in_i64 (int (Suc (length (job_stream tr d j))))"
    using assms(2) by (auto simp: claim_effect_def)
  show ?thesis
    using queue_db_okI_append [OF assms(1) a(2,3,1) st(1) assms(3) a(4)] row_ok_written [OF a(1) st]
    by blast
qed

lemma read_for_claim:
  "read_job_projection_for_claim j d =
     map_option (\<lambda>r. \<lparr>cr_version = vw_version r, cr_payload = vw_payload r, cr_lease = vw_lease r\<rparr>) (queue_row d j)"
  by (simp add: read_job_projection_for_claim_def queue_row_def)

lemma row_version_i64:
  assumes "queue_db_ok tr d" and "queue_row d j = Some r"
  shows "in_i64 (vw_version r) \<and> 0 < vw_version r"
proof -
  obtain n where n: "0 < n" "vw_version r = int n" "n \<le> length (job_stream tr d j)"
    using queue_db_okD(3) [OF assms(1), of j] assms(2) by (auto simp: row_ok_def)
  have "(JOB_AGGREGATE_TYPE, j, int n) \<in> event_pk ` set (events d)"
    using seq_taken [OF queue_db_okD(2) [OF assms(1)] n(1,3)] .
  then obtain row where "row \<in> set (events d)" "event_pk row = (JOB_AGGREGATE_TYPE, j, int n)" by fastforce
  then have "row \<in> set (job_rows d j)" "er_seq row = int n"
    by (simp_all add: event_pk_def job_rows_def in_stream_def)
  then have "in_i64 (er_seq row)" "er_seq row = int n" using assms(1) unfolding queue_db_ok_def by blast+
  then show ?thesis using n by simp
qed

lemma job_event_from_json_valid: "job_event_from_json tr j = Some e \<Longrightarrow> valid_job_event tr e"
  by (auto simp: job_event_from_json_def field_as_def bind_eq_Some_conv
      dest!: ts_from_json_Some split: option.splits if_splits)

lemma job_stream_valid: "list_all (valid_job_event tr) (job_stream tr d j)"
  by (auto simp: list_all_iff job_stream_def List.map_filter_def decode_job_row_def bind_eq_Some_conv
      intro: job_event_from_json_valid)

lemma job_evolve_valid:
  "job_evolve s e = Inr (Some s') \<Longrightarrow> valid_job_state tr s \<Longrightarrow> valid_job_event tr e \<Longrightarrow> valid_job_state tr s'"
  by (elim job_evolve_Some) auto

lemma job_fold_valid:
  "job_fold evs = Live s \<Longrightarrow> list_all (valid_job_event tr) evs \<Longrightarrow> valid_job_state tr s"
proof (induction evs arbitrary: s rule: rev_induct)
  case (snoc e evs)
  from snoc.prems(1) show ?case
    unfolding job_fold_snoc apply_job_Live
  proof (elim disjE exE conjE)
    assume "job_originate e = Some s"
    then show ?thesis using snoc.prems(2) by (auto simp: job_originate_Some)
  next
    fix s0
    assume "job_fold evs = Live s0" and "job_evolve s0 e = Inr (Some s)"
    then show ?thesis using snoc.IH [of s0] snoc.prems(2) job_evolve_valid by auto
  qed
qed simp

lemma plan_appends:
  assumes "queue_db_ok tr d" and "queue_row d j = Some r"
    and "read_job_payload tr (vw_payload r) = Some (Live st)" and "job_evolve st e = Inr (Some st')"
    and "append_job_event (serialized e j (nat (vw_version r + 1))) d = Inr (Some (v, tx))"
    and "valid_job_event tr e" and "d' = write_job_projection j v (job_payload (Live st')) l tx"
  shows "claim_effect tr d d' j e \<and> job_fold (job_stream tr d j) = Live st"
proof -
  have "(JOB_AGGREGATE_TYPE, j, vw_version r + 1) \<notin> event_pk ` set (events d)"
    using assms(5) row_version_i64 [OF assms(1,2)] by (simp add: append_job_event_Some event_pk_def)
  note cur = claimed_row_current [OF assms(1,2) this]
  obtain s where s: "job_fold (job_stream tr d j) = Live s"
    using queue_db_okD(2) [OF assms(1)] cur(3) by (auto simp: stream_wf_def)
  have n: "nat (vw_version r + 1) = Suc (length (job_stream tr d j))" using cur(1) by simp
  note w = append_and_write [OF assms(5) n assms(6) queue_db_okD(1) [OF assms(1)] assms(7)]
  have "s = st"
    using assms(3) cur(2) s job_fold_valid [OF s job_stream_valid] by simp
  then have fold: "job_fold (job_stream tr d j @ [e]) = Live st'" using s assms(4) by simp
  have "claim_effect tr d d' j e"
    unfolding claim_effect_def
  proof (intro conjI allI impI exI)
    show "job_appends tr d d' j e" "db_keys_unique d'" by (fact w)+
    show "job_same d d' i" if "i \<noteq> j" for i using w(2) that .
    show "in_i64 (int (Suc (length (job_stream tr d j))))" using w(5) n by simp
    show "queue_row d j = Some r" "vw_version r = int (length (job_stream tr d j))" by (fact assms(2) cur(1))+
    show "job_fold (job_stream tr d j @ [e]) = Live st'" by (fact fold)
    show "queue_row d' j = Some \<lparr>vw_id = j, vw_version = int (Suc (length (job_stream tr d j))),
        vw_payload = job_payload (Live st'), vw_lease = l\<rparr>" using w(4) n by simp
  qed simp_all
  then show ?thesis using s \<open>s = st\<close> by simp
qed

abbreviation (input) claim_row :: "view_row \<Rightarrow> claim_read" where
  "claim_row r \<equiv> \<lparr>cr_version = vw_version r, cr_payload = vw_payload r, cr_lease = vw_lease r\<rparr>"

lemma planned_row:
  assumes "plan_claim tr fresh j (read_job_projection_for_claim j d) worker now lease budget = decision"
    and "decision \<noteq> Skip"
  obtains r where "queue_row d j = Some r" "plan_claim tr fresh j (Some (claim_row r)) worker now lease budget = decision"
  using assms by (cases "queue_row d j") (auto simp: read_for_claim plan_claim_def)

lemma claimed_effect:
  assumes ok: "queue_db_ok tr d" and r: "queue_row d j = Some r"
    and plan: "plan_claim tr fresh j (Some (claim_row r)) worker now lease budget = Claim ev cell until won"
    and app: "append_job_event ev d = Inr (Some (v, tx))" and d': "d' = write_job_projection j v cell (Some until) tx"
  shows "\<exists>st. claim_effect tr d d' j (EvClaimed worker fresh (now + lease)) \<and> job_fold (job_stream tr d j) = Live st
    \<and> runnable st (vw_lease r) now \<and> wc_claim_seq won = int (Suc (length (job_stream tr d j))) \<and> wc_claim_id won = fresh"
proof (rule plan_claim_Claim [OF plan])
  show "in_i64 (cr_version (claim_row r))" using row_version_i64 [OF ok r] by simp
  fix st kind payload run_at attempt claims
  assume p: "read_job_payload tr (cr_payload (claim_row r)) = Some (Live st)" "runnable st (cr_lease (claim_row r)) now"
    "claim_parts st = Some (kind, payload, run_at, attempt, claims)" "until = now + lease"
    "valid_ts tr until" "ev = serialized (EvClaimed worker fresh until) j (nat (cr_version (claim_row r) + 1))"
    "cell = job_payload (Live (StClaimed kind payload worker fresh run_at attempt (claims + 1)))"
    "won = \<lparr>wc_claim_seq = cr_version (claim_row r) + 1, wc_claim_id = fresh, wc_attempt = attempt, wc_args = payload\<rparr>"
  have eff: "claim_effect tr d d' j (EvClaimed worker fresh until) \<and> job_fold (job_stream tr d j) = Live st"
    using plan_appends [OF ok r _ claim_parts_evolve(1) [OF p(3)]] p app d' by simp
  then have "vw_version r = int (length (job_stream tr d j))" using r by (auto simp: claim_effect_def)
  then show ?thesis using eff p by auto
qed

lemma abandoned_effect:
  assumes ok: "queue_db_ok tr d" and r: "queue_row d j = Some r"
    and plan: "plan_claim tr fresh j (Some (claim_row r)) worker now lease budget = Abandon ev cell"
    and app: "append_job_event ev d = Inr (Some (v, tx))" and d': "d' = write_job_projection j v cell None tx"
  shows "\<exists>st. claim_effect tr d d' j (EvDead Abandoned ''claim budget exhausted'')
    \<and> job_fold (job_stream tr d j) = Live st \<and> runnable st (vw_lease r) now"
proof (rule plan_claim_Abandon [OF plan])
  show "in_i64 (cr_version (claim_row r))" using row_version_i64 [OF ok r] by simp
  fix st kind payload run_at attempt claims
  assume p: "read_job_payload tr (cr_payload (claim_row r)) = Some (Live st)" "runnable st (cr_lease (claim_row r)) now"
    "claim_parts st = Some (kind, payload, run_at, attempt, claims)"
    "ev = serialized (EvDead Abandoned ''claim budget exhausted'') j (nat (cr_version (claim_row r) + 1))"
    "cell = job_payload (Live (StDead Abandoned))"
  then show ?thesis using plan_appends [OF ok r _ claim_parts_evolve(2) [OF p(3)]] app d' by auto
qed

lemma claim_step:
  assumes "queue_db_ok tr d" and "claim_job_as tr fresh j worker now lease budget d = Inr (result, d')"
  shows "(d' = d \<and> (result = RContended \<or> result = RSkipped))
    \<or> (\<exists>st r claimed. claim_effect tr d d' j (EvClaimed worker fresh (now + lease))
         \<and> job_fold (job_stream tr d j) = Live st \<and> queue_row d j = Some r
         \<and> runnable st (vw_lease r) now \<and> result = RClaimed claimed
         \<and> jh_claim_seq (cj_handle claimed) = int (Suc (length (job_stream tr d j)))
         \<and> jh_claim_id (cj_handle claimed) = fresh)
    \<or> (\<exists>st r. claim_effect tr d d' j (EvDead Abandoned ''claim budget exhausted'')
         \<and> job_fold (job_stream tr d j) = Live st \<and> queue_row d j = Some r
         \<and> runnable st (vw_lease r) now \<and> result = RAbandoned)"
proof -
  obtain outcome where c: "claim_job j (\<lambda>read. plan_claim tr fresh j read worker now lease budget) d = Inr (outcome, d')"
    and res: "result = claim_result_of j outcome"
    using claim_job_as_Inr [OF assms(2)] by blast
  from c show ?thesis
  proof (cases rule: claim_job_cases)
    case none
    then show ?thesis using res by (auto simp: claim_result_of_def)
  next
    case (won ev cell until won v tx)
    then obtain r where r: "queue_row d j = Some r"
        "plan_claim tr fresh j (Some (claim_row r)) worker now lease budget = Claim ev cell until won"
      using planned_row [of tr fresh j d] by blast
    show ?thesis
      using claimed_effect [OF assms(1) r won(3,4)] r(1) won(2) res
      by (intro disjI2 disjI1) (auto simp: claim_result_of_def)
  next
    case (abandoned ev cell v tx)
    then obtain r where r: "queue_row d j = Some r"
        "plan_claim tr fresh j (Some (claim_row r)) worker now lease budget = Abandon ev cell"
      using planned_row [of tr fresh j d] by blast
    show ?thesis
      using abandoned_effect [OF assms(1) r abandoned(3,4)] r(1) abandoned(2) res
      by (intro disjI2) (auto simp: claim_result_of_def)
  qed
qed

end
