(* ===== verification/Job_Queue_Ops.thy ===== *)
theory Job_Queue_Ops
  imports Job_Queue
begin

text \<open>
  Each operation on the job queue, one at a time: seeding a job (standalone or with a domain commit),
  renewing a lease, committing a settlement, reacting to it and catching up. Every lemma says what the
  operation leaves of \<open>queue_db_ok\<close> and what it does to the streams and rows of the jobs.
\<close>

section \<open>Seeding\<close>

text \<open>An operation that only adds new jobs leaves the ones that exist alone.\<close>

definition keeps_jobs :: "(int \<Rightarrow> bool) \<Rightarrow> db \<Rightarrow> db \<Rightarrow> bool" where
  "keeps_jobs tr d d' \<longleftrightarrow> (\<forall>j. job_stream tr d j \<noteq> [] \<longrightarrow> job_same d d' j)"

lemma job_same_refl [simp]: "job_same d d j"
  by (simp add: job_same_def)

lemma job_same_trans: "job_same d d1 j \<Longrightarrow> job_same d1 d2 j \<Longrightarrow> job_same d d2 j"
  by (simp add: job_same_def)

lemma job_same_stream: "job_same d d' j \<Longrightarrow> job_stream tr d' j = job_stream tr d j"
  using job_stream_rows [of d' j d tr] by (simp add: job_same_def)

lemma keeps_jobs_trans: "keeps_jobs tr d d1 \<Longrightarrow> keeps_jobs tr d1 d2 \<Longrightarrow> keeps_jobs tr d d2"
  unfolding keeps_jobs_def
proof (intro allI impI)
  fix j
  assume a: "\<forall>j. job_stream tr d j \<noteq> [] \<longrightarrow> job_same d d1 j" "\<forall>j. job_stream tr d1 j \<noteq> [] \<longrightarrow> job_same d1 d2 j"
    and ne: "job_stream tr d j \<noteq> []"
  then have "job_same d d1 j" by blast
  moreover from this have "job_same d1 d2 j" using a(2) ne by (simp add: job_same_stream)
  ultimately show "job_same d d2 j" by (rule job_same_trans)
qed

lemma seed_ok:
  assumes "queue_db_ok tr d" and "valid_ts tr (eq_run_at_ms r)"
    and "event_pk (event_row_of (enqueued_of r)) \<notin> event_pk ` set (events d)"
    and ev: "events d' = events d @ [event_row_of (enqueued_of r)]" and "db_keys_unique d'"
    and row: "\<And>i. queue_row d' i = (if i = eq_job_id r then Some (seed_row r) else queue_row d i)"
  shows "queue_db_ok tr d'" "keeps_jobs tr d d'" "job_stream tr d (eq_job_id r) = []"
    "job_stream tr d' (eq_job_id r) = [EvEnqueued (eq_kind r) (eq_payload r) (eq_run_at_ms r)]"
proof -
  let ?j = "eq_job_id r" and ?e = "EvEnqueued (eq_kind r) (eq_payload r) (eq_run_at_ms r)"
  have "(JOB_AGGREGATE_TYPE, ?j, int (Suc 0)) \<notin> event_pk ` set (events d)"
    using assms(3) by (simp add: event_pk_def)
  then show empty: "job_stream tr d ?j = []"
    using fresh_seq_is_next [OF queue_db_okD(2) [OF assms(1)]] by fastforce
  have app: "job_appends tr d d' ?j ?e" and rows: "\<And>i. i \<noteq> ?j \<Longrightarrow> job_rows d' i = job_rows d i"
    using append_event_effect [where s = "enqueued_of r" and e = ?e and d' = d', OF _ _ _ _ _ ev]
      empty assms(2) by (simp_all add: enqueued_of_def)
  have same: "job_same d d' i" if "i \<noteq> ?j" for i
    using that rows row by (simp add: job_same_def)
  then show "keeps_jobs tr d d'" using empty unfolding keeps_jobs_def by metis
  have fold: "job_fold (job_stream tr d ?j @ [?e]) = Live (StPending (eq_kind r) (eq_payload r) (eq_run_at_ms r) 0 0)"
    by (simp add: empty job_fold_def)
  show "job_stream tr d' ?j = [?e]" using job_appends_stream [OF app] empty by simp
  show "queue_db_ok tr d'"
  proof (rule queue_db_okI_append [OF assms(1,5) same app fold])
    show "row_ok tr d' ?j"
      using row_ok_written [OF app fold, of "seed_row r"] row by (simp add: seed_row_def empty)
  qed (simp_all add: empty i64_simps)
qed

lemma enqueue_job_payload_Inr:
  assumes "enqueue_job_payload tr j kind payload run_at d = Inr d'"
  defines "r \<equiv> \<lparr>eq_job_id = j, eq_kind = kind, eq_payload = payload, eq_run_at_ms = run_at\<rparr>"
  shows "tr run_at" "event_pk (event_row_of (enqueued_of r)) \<notin> event_pk ` set (events d)"
    "d' = d\<lparr>events := events d @ [event_row_of (enqueued_of r)],
      job_queue := tbl_upsert vw_id (seed_row r) (job_queue d)\<rparr>"
proof -
  have sel: "eq_run_at_ms r = run_at" "eq_job_id r = j" by (simp_all add: r_def)
  have q: "tr run_at" "enqueue_job (enqueued_of r) (vw_payload (seed_row r)) d = Inr d'"
    using assms(1)
    by (auto simp: enqueue_job_payload_def Let_def r_def [symmetric] enqueued_event_eq
        pending_seed_payload_eq sel split: if_splits)
  then obtain v tx where "append_job_event (enqueued_of r) d = Inr (Some (v, tx))"
    and "d' = write_job_projection j v (vw_payload (seed_row r)) None tx"
    by (auto simp: enqueue_job_def sel split: option.splits)
  then show "tr run_at" "event_pk (event_row_of (enqueued_of r)) \<notin> event_pk ` set (events d)"
    "d' = d\<lparr>events := events d @ [event_row_of (enqueued_of r)],
      job_queue := tbl_upsert vw_id (seed_row r) (job_queue d)\<rparr>"
    using q(1) by (simp_all add: append_job_event_Some write_job_projection_def seed_row_def sel)
qed

lemma enqueue_step:
  assumes "queue_db_ok tr d" and "enqueue_job_payload tr j kind payload run_at d = Inr d'" and "in_i64 run_at"
  shows "queue_db_ok tr d'" "keeps_jobs tr d d'" "job_stream tr d j = []"
    "job_stream tr d' j = [EvEnqueued kind payload run_at]"
proof -
  let ?r = "\<lparr>eq_job_id = j, eq_kind = kind, eq_payload = payload, eq_run_at_ms = run_at\<rparr>"
  note e = enqueue_job_payload_Inr [OF assms(2)]
  have ev: "events d' = events d @ [event_row_of (enqueued_of ?r)]" by (simp add: e(3))
  have u: "db_keys_unique d'"
  proof -
    have "tbl_unique event_pk (events d')"
      using queue_db_okD(1) [OF assms(1)] e(2) ev by (simp add: db_keys_unique_def tbl_unique_def)
    moreover have "tbl_unique vw_id (job_queue d')" "snapshots d' = snapshots d"
      using queue_db_okD(1) [OF assms(1)] by (simp_all add: e(3) db_keys_unique_def jq.invar_put)
    ultimately show ?thesis using queue_db_okD(1) [OF assms(1)] by (simp add: db_keys_unique_def)
  qed
  have row: "queue_row d' i = (if i = eq_job_id ?r then Some (seed_row ?r) else queue_row d i)" for i
    by (simp add: e(3) queue_row_def jq.get_put)
  have "valid_ts tr (eq_run_at_ms ?r)" using e(1) assms(3) by (simp add: valid_ts_def)
  note s = seed_ok [OF assms(1) this e(2) ev u row]
  show "queue_db_ok tr d'" "keeps_jobs tr d d'" "job_stream tr d j = []"
    "job_stream tr d' j = [EvEnqueued kind payload run_at]"
    using s by simp_all
qed

lemma flush_job_step:
  assumes "queue_db_ok tr d" and "flush_job tr r d = Inr d'" and "in_i64 (eq_run_at_ms r)"
  shows "queue_db_ok tr d' \<and> keeps_jobs tr d d'"
proof -
  have f: "tr (eq_run_at_ms r)" "event_pk (event_row_of (enqueued_of r)) \<notin> event_pk ` set (events d)"
    "eq_job_id r \<notin> vw_id ` set (job_queue d)"
    "d' = d\<lparr>events := events d @ [event_row_of (enqueued_of r)], job_queue := job_queue d @ [seed_row r]\<rparr>"
    using assms(2) by (simp_all add: flush_job_Inr)
  have u: "db_keys_unique d'"
    using flush_jobs_unique [of tr "[r]" d d'] assms(2) queue_db_okD(1) [OF assms(1)] by simp
  have row: "queue_row d' i = (if i = eq_job_id r then Some (seed_row r) else queue_row d i)" for i
    using f(3) by (auto simp: f(4) queue_row_def tbl_get_snoc tbl_get_None [symmetric] split: option.splits)
  have "valid_ts tr (eq_run_at_ms r)" using f(1) assms(3) by (simp add: valid_ts_def)
  then show ?thesis using seed_ok [OF assms(1) _ f(2) _ u row] f(4) by simp
qed

lemma flush_jobs_step:
  "flush_jobs tr rs d = Inr d' \<Longrightarrow> queue_db_ok tr d \<Longrightarrow> \<forall>r \<in> set rs. in_i64 (eq_run_at_ms r) \<Longrightarrow>
     queue_db_ok tr d' \<and> keeps_jobs tr d d'"
proof (induction rs arbitrary: d)
  case Nil
  then show ?case by (simp add: keeps_jobs_def)
next
  case (Cons r rs)
  then obtain d1 where d1: "flush_job tr r d = Inr d1" "flush_jobs tr rs d1 = Inr d'" by auto
  then show ?case
    using flush_job_step [OF Cons.prems(2) d1(1)] Cons.IH [OF d1(2)] Cons.prems(3) keeps_jobs_trans by auto
qed

section \<open>Domain commits\<close>

lemma commit_phases:
  assumes "commit_serialized tr r d = Inr d'" and "db_keys_unique d"
  obtains tx where "flush_jobs tr (cm_jobs r) tx = Inr d'" "db_keys_unique tx"
    "events tx = events d @ map event_row_of (cm_events r)" "job_queue tx = job_queue d"
proof -
  from assms(1) obtain rows tx where
    rows: "insert_serialized_events_batch (cm_events r) (events d) = Inr rows"
    and tx: "tx = d\<lparr>events := rows\<rparr> \<or> (\<exists>row. tx = d\<lparr>events := rows, snapshots := tbl_replace snap_pk row (snapshots d)\<rparr>)"
    and flush: "flush_jobs tr (cm_jobs r) tx = Inr d'"
    by (auto simp: commit_serialized_def write_snapshot_Inr split: if_splits option.splits)
  have "db_keys_unique tx"
    using tx assms(2) insert_batch_unique [OF rows]
    by (auto simp: db_keys_unique_def snap.invar_put)
  moreover have "events tx = events d @ map event_row_of (cm_events r)" "job_queue tx = job_queue d"
    using tx rows by (auto simp: insert_batch_Inr tbl_insert_all_Some)
  ultimately show ?thesis using that flush by blast
qed

lemma commit_step:
  assumes "queue_db_ok tr d" and "commit_serialized tr r d = Inr d'" and "domain_stream (cm_stream r)"
    and "\<forall>q \<in> set (cm_jobs r). in_i64 (eq_run_at_ms q)"
  shows "queue_db_ok tr d' \<and> keeps_jobs tr d d'"
proof -
  obtain tx where tx: "flush_jobs tr (cm_jobs r) tx = Inr d'" "db_keys_unique tx"
    "events tx = events d @ map event_row_of (cm_events r)" "job_queue tx = job_queue d"
    using commit_phases [OF assms(2) queue_db_okD(1) [OF assms(1)]] .
  have "job_same d tx j" for j
    using commit_serialized_Inr(2) [OF assms(2)] assms(3) tx(3,4)
    by (auto simp: job_same_def job_rows_def queue_row_def identity_matches_def domain_stream_def
        filter_empty_conv)
  then have "queue_db_ok tr tx" "keeps_jobs tr d tx"
    using queue_db_okI_same [OF assms(1) tx(2)] by (auto simp: keeps_jobs_def)
  then show ?thesis using flush_jobs_step [OF tx(1)] assms(4) keeps_jobs_trans by blast
qed

section \<open>Renewal\<close>

lemma tbl_get_map: "(\<And>r. key (f r) = key r) \<Longrightarrow> tbl_get key k (map f rows) = map_option f (tbl_get key k rows)"
  by (induction rows) (auto simp: tbl_get_def)

lemma renew_job_rows:
  assumes "renew_job j n lease d = (res, d')"
  obtains f where "d' = d\<lparr>job_queue := map f (job_queue d)\<rparr>"
    "\<forall>r. vw_id (f r) = vw_id r \<and> vw_version (f r) = vw_version r \<and> vw_payload (f r) = vw_payload r"
proof (cases res)
  case Held
  then show ?thesis
    using assms
    by (intro that [of "\<lambda>r. if vw_id r = j \<and> vw_version r = n \<and> col_status r = SqlText ''claimed''
        then r\<lparr>vw_lease := Some lease\<rparr> else r"]) (auto simp: renew_job_def Let_def split: if_splits)
next
  case Lost
  then show ?thesis
    using assms by (intro that [of id]) (auto simp: renew_job_def Let_def split: if_splits)
qed

lemma renew_step:
  assumes "queue_db_ok tr d" and "renew_job j n lease d = (res, d')"
  shows "queue_db_ok tr d'" and "job_same d d' i"
proof -
  obtain f where d': "d' = d\<lparr>job_queue := map f (job_queue d)\<rparr>" 
    and f: "\<forall>r. vw_id (f r) = vw_id r \<and> vw_version (f r) = vw_version r \<and> vw_payload (f r) = vw_payload r"
    by (rule renew_job_rows [OF assms(2)])
  have row: "queue_row d' i = map_option f (queue_row d i)" for i
    by (simp add: d' queue_row_def tbl_get_map f)
  show same: "job_same d d' i" for i
    by (simp add: job_same_def row option.map_comp comp_def f) (simp add: d' job_rows_def)
  have "db_keys_unique d'"
    using queue_db_okD(1) [OF assms(1)] by (simp add: d' db_keys_unique_def tbl_unique_def comp_def f)
  then show "queue_db_ok tr d'" using queue_db_okI_same [OF assms(1) _ same] by blast
qed

section \<open>Settlement\<close>

lemma ack_not_claim [simp]: "\<not> is_claim (ack_event cmd)"
  by (cases cmd) simp_all

text \<open>
  A command that is not rejected either found no job and does nothing, or found the job claimed under its
  own claim id and emits its one acknowledgement.
\<close>

definition holds_claim :: "job_event list \<Rightarrow> string \<Rightarrow> bool" where
  "holds_claim evs c \<longleftrightarrow>
     (\<exists>kind payload worker run_at attempt claims.
        job_fold evs = Live (StClaimed kind payload worker c run_at attempt claims))"

lemma job_transition_Inr:
  "job_transition s cmd = Inr eff \<longleftrightarrow> eff = Events [ack_event cmd]
     \<and> (\<exists>kind payload worker run_at attempt claims. s = StClaimed kind payload worker (cmd_claim_id cmd) run_at attempt claims)"
  by (cases s) (auto simp: job_transition_def)

lemma ack_handle:
  assumes "event_sink_contract job_entity sink"
    and "Lifecycle.handle sink job_entity (job_fold evs) cmd scope = (scope', Inr new)"
  shows "scope' = scope"
    and "new = [] \<or> new = [ack_event cmd] \<and> holds_claim evs (cmd_claim_id cmd)
      \<and> (\<exists>st. job_fold (evs @ [ack_event cmd]) = Live st)"
proof -
  from assms(2) have "scope' = scope \<and> (new = [] \<or> new = [ack_event cmd] \<and> holds_claim evs (cmd_claim_id cmd)
      \<and> (\<exists>st. job_fold (evs @ [ack_event cmd]) = Live st))"
  proof (cases rule: handle_cases)
    case (events decided)
    have w: "new = decided" "decided \<noteq> [] \<longrightarrow> (\<exists>s. replay job_entity (job_fold evs) decided = Live s)"
      using sink_events_Inr [OF assms(1), of "job_fold evs" "[]" decided new] events(3) by auto
    show ?thesis
    proof (cases "job_fold evs")
      case Uninitialized
      then show ?thesis using events w by (simp add: decide_def job_initialize_def)
    next
      case (Live st)
      then have "decided = [ack_event cmd]" "holds_claim evs (cmd_claim_id cmd)"
        using events(1) by (auto simp: decide_def job_transition_Inr holds_claim_def split: sum.splits)
      then show ?thesis using w events(2) by (auto simp del: apply_event.simps)
    next
      case (Failed err lv)
      then show ?thesis using events(1) by simp
    qed
  next
    case (dispatched ev p pending)
    then show ?thesis
      by (cases "job_fold evs") (auto simp: decide_def job_initialize_def job_transition_Inr split: sum.splits)
  qed simp_all
  then show "scope' = scope" and "new = [] \<or> new = [ack_event cmd] \<and> holds_claim evs (cmd_claim_id cmd)
      \<and> (\<exists>st. job_fold (evs @ [ack_event cmd]) = Live st)" by auto
qed

lemma holds_claim_last: "holds_claim evs c \<Longrightarrow> evs \<noteq> [] \<and> is_claim (last evs) \<and> ev_claim_id (last evs) = c"
  unfolding holds_claim_def using job_fold_Live_shape by fastforce

lemma persist_no_jobs:
  assumes "repo_persist tr now_ns ty evs su (Some []) d = (scope', Inr d')" and "db_keys_unique d"
  shows "events d' = events d @ map event_row_of evs" "job_queue d' = job_queue d" "db_keys_unique d'"
    "\<forall>e \<in> set evs. seq_fits e"
proof -
  obtain request where com: "commit_serialized tr request d = Inr d'"
    and req: "cm_events request = evs" "cm_jobs request = []"
    using assms(1)
    by (auto simp: repo_persist_def prepare_pending_def Let_def take_requests_def commit_def with_jobs_def
        new_commit_def with_snapshot_def split: sum.splits prod.splits if_splits option.splits)
  show "events d' = events d @ map event_row_of evs" "job_queue d' = job_queue d" "db_keys_unique d'"
    "\<forall>e \<in> set evs. seq_fits e"
    using commit_serialized_Inr [OF com] req commit_serialized_unique [OF com assms(2)]
    by (simp_all add: committed_db_def)
qed

lemma wrap_single:
  assumes "wrap_contract wrap"
  obtains s where "wrap j n [e] = [s]" "se_aggregate_id s = j" "se_aggregate_type s = JOB_AGGREGATE_TYPE"
    "se_sequence s = Suc n" "se_payload s = job_event_to_json e"
proof -
  have "list_all2 (\<lambda>s (k, e). se_aggregate_id s = j \<and> se_aggregate_type s = JOB_AGGREGATE_TYPE
        \<and> se_sequence s = n + k + 1 \<and> se_payload s = job_event_to_json e)
      (wrap j n [e]) (zip [0..<length [e]] [e])"
    using assms unfolding wrap_contract_def by blast
  then show ?thesis using that by (auto simp: list_all2_Cons2)
qed

lemma wrap_Nil: "wrap_contract wrap \<Longrightarrow> wrap j n [] = []"
proof -
  assume "wrap_contract wrap"
  then have "list_all2 (\<lambda>s (k, e). se_aggregate_id s = j \<and> se_aggregate_type s = JOB_AGGREGATE_TYPE
        \<and> se_sequence s = n + k + 1 \<and> se_payload s = job_event_to_json e)
      (wrap j n []) (zip [0..<length ([] :: job_event list)] [])"
    unfolding wrap_contract_def by blast
  then show ?thesis by simp
qed

text \<open>A stream that ends in a claim has a current row: claims write both in one transaction.\<close>

lemma claim_row_current:
  assumes "queue_db_ok tr d" and "job_stream tr d j \<noteq> []" and "is_claim (last (job_stream tr d j))"
  obtains r where "queue_row d j = Some r" "vw_version r = int (length (job_stream tr d j))"
    "vw_payload r = job_payload (job_fold (job_stream tr d j))"
  using queue_db_okD(3) [OF assms(1), of j] assms(2,3) that
  by (auto simp: row_ok_def job_stream_def List.map_filter_simps split: option.splits)

definition settle_effect :: "(int \<Rightarrow> bool) \<Rightarrow> db \<Rightarrow> db \<Rightarrow> string \<Rightarrow> job_command \<Rightarrow> bool" where
  "settle_effect tr d d' j cmd \<longleftrightarrow>
     holds_claim (job_stream tr d j) (cmd_claim_id cmd)
     \<and> job_appends tr d d' j (ack_event cmd) \<and> (\<forall>i. i \<noteq> j \<longrightarrow> job_same d d' i)
     \<and> (\<exists>r. queue_row d j = Some r \<and> queue_row d' j = Some r \<and> vw_version r = int (length (job_stream tr d j)))"

lemma settle_step:
  assumes ok: "queue_db_ok tr d" and sink: "event_sink_contract job_entity sink" and wrap: "wrap_contract wrap"
    and cmd: "valid_command tr cmd" and pre: "prefix evs (job_stream tr d j)"
    and h: "Lifecycle.handle sink job_entity (job_fold evs) cmd (Some []) = (scope, Inr new)"
    and p: "repo_persist tr now_ns JOB_AGGREGATE_TYPE (wrap j (length evs) new) snapshot scope d = (scope', Inr d')"
  shows "queue_db_ok tr d'"
    and "new = [] \<and> (\<forall>i. job_same d d' i) \<or> new = [ack_event cmd] \<and> settle_effect tr d d' j cmd"
proof -
  note w = persist_no_jobs [OF p [unfolded ack_handle(1) [OF sink h]] queue_db_okD(1) [OF ok]]
  have "queue_db_ok tr d' \<and> (new = [] \<and> (\<forall>i. job_same d d' i) \<or> new = [ack_event cmd] \<and> settle_effect tr d d' j cmd)"
  proof (cases "new = []")
    case True
    then have same: "job_same d d' i" for i
      using w(1,2) by (simp add: wrap_Nil [OF wrap] job_same_def job_rows_def queue_row_def)
    then show ?thesis using True queue_db_okI_same [OF ok w(3)] by blast
  next
    case False
    then obtain st where new: "new = [ack_event cmd]" "holds_claim evs (cmd_claim_id cmd)"
      "job_fold (evs @ [ack_event cmd]) = Live st"
      using ack_handle(2) [OF sink h] by blast
    obtain s where s: "wrap j (length evs) [ack_event cmd] = [s]" "se_aggregate_id s = j"
      "se_aggregate_type s = JOB_AGGREGATE_TYPE" "se_sequence s = Suc (length evs)"
      "se_payload s = job_event_to_json (ack_event cmd)"
      by (rule wrap_single [OF wrap])
    have ev: "events d' = events d @ [event_row_of s]" using w(1) new(1) s(1) by simp
    have "(JOB_AGGREGATE_TYPE, j, int (Suc (length evs))) \<notin> event_pk ` set (events d)"
      using w(3) s ev by (auto simp: db_keys_unique_def tbl_unique_def event_pk_def)
    then have len: "length evs = length (job_stream tr d j)"
      using fresh_seq_is_next [OF queue_db_okD(2) [OF ok]] prefix_length_le [OF pre] by blast
    then have evs: "evs = job_stream tr d j" using pre by (auto simp: prefix_def)
    have seq: "se_sequence s = Suc (length (job_stream tr d j))" using s(4) len by simp
    have valid: "valid_job_event tr (ack_event cmd)" using cmd by (simp add: valid_command_def)
    note app = append_event_effect [OF s(3,2) seq s(5) valid ev]
    have row: "queue_row d' i = queue_row d i" for i by (simp add: queue_row_def w(2))
    have same: "job_same d d' i" if "i \<noteq> j" for i using app(2) [OF that] row by (simp add: job_same_def)
    obtain r where r: "queue_row d j = Some r" "vw_version r = int (length (job_stream tr d j))"
      "vw_payload r = job_payload (job_fold (job_stream tr d j))"
      using claim_row_current [OF ok] holds_claim_last [OF new(2)] evs by blast
    have "in_i64 (int (Suc (length (job_stream tr d j))))"
      using w(4) new(1) s(1) seq by (simp add: seq_fits_def in_i64_def I64_MIN_def)
    moreover have "row_ok tr d' j"
      using row_ok_lags [OF app(1) ack_not_claim _ _ r(2,3)] r(1) row holds_claim_last [OF new(2)] evs by simp
    ultimately have "queue_db_ok tr d'"
      using queue_db_okI_append [OF ok w(3) same app(1) new(3) [unfolded evs]] by simp
    then show ?thesis
      using new evs app(1) same r row by (auto simp: settle_effect_def)
  qed
  then show "queue_db_ok tr d'"
    and "new = [] \<and> (\<forall>i. job_same d d' i) \<or> new = [ack_event cmd] \<and> settle_effect tr d d' j cmd" by auto
qed

section \<open>Reaction\<close>

lemma job_projection_sel [simp]:
  "pj_entity (job_projection tr) = job_entity" "pj_dec (job_projection tr) = job_lifecycle_from_json tr"
  "pj_dec_event (job_projection tr) = job_event_from_json tr"
  "to_text (pj_enc (job_projection tr) l) = job_payload l"
  by (simp_all add: job_projection_def job_payload_def)

lemma bind_read_payload: "Option.bind (from_text p) (job_lifecycle_from_json tr) = read_job_payload tr p"
  by (simp add: read_job_payload_def)

lemma queue_versions_nonzero:
  assumes "queue_db_ok tr d" and "r \<in> set (job_queue d)"
  shows "queue_row d (vw_id r) = Some r" and "vw_version r \<noteq> 0"
proof -
  show row: "queue_row d (vw_id r) = Some r"
    using queue_db_okD(1) [OF assms(1)] assms(2) by (simp add: queue_row_def db_keys_unique_def tbl_get_unique)
  show "vw_version r \<noteq> 0" using row_version_i64 [OF assms(1) row] by simp
qed

lemma react_unique:
  assumes "tbl_unique vw_id rows" and "\<forall>r \<in> set rows. vw_version r \<noteq> 0"
  shows "tbl_unique vw_id (Projection.react pj quiet i e rows)"
proof (cases "tbl_get vw_id i rows")
  case None
  moreover from this have "i \<notin> vw_id ` set rows" by (simp add: tbl_get_None)
  ultimately show ?thesis
    using assms(1)
    by (simp add: react_quiet view_load_with_context_def select_view_def update_view_insert tbl_unique_def
        del: apply_event.simps)
next
  case (Some r)
  then have r: "vw_id r = i" "vw_version r \<noteq> 0" using assms(2) by (auto dest: tbl_get_Some_in)
  show ?thesis
  proof (cases "Option.bind (from_text (vw_payload r)) (pj_dec pj)")
    case None
    then show ?thesis
      using Some assms(1) by (simp add: react_quiet view_load_with_context_def select_view_def)
  next
    case (Some l)
    then obtain rows' where
      "update_view (pj_enc pj (apply_event (pj_entity pj) l e)) (i, vw_version r) rows = Inr rows'"
      and "tbl_unique vw_id rows'"
      using update_view_cas_hit [OF assms(1) \<open>tbl_get vw_id i rows = Some r\<close> r(2)] by blast
    then show ?thesis
      using Some r(1) \<open>tbl_get vw_id i rows = Some r\<close>
      by (simp add: react_quiet view_load_with_context_def select_view_def)
  qed
qed

lemma job_fold_butlast:
  assumes "job_fold (evs @ [e]) = Live s" and "evs \<noteq> []"
  obtains s0 where "job_fold evs = Live s0" "job_evolve s0 e = Inr (Some s)"
proof -
  have "job_fold evs \<noteq> Uninitialized"
    using assms(2) by (cases evs rule: rev_cases) (auto simp del: apply_event.simps)
  then show ?thesis using that assms(1) by (auto simp: apply_job_Live simp del: apply_event.simps)
qed

text \<open>The reaction to the event a row lacks brings the row up to date.\<close>

lemma react_step:
  assumes "queue_db_ok tr d" and "queue_row d j = Some r"
    and "vw_version r + 1 = int (length (job_stream tr d j))" and "last (job_stream tr d j) = e"
    and d': "d' = d\<lparr>job_queue := Projection.react (job_projection tr) quiet j e (job_queue d)\<rparr>"
  shows "queue_db_ok tr d'" "\<And>i. i \<noteq> j \<Longrightarrow> job_same d d' i" "\<And>i. job_rows d' i = job_rows d i"
    "\<exists>r'. queue_row d' j = Some r' \<and> vw_version r' = int (length (job_stream tr d j)) \<and> vw_lease r' = vw_lease r"
proof -
  show rows: "job_rows d' i = job_rows d i" for i by (simp add: d' job_rows_def)
  have stream: "job_stream tr d' i = job_stream tr d i" for i using job_stream_rows [OF rows] .
  obtain n where n: "0 < n" "vw_version r = int n" "vw_payload r = job_payload (job_fold (take n (job_stream tr d j)))"
    using queue_db_okD(3) [OF assms(1), of j] assms(2) by (auto simp: row_ok_def)
  have len: "Suc n = length (job_stream tr d j)" using assms(3) n(2) by simp
  then have split: "job_stream tr d j = take n (job_stream tr d j) @ [e]"
    using assms(4) by (metis append_butlast_last_id butlast_conv_take diff_Suc_1 length_0_conv nat.simps(3))
  obtain s where s: "job_fold (job_stream tr d j) = Live s"
    using queue_db_okD(2) [OF assms(1), of j] len by (auto simp: stream_wf_def)
  have "job_fold (take n (job_stream tr d j) @ [e]) = Live s" by (simp only: split [symmetric] s)
  moreover have "take n (job_stream tr d j) \<noteq> []" using n(1) len by auto
  ultimately obtain s0 where s0: "job_fold (take n (job_stream tr d j)) = Live s0" "job_evolve s0 e = Inr (Some s)"
    by (rule job_fold_butlast)
  have "valid_job_state tr s0"
    using job_fold_valid [OF s0(1)] job_stream_valid [of tr d j] by (auto simp: list_all_iff dest: in_set_takeD)
  then have dec: "read_job_payload tr (vw_payload r) = Some (Live s0)" using n(3) s0(1) by simp
  note pre = queue_db_okD(1) [OF assms(1), unfolded db_keys_unique_def]
  have nz: "\<forall>r \<in> set (job_queue d). vw_version r \<noteq> 0" using queue_versions_nonzero(2) [OF assms(1)] by blast
  have get: "queue_row d' i = (if i \<noteq> j then queue_row d i
      else Some (r\<lparr>vw_version := vw_version r + 1, vw_payload := job_payload (Live s)\<rparr>))" for i
    using react_quiet_get [where pj = "job_projection tr" and i = j and e = e and j = i, OF _ nz] pre
      assms(2) dec s0(2)
    by (simp add: queue_row_def d' bind_read_payload)
  show same: "job_same d d' i" if "i \<noteq> j" for i using that rows get by (simp add: job_same_def)
  show "\<exists>r'. queue_row d' j = Some r' \<and> vw_version r' = int (length (job_stream tr d j)) \<and> vw_lease r' = vw_lease r"
    using get assms(3) by simp
  have "row_ok tr d' j"
    using get n(2) len s stream
    by (auto simp: row_ok_def intro!: exI [of _ "length (job_stream tr d j)"])
  then have "row_ok tr d' i" for i
    using row_ok_same [OF same] queue_db_okD(3) [OF assms(1)] by (cases "i = j") blast+
  moreover have "db_keys_unique d'"
    using pre react_unique [OF _ nz] by (simp add: db_keys_unique_def d')
  ultimately show "queue_db_ok tr d'"
    using assms(1) rows stream by (simp add: queue_db_ok_def stream_wf_def)
qed

section \<open>Catch-up\<close>

lemma apply_job_valid:
  assumes "valid_job_lifecycle tr l" and "valid_job_event tr e"
  shows "valid_job_lifecycle tr (apply_event job_entity l e)"
  using assms
  by (cases l) (auto simp: job_originate_Some intro: job_evolve_valid split: option.splits sum.splits)

lemma job_fold_lifecycle_valid: "list_all (valid_job_event tr) evs \<Longrightarrow> valid_job_lifecycle tr (job_fold evs)"
  by (induction evs rule: rev_induct) (auto intro: apply_job_valid simp del: apply_event.simps)

interpretation job_view: view_projection "job_projection tr" "valid_job_event tr" for tr
proof
  fix j e
  assume "pj_dec_event (job_projection tr) j = Some e"
  then show "valid_job_event tr e" using job_event_from_json_valid by simp
next
  fix evs
  assume "list_all (valid_job_event tr) evs"
  then have "valid_job_lifecycle tr (job_fold evs)" by (rule job_fold_lifecycle_valid)
  then show "pj_dec (job_projection tr) (pj_enc (job_projection tr)
      (replay (pj_entity (job_projection tr)) Uninitialized evs)) =
    Some (replay (pj_entity (job_projection tr)) Uninitialized evs)"
    by (simp add: job_projection_def job_lifecycle_from_json_def job_fold_def job_life.lifecycle_dec_enc)
qed

lemma map_filter_all:
  "length (List.map_filter f xs) = length xs \<Longrightarrow>
     (\<forall>x \<in> set xs. f x \<noteq> None) \<and> List.map_filter f xs = map (\<lambda>x. the (f x)) xs"
proof (induction xs)
  case (Cons x xs)
  have "length (List.map_filter f xs) \<le> length xs" by (simp add: List.map_filter_def)
  then show ?case using Cons by (auto simp: List.map_filter_simps split: option.splits)
qed simp

lemma job_stream_nth:
  assumes "stream_wf tr d j" and "k < length (job_stream tr d j)"
  shows "decode_job_row tr (job_rows d j ! k) = Some (job_stream tr d j ! k)"
    and "er_seq (job_rows d j ! k) = int (Suc k)"
proof -
  have len: "length (job_rows d j) = length (job_stream tr d j)" using job_rows_length [OF assms(1)] .
  have "map er_seq (job_rows d j) ! k = map int [1..<Suc (length (job_stream tr d j))] ! k"
    using assms(1) by (simp add: stream_wf_def)
  then show "er_seq (job_rows d j ! k) = int (Suc k)" using assms(2) len by (simp del: upt_Suc)
  show "decode_job_row tr (job_rows d j ! k) = Some (job_stream tr d j ! k)"
    using map_filter_all [of "decode_job_row tr" "job_rows d j"] len assms(2)
    by (fastforce simp: job_stream_def)
qed

lemma job_rows_select:
  assumes "stream_wf tr d j"
  shows "select_events JOB_AGGREGATE_TYPE j (events d) = job_rows d j"
proof -
  have "sorted (map er_seq (job_rows d j))"
    using job_stream_nth(2) [OF assms] job_rows_length [OF assms] by (simp add: sorted_iff_nth_mono)
  then show ?thesis by (simp add: select_events_def job_rows_def sort_key_id_if_sorted)
qed

lemma job_rows_upto:
  assumes "stream_wf tr d j" and "n \<le> length (job_stream tr d j)"
  shows "filter (\<lambda>r. er_seq r \<le> int n) (job_rows d j) = take n (job_rows d j)"
proof -
  have "filter (\<lambda>r. er_seq r \<le> int n) (take n (job_rows d j)) = take n (job_rows d j)"
    using job_stream_nth(2) [OF assms(1)] job_rows_length [OF assms(1)]
    by (auto simp: filter_id_conv in_set_conv_nth)
  moreover have "filter (\<lambda>r. er_seq r \<le> int n) (drop n (job_rows d j)) = []"
    using job_stream_nth(2) [OF assms(1)] job_rows_length [OF assms(1)]
    by (auto simp: filter_empty_conv in_set_conv_nth)
  ultimately show ?thesis by (metis append_Nil2 append_take_drop_id filter_append)
qed

lemma decode_taken:
  assumes "stream_wf tr d j"
  shows "collect_results (decode_event_row (job_projection tr) j) (take n (job_rows d j)) =
    Inr (take n (job_stream tr d j))"
  unfolding collect_results_Inr
proof (rule list_all2_all_nthI)
  show "length (take n (job_rows d j)) = length (take n (job_stream tr d j))"
    using job_rows_length [OF assms] by simp
  fix k
  assume "k < length (take n (job_rows d j))"
  then show "decode_event_row (job_projection tr) j (take n (job_rows d j) ! k) =
      Inr (take n (job_stream tr d j) ! k)"
    using job_stream_nth(1) [OF assms, of k] job_rows_length [OF assms]
    by (simp add: decode_event_row_def decode_job_row_def)
qed

lemma stream_of_job:
  assumes "stream_wf tr d j"
  shows "stream_of (job_projection tr) (events d) j = Inr (job_stream tr d j)"
  using decode_taken [OF assms, of "length (job_stream tr d j)"] job_rows_length [OF assms]
  by (simp add: stream_of_def job_rows_select [OF assms])

lemma row_consistent:
  assumes "queue_db_ok tr d" and "queue_row d j = Some r"
  shows "view_consistent (job_projection tr) (events d) r"
proof -
  note wf = queue_db_okD(2) [OF assms(1), of j]
  obtain n where n: "vw_version r = int n" "vw_payload r = job_payload (job_fold (take n (job_stream tr d j)))"
    "n \<le> length (job_stream tr d j)"
    using queue_db_okD(3) [OF assms(1), of j] assms(2) by (auto simp: row_ok_def)
  have id: "vw_id r = j" using assms(2) by (auto simp: queue_row_def dest: tbl_get_Some_in)
  have "events_upto (job_projection tr) (events d) j (vw_version r) = Inr (take n (job_stream tr d j))"
    using decode_taken [OF wf, of n] job_rows_upto [OF wf n(3)]
    by (simp add: events_upto_def job_rows_select [OF wf] n(1))
  moreover have "list_all (valid_job_event tr) (take n (job_stream tr d j))"
    using job_stream_valid [of tr d j] by (auto simp: list_all_iff dest: in_set_takeD)
  then have "read_job_payload tr (vw_payload r) = Some (job_fold (take n (job_stream tr d j)))"
    using n(2) read_job_payload_round_trip [OF job_fold_lifecycle_valid] by simp
  ultimately show ?thesis
    by (simp add: view_consistent_def bind_read_payload id job_fold_def)
qed

lemma newest_of_job:
  assumes "stream_wf tr d j"
  shows "max_sequence JOB_AGGREGATE_TYPE j (events d) = int (length (job_stream tr d j))"
proof (cases "job_stream tr d j = []")
  case True
  then have "job_rows d j = []" using job_rows_length [OF assms] by simp
  then show ?thesis using True by (simp add: max_sequence_Max job_rows_def)
next
  case False
  have "er_seq ` set (job_rows d j) = set (map int [1..<Suc (length (job_stream tr d j))])"
    using assms by (metis list.set_map stream_wf_def)
  then have "Max (er_seq ` set (job_rows d j)) = int (length (job_stream tr d j))"
    using False by (intro Max_eqI) (auto simp: image_iff Suc_le_eq simp del: upt_Suc)
  then show ?thesis
    using False job_rows_length [OF assms] by (auto simp: max_sequence_Max job_rows_def [symmetric])
qed

lemma stream_ids_jobs:
  assumes "stream_wf tr d j"
  shows "j \<in> set (stream_ids JOB_AGGREGATE_TYPE (events d)) \<longleftrightarrow> job_stream tr d j \<noteq> []"
proof -
  have "j \<in> set (stream_ids JOB_AGGREGATE_TYPE (events d)) \<longleftrightarrow> job_rows d j \<noteq> []"
    by (auto simp: stream_ids_def job_rows_def filter_empty_conv in_stream_def)
  then show ?thesis using job_rows_length [OF assms] by auto
qed

text \<open>A restart's catch-up succeeds and brings every row to the end of its stream.\<close>

definition row_current :: "(int \<Rightarrow> bool) \<Rightarrow> db \<Rightarrow> string \<Rightarrow> bool" where
  "row_current tr d j =
     (case queue_row d j of
        None \<Rightarrow> job_stream tr d j = []
      | Some r \<Rightarrow> vw_version r = int (length (job_stream tr d j))
          \<and> vw_payload r = job_payload (job_fold (job_stream tr d j)))"

lemma queue_catch_up:
  assumes "queue_db_ok tr d"
  obtains rows' where "catch_up (job_projection tr) (events d) (job_queue d) = (rows', Inr ())"
    "tbl_unique vw_id rows'"
    "\<forall>j. tbl_get vw_id j rows' =
       (if job_stream tr d j \<noteq> [] \<and> is_stale (job_queue d) j (int (length (job_stream tr d j)))
        then Some (caught_up_row (job_projection tr) (events d) (job_queue d) j (job_stream tr d j))
        else queue_row d j)"
proof -
  let ?pj = "job_projection tr"
  have wf: "stream_wf tr d j" for j using queue_db_okD(2) [OF assms] .
  have "0 < er_seq r" if "r \<in> set (events d)" "er_type r = JOB_AGGREGATE_TYPE" for r
  proof -
    have "r \<in> set (job_rows d (er_id r))" using that by (simp add: job_rows_def in_stream_def)
    then obtain k where "k < length (job_stream tr d (er_id r))" "r = job_rows d (er_id r) ! k"
      using job_rows_length [OF wf] by (metis in_set_conv_nth)
    then show ?thesis using job_stream_nth(2) [OF wf, of k "er_id r"] by simp
  qed
  moreover have "\<forall>r \<in> set (job_queue d). view_consistent ?pj (events d) r"
    using row_consistent [OF assms] queue_versions_nonzero(1) [OF assms] by blast
  moreover have "tbl_unique vw_id (job_queue d)"
    using queue_db_okD(1) [OF assms] by (simp add: db_keys_unique_def)
  ultimately obtain rows' where "catch_up ?pj (events d) (job_queue d) = (rows', Inr ())"
    "tbl_unique vw_id rows'"
    "\<forall>j. tbl_get vw_id j rows' =
       (if j \<in> set (stream_ids JOB_AGGREGATE_TYPE (events d))
          \<and> is_stale (job_queue d) j (max_sequence JOB_AGGREGATE_TYPE j (events d))
        then Some (caught_up_row ?pj (events d) (job_queue d) j (job_stream tr d j))
        else tbl_get vw_id j (job_queue d))"
    using catch_up_rows [of "events d" ?pj "job_queue d" "job_stream tr d"] stream_of_job [OF wf] by auto
  then show ?thesis
    using that by (simp add: stream_ids_jobs [OF wf] newest_of_job [OF wf] queue_row_def)
qed

lemma caught_up_row_job:
  assumes "stream_wf tr d j"
  shows "vw_version (caught_up_row (job_projection tr) (events d) (job_queue d) j (job_stream tr d j))
      = int (length (job_stream tr d j))"
    "vw_payload (caught_up_row (job_projection tr) (events d) (job_queue d) j (job_stream tr d j))
      = job_payload (job_fold (job_stream tr d j))"
    "vw_lease (caught_up_row (job_projection tr) (events d) (job_queue d) j (job_stream tr d j))
      = Option.bind (queue_row d j) vw_lease"
  using newest_of_job [OF assms]
  by (auto simp: caught_up_row_def Let_def job_fold_def queue_row_def split: option.splits)

text \<open>The rows after the catch-up of a restart, and that each of them is current.\<close>

lemma restart_rows:
  assumes "queue_db_ok tr d"
    and d': "d' = d\<lparr>job_queue := fst (catch_up (job_projection tr) (events d) (job_queue d))\<rparr>"
  shows "snd (catch_up (job_projection tr) (events d) (job_queue d)) = Inr ()" "db_keys_unique d'"
    "job_rows d' j = job_rows d j" "job_stream tr d' j = job_stream tr d j"
    "queue_row d' j =
       (if job_stream tr d j \<noteq> [] \<and> is_stale (job_queue d) j (int (length (job_stream tr d j)))
        then Some (caught_up_row (job_projection tr) (events d) (job_queue d) j (job_stream tr d j))
        else queue_row d j)"
proof -
  obtain rows' where cu: "catch_up (job_projection tr) (events d) (job_queue d) = (rows', Inr ())"
    "tbl_unique vw_id rows'"
    and get: "\<forall>j. tbl_get vw_id j rows' =
       (if job_stream tr d j \<noteq> [] \<and> is_stale (job_queue d) j (int (length (job_stream tr d j)))
        then Some (caught_up_row (job_projection tr) (events d) (job_queue d) j (job_stream tr d j))
        else queue_row d j)"
    by (rule queue_catch_up [OF assms(1)])
  show "snd (catch_up (job_projection tr) (events d) (job_queue d)) = Inr ()" by (simp add: cu(1))
  show "db_keys_unique d'" using queue_db_okD(1) [OF assms(1)] cu by (simp add: db_keys_unique_def d')
  show rows: "job_rows d' j = job_rows d j" by (simp add: d' job_rows_def)
  show "job_stream tr d' j = job_stream tr d j" using job_stream_rows [OF rows] .
  show "queue_row d' j =
       (if job_stream tr d j \<noteq> [] \<and> is_stale (job_queue d) j (int (length (job_stream tr d j)))
        then Some (caught_up_row (job_projection tr) (events d) (job_queue d) j (job_stream tr d j))
        else queue_row d j)"
    using get by (simp add: d' cu(1) queue_row_def)
qed

lemma fresh_row_current:
  assumes "queue_db_ok tr d" and "\<not> (job_stream tr d j \<noteq> [] \<and> is_stale (job_queue d) j (int (length (job_stream tr d j))))"
    and "queue_row d' j = queue_row d j" and "job_stream tr d' j = job_stream tr d j"
  shows "row_current tr d' j"
proof (cases "queue_row d j")
  case None
  then have "job_rows d j = []" using queue_db_okD(3) [OF assms(1), of j] by (simp add: row_ok_def)
  then show ?thesis using None assms(3,4) job_rows_length [OF queue_db_okD(2) [OF assms(1)], of j] by (simp add: row_current_def)
next
  case (Some r)
  then have "tbl_get vw_id j (job_queue d) = Some r" by (simp add: queue_row_def)
  then show ?thesis
    using Some assms(2-4) queue_db_okD(3) [OF assms(1), of j] by (auto simp: row_current_def row_ok_def is_stale_def)
qed

lemma restart_step:
  assumes "queue_db_ok tr d"
    and d': "d' = d\<lparr>job_queue := fst (catch_up (job_projection tr) (events d) (job_queue d))\<rparr>"
  shows "queue_db_ok tr d'" "snd (catch_up (job_projection tr) (events d) (job_queue d)) = Inr ()"
    "\<And>j. job_stream tr d' j = job_stream tr d j" "\<And>j. row_current tr d' j"
    "\<And>j. Option.bind (queue_row d' j) vw_lease = Option.bind (queue_row d j) vw_lease"
proof -
  note r = restart_rows [OF assms]
  have wf: "stream_wf tr d j" for j using queue_db_okD(2) [OF assms(1)] .
  show "snd (catch_up (job_projection tr) (events d) (job_queue d)) = Inr ()" by (rule r(1))
  show "job_stream tr d' j = job_stream tr d j" for j by (rule r(4))
  show "Option.bind (queue_row d' j) vw_lease = Option.bind (queue_row d j) vw_lease" for j
    by (simp add: r(5) caught_up_row_job(3) [OF wf])
  show cur: "row_current tr d' j" for j
    using r(4,5) [of j] fresh_row_current [OF assms(1), of j d'] caught_up_row_job(1,2) [OF wf, of j]
    by (auto simp: row_current_def)
  have "row_ok tr d' j" for j
  proof (cases "queue_row d' j")
    case None
    then have "job_stream tr d j = []" using cur [of j] r(4) by (simp add: row_current_def)
    then show ?thesis using None r(3) job_rows_length [OF wf, of j] by (simp add: row_ok_def)
  next
    case (Some row)
    then have "job_stream tr d j \<noteq> []"
      using r(5) [of j] queue_db_okD(3) [OF assms(1), of j] by (auto simp: row_ok_def)
    then show ?thesis using Some cur [of j] r(4) by (auto simp: row_current_def row_ok_def)
  qed
  then show "queue_db_ok tr d'"
    using assms(1) r(2-4) by (simp add: queue_db_ok_def stream_wf_def)
qed

end
