(* ===== verification/Job_System.thy ===== *)
theory Job_System
  imports Job_Queue_Ops
begin

text \<open>
  The durable job queue as a system: the database, the settlements in flight (each holding the stream it
  loaded) and the committed events whose projection is still to run. The step relation interleaves the
  operations of the previous theories: standalone enqueues, domain commits that seed jobs, claims,
  renewals, the load and the later commit of a fenced command, its reaction on the \<open>job_queue\<close> row, lost
  reactions and crashes, and the catch-up of a restart. \<open>queue_inv\<close> holds at every reachable state.

  Two pieces of cqrs-es are arguments: \<open>sink\<close>, the event sink (\<open>event_sink_contract\<close>), and \<open>wrap\<close>, which
  turns new events into serialized ones (\<open>wrap_contract\<close>). A reaction's effect is that of its last
  attempt, a compare-and-swap on the row version, and is one step here.
\<close>

section \<open>The system\<close>

record queue_sys =
  qs_db :: db
  qs_inflight :: "(string \<times> job_command \<times> job_event list) list"
  qs_pending :: "(string \<times> job_event) list"

definition queue_init :: queue_sys where
  "queue_init = \<lparr>qs_db = empty_db, qs_inflight = [], qs_pending = []\<rparr>"

inductive queue_step ::
  "(int \<Rightarrow> bool) \<Rightarrow> (job_state, job_event, job_error) sink_write \<Rightarrow> job_wrap \<Rightarrow> queue_sys \<Rightarrow> queue_sys \<Rightarrow> bool"
  for tr :: "int \<Rightarrow> bool" and sink :: "(job_state, job_event, job_error) sink_write" and wrap :: job_wrap where
  enqueue: "enqueue_job_payload tr j kind payload run_at (qs_db s) = Inr d' \<Longrightarrow> in_i64 run_at \<Longrightarrow>
     queue_step tr sink wrap s (s\<lparr>qs_db := d'\<rparr>)"
| commit: "Engine.commit tr r (qs_db s) = Inr d' \<Longrightarrow> domain_stream (cm_stream r) \<Longrightarrow>
     \<forall>req \<in> set (cm_jobs r). in_i64 (eq_run_at_ms req) \<Longrightarrow>
     queue_step tr sink wrap s (s\<lparr>qs_db := d'\<rparr>)"
| claim: "claim_job_as tr fresh j worker now lease budget (qs_db s) = Inr (result, d') \<Longrightarrow>
     fresh \<notin> set (claim_ids (job_stream tr (qs_db s) j)) \<Longrightarrow>
     queue_step tr sink wrap s (s\<lparr>qs_db := d'\<rparr>)"
| renew: "renew_claim claim_handle lease (qs_db s) = (result, d') \<Longrightarrow>
     queue_step tr sink wrap s (s\<lparr>qs_db := d'\<rparr>)"
| load: "valid_command tr cmd \<Longrightarrow>
     queue_step tr sink wrap s
       (s\<lparr>qs_inflight := qs_inflight s @ [(j, cmd, job_stream tr (qs_db s) j)]\<rparr>)"
| settle: "(j, cmd, evs) \<in> set (qs_inflight s) \<Longrightarrow>
     Lifecycle.handle sink job_entity (job_fold evs) cmd (Some []) = (scope, Inr new) \<Longrightarrow>
     repo_persist tr now_ns JOB_AGGREGATE_TYPE (wrap j (length evs) new) snapshot scope (qs_db s)
       = (scope', Inr d') \<Longrightarrow>
     queue_step tr sink wrap s
       (s\<lparr>qs_db := d', qs_inflight := remove1 (j, cmd, evs) (qs_inflight s),
          qs_pending := qs_pending s @ map (Pair j) new\<rparr>)"
| abort: "queue_step tr sink wrap s (s\<lparr>qs_inflight := remove1 op (qs_inflight s)\<rparr>)"
| react: "(j, e) \<in> set (qs_pending s) \<Longrightarrow>
     queue_step tr sink wrap s
       (s\<lparr>qs_db := (qs_db s)\<lparr>job_queue := Projection.react (job_projection tr) quiet j e (job_queue (qs_db s))\<rparr>,
          qs_pending := remove1 (j, e) (qs_pending s)\<rparr>)"
| lose: "queue_step tr sink wrap s (s\<lparr>qs_pending := remove1 p (qs_pending s)\<rparr>)"
| restart: "queue_step tr sink wrap s
     (s\<lparr>qs_db := (qs_db s)\<lparr>job_queue :=
          fst (catch_up (job_projection tr) (events (qs_db s)) (job_queue (qs_db s)))\<rparr>,
        qs_inflight := [], qs_pending := []\<rparr>)"

inductive reachable ::
  "(int \<Rightarrow> bool) \<Rightarrow> (job_state, job_event, job_error) sink_write \<Rightarrow> job_wrap \<Rightarrow> queue_sys \<Rightarrow> bool"
  for tr :: "int \<Rightarrow> bool" and sink :: "(job_state, job_event, job_error) sink_write" and wrap :: job_wrap where
  init: "reachable tr sink wrap queue_init"
| step: "reachable tr sink wrap s \<Longrightarrow> queue_step tr sink wrap s s' \<Longrightarrow> reachable tr sink wrap s'"

inductive_cases queue_stepE: "queue_step tr sink wrap s s'"

section \<open>The invariant\<close>

text \<open>A pending reaction is the one its row waits for: the row lacks exactly that event.\<close>

definition pending_ok :: "(int \<Rightarrow> bool) \<Rightarrow> db \<Rightarrow> string \<times> job_event \<Rightarrow> bool" where
  "pending_ok tr d p =
     (case queue_row d (fst p) of
        None \<Rightarrow> False
      | Some r \<Rightarrow> vw_version r + 1 = int (length (job_stream tr d (fst p)))
          \<and> last (job_stream tr d (fst p)) = snd p)"

definition queue_inv :: "(int \<Rightarrow> bool) \<Rightarrow> queue_sys \<Rightarrow> bool" where
  "queue_inv tr s \<longleftrightarrow> queue_db_ok tr (qs_db s)
     \<and> (\<forall>(j, cmd, evs) \<in> set (qs_inflight s). prefix evs (job_stream tr (qs_db s) j) \<and> valid_command tr cmd)
     \<and> list_all (pending_ok tr (qs_db s)) (qs_pending s) \<and> distinct (map fst (qs_pending s))"

lemma pending_ok_same_job: "job_same d d' (fst p) \<Longrightarrow> pending_ok tr d p \<Longrightarrow> pending_ok tr d' p"
  using job_stream_rows [of d' "fst p" d tr]
  by (auto simp: job_same_def pending_ok_def split: option.splits)


lemma queue_invD:
  assumes "queue_inv tr s"
  shows "queue_db_ok tr (qs_db s)"
    "(j, cmd, evs) \<in> set (qs_inflight s) \<Longrightarrow> prefix evs (job_stream tr (qs_db s) j)"
    "(j, cmd, evs) \<in> set (qs_inflight s) \<Longrightarrow> valid_command tr cmd"
    "p \<in> set (qs_pending s) \<Longrightarrow> pending_ok tr (qs_db s) p" "distinct (map fst (qs_pending s))"
  using assms by (auto simp: queue_inv_def list_all_iff)

lemma queue_invI:
  assumes "queue_db_ok tr d"
    and "\<And>j cmd evs. (j, cmd, evs) \<in> set ops \<Longrightarrow> prefix evs (job_stream tr d j) \<and> valid_command tr cmd"
    and "\<And>p. p \<in> set pend \<Longrightarrow> pending_ok tr d p" and "distinct (map fst pend)"
  shows "queue_inv tr \<lparr>qs_db = d, qs_inflight = ops, qs_pending = pend\<rparr>"
  using assms by (auto simp: queue_inv_def list_all_iff)

lemma distinct_map_remove1: "distinct (map f xs) \<Longrightarrow> distinct (map f (remove1 x xs))"
  by (induction xs) (auto dest: notin_set_remove1 simp: image_iff)

lemma remove1_other_key:
  "distinct (map f xs) \<Longrightarrow> x \<in> set xs \<Longrightarrow> y \<in> set (remove1 x xs) \<Longrightarrow> f y \<noteq> f x"
  by (induction xs) (auto dest: notin_set_remove1 simp: image_iff split: if_splits)

text \<open>A pending job is one whose row lags, so it is neither new nor current.\<close>

lemma pending_row:
  assumes "queue_db_ok tr d" and "pending_ok tr d p"
  obtains r where "queue_row d (fst p) = Some r" "vw_version r + 1 = int (length (job_stream tr d (fst p)))"
    "last (job_stream tr d (fst p)) = snd p" "job_stream tr d (fst p) \<noteq> []"
  using assms(2) row_version_i64 [OF assms(1)] by (fastforce simp: pending_ok_def split: option.splits)

lemma inv_keeps:
  assumes "queue_inv tr s" and "queue_db_ok tr d'" and "keeps_jobs tr (qs_db s) d'"
  shows "queue_inv tr (s\<lparr>qs_db := d'\<rparr>)"
proof -
  have "prefix evs (job_stream tr d' j)" if "prefix evs (job_stream tr (qs_db s) j)" for j evs
    using that assms(3) job_same_stream by (cases "job_stream tr (qs_db s) j = []") (auto simp: keeps_jobs_def)
  moreover have "pending_ok tr d' p" if p: "pending_ok tr (qs_db s) p" for p
    using pending_row [OF queue_invD(1) [OF assms(1)] p] assms(3) pending_ok_same_job [OF _ p]
    unfolding keeps_jobs_def by blast
  ultimately show ?thesis
    using assms(1,2) by (auto simp: queue_inv_def list_all_iff)
qed

text \<open>An append to a job whose row is current, whatever it does to that row.\<close>

lemma inv_append:
  assumes "queue_inv tr s" and "queue_db_ok tr d'" and "job_appends tr (qs_db s) d' j e"
    and "\<forall>i. i \<noteq> j \<longrightarrow> job_same (qs_db s) d' i"
    and "queue_row (qs_db s) j = Some r" and "vw_version r = int (length (job_stream tr (qs_db s) j))"
  shows "queue_inv tr (s\<lparr>qs_db := d'\<rparr>)" and "j \<notin> set (map fst (qs_pending s))"
proof -
  show fresh: "j \<notin> set (map fst (qs_pending s))"
    using queue_invD(4) [OF assms(1)] assms(5,6) by (fastforce simp: pending_ok_def)
  have "prefix evs (job_stream tr d' i)" if "prefix evs (job_stream tr (qs_db s) i)" for i evs
  proof (cases "i = j")
    case True
    then show ?thesis using that job_appends_stream [OF assms(3)] by simp
  next
    case False
    then show ?thesis using that job_same_stream [of "qs_db s" d' i tr] assms(4) by simp
  qed
  moreover have "pending_ok tr d' p" if "p \<in> set (qs_pending s)" for p
  proof -
    have "fst p \<noteq> j" using that fresh by auto
    then have "job_same (qs_db s) d' (fst p)" using assms(4) by blast
    then show ?thesis using pending_ok_same_job queue_invD(4) [OF assms(1) that] by blast
  qed
  ultimately show "queue_inv tr (s\<lparr>qs_db := d'\<rparr>)"
    using assms(1,2) by (auto simp: queue_inv_def list_all_iff)
qed

lemma inv_all_same:
  "queue_inv tr s \<Longrightarrow> queue_db_ok tr d' \<Longrightarrow> (\<And>i. job_same (qs_db s) d' i) \<Longrightarrow> queue_inv tr (s\<lparr>qs_db := d'\<rparr>)"
  by (rule inv_keeps) (simp_all add: keeps_jobs_def)

lemma inv_fewer:
  assumes "queue_inv tr s"
  shows "queue_inv tr (s\<lparr>qs_inflight := remove1 op (qs_inflight s)\<rparr>)"
    and "queue_inv tr (s\<lparr>qs_pending := remove1 p (qs_pending s)\<rparr>)"
proof -
  have "x \<in> set (qs_inflight s)" if "x \<in> set (remove1 op (qs_inflight s))" for x
    using that notin_set_remove1 by metis
  then show "queue_inv tr (s\<lparr>qs_inflight := remove1 op (qs_inflight s)\<rparr>)"
    using assms by (simp add: queue_inv_def)
  show "queue_inv tr (s\<lparr>qs_pending := remove1 p (qs_pending s)\<rparr>)"
    using assms distinct_map_remove1 [of fst "qs_pending s" p]
    by (auto simp: queue_inv_def list_all_iff dest: notin_set_remove1)
qed

lemma inv_settle:
  assumes inv: "queue_inv tr s" and sink: "event_sink_contract job_entity sink" and wrap: "wrap_contract wrap"
    and op: "(j, cmd, evs) \<in> set (qs_inflight s)"
    and h: "Lifecycle.handle sink job_entity (job_fold evs) cmd (Some []) = (scope, Inr new)"
    and p: "repo_persist tr now_ns JOB_AGGREGATE_TYPE (wrap j (length evs) new) snapshot scope (qs_db s) = (scope', Inr d')"
  shows "queue_inv tr (s\<lparr>qs_db := d', qs_inflight := remove1 (j, cmd, evs) (qs_inflight s),
      qs_pending := qs_pending s @ map (Pair j) new\<rparr>)"
proof -
  note st = settle_step [OF queue_invD(1) [OF inv] sink wrap queue_invD(3) [OF inv op] queue_invD(2) [OF inv op] h p]
  from st(2) have "queue_inv tr (s\<lparr>qs_db := d', qs_pending := qs_pending s @ map (Pair j) new\<rparr>)"
  proof (elim disjE conjE)
    assume "new = []" "\<forall>i. job_same (qs_db s) d' i"
    then show ?thesis using inv_all_same [OF inv st(1)] by simp
  next
    assume new: "new = [ack_event cmd]" and e: "settle_effect tr (qs_db s) d' j cmd"
    then obtain r where r: "queue_row (qs_db s) j = Some r" "queue_row d' j = Some r"
      "vw_version r = int (length (job_stream tr (qs_db s) j))"
      and app: "job_appends tr (qs_db s) d' j (ack_event cmd)" "\<forall>i. i \<noteq> j \<longrightarrow> job_same (qs_db s) d' i"
      by (auto simp: settle_effect_def)
    note ap = inv_append [OF inv st(1) app r(1,3)]
    have "pending_ok tr d' (j, ack_event cmd)"
      using r(2,3) job_appends_stream [OF app(1)] by (simp add: pending_ok_def)
    then show ?thesis using ap new by (simp add: queue_inv_def)
  qed
  from inv_fewer(1) [OF this, of "(j, cmd, evs)"] show ?thesis by (simp add: queue_inv_def)
qed

lemma inv_react:
  assumes inv: "queue_inv tr s" and p: "(j, e) \<in> set (qs_pending s)"
    and d': "d' = (qs_db s)\<lparr>job_queue := Projection.react (job_projection tr) quiet j e (job_queue (qs_db s))\<rparr>"
  shows "queue_inv tr (s\<lparr>qs_db := d', qs_pending := remove1 (j, e) (qs_pending s)\<rparr>)"
proof -
  obtain r where r: "queue_row (qs_db s) j = Some r" "vw_version r + 1 = int (length (job_stream tr (qs_db s) j))"
    "last (job_stream tr (qs_db s) j) = e"
    using pending_row [OF queue_invD(1) [OF inv] queue_invD(4) [OF inv p]] by auto
  note st = react_step [OF queue_invD(1) [OF inv] r d']
  have stream: "job_stream tr d' i = job_stream tr (qs_db s) i" for i using job_stream_rows [OF st(3)] .
  have "pending_ok tr d' q" if q: "q \<in> set (remove1 (j, e) (qs_pending s))" for q
  proof -
    have "fst q \<noteq> j" using remove1_other_key [OF queue_invD(5) [OF inv] p q] by simp
    moreover have "pending_ok tr (qs_db s) q" using queue_invD(4) [OF inv] q notin_set_remove1 by metis
    ultimately show ?thesis using pending_ok_same_job st(2) by blast
  qed
  then show ?thesis
    using inv st(1) stream distinct_map_remove1 by (auto simp: queue_inv_def list_all_iff)
qed

lemma inv_claim:
  assumes inv: "queue_inv tr s"
    and c: "claim_job_as tr fresh j worker now lease budget (qs_db s) = Inr (result, d')"
    and fresh: "fresh \<notin> set (claim_ids (job_stream tr (qs_db s) j))"
  shows "queue_inv tr (s\<lparr>qs_db := d'\<rparr>)"
proof -
  have use: "queue_inv tr (s\<lparr>qs_db := d'\<rparr>)"
    if e: "claim_effect tr (qs_db s) d' j e" "is_claim e \<longrightarrow> ev_claim_id e = fresh" for e
  proof -
    have "queue_db_ok tr d'"
      using claim_effect_ok [OF queue_invD(1) [OF inv] e(1)] e(2) fresh by auto
    then show ?thesis
      using inv_append(1) [OF inv] e(1) by (auto simp: claim_effect_def)
  qed
  from claim_step [OF queue_invD(1) [OF inv] c] show ?thesis
    using inv use by (elim disjE exE conjE) auto
qed

lemma inv_init: "queue_inv tr queue_init"
  by (simp add: queue_inv_def queue_init_def queue_db_ok_def empty_db_def db_keys_unique_def tbl_unique_def
      stream_wf_def row_ok_def job_rows_def job_stream_def queue_row_def List.map_filter_simps claim_ids_def)

lemma inv_step:
  assumes "queue_inv tr s" and "event_sink_contract job_entity sink" and "wrap_contract wrap"
    and "queue_step tr sink wrap s s'"
  shows "queue_inv tr s'"
  using assms(4)
proof (cases rule: queue_step.cases)
  case (enqueue j kind payload run_at d')
  then show ?thesis using enqueue_step(1,2) [OF queue_invD(1) [OF assms(1)]] inv_keeps [OF assms(1)] by blast
next
  case (commit r d')
  then have "commit_serialized tr r (qs_db s) = Inr d'" by (simp add: Engine.commit_def split: if_splits)
  then show ?thesis
    using commit commit_step [OF queue_invD(1) [OF assms(1)]] inv_keeps [OF assms(1)] by blast
next
  case (claim fresh j worker now lease budget result d')
  then show ?thesis using inv_claim [OF assms(1)] by blast
next
  case (renew claim_handle lease result d')
  then have "renew_job (jh_job_id claim_handle) (jh_claim_seq claim_handle) lease (qs_db s) = (result, d')"
    by (simp add: renew_claim_def)
  note st = renew_step [OF queue_invD(1) [OF assms(1)] this]
  show ?thesis using renew(1) inv_all_same [OF assms(1) st(1)] st(2) by simp
next
  case (load cmd j)
  then show ?thesis using assms(1) by (auto simp: queue_inv_def)
next
  case (settle j cmd evs scope new now_ns snapshot scope' d')
  then show ?thesis using inv_settle [OF assms(1,2,3)] by blast
next
  case (abort op)
  then show ?thesis using inv_fewer(1) [OF assms(1)] by simp
next
  case (react j e)
  then show ?thesis using inv_react [OF assms(1)] by blast
next
  case (lose p)
  then show ?thesis using inv_fewer(2) [OF assms(1)] by simp
next
  case restart
  then show ?thesis
    using restart_step(1) [OF queue_invD(1) [OF assms(1)] refl] by (simp add: queue_inv_def)
qed

lemma reachable_inv:
  assumes "event_sink_contract job_entity sink" and "wrap_contract wrap" and "reachable tr sink wrap s"
  shows "queue_inv tr s"
  using assms(3) by (induction rule: reachable.induct) (auto intro: inv_init inv_step [OF _ assms(1,2)])

section \<open>What a claim of a current row does\<close>

lemma next_sequence_free:
  assumes "stream_wf tr d j"
  shows "(JOB_AGGREGATE_TYPE, j, int (Suc (length (job_stream tr d j)))) \<notin> event_pk ` set (events d)"
proof
  assume "(JOB_AGGREGATE_TYPE, j, int (Suc (length (job_stream tr d j)))) \<in> event_pk ` set (events d)"
  then obtain r where "r \<in> set (events d)" "event_pk r = (JOB_AGGREGATE_TYPE, j, int (Suc (length (job_stream tr d j))))"
    by fastforce
  then have "r \<in> set (job_rows d j)" "er_seq r = int (Suc (length (job_stream tr d j)))"
    by (simp_all add: job_rows_def in_stream_def event_pk_def)
  then show False
    using job_stream_nth(2) [OF assms] job_rows_length [OF assms] by (auto simp: in_set_conv_nth)
qed

lemma claim_wins:
  assumes ok: "queue_db_ok tr d" and row: "queue_row d j = Some r" and cur: "row_current tr d j"
    and live: "job_fold (job_stream tr d j) = Live st" and run: "runnable st (vw_lease r) now"
    and parts: "claim_parts st = Some (kind, payload, run_at, attempt, claims)" "claims < budget"
    and lease: "0 < lease" "in_i64 (now + lease)" "tr (now + lease)"
    and next_seq: "in_i64 (int (Suc (length (job_stream tr d j))))"
  obtains claimed d' where "claim_job_as tr fresh j worker now lease budget d = Inr (RClaimed claimed, d')"
    "jh_claim_id (cj_handle claimed) = fresh" "cj_payload claimed = payload"
    "job_stream tr d' j = job_stream tr d j @ [EvClaimed worker fresh (now + lease)]"
    "\<exists>r'. queue_row d' j = Some r' \<and> vw_lease r' = Some (now + lease)"
proof -
  let ?n = "Suc (length (job_stream tr d j))"
  let ?e = "EvClaimed worker fresh (now + lease)"
  let ?cell = "job_payload (Live (StClaimed kind payload worker fresh run_at attempt (claims + 1)))"
  let ?tx = "d\<lparr>events := events d @ [event_row_of (serialized ?e j ?n)]\<rparr>"
  have v: "vw_version r = int (length (job_stream tr d j))" "vw_payload r = job_payload (Live st)"
    using cur row live by (simp_all add: row_current_def)
  have "valid_job_state tr st" using job_fold_valid [OF live job_stream_valid] .
  then have dec: "read_job_payload tr (vw_payload r) = Some (Live st)" using v(2) by simp
  have seq: "i64_wrapping_add (vw_version r) 1 = int ?n"
    using next_seq v(1) by (simp add: i64_wrapping_add_in_range add.commute)
  have usize: "usize_try_from (int ?n) = Some ?n"
    using next_seq by (simp add: in_i64_def I64_MAX_def USIZE_MAX_def)
  have add: "i64_checked_add now lease = Some (now + lease)" using lease(2) by (simp add: i64_checked_add_def)
  let ?won = "\<lparr>wc_claim_seq = int ?n, wc_claim_id = fresh, wc_attempt = attempt, wc_args = payload\<rparr>"
  have plan: "plan_claim tr fresh j (read_job_projection_for_claim j d) worker now lease budget =
      Claim (serialized ?e j ?n) ?cell (now + lease) ?won"
    using parts(1) parts(2) [folded not_le] run lease(3)
    by (simp add: plan_claim_def read_for_claim row dec seq usize add instant_from_millis_def Let_def
        del: usize_try_from_Some of_nat_Suc)
  have "append_job_event (serialized ?e j ?n) d = Inr (Some (int ?n, ?tx))"
    unfolding append_job_event_Some
    using next_seq next_sequence_free [OF queue_db_okD(2) [OF ok], of j]
    by (simp add: seq_fits_def in_i64_def event_pk_def)
  then have claim: "claim_job_as tr fresh j worker now lease budget d =
      Inr (RClaimed \<lparr>cj_handle = \<lparr>jh_job_id = j, jh_claim_seq = int ?n, jh_claim_id = fresh, jh_attempt = attempt\<rparr>,
        cj_payload = payload\<rparr>, write_job_projection j (int ?n) ?cell (Some (now + lease)) ?tx)"
    using plan parts(2) lease
    by (auto simp: claim_job_as_def claim_job_unfold claim_job_in_transaction_def claim_result_of_def Let_def add
        simp del: i64_checked_add_Some)
  have "valid_job_event tr ?e" using lease(2,3) by (simp add: valid_ts_def)
  then have "job_appends tr d (write_job_projection j (int ?n) ?cell (Some (now + lease)) ?tx) j ?e"
    by (intro append_event_effect(1) [where s = "serialized ?e j ?n"]) (simp_all add: write_job_projection_def)
  then show ?thesis
    using that [OF claim] job_appends_stream by (simp add: queue_row_written)
qed

lemma claimed_job_id:
  "claim_job_as tr fresh j worker now lease budget d = Inr (RClaimed claimed, d') \<Longrightarrow> jh_job_id (cj_handle claimed) = j"
  using claim_job_as_Inr by (fastforce simp: claim_result_of_def split: claim_outcome.splits)

text \<open>A job that is only enqueued is won by the first claim after its \<open>run_at\<close>, as a first execution.\<close>

lemma seeded_claimed:
  assumes ok: "queue_db_ok tr d" and row: "queue_row d (eq_job_id q) = Some (seed_row q)"
    and stream: "job_stream tr d (eq_job_id q) = [EvEnqueued (eq_kind q) (eq_payload q) (eq_run_at_ms q)]"
    and due: "eq_run_at_ms q \<le> now" and claim: "0 < budget" "0 < lease" "in_i64 (now + lease)" "tr (now + lease)"
  obtains claimed d' where "claim_job_as tr fresh (eq_job_id q) worker now lease budget d = Inr (RClaimed claimed, d')"
    "cj_payload claimed = eq_payload q" "handle_is_first_execution (cj_handle claimed)"
    "jh_job_id (cj_handle claimed) = eq_job_id q"
proof -
  let ?j = "eq_job_id q" and ?st = "StPending (eq_kind q) (eq_payload q) (eq_run_at_ms q) 0 0"
  have fold: "job_fold (job_stream tr d ?j) = Live ?st" by (simp add: stream job_fold_def)
  have cur: "row_current tr d ?j" using fold by (simp add: row_current_def stream row) (simp add: seed_row_def)
  obtain claimed d' where c: "claim_job_as tr fresh ?j worker now lease budget d = Inr (RClaimed claimed, d')"
    "cj_payload claimed = eq_payload q"
    by (rule claim_wins [OF ok row cur fold, where now = now and budget = budget and lease = lease
          and fresh = fresh and worker = worker])
      (use due claim in \<open>simp_all add: stream i64_simps\<close>)
  have "jh_claim_seq (cj_handle claimed) = int (Suc (length (job_stream tr d ?j)))"
    using claim_step [OF ok c(1)] by blast
  then have "handle_is_first_execution (cj_handle claimed)" by (simp add: handle_is_first_execution_def stream)
  then show ?thesis using that [OF c] claimed_job_id [OF c(1)] by simp
qed

lemma filter_key_single: "distinct (map f xs) \<Longrightarrow> q \<in> set xs \<Longrightarrow> filter (\<lambda>x. f x = f q) xs = [q]"
  by (induction xs) (auto simp: filter_empty_conv image_iff)

lemma seeded_job:
  assumes ok: "queue_db_ok tr d" and com: "commit_serialized tr r d = Inr d'" and dom: "domain_stream (cm_stream r)"
    and i64: "\<forall>q \<in> set (cm_jobs r). in_i64 (eq_run_at_ms q)" and q: "q \<in> set (cm_jobs r)"
  shows "queue_row d' (eq_job_id q) = Some (seed_row q)" "seed_row q \<in> set (job_queue d')"
    "job_stream tr d' (eq_job_id q) = [EvEnqueued (eq_kind q) (eq_payload q) (eq_run_at_ms q)]"
    "job_stream tr d (eq_job_id q) = []"
proof -
  let ?j = "eq_job_id q"
  note c = commit_serialized_Inr [OF com]
  have u: "tbl_unique vw_id (job_queue d')"
    using commit_serialized_unique [OF com queue_db_okD(1) [OF ok]] by (simp add: db_keys_unique_def)
  have queue: "job_queue d' = job_queue d @ map seed_row (cm_jobs r)" by (simp add: c(1) committed_db_def)
  show mem: "seed_row q \<in> set (job_queue d')" using queue q by simp
  show "queue_row d' ?j = Some (seed_row q)" using tbl_get_unique [OF u mem] by (simp add: queue_row_def)
  have ids: "distinct (map eq_job_id (cm_jobs r))" "?j \<notin> vw_id ` set (job_queue d)"
    using u q by (auto simp: queue tbl_unique_def comp_def)
  have "queue_row d ?j = None" using ids(2) by (simp add: queue_row_def tbl_get_None)
  then have rows: "job_rows d ?j = []" using queue_db_okD(3) [OF ok, of ?j] by (simp add: row_ok_def)
  then show "job_stream tr d ?j = []" by (simp add: job_stream_def List.map_filter_def)
  note rows
  moreover have "filter (in_stream JOB_AGGREGATE_TYPE ?j) (map event_row_of (cm_events r)) = []"
    using c(2) dom by (auto simp: filter_empty_conv identity_matches_def domain_stream_def)
  moreover have "filter (in_stream JOB_AGGREGATE_TYPE ?j) (map event_row_of (map enqueued_of (cm_jobs r))) =
      [event_row_of (enqueued_of q)]"
    using filter_key_single [OF ids(1) q] by (simp add: filter_map comp_def)
  ultimately have "job_rows d' ?j = [event_row_of (enqueued_of q)]"
    by (simp add: job_rows_def c(1) committed_db_def)
  moreover have "valid_job_event tr (EvEnqueued (eq_kind q) (eq_payload q) (eq_run_at_ms q))"
    using c(5) i64 q by (simp add: valid_ts_def)
  then have "decode_job_row tr (event_row_of (enqueued_of q)) =
      Some (EvEnqueued (eq_kind q) (eq_payload q) (eq_run_at_ms q))"
    by (intro decode_written) (simp_all add: enqueued_of_def)
  ultimately show "job_stream tr d' ?j = [EvEnqueued (eq_kind q) (eq_payload q) (eq_run_at_ms q)]"
    by (simp add: job_stream_def)
qed

lemma step_streams:
  assumes inv: "queue_inv tr s" and "event_sink_contract job_entity sink" and "wrap_contract wrap"
    and step: "queue_step tr sink wrap s s'" and ne: "job_stream tr (qs_db s) j \<noteq> []"
  shows "job_stream tr (qs_db s') j = job_stream tr (qs_db s) j
    \<or> (\<exists>e. job_stream tr (qs_db s') j = job_stream tr (qs_db s) j @ [e])"
proof -
  have keep: "job_stream tr d' j = job_stream tr (qs_db s) j" if "keeps_jobs tr (qs_db s) d'" for d'
    using that ne job_same_stream unfolding keeps_jobs_def by blast
  have append: "job_stream tr d' j = job_stream tr (qs_db s) j \<or> (\<exists>e. job_stream tr d' j = job_stream tr (qs_db s) j @ [e])"
    if "job_appends tr (qs_db s) d' i e" "\<forall>i'. i' \<noteq> i \<longrightarrow> job_same (qs_db s) d' i'" for d' i e
  proof (cases "i = j")
    case True
    then show ?thesis using job_appends_stream [OF that(1)] by simp
  next
    case False
    then show ?thesis using that(2) job_same_stream [of "qs_db s" d' j tr] by simp
  qed
  note ok = queue_invD(1) [OF inv]
  from step show ?thesis
  proof (cases rule: queue_step.cases)
    case (enqueue i kind payload run_at d')
    then show ?thesis using keep enqueue_step(2) [OF ok] by simp
  next
    case (commit r d')
    then have "commit_serialized tr r (qs_db s) = Inr d'" by (simp add: Engine.commit_def split: if_splits)
    then show ?thesis using commit keep commit_step [OF ok] by simp
  next
    case (claim fresh i worker now lease budget result d')
    then show ?thesis
      using claim_step [OF ok claim(2)] append by (auto simp: claim_effect_def)
  next
    case (renew claim_handle lease result d')
    then show ?thesis
      using renew_step(2) [OF ok] job_same_stream unfolding renew_claim_def by fastforce
  next
    case (settle i cmd evs scope new now_ns snapshot scope' d')
    then show ?thesis
      using settle_step(2) [OF ok assms(2,3) queue_invD(3) [OF inv settle(2)] queue_invD(2) [OF inv settle(2)] settle(3,4)]
        append job_same_stream by (auto simp: settle_effect_def)
  next
    case (react i e)
    have "job_rows (qs_db s') j = job_rows (qs_db s) j" using react(1) by (simp add: job_rows_def)
    then show ?thesis using job_stream_rows by blast
  next
    case restart
    have "job_rows (qs_db s') j = job_rows (qs_db s) j" using restart by (simp add: job_rows_def)
    then show ?thesis using job_stream_rows by blast
  qed simp_all
qed

section \<open>A sample run\<close>

text \<open>Instances of the two cqrs-es parameters that meet their contracts.\<close>

definition sample_sink :: "(job_state, job_event, job_error) sink_write" where
  "sample_sink e p = (apply_event job_entity (fst p) e, snd p @ [e])"

definition sample_wrap :: job_wrap where
  "sample_wrap j n evs = map (\<lambda>(k, e). serialized e j (n + k + 1)) (zip [0..<length evs] evs)"

definition sample_events :: "job_event list" where
  "sample_events = [EvEnqueued ''mail'' JNull 0, EvClaimed ''w'' ''c1'' 110]"

lemma sample_contracts: "event_sink_contract job_entity sample_sink" "wrap_contract sample_wrap"
  by (auto simp: event_sink_contract_def sample_sink_def wrap_contract_def sample_wrap_def list_all2_map1
      list_all2_same)

lemma zero_i64: "in_i64 0"
  by (simp add: i64_simps)

lemma sample_enqueued_only:
  obtains s where "reachable (\<lambda>_. True) sample_sink sample_wrap s"
    "job_stream (\<lambda>_. True) (qs_db s) ''j'' = [EvEnqueued ''mail'' JNull 0]"
    "row_current (\<lambda>_. True) (qs_db s) ''j''" "queue_row (qs_db s) ''j'' \<noteq> None"
    "length (job_queue (qs_db s)) = 1" "\<forall>i. i \<noteq> ''j'' \<longrightarrow> job_stream (\<lambda>_. True) (qs_db s) i = []"
proof -
  obtain d where d: "enqueue_job_payload (\<lambda>_. True) ''j'' ''mail'' JNull 0 empty_db = Inr d"
    by (simp add: enqueue_job_payload_def enqueue_job_def enqueued_event_eq pending_seed_payload_eq
        append_job_event_def insert_batch_single empty_db_def seq_fits_def I64_MAX_def Let_def)
  then have "queue_step (\<lambda>_. True) sample_sink sample_wrap queue_init (queue_init\<lparr>qs_db := d\<rparr>)"
    by (intro queue_step.enqueue [where run_at = 0]) (simp_all add: queue_init_def zero_i64)
  then have r: "reachable (\<lambda>_. True) sample_sink sample_wrap (queue_init\<lparr>qs_db := d\<rparr>)"
    using reachable.init reachable.step by blast
  have stream: "job_stream (\<lambda>_. True) d ''j'' = [EvEnqueued ''mail'' JNull 0]"
    using enqueue_step(4) [of "\<lambda>_. True" empty_db, OF _ d] inv_init
    by (simp add: queue_inv_def queue_init_def zero_i64)
  have "queue_row d ''j'' = Some (seed_row \<lparr>eq_job_id = ''j'', eq_kind = ''mail'', eq_payload = JNull, eq_run_at_ms = 0\<rparr>)"
    using enqueue_job_payload_Inr(3) [OF d] by (simp add: queue_row_def jq.get_put)
  moreover have "length (job_queue d) = 1"
    using enqueue_job_payload_Inr(3) [OF d] by (simp add: empty_db_def tbl_upsert_def)
  moreover have "job_stream (\<lambda>_. True) d i = []" if "i \<noteq> ''j''" for i
    using enqueue_job_payload_Inr(3) [OF d] that by (simp add: empty_db_def job_stream_def job_rows_def enqueued_of_def)
  ultimately show ?thesis
    using that [OF r] stream by (simp add: row_current_def seed_row_def job_fold_def)
qed

lemma sample_enqueued:
  obtains s where "reachable (\<lambda>_. True) sample_sink sample_wrap s"
    "job_stream (\<lambda>_. True) (qs_db s) ''j'' = [EvEnqueued ''mail'' JNull 0]"
    "row_current (\<lambda>_. True) (qs_db s) ''j''" "queue_row (qs_db s) ''j'' \<noteq> None"
  by (rule sample_enqueued_only)

lemma sample_claimable:
  obtains s where "reachable (\<lambda>_. True) sample_sink sample_wrap s"
    "job_stream (\<lambda>_. True) (qs_db s) ''j'' = [EvEnqueued ''mail'' JNull 0]"
    "\<exists>claimed d'. claim_job_as (\<lambda>_. True) ''c1'' ''j'' ''w'' 10 100 5 (qs_db s) = Inr (RClaimed claimed, d')
       \<and> job_stream (\<lambda>_. True) d' ''j'' = sample_events
       \<and> (\<exists>r'. queue_row d' ''j'' = Some r' \<and> vw_lease r' = Some 110)"
proof -
  obtain s where s: "reachable (\<lambda>_. True) sample_sink sample_wrap s"
    "job_stream (\<lambda>_. True) (qs_db s) ''j'' = [EvEnqueued ''mail'' JNull 0]"
    "row_current (\<lambda>_. True) (qs_db s) ''j''" "queue_row (qs_db s) ''j'' \<noteq> None"
    by (rule sample_enqueued)
  have ok: "queue_db_ok (\<lambda>_. True) (qs_db s)" using reachable_inv [OF sample_contracts s(1)] queue_invD(1) by blast
  obtain r where r: "queue_row (qs_db s) ''j'' = Some r" using s(4) by blast
  obtain claimed d' where "claim_job_as (\<lambda>_. True) ''c1'' ''j'' ''w'' 10 100 5 (qs_db s) = Inr (RClaimed claimed, d')"
    "job_stream (\<lambda>_. True) d' ''j'' = job_stream (\<lambda>_. True) (qs_db s) ''j'' @ [EvClaimed ''w'' ''c1'' (10 + 100)]"
    "\<exists>r'. queue_row d' ''j'' = Some r' \<and> vw_lease r' = Some (10 + 100)"
    by (rule claim_wins [OF ok r s(3), where st = "StPending ''mail'' JNull 0 0 0" and now = 10 and lease = 100
          and budget = 5 and fresh = "''c1''" and worker = "''w''"])
      (auto simp: s(2) job_fold_def i64_simps)
  then show ?thesis using that [OF s(1,2)] s(2) by (simp add: sample_events_def)
qed

lemma sample_claimed:
  obtains s where "reachable (\<lambda>_. True) sample_sink sample_wrap s"
    "job_stream (\<lambda>_. True) (qs_db s) ''j'' = sample_events"
    "\<exists>r. queue_row (qs_db s) ''j'' = Some r \<and> vw_lease r = Some 110"
proof -
  obtain s where s: "reachable (\<lambda>_. True) sample_sink sample_wrap s"
    "job_stream (\<lambda>_. True) (qs_db s) ''j'' = [EvEnqueued ''mail'' JNull 0]"
    "\<exists>claimed d'. claim_job_as (\<lambda>_. True) ''c1'' ''j'' ''w'' 10 100 5 (qs_db s) = Inr (RClaimed claimed, d')
       \<and> job_stream (\<lambda>_. True) d' ''j'' = sample_events
       \<and> (\<exists>r'. queue_row d' ''j'' = Some r' \<and> vw_lease r' = Some 110)"
    by (rule sample_claimable)
  then obtain claimed d' where c: "claim_job_as (\<lambda>_. True) ''c1'' ''j'' ''w'' 10 100 5 (qs_db s) = Inr (RClaimed claimed, d')"
    "job_stream (\<lambda>_. True) d' ''j'' = sample_events" "\<exists>r'. queue_row d' ''j'' = Some r' \<and> vw_lease r' = Some 110"
    by blast
  have "queue_step (\<lambda>_. True) sample_sink sample_wrap s (s\<lparr>qs_db := d'\<rparr>)"
    using c(1) by (rule queue_step.claim) (simp add: s(2) claim_ids_def)
  then have "reachable (\<lambda>_. True) sample_sink sample_wrap (s\<lparr>qs_db := d'\<rparr>)" using s(1) reachable.step by blast
  then show ?thesis using that c(2,3) by simp
qed

section \<open>Properties\<close>

text \<open>
  C2 (reachable_queue_rows). At every reachable state, whatever the interleaving and wherever reactions
  were lost or the process crashed, a job's stream is numbered 1, 2, 3, ... and folds to a live job, no claim
  id occurs twice in it, and its queue row is the fold of a non-empty prefix of the stream that is complete
  or lacks exactly the last event, which is then no claim. A job without a row has no events.
\<close>

theorem reachable_queue_rows:
  assumes "event_sink_contract job_entity sink" and "wrap_contract wrap" and "reachable tr sink wrap s"
  shows "let evs = job_stream tr (qs_db s) j in
    map er_seq (job_rows (qs_db s) j) = map int [1..<Suc (length evs)]
    \<and> (evs = [] \<or> (\<exists>st. job_fold evs = Live st)) \<and> distinct (claim_ids evs)
    \<and> (case queue_row (qs_db s) j of
         None \<Rightarrow> job_rows (qs_db s) j = []
       | Some r \<Rightarrow> \<exists>n > 0. vw_version r = int n \<and> vw_payload r = job_payload (job_fold (take n evs))
           \<and> (n = length evs \<or> Suc n = length evs \<and> \<not> is_claim (last evs)))"
proof -
  note ok = queue_invD(1) [OF reachable_inv [OF assms(1-3)]]
  show ?thesis
    using queue_db_okD(2,3) [OF ok, of j] unfolding Let_def stream_wf_def row_ok_def by blast
qed

theorem reachable_queue_rows_witness:
  "\<exists>s. reachable (\<lambda>_. True) sample_sink sample_wrap s
     \<and> map er_seq (job_rows (qs_db s) ''j'') = [1, 2]
     \<and> job_stream (\<lambda>_. True) (qs_db s) ''j'' = sample_events"
proof -
  obtain s where s: "reachable (\<lambda>_. True) sample_sink sample_wrap s"
    "job_stream (\<lambda>_. True) (qs_db s) ''j'' = sample_events"
    by (rule sample_claimed)
  show ?thesis
    using reachable_queue_rows [OF sample_contracts s(1), of "''j''"] s by (auto simp: Let_def upt_conv_Cons sample_events_def)
qed

text \<open>
  C1 (settlement_fenced). A settlement in flight commits its acknowledgement only while the job is still
  held under the settlement's own claim at the moment of the commit: the stream it loaded is then the
  whole stream, and the commit appends exactly its one event. However late it runs, it never overwrites
  the outcome of a later claim; without an event it changes no stream at all.
\<close>

theorem settlement_fenced:
  assumes "event_sink_contract job_entity sink" and "wrap_contract wrap" and "reachable tr sink wrap s"
    and "(j, cmd, evs) \<in> set (qs_inflight s)"
    and "Lifecycle.handle sink job_entity (job_fold evs) cmd (Some []) = (scope, Inr new)"
    and "repo_persist tr now_ns JOB_AGGREGATE_TYPE (wrap j (length evs) new) snapshot scope (qs_db s) = (scope', Inr d')"
  shows "if new = [] then \<forall>i. job_stream tr d' i = job_stream tr (qs_db s) i
    else new = [ack_event cmd] \<and> holds_claim (job_stream tr (qs_db s) j) (cmd_claim_id cmd)
      \<and> job_stream tr d' j = job_stream tr (qs_db s) j @ [ack_event cmd]
      \<and> (\<forall>i. i \<noteq> j \<longrightarrow> job_stream tr d' i = job_stream tr (qs_db s) i)"
proof -
  note inv = reachable_inv [OF assms(1-3)]
  from settle_step(2) [OF queue_invD(1) [OF inv] assms(1,2) queue_invD(3) [OF inv assms(4)]
      queue_invD(2) [OF inv assms(4)] assms(5,6)]
  show ?thesis
    using job_appends_stream job_same_stream by (auto simp: settle_effect_def)
qed

lemma sample_inflight:
  obtains s d' scope where "reachable (\<lambda>_. True) sample_sink sample_wrap s"
    "(''j'', CmdSucceed ''c1'', sample_events) \<in> set (qs_inflight s)"
    "Lifecycle.handle sample_sink job_entity (job_fold sample_events)
       (CmdSucceed ''c1'') (Some []) = (Some [], Inr [EvSucceeded])"
    "repo_persist (\<lambda>_. True) 0 JOB_AGGREGATE_TYPE (sample_wrap ''j'' (length sample_events) [EvSucceeded]) None (Some []) (qs_db s)
       = (scope, Inr d')"
    "job_stream (\<lambda>_. True) (qs_db s) ''j'' = sample_events"
proof -
  obtain s where s: "reachable (\<lambda>_. True) sample_sink sample_wrap s" "job_stream (\<lambda>_. True) (qs_db s) ''j'' = sample_events"
    by (rule sample_claimed)
  let ?s = "s\<lparr>qs_inflight := qs_inflight s @ [(''j'', CmdSucceed ''c1'', job_stream (\<lambda>_. True) (qs_db s) ''j'')]\<rparr>"
  have "queue_step (\<lambda>_. True) sample_sink sample_wrap s ?s"
    by (rule queue_step.load) (simp add: valid_command_def)
  then have r: "reachable (\<lambda>_. True) sample_sink sample_wrap ?s" using s(1) reachable.step by blast
  have h: "Lifecycle.handle sample_sink job_entity (job_fold sample_events) (CmdSucceed ''c1'') (Some []) = (Some [], Inr [EvSucceeded])"
    by (simp add: Lifecycle.handle_def decide_def job_transition_def job_fold_def sample_sink_def sample_events_def)
  have wf: "stream_wf (\<lambda>_. True) (qs_db s) ''j''"
    using reachable_inv [OF sample_contracts s(1)] queue_invD(1) queue_db_okD(2) by blast
  have "event_pk (event_row_of (serialized EvSucceeded ''j'' (Suc (length sample_events)))) \<notin> event_pk ` set (events (qs_db s))"
    using next_sequence_free [OF wf] s(2) by (simp add: event_pk_def)
  then obtain d' where "repo_persist (\<lambda>_. True) 0 JOB_AGGREGATE_TYPE (sample_wrap ''j'' (length sample_events) [EvSucceeded]) None (Some []) (qs_db s)
      = (Some [], Inr d')"
    by (simp add: commit_path sample_wrap_def mark_committed_def insert_batch_single seq_fits_def I64_MAX_def Let_def reserves_engine_payload_def serialized_def sample_events_def)
  then show ?thesis using that [OF r _ h] s(2) by simp
qed

theorem settlement_fenced_witness:
  "\<exists>s d' scope. reachable (\<lambda>_. True) sample_sink sample_wrap s
     \<and> repo_persist (\<lambda>_. True) 0 JOB_AGGREGATE_TYPE (sample_wrap ''j'' (length sample_events) [EvSucceeded]) None (Some []) (qs_db s) = (scope, Inr d')
     \<and> job_stream (\<lambda>_. True) d' ''j'' = job_stream (\<lambda>_. True) (qs_db s) ''j'' @ [EvSucceeded]"
proof -
  obtain s d' scope where s: "reachable (\<lambda>_. True) sample_sink sample_wrap s"
    "(''j'', CmdSucceed ''c1'', sample_events) \<in> set (qs_inflight s)"
    "Lifecycle.handle sample_sink job_entity (job_fold sample_events) (CmdSucceed ''c1'') (Some []) = (Some [], Inr [EvSucceeded])"
    "repo_persist (\<lambda>_. True) 0 JOB_AGGREGATE_TYPE (sample_wrap ''j'' (length sample_events) [EvSucceeded]) None (Some []) (qs_db s) = (scope, Inr d')"
    by (rule sample_inflight)
  show ?thesis
    using settlement_fenced [OF sample_contracts s] s(1,4) by auto
qed

text \<open>
  A job that ended (succeeded or dead-lettered) stays ended: no step of the
  system, in any order, adds an event to its stream.
\<close>

theorem terminal_jobs_frozen:
  assumes "event_sink_contract job_entity sink" and "wrap_contract wrap" and "reachable tr sink wrap s"
    and "queue_step tr sink wrap s s'" and "job_stream tr (qs_db s) j \<noteq> []"
    and "is_terminal_event (last (job_stream tr (qs_db s) j))"
  shows "job_stream tr (qs_db s') j = job_stream tr (qs_db s) j"
proof (rule ccontr)
  let ?evs = "job_stream tr (qs_db s) j"
  assume "job_stream tr (qs_db s') j \<noteq> ?evs"
  then obtain e where e: "job_stream tr (qs_db s') j = ?evs @ [e]"
    using step_streams [OF reachable_inv [OF assms(1-3)] assms(1,2,4,5)] by blast
  have "stream_wf tr (qs_db s') j"
    using reachable_inv [OF assms(1,2) reachable.step [OF assms(3,4)]] queue_invD(1) queue_db_okD(2) by blast
  then obtain st where "job_fold (?evs @ [e]) = Live st" using e by (auto simp: stream_wf_def)
  then obtain s0 where "job_fold ?evs = Live s0" "job_evolve s0 e = Inr (Some st)"
    using job_fold_butlast assms(5) by blast
  then show False using job_fold_Live_shape assms(6) job_evolve_from by blast
qed

lemma sample_settled:
  obtains s where "reachable (\<lambda>_. True) sample_sink sample_wrap s"
    "job_stream (\<lambda>_. True) (qs_db s) ''j'' = sample_events @ [EvSucceeded]"
    "(''j'', EvSucceeded) \<in> set (qs_pending s)"
proof -
  obtain s d' scope where s: "reachable (\<lambda>_. True) sample_sink sample_wrap s"
    "(''j'', CmdSucceed ''c1'', sample_events) \<in> set (qs_inflight s)"
    "Lifecycle.handle sample_sink job_entity (job_fold sample_events) (CmdSucceed ''c1'') (Some []) = (Some [], Inr [EvSucceeded])"
    "repo_persist (\<lambda>_. True) 0 JOB_AGGREGATE_TYPE (sample_wrap ''j'' (length sample_events) [EvSucceeded]) None (Some []) (qs_db s) = (scope, Inr d')"
    "job_stream (\<lambda>_. True) (qs_db s) ''j'' = sample_events"
    by (rule sample_inflight)
  let ?s = "s\<lparr>qs_db := d', qs_inflight := remove1 (''j'', CmdSucceed ''c1'', sample_events) (qs_inflight s),
      qs_pending := qs_pending s @ map (Pair ''j'') [EvSucceeded]\<rparr>"
  have "queue_step (\<lambda>_. True) sample_sink sample_wrap s ?s"
    using s(2-4) by (rule queue_step.settle [where wrap = sample_wrap])
  then have "reachable (\<lambda>_. True) sample_sink sample_wrap ?s" using reachable.step [OF s(1)] by blast
  moreover have "job_stream (\<lambda>_. True) d' ''j'' = sample_events @ [EvSucceeded]"
    using settle_step(2) [OF _ sample_contracts _ _ s(3,4)] queue_invD(1-3) [OF reachable_inv [OF sample_contracts s(1)]]
      s(2,5) job_appends_stream by (auto simp: settle_effect_def)
  ultimately show ?thesis using that by simp
qed

theorem terminal_jobs_frozen_witness:
  "\<exists>s s'. reachable (\<lambda>_. True) sample_sink sample_wrap s \<and> queue_step (\<lambda>_. True) sample_sink sample_wrap s s'
     \<and> job_stream (\<lambda>_. True) (qs_db s) ''j'' = sample_events @ [EvSucceeded]
     \<and> job_stream (\<lambda>_. True) (qs_db s') ''j'' = sample_events @ [EvSucceeded]"
proof -
  obtain s where s: "reachable (\<lambda>_. True) sample_sink sample_wrap s"
    "job_stream (\<lambda>_. True) (qs_db s) ''j'' = sample_events @ [EvSucceeded]"
    "(''j'', EvSucceeded) \<in> set (qs_pending s)"
    by (rule sample_settled)
  note step = queue_step.react [OF s(3), of "\<lambda>_. True" sample_sink sample_wrap]
  have "job_stream (\<lambda>_. True) (qs_db (s\<lparr>qs_db := (qs_db s)\<lparr>job_queue := Projection.react (job_projection (\<lambda>_. True))
      quiet ''j'' EvSucceeded (job_queue (qs_db s))\<rparr>, qs_pending := remove1 (''j'', EvSucceeded) (qs_pending s)\<rparr>)) ''j''
    = sample_events @ [EvSucceeded]"
    using terminal_jobs_frozen [OF sample_contracts s(1) step, of "''j''"] s(2) by simp
  then show ?thesis using s(1,2) step by blast
qed

text \<open>
  C3 (lease_excludes_claim). While a job is claimed and its lease has not passed, no claim of it
  succeeds: every attempt at a time up to the lease leaves the database as it was and reports contention
  or a skip, so two workers never hold one job under unexpired leases.
\<close>

theorem lease_excludes_claim:
  assumes "event_sink_contract job_entity sink" and "wrap_contract wrap" and "reachable tr sink wrap s"
    and "holds_claim (job_stream tr (qs_db s) j) c"
    and "queue_row (qs_db s) j = Some r" and "vw_lease r = Some until" and "now \<le> until"
    and "claim_job_as tr fresh j worker now lease budget (qs_db s) = Inr (result, d')"
  shows "d' = qs_db s \<and> (result = RContended \<or> result = RSkipped)"
  using claim_step [OF queue_invD(1) [OF reachable_inv [OF assms(1-3)]] assms(8)] assms(4-7)
  by (auto simp: holds_claim_def)

theorem lease_excludes_claim_witness:
  "\<exists>s r d' result. reachable (\<lambda>_. True) sample_sink sample_wrap s \<and> queue_row (qs_db s) ''j'' = Some r
     \<and> vw_lease r = Some 110 \<and> claim_job_as (\<lambda>_. True) ''c2'' ''j'' ''v'' 100 50 5 (qs_db s) = Inr (result, d')
     \<and> d' = qs_db s"
proof -
  obtain s where s: "reachable (\<lambda>_. True) sample_sink sample_wrap s"
    "job_stream (\<lambda>_. True) (qs_db s) ''j'' = sample_events"
    "\<exists>r. queue_row (qs_db s) ''j'' = Some r \<and> vw_lease r = Some 110"
    by (rule sample_claimed)
  then obtain r where r: "queue_row (qs_db s) ''j'' = Some r" "vw_lease r = Some 110" by blast
  have h: "holds_claim (job_stream (\<lambda>_. True) (qs_db s) ''j'') ''c1''"
    by (simp add: s(2) holds_claim_def sample_events_def job_fold_def)
  have "read_job_payload (\<lambda>_. True) (vw_payload r) = Some (Live (StClaimed ''mail'' JNull ''w'' ''c1'' 0 0 1))"
  proof -
    have ok: "queue_db_ok (\<lambda>_. True) (qs_db s)"
      using reachable_inv [OF sample_contracts s(1)] queue_invD(1) by blast
    have "vw_payload r = job_payload (job_fold sample_events)"
      using claim_row_current [OF ok, of "''j''"] r s(2) by (auto simp: sample_events_def)
    then show ?thesis by (simp add: sample_events_def job_fold_def valid_ts_def zero_i64)
  qed
  then have "claim_job_as (\<lambda>_. True) ''c2'' ''j'' ''v'' 100 50 5 (qs_db s) = Inr (RSkipped, qs_db s)"
    using r
    by (simp add: claim_job_as_def claim_job_unfold claim_job_in_transaction_def read_for_claim plan_claim_def
        claim_result_of_def i64_checked_add_def i64_simps)
  then show ?thesis
    using lease_excludes_claim [OF sample_contracts s(1) h r, of 100] s(1) r by auto
qed

text \<open>
  The \<open>is_first_execution\<close> of a handle won at any reachable state is exact:
  it is true if and only if the job's stream held no claim before.
\<close>

theorem claimed_first_execution:
  assumes "event_sink_contract job_entity sink" and "wrap_contract wrap" and "reachable tr sink wrap s"
    and "claim_job_as tr fresh j worker now lease budget (qs_db s) = Inr (RClaimed claimed, d')"
  shows "handle_is_first_execution (cj_handle claimed) \<longleftrightarrow> \<not> list_ex is_claim (job_stream tr (qs_db s) j)"
proof -
  have "\<exists>st lease. job_fold (job_stream tr (qs_db s) j) = Live st \<and> runnable st lease now
      \<and> jh_claim_seq (cj_handle claimed) = int (Suc (length (job_stream tr (qs_db s) j)))"
    using claim_step [OF queue_invD(1) [OF reachable_inv [OF assms(1-3)]] assms(4)] by blast
  then obtain st lease where st: "job_fold (job_stream tr (qs_db s) j) = Live st" "runnable st lease now"
    "jh_claim_seq (cj_handle claimed) = int (Suc (length (job_stream tr (qs_db s) j)))" by blast
  then show ?thesis
    using first_claim_at_two [OF st(1)] runnable_claim_parts [OF st(2)]
    by (auto simp: handle_is_first_execution_def)
qed

theorem claimed_first_execution_witness:
  "\<exists>s claimed d'. reachable (\<lambda>_. True) sample_sink sample_wrap s
     \<and> claim_job_as (\<lambda>_. True) ''c1'' ''j'' ''w'' 10 100 5 (qs_db s) = Inr (RClaimed claimed, d')
     \<and> handle_is_first_execution (cj_handle claimed)"
proof -
  obtain s where s: "reachable (\<lambda>_. True) sample_sink sample_wrap s"
    "job_stream (\<lambda>_. True) (qs_db s) ''j'' = [EvEnqueued ''mail'' JNull 0]"
    "\<exists>claimed d'. claim_job_as (\<lambda>_. True) ''c1'' ''j'' ''w'' 10 100 5 (qs_db s) = Inr (RClaimed claimed, d')
       \<and> job_stream (\<lambda>_. True) d' ''j'' = sample_events
       \<and> (\<exists>r'. queue_row d' ''j'' = Some r' \<and> vw_lease r' = Some 110)"
    by (rule sample_claimable)
  then obtain claimed d' where
    c: "claim_job_as (\<lambda>_. True) ''c1'' ''j'' ''w'' 10 100 5 (qs_db s) = Inr (RClaimed claimed, d')" by blast
  show ?thesis
    using claimed_first_execution [OF sample_contracts s(1) c] c s(1,2) by auto
qed

text \<open>
  A due job is never refused: at a reachable state, a job whose row is current and
  that is runnable within its claim budget is won by a claim with a representable lease. The stream grows
  by that claim, the row carries the new lease, and the claimant gets the enqueued payload.
\<close>

theorem due_job_claimed:
  assumes "event_sink_contract job_entity sink" and "wrap_contract wrap" and "reachable tr sink wrap s"
    and "queue_row (qs_db s) j = Some r" and "row_current tr (qs_db s) j"
    and "job_fold (job_stream tr (qs_db s) j) = Live st" and "runnable st (vw_lease r) now"
    and "claim_parts st = Some (kind, payload, run_at, attempt, claims)" and "claims < budget"
    and "0 < lease" and "in_i64 (now + lease)" and "tr (now + lease)"
    and "in_i64 (int (Suc (length (job_stream tr (qs_db s) j))))"
  shows "\<exists>claimed d' r'. claim_job_as tr fresh j worker now lease budget (qs_db s) = Inr (RClaimed claimed, d')
    \<and> cj_payload claimed = payload
    \<and> job_stream tr d' j = job_stream tr (qs_db s) j @ [EvClaimed worker fresh (now + lease)]
    \<and> queue_row d' j = Some r' \<and> vw_lease r' = Some (now + lease)"
proof -
  note ok = queue_invD(1) [OF reachable_inv [OF assms(1-3)]]
  show ?thesis by (rule claim_wins [OF ok assms(4-13), where fresh = fresh and worker = worker]) blast
qed

theorem due_job_claimed_witness:
  "\<exists>s claimed d'. reachable (\<lambda>_. True) sample_sink sample_wrap s
     \<and> claim_job_as (\<lambda>_. True) ''c1'' ''j'' ''w'' 10 100 5 (qs_db s) = Inr (RClaimed claimed, d')
     \<and> job_stream (\<lambda>_. True) d' ''j'' = sample_events"
proof -
  obtain s where s: "reachable (\<lambda>_. True) sample_sink sample_wrap s"
    "job_stream (\<lambda>_. True) (qs_db s) ''j'' = [EvEnqueued ''mail'' JNull 0]"
    "row_current (\<lambda>_. True) (qs_db s) ''j''" "queue_row (qs_db s) ''j'' \<noteq> None"
    by (rule sample_enqueued)
  obtain r where r: "queue_row (qs_db s) ''j'' = Some r" using s(4) by blast
  have "\<exists>claimed d' r'. claim_job_as (\<lambda>_. True) ''c1'' ''j'' ''w'' 10 100 5 (qs_db s) = Inr (RClaimed claimed, d')
      \<and> cj_payload claimed = JNull
      \<and> job_stream (\<lambda>_. True) d' ''j'' = job_stream (\<lambda>_. True) (qs_db s) ''j'' @ [EvClaimed ''w'' ''c1'' (10 + 100)]
      \<and> queue_row d' ''j'' = Some r' \<and> vw_lease r' = Some (10 + 100)"
    by (rule due_job_claimed [OF sample_contracts s(1) r s(3), where st = "StPending ''mail'' JNull 0 0 0"])
      (auto simp: s(2) job_fold_def i64_simps)
  then show ?thesis using s(1,2) by (auto simp: sample_events_def)
qed

text \<open>
  A row that lags behind its stream (its reaction was lost or has not run)
  is never claimed: the append at the row's next sequence collides with the event the row lacks, and the
  attempt changes nothing. The lag delays the job; it cannot run it from a stale state.
\<close>

theorem lagging_row_not_claimed:
  assumes "event_sink_contract job_entity sink" and "wrap_contract wrap" and "reachable tr sink wrap s"
    and "\<not> row_current tr (qs_db s) j"
    and "claim_job_as tr fresh j worker now lease budget (qs_db s) = Inr (result, d')"
  shows "d' = qs_db s \<and> (result = RContended \<or> result = RSkipped)"
proof -
  note ok = queue_invD(1) [OF reachable_inv [OF assms(1-3)]]
  have "row_current tr (qs_db s) j" if "queue_row (qs_db s) j = Some r"
    "vw_version r = int (length (job_stream tr (qs_db s) j))" for r
    using that queue_db_okD(3) [OF ok, of j] by (auto simp: row_current_def row_ok_def)
  then show ?thesis
    using claim_step [OF ok assms(5)] assms(4) by (auto simp: claim_effect_def)
qed

theorem lagging_row_not_claimed_witness:
  "\<exists>s. reachable (\<lambda>_. True) sample_sink sample_wrap s \<and> \<not> row_current (\<lambda>_. True) (qs_db s) ''j''
     \<and> (\<forall>result d'. claim_job_as (\<lambda>_. True) ''c2'' ''j'' ''v'' 500 50 5 (qs_db s) = Inr (result, d') \<longrightarrow> d' = qs_db s)"
proof -
  obtain s where s: "reachable (\<lambda>_. True) sample_sink sample_wrap s" "(''j'', EvSucceeded) \<in> set (qs_pending s)"
    by (rule sample_settled)
  have "\<not> row_current (\<lambda>_. True) (qs_db s) ''j''"
    using queue_invD(4) [OF reachable_inv [OF sample_contracts s(1)] s(2)]
    by (auto simp: pending_ok_def row_current_def split: option.splits)
  then show ?thesis using lagging_row_not_claimed [OF sample_contracts s(1)] s(1) by blast
qed

text \<open>
  C10 (restart_heals_queue). The catch-up of a restart succeeds at every reachable state and brings each
  row to the end of its stream without touching its lease, so a job whose reaction was lost is pollable
  again with its true state.
\<close>

theorem restart_heals_queue:
  assumes "event_sink_contract job_entity sink" and "wrap_contract wrap" and "reachable tr sink wrap s"
  shows "\<exists>rows. catch_up (job_projection tr) (events (qs_db s)) (job_queue (qs_db s)) = (rows, Inr ())
    \<and> (\<forall>j. row_current tr ((qs_db s)\<lparr>job_queue := rows\<rparr>) j
         \<and> Option.bind (queue_row ((qs_db s)\<lparr>job_queue := rows\<rparr>) j) vw_lease
           = Option.bind (queue_row (qs_db s) j) vw_lease)"
proof -
  note st = restart_step [OF queue_invD(1) [OF reachable_inv [OF assms]] refl]
  obtain rows res where c: "catch_up (job_projection tr) (events (qs_db s)) (job_queue (qs_db s)) = (rows, res)"
    by fastforce
  show ?thesis using st(2,4,5) by (auto simp: c)
qed

theorem restart_heals_queue_witness:
  "\<exists>s rows. reachable (\<lambda>_. True) sample_sink sample_wrap s \<and> \<not> row_current (\<lambda>_. True) (qs_db s) ''j''
     \<and> row_current (\<lambda>_. True) ((qs_db s)\<lparr>job_queue := rows\<rparr>) ''j''
     \<and> catch_up (job_projection (\<lambda>_. True)) (events (qs_db s)) (job_queue (qs_db s)) = (rows, Inr ())"
proof -
  obtain s where s: "reachable (\<lambda>_. True) sample_sink sample_wrap s" "(''j'', EvSucceeded) \<in> set (qs_pending s)"
    by (rule sample_settled)
  have "\<not> row_current (\<lambda>_. True) (qs_db s) ''j''"
    using queue_invD(4) [OF reachable_inv [OF sample_contracts s(1)] s(2)]
    by (auto simp: pending_ok_def row_current_def split: option.splits)
  then show ?thesis using restart_heals_queue [OF sample_contracts s(1)] s(1) by blast
qed

end
