(* ===== verification/Ffi_Calls.thy ===== *)
theory Ffi_Calls
  imports Ffi_Claims Ffi_Store Job_System
begin

text \<open>
  The entry points of the C ABI, \<open>crates/event-sorcery-ffi/src/lib.rs\<close>, as the body each runs under its store
  lease: the guards on outputs and requests in the order of the code, the engine or job operation, and the
  encoding of the answer. The open store is the database with the claim registry. \<open>parse_id\<close> is the parser of
  the \<open>ulid\<close> crate, \<open>ser\<close> the writes of the CBOR serializer, \<open>send\<close> the command execution of cqrs-es. Tokens
  and ULIDs are minted by the caller of the model.
\<close>

record store_inner =
  si_db :: db
  si_claims :: claim_registry

definition require_out :: "string \<Rightarrow> bool \<Rightarrow> abi_error + unit" where
  "require_out message present = (if present then Inr () else Inl (State message))"

definition require_stream :: "8 word \<Rightarrow> string \<Rightarrow> string \<Rightarrow> abi_error + stream_identity" where
  "require_stream version ty aid =
     bind_result (require_version version) (\<lambda>_.
     bind_result (require_identifier_limit (length ty)) (\<lambda>_.
     bind_result (require_identifier_limit (length aid)) (\<lambda>_. Inr \<lparr>st_type = ty, st_id = aid\<rparr>)))"

definition engine_result :: "engine_error + 'a \<Rightarrow> abi_error + 'a" where
  "engine_result r = map_err (from_engine_error \<circ> EngineFault) r"

section \<open>Streams and snapshots\<close>

definition es_load_stream ::
  "(json \<Rightarrow> 8 word list) \<Rightarrow> (text_cell \<Rightarrow> nat) \<Rightarrow> (stored_event_wire \<Rightarrow> 8 word list list)
     \<Rightarrow> (8 word \<times> string \<times> string \<times> nat option) cbor_codec \<Rightarrow> bool \<Rightarrow> es_request \<Rightarrow> db \<Rightarrow> abi_error + 8 word list" where
  "es_load_stream to_vec cell_len ser cb has_out req d =
     bind_result (require_out ''out_events is null'' has_out) (\<lambda>_.
     bind_result (decode cb req) (\<lambda>(version, ty, aid, after_seq).
     bind_result (require_stream version ty aid) (\<lambda>stream.
     bind_result (case after_seq of None \<Rightarrow> Inr None
                  | Some a \<Rightarrow> map_sum id Some (ok_or InputInteger (usize_try_from (int a)))) (\<lambda>after'.
     bind_result (engine_result (load_opaque_events_page_bounded to_vec cell_len stream after' MAX_LIST_ITEMS
       MAX_STORED_EVENT_PAGE_BYTES d)) (\<lambda>evs.
       encode_event_page ser evs)))))"

definition es_current_version ::
  "(8 word \<times> string \<times> string) cbor_codec \<Rightarrow> bool \<Rightarrow> es_request \<Rightarrow> db \<Rightarrow> abi_error + nat" where
  "es_current_version cb has_out req d =
     bind_result (require_out ''out_version is null'' has_out) (\<lambda>_.
     bind_result (decode cb req) (\<lambda>(version, ty, aid).
     bind_result (require_stream version ty aid) (\<lambda>stream.
     bind_result (engine_result (current_version stream d)) (\<lambda>v.
       ok_or StorageInteger (usize_try_from (int v))))))"

type_synonym commit_wire = "8 word \<times> string \<times> string \<times> nat \<times> proposed_event_wire commit_events"
type_synonym job_seed_wire = "string \<times> string \<times> 8 word list \<times> int"

definition es_commit :: "(int \<Rightarrow> bool) \<Rightarrow> (db \<Rightarrow> db) \<Rightarrow> commit_wire cbor_codec \<Rightarrow> es_request \<Rightarrow> db \<Rightarrow> abi_error + db" where
  "es_commit tr later cb req d =
     bind_result (decode_validated cb (\<lambda>(_, _, _, _, evs). require_commit_event_count (ce_observed evs)) req)
       (\<lambda>(version, ty, aid, expected, evs).
     bind_result (commit_parts_of version ty aid expected evs) (\<lambda>parts.
       commit_result tr later parts expected None d))"

definition job_seed_of :: "(string \<Rightarrow> string option) \<Rightarrow> job_seed_wire \<Rightarrow> abi_error + enqueue_request" where
  "job_seed_of parse_id job =
     (case job of (job_id, kind, payload, run_at_ms) \<Rightarrow>
        bind_result (require_identifier_limit (length job_id)) (\<lambda>_.
        bind_result (require_identifier_limit (length kind)) (\<lambda>_.
        bind_result (require_payload_limit (length payload)) (\<lambda>_.
        bind_result (ok_or JobIdentifier (parse_id job_id)) (\<lambda>jid.
          Inr \<lparr>eq_job_id = jid, eq_kind = kind, eq_payload = payload_value payload, eq_run_at_ms = run_at_ms\<rparr>)))))"

definition es_commit_with_job ::
  "(int \<Rightarrow> bool) \<Rightarrow> (string \<Rightarrow> string option) \<Rightarrow> (db \<Rightarrow> db)
     \<Rightarrow> (8 word \<times> string \<times> string \<times> nat \<times> proposed_event_wire commit_events \<times> job_seed_wire) cbor_codec
     \<Rightarrow> es_request \<Rightarrow> db \<Rightarrow> abi_error + db" where
  "es_commit_with_job tr parse_id later cb req d =
     bind_result (decode_validated cb (\<lambda>(_, _, _, _, evs, _). require_commit_event_count (ce_observed evs)) req)
       (\<lambda>(version, ty, aid, expected, evs, job).
     bind_result (commit_parts_of version ty aid expected evs) (\<lambda>parts.
     bind_result (job_seed_of parse_id job) (\<lambda>seed.
       commit_result tr later parts expected (Some seed) d)))"

definition es_snapshot_load ::
  "(8 word \<times> (nat \<times> nat \<times> 8 word list) option \<Rightarrow> 8 word list list)
     \<Rightarrow> (8 word \<times> string \<times> string) cbor_codec \<Rightarrow> bool \<Rightarrow> es_request \<Rightarrow> db \<Rightarrow> abi_error + 8 word list" where
  "es_snapshot_load ser cb has_out req d =
     bind_result (require_out ''out_snapshot is null'' has_out) (\<lambda>_.
     bind_result (decode cb req) (\<lambda>(version, ty, aid).
     bind_result (require_stream version ty aid) (\<lambda>stream.
     bind_result (engine_result (load_snapshot_on stream d)) (\<lambda>stored.
     bind_result (case stored of None \<Rightarrow> Inr None | Some snapshot \<Rightarrow> map_sum id Some (snapshot_to_wire snapshot)) (\<lambda>wire.
       encode_response ser (1, wire))))))"

definition es_snapshot_store ::
  "(8 word \<times> string \<times> string \<times> nat \<times> 8 word list) cbor_codec \<Rightarrow> bool \<Rightarrow> es_request \<Rightarrow> db \<Rightarrow> abi_error + nat \<times> db" where
  "es_snapshot_store cb has_out req d =
     bind_result (require_out ''out_version is null'' has_out) (\<lambda>_.
     bind_result (decode cb req) (\<lambda>(version, ty, aid, sequence, payload).
     bind_result (require_stream version ty aid) (\<lambda>stream.
     bind_result (require_payload_limit (length payload)) (\<lambda>_.
     bind_result (ok_or InputInteger (usize_try_from (int sequence))) (\<lambda>last_sequence.
     bind_result (engine_result (store_snapshot stream
       \<lparr>sw_aggregate = encode_opaque_payload payload, sw_last_sequence = last_sequence\<rparr> d)) (\<lambda>(snapshot_version, d').
     bind_result (ok_or StorageInteger (usize_try_from (int snapshot_version))) (\<lambda>v. Inr (v, d'))))))))"

definition es_snapshot_discard :: "(8 word \<times> string \<times> string) cbor_codec \<Rightarrow> es_request \<Rightarrow> db \<Rightarrow> abi_error + db" where
  "es_snapshot_discard cb req d =
     bind_result (decode cb req) (\<lambda>(version, ty, aid).
     bind_result (require_stream version ty aid) (\<lambda>stream. Inr (discard_snapshot stream d)))"

section \<open>Schema\<close>

definition reconcile_schema :: "schema_target \<Rightarrow> db \<Rightarrow> engine_fault + schema_reconciliation \<times> db" where
  "reconcile_schema target d = map_err Schema (reconcile_target target d)"

definition record_schema :: "registry_execute \<Rightarrow> schema_target \<Rightarrow> db \<Rightarrow> (engine_fault + unit) \<times> db" where
  "record_schema execute target d = (case record_target execute target d of (r, d') \<Rightarrow> (map_err Schema r, d'))"

definition es_schema_reconcile ::
  "(8 word \<times> string \<times> nat \<times> 8 word) cbor_codec \<Rightarrow> bool \<Rightarrow> es_request \<Rightarrow> db \<Rightarrow> abi_error + 8 word \<times> db" where
  "es_schema_reconcile cb has_out req d =
     bind_result (require_out ''out_reconciliation is null'' has_out) (\<lambda>_.
     bind_result (decode_schema_target cb req) (\<lambda>target.
     bind_result (map_err from_engine_error (reconcile_schema target d)) (\<lambda>(outcome, d').
       Inr (case outcome of Changed \<Rightarrow> 0 | Unchanged \<Rightarrow> 1, d'))))"

definition es_schema_record ::
  "registry_execute \<Rightarrow> (8 word \<times> string \<times> nat \<times> 8 word) cbor_codec \<Rightarrow> es_request \<Rightarrow> db \<Rightarrow> (abi_error + unit) \<times> db" where
  "es_schema_record execute cb req d =
     (case decode_schema_target cb req of
        Inl err \<Rightarrow> (Inl err, d)
      | Inr target \<Rightarrow> (case record_schema execute target d of (r, d') \<Rightarrow> (map_err from_engine_error r, d')))"

section \<open>Jobs\<close>

definition es_job_enqueue ::
  "(int \<Rightarrow> bool) \<Rightarrow> (string \<Rightarrow> string option) \<Rightarrow> (8 word \<times> string \<times> string \<times> 8 word list \<times> int) cbor_codec
     \<Rightarrow> es_request \<Rightarrow> db \<Rightarrow> abi_error + db" where
  "es_job_enqueue tr parse_id cb req d =
     bind_result (decode cb req) (\<lambda>(version, job_id, kind, payload, run_at_ms).
     bind_result (require_version version) (\<lambda>_.
     bind_result (job_seed_of parse_id (job_id, kind, payload, run_at_ms)) (\<lambda>seed.
       map_err (abi_job_error (eq_job_id seed))
         (enqueue_job_payload tr (eq_job_id seed) (eq_kind seed) (eq_payload seed) (eq_run_at_ms seed) d))))"

definition es_job_poll ::
  "(8 word \<times> string list \<Rightarrow> 8 word list list) \<Rightarrow> (8 word \<times> string \<times> int \<times> u32) cbor_codec \<Rightarrow> bool \<Rightarrow> es_request
     \<Rightarrow> db \<Rightarrow> abi_error + 8 word list" where
  "es_job_poll ser cb has_out req d =
     bind_result (require_out ''out_jobs is null'' has_out) (\<lambda>_.
     bind_result (decode cb req) (\<lambda>(version, kind, now_ms, limit).
     bind_result (require_version version) (\<lambda>_.
     bind_result (require_identifier_limit (length kind)) (\<lambda>_.
     if unat limit > MAX_LIST_ITEMS then Inl (ResourceLimit ''job_poll_limit'' (unat limit) MAX_LIST_ITEMS)
     else encode_response ser (1, poll_jobs kind now_ms limit d)))))"

text \<open>\<open>dead_letter_unusable_claim\<close>: a failure to settle replaces the refusal.\<close>

definition dead_letter_unusable_claim ::
  "db job_send \<Rightarrow> job_claim_handle \<Rightarrow> job_refusal \<Rightarrow> db \<Rightarrow> abi_error \<times> db" where
  "dead_letter_unusable_claim send won refusal d =
     (case dead_letter_job send won Undecodable (refusal_text refusal) d of
        (Inr _, d') \<Rightarrow> (JobRefusal (jh_job_id won) refusal, d')
      | (Inl err, d') \<Rightarrow> (abi_job_error (jh_job_id won) err, d'))"

record job_claim_wire =
  jw_outcome :: "8 word"
  jw_token :: "claim_token option"
  jw_attempt :: "u32 option"
  jw_prior :: "8 word option"
  jw_payload :: "8 word list option"

definition plain_claim_wire :: "8 word \<Rightarrow> job_claim_wire" where
  "plain_claim_wire tag = \<lparr>jw_outcome = tag, jw_token = None, jw_attempt = None, jw_prior = None, jw_payload = None\<rparr>"

text \<open>
  The part of \<open>es_job_claim\<close> that runs under a reservation. Every return but an issued token drops the pending
  reservation, which \<open>drop_reservation\<close> stands for.
\<close>

definition claim_reserved ::
  "(int \<Rightarrow> bool) \<Rightarrow> db job_send \<Rightarrow> string \<Rightarrow> string \<Rightarrow> claim_token \<Rightarrow> string \<Rightarrow> string \<Rightarrow> int \<Rightarrow> int \<Rightarrow> int \<Rightarrow> u32
     \<Rightarrow> store_inner \<Rightarrow> (abi_error + job_claim_wire) \<times> store_inner" where
  "claim_reserved tr send fresh worker_ulid token job_id worker_name now_ms lease_ms lease_until max_claims inner =
     (case claim_job_named tr fresh worker_ulid job_id worker_name now_ms lease_ms max_claims (si_db inner) of
        Inl err \<Rightarrow> (Inl (abi_job_error job_id err), inner\<lparr>si_claims := drop_reservation (si_claims inner)\<rparr>)
      | Inr (RClaimed claimed, d) \<Rightarrow>
          (case claimed_payload_bytes (cj_payload claimed) of
             Inl refusal \<Rightarrow>
               (case dead_letter_unusable_claim send (cj_handle claimed) refusal d of (err, d') \<Rightarrow>
                  (Inl err, \<lparr>si_db = d', si_claims = drop_reservation (si_claims inner)\<rparr>))
           | Inr payload \<Rightarrow>
               (Inr \<lparr>jw_outcome = 0, jw_token = Some token, jw_attempt = Some (jh_attempt (cj_handle claimed)),
                  jw_prior = Some (if handle_is_first_execution (cj_handle claimed) then 0 else 1),
                  jw_payload = Some payload\<rparr>,
                \<lparr>si_db = d, si_claims = issue token (cj_handle claimed) lease_until (si_claims inner)\<rparr>))
      | Inr (RAbandoned, d) \<Rightarrow>
          (Inr (plain_claim_wire 1),
           \<lparr>si_db = d, si_claims = drop_reservation (retire_expired_claims job_id now_ms (si_claims inner))\<rparr>)
      | Inr (RContended, d) \<Rightarrow>
          (Inr (plain_claim_wire 2), \<lparr>si_db = d, si_claims = drop_reservation (si_claims inner)\<rparr>)
      | Inr (RSkipped, d) \<Rightarrow>
          (Inr (plain_claim_wire 3),
           \<lparr>si_db = d, si_claims = drop_reservation (retire_expired_claims job_id now_ms (si_claims inner))\<rparr>))"

text \<open>The response is encoded last, when a token may already be out; \<open>ser\<close> gives the writes for the claim product.\<close>

definition encode_claim ::
  "(job_claim_wire \<Rightarrow> 8 word list list) \<Rightarrow> (abi_error + job_claim_wire) \<times> store_inner
     \<Rightarrow> (abi_error + 8 word list) \<times> store_inner" where
  "encode_claim ser answer = (case answer of (r, inner) \<Rightarrow> (bind_result r (encode_response ser), inner))"

definition es_job_claim ::
  "(job_claim_wire \<Rightarrow> 8 word list list) \<Rightarrow> (int \<Rightarrow> bool) \<Rightarrow> (string \<Rightarrow> string option) \<Rightarrow> db job_send \<Rightarrow> string \<Rightarrow> string \<Rightarrow> claim_token option
     \<Rightarrow> (8 word \<times> string \<times> string \<times> int \<times> int \<times> u32) cbor_codec \<Rightarrow> bool \<Rightarrow> es_request \<Rightarrow> store_inner
     \<Rightarrow> (abi_error + 8 word list) \<times> store_inner" where
  "es_job_claim ser tr parse_id send fresh worker_ulid minted cb has_out req inner =
     (case bind_result (require_out ''out_claim is null'' has_out) (\<lambda>_.
           bind_result (decode cb req) (\<lambda>(version, job_id, worker_name, now_ms, lease_ms, max_claims).
           bind_result (require_version version) (\<lambda>_.
           bind_result (require_identifier_limit (length job_id)) (\<lambda>_.
           bind_result (require_identifier_limit (length worker_name)) (\<lambda>_.
           if lease_ms \<le> 0 \<or> max_claims = 0 then Inl MalformedInput else
           bind_result (ok_or JobIdentifier (parse_id job_id)) (\<lambda>jid.
           bind_result (ok_or (State ''claim lease instant overflowed'') (i64_checked_add now_ms lease_ms)) (\<lambda>lease_until.
           bind_result (ok_or (State ''claim token generation failed'') minted) (\<lambda>token.
           bind_result (prepare_claim now_ms (si_claims inner)) (\<lambda>reg.
             Inr (jid, worker_name, now_ms, lease_ms, lease_until, max_claims, token, reg)))))))))) of
        Inl err \<Rightarrow> (Inl err, inner)
      | Inr (jid, worker_name, now_ms, lease_ms, lease_until, max_claims, token, reg) \<Rightarrow>
          encode_claim ser (claim_reserved tr send fresh worker_ulid token jid worker_name now_ms lease_ms lease_until
            max_claims (inner\<lparr>si_claims := reg\<rparr>)))"

definition es_job_renew ::
  "(8 word \<times> 8 word list \<times> int) cbor_codec \<Rightarrow> bool \<Rightarrow> es_request \<Rightarrow> store_inner \<Rightarrow> (abi_error + 8 word) \<times> store_inner" where
  "es_job_renew cb has_out req inner =
     (case bind_result (require_out ''out_renewal is null'' has_out) (\<lambda>_.
           bind_result (decode cb req) (\<lambda>(version, encoded, new_lease).
           bind_result (require_version version) (\<lambda>_.
           bind_result (decode_claim_token encoded) (\<lambda>token.
           bind_result (begin_renewal token (si_claims inner)) (\<lambda>(won, reg). Inr (token, won, reg, new_lease)))))) of
        Inl err \<Rightarrow> (Inl err, inner)
      | Inr (token, won, reg, new_lease) \<Rightarrow>
          (case renew_claim won new_lease (si_db inner) of
             (Held, d) \<Rightarrow>
               (case complete_renewal token new_lease reg of
                  (Inl err, reg') \<Rightarrow> (Inl err, \<lparr>si_db = d, si_claims = reg'\<rparr>)
                | (Inr _, reg') \<Rightarrow> (Inr 0, \<lparr>si_db = d, si_claims = reg'\<rparr>))
           | (Lost, d) \<Rightarrow> (Inr 1, \<lparr>si_db = d, si_claims = retire_renewal token reg\<rparr>)))"

text \<open>\<open>settle_claim_with\<close>: \<open>validate\<close> and \<open>token_of\<close> read the decoded request, \<open>operation\<close> settles the claim.\<close>

definition settle_claim_with ::
  "'w cbor_codec \<Rightarrow> ('w \<Rightarrow> abi_error + unit) \<Rightarrow> ('w \<Rightarrow> abi_error + claim_token)
     \<Rightarrow> (job_claim_handle \<Rightarrow> 'w \<Rightarrow> db \<Rightarrow> (abi_error + job_settlement_result) \<times> db)
     \<Rightarrow> bool \<Rightarrow> es_request \<Rightarrow> store_inner \<Rightarrow> (abi_error + 8 word) \<times> store_inner" where
  "settle_claim_with cb validate token_of operation has_out req inner =
     (case bind_result (require_out ''out_settlement is null'' has_out) (\<lambda>_.
           bind_result (decode cb req) (\<lambda>decoded.
           bind_result (validate decoded) (\<lambda>_.
           bind_result (token_of decoded) (\<lambda>token.
           bind_result (begin_settlement token (si_claims inner)) (\<lambda>(won, reg). Inr (decoded, token, won, reg)))))) of
        Inl err \<Rightarrow> (Inl err, inner)
      | Inr (decoded, token, won, reg) \<Rightarrow>
          (case operation won decoded (si_db inner) of
             (Inl err, d) \<Rightarrow> (Inl err, \<lparr>si_db = d, si_claims = drop_settlement token reg\<rparr>)
           | (Inr result, d) \<Rightarrow> (Inr (settlement_tag result), \<lparr>si_db = d, si_claims = complete_settlement token reg\<rparr>)))"

definition job_settlement ::
  "job_claim_handle \<Rightarrow> (job_runtime_error + job_settlement_result) \<times> db \<Rightarrow> (abi_error + job_settlement_result) \<times> db" where
  "job_settlement won r = (case r of (res, d) \<Rightarrow> (map_err (abi_job_error (jh_job_id won)) res, d))"

definition es_job_ack ::
  "db job_send \<Rightarrow> (8 word \<times> 8 word list) cbor_codec \<Rightarrow> bool \<Rightarrow> es_request \<Rightarrow> store_inner
     \<Rightarrow> (abi_error + 8 word) \<times> store_inner" where
  "es_job_ack send cb has_out req inner =
     settle_claim_with cb (\<lambda>(version, _). require_version version) (\<lambda>(_, encoded). decode_claim_token encoded)
       (\<lambda>won _ d. job_settlement won (acknowledge_job send won d)) has_out req inner"

definition es_job_retry ::
  "(int \<Rightarrow> bool) \<Rightarrow> db job_send \<Rightarrow> (8 word \<times> 8 word list \<times> int \<times> string) cbor_codec \<Rightarrow> bool \<Rightarrow> es_request
     \<Rightarrow> store_inner \<Rightarrow> (abi_error + 8 word) \<times> store_inner" where
  "es_job_retry tr send cb has_out req inner =
     settle_claim_with cb
       (\<lambda>(version, _, _, err). bind_result (require_version version) (\<lambda>_. require_error_text_limit (length err)))
       (\<lambda>(_, encoded, _, _). decode_claim_token encoded)
       (\<lambda>won (_, _, run_at_ms, err) d. job_settlement won (retry_job tr send won run_at_ms err d)) has_out req inner"

definition es_job_defer ::
  "(int \<Rightarrow> bool) \<Rightarrow> db job_send \<Rightarrow> (8 word \<times> 8 word list \<times> int) cbor_codec \<Rightarrow> bool \<Rightarrow> es_request
     \<Rightarrow> store_inner \<Rightarrow> (abi_error + 8 word) \<times> store_inner" where
  "es_job_defer tr send cb has_out req inner =
     settle_claim_with cb (\<lambda>(version, _, _). require_version version) (\<lambda>(_, encoded, _). decode_claim_token encoded)
       (\<lambda>won (_, _, run_at_ms) d. job_settlement won (defer_job tr send won run_at_ms d)) has_out req inner"

definition es_job_dead_letter ::
  "db job_send \<Rightarrow> (8 word \<times> 8 word list \<times> 8 word \<times> string) cbor_codec \<Rightarrow> bool \<Rightarrow> es_request
     \<Rightarrow> store_inner \<Rightarrow> (abi_error + 8 word) \<times> store_inner" where
  "es_job_dead_letter send cb has_out req inner =
     settle_claim_with cb
       (\<lambda>(version, _, reason, err). bind_result (require_version version) (\<lambda>_.
          bind_result (require_error_text_limit (length err)) (\<lambda>_.
          bind_result (dead_reason_of reason) (\<lambda>_. Inr ()))))
       (\<lambda>(_, encoded, _, _). decode_claim_token encoded)
       (\<lambda>won (_, _, tag, err) d.
          case dead_reason_of tag of
            Inl e \<Rightarrow> (Inl e, d)
          | Inr reason \<Rightarrow> job_settlement won (dead_letter_job send won reason err d)) has_out req inner"

text \<open>\<open>es_close\<close>: what the C caller gets once the close protocol of the store is through.\<close>

definition es_close_code :: "(abi_error + unit) option \<Rightarrow> int" where
  "es_close_code result =
     (case result of None \<Rightarrow> ES_OK | Some (Inr _) \<Rightarrow> ES_OK | Some (Inl err) \<Rightarrow> abi_code err)"

section \<open>Opaque payloads through the queue\<close>

lemma collect_claimed_bytes: "collect_results claimed_byte (map byte_to_json bytes) = Inr bytes"
  by (induction bytes) (simp_all add: claimed_byte_def)

lemma claimed_payload_value:
  "length bytes \<le> MAX_PAYLOAD_BYTES \<Longrightarrow> claimed_payload_bytes (payload_value bytes) = Inr bytes"
  by (simp add: claimed_payload_bytes_def payload_value_def collect_claimed_bytes)

lemma es_job_enqueue_Inr:
  assumes "es_job_enqueue tr parse_id cb req d = Inr d'"
  shows "\<exists>raw kind payload run_at j. decode cb req = Inr (1, raw, kind, payload, run_at) \<and> parse_id raw = Some j
    \<and> length payload \<le> MAX_PAYLOAD_BYTES
    \<and> enqueue_job_payload tr j kind (payload_value payload) run_at d = Inr d'"
  using assms by (auto simp: es_job_enqueue_def job_seed_of_def)

text \<open>
  C39 (abi_job_round_trip). A job enqueued over the C ABI comes back over it byte for byte: once its \<open>run_at\<close>
  has come, a well-formed claim request for it (any spelling the id parser maps to the same id) on a store
  with a claim slot answers with the encoding of the minted token and exactly the payload bytes that were
  enqueued, marked as a first execution, and the token is then retained for that job until the lease
  instant.
\<close>

theorem abi_job_round_trip:
  assumes ok: "queue_db_ok tr d"
    and enq: "es_job_enqueue tr parse_id cb req d = Inr d'" "decode cb req = Inr (1, raw, kind, payload, run_at)"
    and run_at: "in_i64 run_at" "run_at \<le> now"
    and req': "decode cb' req' = Inr (1, raw', worker, now, lease, budget)" "parse_id raw' = parse_id raw"
      "length raw' \<le> MAX_IDENTIFIER_BYTES" "length worker \<le> MAX_IDENTIFIER_BYTES"
    and policy: "0 < lease" "0 < budget" "in_i64 (now + lease)" "tr (now + lease)"
    and slot: "prepare_claim now reg = Inr reg'" and fresh_token: "token \<notin> tokens reg'"
  shows "\<exists>attempt inner. es_job_claim ser tr parse_id send fresh ulid (Some token) cb' True req' \<lparr>si_db = d', si_claims = reg\<rparr>
      = (encode_response ser \<lparr>jw_outcome = 0, jw_token = Some token, jw_attempt = Some attempt, jw_prior = Some 0,
             jw_payload = Some payload\<rparr>, inner)
    \<and> (\<exists>claim. map_of (cr_retained (si_claims inner)) token = Some claim \<and> rc_state claim = Available
         \<and> Some (jh_job_id (rc_handle claim)) = parse_id raw \<and> rc_lease_until claim = now + lease)"
proof -
  obtain j where j: "parse_id raw = Some j" "length payload \<le> MAX_PAYLOAD_BYTES"
      "enqueue_job_payload tr j kind (payload_value payload) run_at d = Inr d'"
    using es_job_enqueue_Inr [OF enq(1)] enq(2) by auto
  let ?q = "\<lparr>eq_job_id = j, eq_kind = kind, eq_payload = payload_value payload, eq_run_at_ms = run_at\<rparr>"
  note step = enqueue_step [OF ok j(3) run_at(1)]
  have row: "queue_row d' (eq_job_id ?q) = Some (seed_row ?q)"
    using enqueue_job_payload_Inr(3) [OF j(3)] by (simp add: queue_row_def jq.get_put)
  obtain claimed d'' where c: "claim_job_as tr fresh (eq_job_id ?q) (worker @ '':'' @ ulid) now lease budget d' = Inr (RClaimed claimed, d'')"
      "cj_payload claimed = eq_payload ?q" "handle_is_first_execution (cj_handle claimed)" "jh_job_id (cj_handle claimed) = eq_job_id ?q"
    by (rule seeded_claimed [where q = ?q and fresh = fresh and worker = "worker @ '':'' @ ulid", OF step(1) row])
      (use step(4) run_at(2) policy in simp_all)
  let ?inner = "\<lparr>si_db = d'', si_claims = issue token (cj_handle claimed) (now + lease) reg'\<rparr>"
  have "es_job_claim ser tr parse_id send fresh ulid (Some token) cb' True req' \<lparr>si_db = d', si_claims = reg\<rparr>
      = (encode_response ser \<lparr>jw_outcome = 0, jw_token = Some token, jw_attempt = Some (jh_attempt (cj_handle claimed)), jw_prior = Some 0,
             jw_payload = Some payload\<rparr>, ?inner)"
    using c claimed_payload_value [OF j(2)] req' policy j(1) slot word_neq_0_conv [of budget]
    by (simp add: es_job_claim_def require_out_def require_version_def require_identifier_limit_def i64_checked_add_def
        claim_reserved_def claim_job_named_def encode_claim_def)
  moreover have "token \<notin> fst ` set (filter (\<lambda>(_, c). kept_by (jh_job_id (cj_handle claimed)) c) (cr_retained reg'))"
    using fresh_token by (force simp: tokens_def)
  then have "map_of (cr_retained (issue token (cj_handle claimed) (now + lease) reg')) token
      = Some \<lparr>rc_handle = cj_handle claimed, rc_lease_until = now + lease, rc_state = Available\<rparr>"
    by (simp add: issue_def release_reservation_def)
  ultimately show ?thesis using c(4) j(1)
    by (intro exI [of _ "jh_attempt (cj_handle claimed)"] exI [of _ ?inner] conjI) simp_all
qed

definition sample_codec :: "'w \<Rightarrow> 'w cbor_codec" where
  "sample_codec w = \<lparr>cb_dec = (\<lambda>_. Some w), cb_enc = (\<lambda>_. Some [1])\<rparr>"

lemma sample_decode: "decode (sample_codec w) (Some (Some [1])) = Inr w"
  by (simp add: decode_def decode_validated_def sample_codec_def MAX_REQUEST_BYTES_def)

lemma queue_db_ok_empty: "queue_db_ok tr empty_db"
  using queue_invD(1) [OF inv_init] by (simp add: queue_init_def)

theorem abi_job_round_trip_witness:
  "\<exists>d' inner. es_job_enqueue (\<lambda>_. True) Some (sample_codec (1, ''j'', ''mail'', [7, 255], 5)) (Some (Some [1])) empty_db = Inr d'
     \<and> es_job_claim (\<lambda>w. [the (jw_payload w)]) (\<lambda>_. True) Some (\<lambda>_ _ d. (Inr (), d)) ''c1'' ''u'' (Some [9]) (sample_codec (1, ''j'', ''w'', 10, 100, 3)) True
         (Some (Some [1])) \<lparr>si_db = d', si_claims = \<lparr>cr_retained = [], cr_reservations = 0\<rparr>\<rparr>
       = (Inr [7, 255], inner)"
proof -
  let ?enq = "es_job_enqueue (\<lambda>_. True) Some (sample_codec (1, ''j'', ''mail'', [7, 255], 5)) (Some (Some [1])) empty_db"
  obtain d' where d': "?enq = Inr d'"
    by (simp add: es_job_enqueue_def job_seed_of_def sample_decode require_version_def require_identifier_limit_def
        require_payload_limit_def MAX_IDENTIFIER_BYTES_def MAX_PAYLOAD_BYTES_def enqueue_job_payload_def enqueue_job_def
        enqueued_event_eq pending_seed_payload_eq append_job_event_def insert_batch_single empty_db_def seq_fits_def
        I64_MAX_def Let_def)
  let ?reg = "\<lparr>cr_retained = [], cr_reservations = 0\<rparr> :: claim_registry"
  have slot: "prepare_claim 10 ?reg = Inr \<lparr>cr_retained = [], cr_reservations = 1\<rparr>"
    by (simp add: prepare_claim_def usize_checked_add_def USIZE_MAX_def MAX_ACTIVE_CLAIMS_def MAX_LIST_ITEMS_def)
  have i64: "in_i64 5" "in_i64 (10 + 100)" by (simp_all add: i64_simps)
  show ?thesis
    using abi_job_round_trip [OF queue_db_ok_empty d' sample_decode i64(1) _ sample_decode refl _ _ _ _ i64(2) _ slot,
        where ser = "\<lambda>w. [the (jw_payload w)]" and token = "[9]" and worker = "''w''" and budget = 3 and send = "\<lambda>_ _ d. (Inr (), d)" and fresh = "''c1''" and ulid = "''u''"] d'
    by (auto simp: MAX_IDENTIFIER_BYTES_def tokens_def encode_response_def write_all_def writer_write_def new_writer_def
        usize_checked_add_def USIZE_MAX_def MAX_RESPONSE_BYTES_def)
qed

section \<open>Conflicts reported to the binding\<close>

lemma commit_parts_serialize:
  assumes "commit_parts_of version ty aid e evs = Inr parts"
  obtains sers where
    "collect_results (serialize_opaque \<lparr>st_type = ty, st_id = aid\<rparr> e)
       (zip [0..<length (pt_events parts)] (pt_events parts)) = Inr sers"
    "events_follow_version sers e" "\<forall>x \<in> set sers. identity_matches \<lparr>st_type = ty, st_id = aid\<rparr> x"
    "pt_aggregate_type parts = ty" "pt_aggregate_id parts = aid" "pt_expected parts = e"
    "length sers = length (ce_values evs)" "e \<le> USIZE_MAX"
proof -
  from assms have parts: "pt_aggregate_type parts = ty" "pt_aggregate_id parts = aid" "pt_expected parts = e"
      "length (pt_events parts) = length (ce_values evs)" "e + length (ce_values evs) \<le> USIZE_MAX"
    by (auto simp: commit_parts_of_def usize_try_from_def usize_checked_add_def collect_results_length
        split: if_splits)
  let ?ser = "\<lambda>(i, ev). \<lparr>se_aggregate_id = aid, se_sequence = e + i + 1, se_aggregate_type = ty,
     se_event_type = op_event_type ev, se_event_version = op_event_version ev,
     se_payload = encode_opaque_payload (op_payload ev), se_metadata = engine_payload_metadata\<rparr>"
  let ?ps = "zip [0..<length (pt_events parts)] (pt_events parts)"
  have follow: "follow_sequence e i = Some (e + i + 1)" if "i < length (pt_events parts)" for i
    using that parts(4,5) by (simp add: follow_sequence_def usize_checked_add_def)
  have "collect_results (serialize_opaque \<lparr>st_type = ty, st_id = aid\<rparr> e) ?ps = Inr (map ?ser ?ps)"
    unfolding collect_results_Inr list_all2_conv_all_nth by (simp add: serialize_opaque_def follow)
  moreover have "events_follow_version (map ?ser ?ps) e"
    by (simp add: events_follow_version_def list_all_length follow)
  ultimately show ?thesis using parts by (intro that) (auto simp: identity_matches_def)
qed

lemma following_events_insert:
  assumes "events_follow_version evs v" and "\<forall>x \<in> set evs. identity_matches stream x"
    and "committed_stream_version stream d = Inr v" and "\<forall>x \<in> set evs. seq_fits x"
  shows "insert_serialized_events_batch evs (events d) = Inr (events d @ map event_row_of evs)"
proof -
  have seq: "i < length evs \<Longrightarrow> se_sequence (evs ! i) = v + i + 1" for i using events_follow_nth [OF assms(1)] by simp
  have "distinct (map se_sequence evs)" by (simp add: distinct_conv_nth seq)
  then have "distinct (map (\<lambda>x. event_pk (event_row_of x)) evs)"
    by (auto simp: distinct_conv_nth event_pk_def)
  moreover have "event_pk ` set (map event_row_of evs) \<inter> event_pk ` set (events d) = {}"
  proof (rule ccontr)
    assume "event_pk ` set (map event_row_of evs) \<inter> event_pk ` set (events d) \<noteq> {}"
    then obtain x r where x: "x \<in> set evs" "r \<in> set (events d)" "event_pk (event_row_of x) = event_pk r" by force
    then have "in_stream (st_type stream) (st_id stream) r" "er_seq r = int (se_sequence x)"
      using assms(2) by (auto simp: event_pk_def in_stream_def identity_matches_def)
    with version_bounds_events [OF assms(3) x(2)] events_follow_bounds [OF assms(1) x(1)] show False by simp
  qed
  ultimately show ?thesis using assms(4) by (simp add: insert_batch_Inr tbl_insert_all_Some comp_def)
qed

lemma commit_at_version:
  assumes "events_follow_version sers e" and "\<forall>x \<in> set sers. identity_matches stream x"
    and "committed_stream_version stream d = Inr e" and "int (e + length sers) \<le> I64_MAX"
  shows "commit_serialized tr (with_jobs jobs (at_expected_version e (new_commit stream sers))) d =
    flush_jobs tr jobs (d\<lparr>events := events d @ map event_row_of sers\<rparr>)"
proof -
  have fits: "\<forall>x \<in> set sers. seq_fits x"
    using events_follow_bounds [OF assms(1)] assms(4) by (force simp: seq_fits_def)
  show ?thesis
    using assms following_events_insert [OF assms(1-3) fits] validate_event_stream_Inr [of stream sers]
    by (simp add: commit_serialized_def with_jobs_def at_expected_version_def new_commit_def check_expected_def)
qed

text \<open>
  What a binding learns from a commit on a domain stream at version \<open>v\<close> with no
  other writer in between: a request that expects another version gets the conflict with exactly the
  expected and the durable version, with or without a job, and one that expects \<open>v\<close> and carries no job is
  committed and moves the version past its events (as long as they fit the database's integers).
\<close>

theorem abi_conflict_exact:
  assumes "commit_parts_of 1 ty aid e evs = Inr parts" and "current_version \<lparr>st_type = ty, st_id = aid\<rparr> d = Inr v"
    and "ty \<noteq> JOB_AGGREGATE_TYPE" and "int (e + length (ce_values evs)) \<le> I64_MAX"
  shows "if v = e
    then \<exists>d'. commit_result tr id parts e None d = Inr d'
           \<and> current_version \<lparr>st_type = ty, st_id = aid\<rparr> d' = Inr (e + length (ce_values evs))
    else commit_result tr id parts e job d = Inl (AbiConflict ty aid e v)"
proof -
  let ?stream = "\<lparr>st_type = ty, st_id = aid\<rparr>"
  obtain sers where p: "collect_results (serialize_opaque ?stream e) (zip [0..<length (pt_events parts)] (pt_events parts)) = Inr sers"
      "events_follow_version sers e" "\<forall>x \<in> set sers. identity_matches ?stream x"
      "pt_aggregate_type parts = ty" "pt_aggregate_id parts = aid" "pt_expected parts = e"
      "length sers = length (ce_values evs)" "e \<le> USIZE_MAX"
    by (rule commit_parts_serialize [OF assms(1)])
  let ?req = "\<lambda>jobs. with_jobs jobs (at_expected_version e (new_commit ?stream sers))"
  have sel: "cm_stream (?req jobs) = ?stream" "cm_expected (?req jobs) = Some e" "cm_events (?req jobs) = sers" for jobs
    by (simp_all add: with_jobs_def at_expected_version_def new_commit_def)
  have version: "committed_stream_version ?stream d = Inr v" using assms(2) by (simp add: current_version_def)
  then have v: "v \<le> USIZE_MAX" by (simp add: committed_stream_version_Inr)
  show ?thesis
  proof (cases "v = e")
    case True
    let ?d' = "d\<lparr>events := events d @ map event_row_of sers\<rparr>"
    have com: "commit_serialized tr (?req []) d = Inr ?d'"
      using commit_at_version [OF p(2,3)] version True assms(4) p(7) by simp
    have "committed_stream_version ?stream ?d' = Inr (e + length sers)"
      using commit_version [OF com] assms(3) by (simp add: sel domain_stream_def)
    with com True p show ?thesis by (simp add: commit_result_def commit_opaque_def current_version_def)
  next
    case False
    have "commit_serialized tr (?req jobs) d = Inl OptimisticLock" for jobs
      using stale_commit [of "?req jobs" e d v tr] version False p(3) by (simp add: sel validate_event_stream_Inr)
    with False p assms(2) v show ?thesis by (simp add: commit_result_def commit_opaque_def usize_try_from_def)
  qed
qed

text \<open>
  C40 (duplicate_job_reported_as_conflict). The conflict does not prove the expected version stale: a commit
  with a job whose id was enqueued before is refused as a conflict although the stream is at the expected
  version, and the reported actual version equals the expected one.
\<close>

theorem duplicate_job_reported_as_conflict:
  assumes "commit_parts_of 1 ty aid e evs = Inr parts" and "current_version \<lparr>st_type = ty, st_id = aid\<rparr> d = Inr e"
    and "int (e + length (ce_values evs)) \<le> I64_MAX"
    and "tr (eq_run_at_ms job)" and "event_pk (event_row_of (enqueued_of job)) \<in> event_pk ` set (events d)"
  shows "commit_result tr id parts e (Some job) d = Inl (AbiConflict ty aid e e)"
proof -
  let ?stream = "\<lparr>st_type = ty, st_id = aid\<rparr>"
  obtain sers where p: "collect_results (serialize_opaque ?stream e) (zip [0..<length (pt_events parts)] (pt_events parts)) = Inr sers"
      "events_follow_version sers e" "\<forall>x \<in> set sers. identity_matches ?stream x"
      "pt_aggregate_type parts = ty" "pt_aggregate_id parts = aid" "pt_expected parts = e"
      "length sers = length (ce_values evs)" "e \<le> USIZE_MAX"
    by (rule commit_parts_serialize [OF assms(1)])
  have "commit_serialized tr (with_jobs [job] (at_expected_version e (new_commit ?stream sers))) d = Inl OptimisticLock"
    using commit_at_version [OF p(2,3)] assms(2-5) p(7)
    by (simp add: current_version_def flush_job_def enqueued_event_eq insert_batch_single bind_result_Inl image_Un)
  with p assms(2) show ?thesis by (simp add: commit_result_def commit_opaque_def usize_try_from_def)
qed

lemma sample_parts:
  "commit_parts_of 1 ''Order'' ''a1'' 0 \<lparr>ce_values = [(''T'', ''1'', [1])], ce_observed = 1\<rparr> =
     Inr \<lparr>pt_aggregate_type = ''Order'', pt_aggregate_id = ''a1'', pt_expected = 0,
       pt_events = [\<lparr>op_event_type = ''T'', op_event_version = ''1'', op_payload = [1]\<rparr>]\<rparr>"
  by (simp add: commit_parts_of_def require_version_def require_identifier_limit_def require_commit_event_count_def
      proposed_event_def require_payload_limit_def usize_try_from_def usize_checked_add_def USIZE_MAX_def
      MAX_IDENTIFIER_BYTES_def MAX_COMMIT_EVENTS_def MAX_PAYLOAD_BYTES_def)

definition sample_seed :: enqueue_request where
  "sample_seed = \<lparr>eq_job_id = ''j'', eq_kind = ''mail'', eq_payload = JNull, eq_run_at_ms = 5\<rparr>"

lemma sample_version:
  "current_version \<lparr>st_type = ''Order'', st_id = ''a1''\<rparr> (empty_db\<lparr>events := [event_row_of (enqueued_of sample_seed)]\<rparr>) = Inr 0"
  by (simp add: current_version_def committed_stream_version_def max_sequence_def empty_db_def select_snapshot_def
      usize_try_from_def in_stream_def JOB_AGGREGATE_TYPE_def)

theorem abi_conflict_exact_witness:
  "\<exists>d'. commit_result (\<lambda>_. True) id
     \<lparr>pt_aggregate_type = ''Order'', pt_aggregate_id = ''a1'', pt_expected = 0,
       pt_events = [\<lparr>op_event_type = ''T'', op_event_version = ''1'', op_payload = [1]\<rparr>]\<rparr> 0 None
     (empty_db\<lparr>events := [event_row_of (enqueued_of sample_seed)]\<rparr>) = Inr d'
   \<and> current_version \<lparr>st_type = ''Order'', st_id = ''a1''\<rparr> d' = Inr 1"
  using abi_conflict_exact [OF sample_parts sample_version, of "\<lambda>_. True" None]
  by (simp add: JOB_AGGREGATE_TYPE_def I64_MAX_def)

theorem duplicate_job_reported_as_conflict_witness:
  "commit_result (\<lambda>_. True) id
     \<lparr>pt_aggregate_type = ''Order'', pt_aggregate_id = ''a1'', pt_expected = 0,
       pt_events = [\<lparr>op_event_type = ''T'', op_event_version = ''1'', op_payload = [1]\<rparr>]\<rparr> 0 (Some sample_seed)
     (empty_db\<lparr>events := [event_row_of (enqueued_of sample_seed)]\<rparr>) = Inl (AbiConflict ''Order'' ''a1'' 0 0)"
  using duplicate_job_reported_as_conflict [OF sample_parts sample_version, of "\<lambda>_. True" sample_seed]
  by (simp add: I64_MAX_def)

section \<open>Settling over the ABI\<close>

lemma change_token_id: "(\<And>c. (token, c) \<in> set xs \<Longrightarrow> f c = c) \<Longrightarrow> change_token token f xs = xs"
  unfolding change_token_def by (rule map_idI) auto

lemma change_token_twice: "change_token token f (change_token token g xs) = change_token token (\<lambda>c. f (g c)) xs"
  by (auto simp: change_token_def)

lemma remove_changed: "remove_token token (change_token token f xs) = remove_token token xs"
  by (induction xs) (auto simp: remove_token_def change_token_def)

lemma settlement_rollback:
  assumes "distinct (map fst (cr_retained reg))" and "retained_in token Available reg = Some claim"
  shows "drop_settlement token (set_state token Settling reg) = reg"
proof -
  have held: "map_of (cr_retained reg) token = Some claim" "rc_state claim = Available"
    using assms(2) by (simp_all add: retained_in_Some)
  then have "token \<in> tokens reg" by (force simp: tokens_def dest: map_of_SomeD)
  then have "drop_settlement token (set_state token Settling reg) = set_state token Available (set_state token Settling reg)"
    by (simp add: drop_guard(2))
  also have "\<dots> = set_state token Available reg" by (simp add: set_state_def change_token_twice)
  also have "\<dots> = reg"
  proof -
    have "(token, c) \<in> set (cr_retained reg) \<Longrightarrow> c\<lparr>rc_state := Available\<rparr> = c" for c
      using held map_of_is_SomeI [OF assms(1)] by fastforce
    then show ?thesis by (simp add: set_state_def change_token_id)
  qed
  finally show ?thesis .
qed

text \<open>
  What a settlement call does with the claim token, whatever the settlement: a
  token in use by another call is refused and nothing changes; a failed settlement leaves the registry exactly as it
  was, so the host can try again with the same token; a settlement that got a verdict (applied or fenced)
  retires that token and no other.
\<close>

theorem settlement_token_fate:
  assumes "decode cb req = Inr w" and "validate w = Inr ()" and "token_of w = Inr token"
    and "distinct (map fst (cr_retained (si_claims inner)))"
    and "map_of (cr_retained (si_claims inner)) token = Some claim"
  shows "settle_claim_with cb validate token_of operation True req inner =
    (if rc_state claim \<noteq> Available then (Inl (State ''claim handle is invalid''), inner)
     else case operation (rc_handle claim) w (si_db inner) of
         (Inl err, d) \<Rightarrow> (Inl err, inner\<lparr>si_db := d\<rparr>)
       | (Inr verdict, d) \<Rightarrow> (Inr (settlement_tag verdict),
           \<lparr>si_db = d, si_claims = (si_claims inner)\<lparr>cr_retained :=
              filter (\<lambda>(t, _). t \<noteq> token) (cr_retained (si_claims inner))\<rparr>\<rparr>))"
proof (cases "rc_state claim = Available")
  case True
  then have held: "retained_in token Available (si_claims inner) = Some claim"
    using assms(5) by (simp add: retained_in_Some)
  have gone: "complete_settlement token (set_state token Settling reg) =
      reg\<lparr>cr_retained := filter (\<lambda>(t, _). t \<noteq> token) (cr_retained reg)\<rparr>" for reg
    by (simp add: complete_settlement_def retire_claim_def set_state_def remove_changed) (simp add: remove_token_def)
  show ?thesis
    using True assms(1-3) held settlement_rollback [OF assms(4) held] gone
    by (cases "operation (rc_handle claim) w (si_db inner)")
      (auto simp: settle_claim_with_def require_out_def begin_settlement_def split: sum.splits)
next
  case False
  then have "retained_in token Available (si_claims inner) = None" using assms(5) by (simp add: retained_in_def)
  with False assms(1-3) show ?thesis
    by (simp add: settle_claim_with_def require_out_def begin_settlement_def)
qed

theorem settlement_token_fate_witness:
  "settle_claim_with (sample_codec (1 :: 8 word)) (\<lambda>_. Inr ()) (\<lambda>_. Inr [1]) (\<lambda>_ _ d. (Inl AbiSql, d)) True
     (Some (Some [1])) \<lparr>si_db = empty_db, si_claims = \<lparr>cr_retained = [([1], sample_claim 2 50 Available)], cr_reservations = 0\<rparr>\<rparr>
   = (Inl AbiSql, \<lparr>si_db = empty_db, si_claims = \<lparr>cr_retained = [([1], sample_claim 2 50 Available)], cr_reservations = 0\<rparr>\<rparr>)"
  using settlement_token_fate [where cb = "sample_codec (1 :: 8 word)" and w = "1 :: 8 word" and req = "Some (Some [1])"
      and validate = "\<lambda>_. Inr ()" and token_of = "\<lambda>_. Inr [1]" and token = "[1]" and operation = "\<lambda>_ _ d. (Inl AbiSql, d)"
      and inner = "\<lparr>si_db = empty_db, si_claims = \<lparr>cr_retained = [([1], sample_claim 2 50 Available)], cr_reservations = 0\<rparr>\<rparr>"
      and claim = "sample_claim 2 50 Available", OF sample_decode]
  by (simp add: sample_claim_def)

end
