(* ===== verification/Ffi_Memory.thy ===== *)
theory Ffi_Memory
  imports Ffi_Calls
begin

text \<open>
  The memory the C ABI shares with its callers, \<open>crates/event-sorcery-ffi/src/lib.rs\<close>: \<open>EsBuf\<close> cells, the boxed slices the
  library hands out in them, \<open>es_buf_free\<close>, and the order in which an entry point reads its request, clears its
  outputs and writes the answer. A raw access that the memory does not allow (a read out of bounds, a free of something
  that is not a live box of that length) is undefined behaviour, the value \<open>None\<close>. Shows that calls and frees through the
  owner cells never reach it, that no box has two owners, that outputs are exact, and that a request may share its cell
  with an output.
\<close>

section \<open>Memory\<close>

text \<open>Addresses of boxes made by the library and of the caller's own memory.\<close>

datatype address = Boxed nat | Caller nat

record es_buf =
  eb_ptr :: "address option"
  eb_len :: nat

type_synonym cell = nat

record abi_memory =
  am_boxed :: "nat \<Rightarrow> 8 word list option"
  am_next :: nat
  am_caller :: "nat \<Rightarrow> 8 word list option"
  am_cells :: "cell \<Rightarrow> es_buf"
  am_tags :: "cell \<Rightarrow> 8 word"

definition null_buf :: es_buf where
  "null_buf = \<lparr>eb_ptr = None, eb_len = 0\<rparr>"

fun block_at :: "address \<Rightarrow> abi_memory \<Rightarrow> 8 word list option" where
  "block_at (Boxed k) mem = am_boxed mem k"
| "block_at (Caller k) mem = am_caller mem k"

text \<open>\<open>slice::from_raw_parts\<close>.\<close>

definition read_bytes :: "address \<Rightarrow> nat \<Rightarrow> abi_memory \<Rightarrow> 8 word list option" where
  "read_bytes a n mem =
     (case block_at a mem of
        Some bytes \<Rightarrow> if n \<le> length bytes then Some (take n bytes) else None
      | None \<Rightarrow> None)"

text \<open>
  What \<open>decode_validated\<close> reads of its request: the bytes only after the length was checked, so a request that is too
  long is never read, and its bytes do not matter.
\<close>

definition read_request :: "cell option \<Rightarrow> abi_memory \<Rightarrow> es_request option" where
  "read_request request mem =
     (case request of
        None \<Rightarrow> Some None
      | Some c \<Rightarrow>
          (let b = am_cells mem c
           in case eb_ptr b of
                None \<Rightarrow> Some (Some None)
              | Some a \<Rightarrow>
                  if eb_len b > MAX_REQUEST_BYTES then Some (Some (Some (replicate (eb_len b) 0)))
                  else map_option (Some \<circ> Some) (read_bytes a (eb_len b) mem)))"

section \<open>Outputs\<close>

definition write_cell :: "cell \<Rightarrow> es_buf \<Rightarrow> abi_memory \<Rightarrow> abi_memory" where
  "write_cell c b mem = mem\<lparr>am_cells := (am_cells mem)(c := b)\<rparr>"

definition owned_buffer :: "8 word list \<Rightarrow> abi_memory \<Rightarrow> es_buf \<times> abi_memory" where
  "owned_buffer bytes mem =
     (\<lparr>eb_ptr = Some (Boxed (am_next mem)), eb_len = length bytes\<rparr>,
      mem\<lparr>am_boxed := (am_boxed mem)(am_next mem := Some bytes), am_next := Suc (am_next mem)\<rparr>)"

definition clear_buffer_output :: "cell option \<Rightarrow> abi_memory \<Rightarrow> abi_memory" where
  "clear_buffer_output out mem = (case out of None \<Rightarrow> mem | Some c \<Rightarrow> write_cell c null_buf mem)"

definition write_tag :: "cell \<Rightarrow> 8 word \<Rightarrow> abi_memory \<Rightarrow> abi_memory" where
  "write_tag c tag mem = mem\<lparr>am_tags := (am_tags mem)(c := tag)\<rparr>"

definition clear_tag_output :: "cell option \<Rightarrow> abi_memory \<Rightarrow> abi_memory" where
  "clear_tag_output out mem = (case out of None \<Rightarrow> mem | Some c \<Rightarrow> write_tag c 0 mem)"

text \<open>The cell that \<open>write_error\<close> leaves behind, beside the code it returns.\<close>

definition write_error_out ::
  "(nat \<times> int \<times> cbor_value \<Rightarrow> 8 word list option) \<Rightarrow> cell option \<Rightarrow> abi_error \<Rightarrow> abi_memory \<Rightarrow> int \<times> abi_memory" where
  "write_error_out ser out_error err mem =
     (let mem' = clear_buffer_output out_error mem
      in case (out_error, write_error ser (out_error \<noteq> None) err) of
           (Some c, code, Some bytes) \<Rightarrow> (case owned_buffer bytes mem' of (b, mem'') \<Rightarrow> (code, write_cell c b mem''))
         | (_, code, _) \<Rightarrow> (code, mem'))"

definition es_buf_free :: "cell option \<Rightarrow> abi_memory \<Rightarrow> abi_memory option" where
  "es_buf_free owner mem =
     (case owner of
        None \<Rightarrow> Some mem
      | Some c \<Rightarrow>
          (case eb_ptr (am_cells mem c) of
             None \<Rightarrow> Some mem
           | Some (Caller k) \<Rightarrow> None
           | Some (Boxed k) \<Rightarrow>
               (case am_boxed mem k of
                  Some bytes \<Rightarrow>
                    if length bytes = eb_len (am_cells mem c)
                    then Some ((write_cell c null_buf mem)\<lparr>am_boxed := (am_boxed mem)(k := None)\<rparr>) else None
                | None \<Rightarrow> None)))"

section \<open>Entry points\<close>

text \<open>
  An entry point with a buffer output: the request is read first, then the output is cleared, the body runs under
  the store's lease (\<open>has_out\<close> tells it whether the output is null, which it refuses), and the answer or the error is
  written. The second form is that of the entry points with a tag.
\<close>

definition buffer_call ::
  "(nat \<times> int \<times> cbor_value \<Rightarrow> 8 word list option) \<Rightarrow> (bool \<Rightarrow> es_request \<Rightarrow> 'st \<Rightarrow> (abi_error + 8 word list) \<times> 'st)
     \<Rightarrow> cell option \<Rightarrow> cell option \<Rightarrow> cell option \<Rightarrow> 'st \<Rightarrow> abi_memory \<Rightarrow> (int \<times> 'st \<times> abi_memory) option" where
  "buffer_call ser body request out out_error st mem =
     Option.bind (read_request request mem) (\<lambda>req.
       let cleared = clear_buffer_output out mem
       in case body (out \<noteq> None) req st of
            (Inl err, st') \<Rightarrow> (case write_error_out ser out_error err cleared of (code, mem') \<Rightarrow> Some (code, st', mem'))
          | (Inr bytes, st') \<Rightarrow>
              (case out of
                 None \<Rightarrow> None
               | Some c \<Rightarrow>
                   (case owned_buffer bytes cleared of (b, mem') \<Rightarrow>
                      Some (ES_OK, st', clear_buffer_output out_error (write_cell c b mem')))))"

definition tag_call ::
  "(nat \<times> int \<times> cbor_value \<Rightarrow> 8 word list option) \<Rightarrow> (bool \<Rightarrow> es_request \<Rightarrow> 'st \<Rightarrow> (abi_error + 8 word) \<times> 'st)
     \<Rightarrow> cell option \<Rightarrow> cell option \<Rightarrow> cell option \<Rightarrow> 'st \<Rightarrow> abi_memory \<Rightarrow> (int \<times> 'st \<times> abi_memory) option" where
  "tag_call ser body request out out_error st mem =
     Option.bind (read_request request mem) (\<lambda>req.
       let cleared = clear_tag_output out mem
       in case body (out \<noteq> None) req st of
            (Inl err, st') \<Rightarrow> (case write_error_out ser out_error err cleared of (code, mem') \<Rightarrow> Some (code, st', mem'))
          | (Inr tag, st') \<Rightarrow>
              (case out of
                 None \<Rightarrow> None
               | Some c \<Rightarrow> Some (ES_OK, st', clear_buffer_output out_error (write_tag c tag cleared))))"

section \<open>Ownership\<close>

text \<open>Every box a cell points to is live and has the cell's length, and it has no other owner.\<close>

definition owns :: "abi_memory \<Rightarrow> cell \<Rightarrow> nat \<Rightarrow> bool" where
  "owns mem c k \<longleftrightarrow> eb_ptr (am_cells mem c) = Some (Boxed k)"

definition memory_ok :: "abi_memory \<Rightarrow> bool" where
  "memory_ok mem \<longleftrightarrow>
     (\<forall>c k. owns mem c k \<longrightarrow> (\<exists>bytes. am_boxed mem k = Some bytes \<and> length bytes = eb_len (am_cells mem c)))
     \<and> (\<forall>c c' k. owns mem c k \<longrightarrow> owns mem c' k \<longrightarrow> c = c')
     \<and> (\<forall>k. am_boxed mem k \<noteq> None \<longrightarrow> k < am_next mem)"

lemma memory_okD:
  assumes "memory_ok mem"
  shows "owns mem c k \<Longrightarrow> \<exists>bytes. am_boxed mem k = Some bytes \<and> length bytes = eb_len (am_cells mem c)"
    and "owns mem c k \<Longrightarrow> owns mem c' k \<Longrightarrow> c = c'" and "am_boxed mem k \<noteq> None \<Longrightarrow> k < am_next mem"
  using assms unfolding memory_ok_def by blast+

lemma memory_sel [simp]:
  "am_cells (write_cell c b mem) = (am_cells mem)(c := b)" "am_boxed (write_cell c b mem) = am_boxed mem"
  "am_next (write_cell c b mem) = am_next mem" "am_cells (write_tag c t mem) = am_cells mem"
  "am_boxed (write_tag c t mem) = am_boxed mem" "am_next (write_tag c t mem) = am_next mem"
  "eb_ptr null_buf = None"
  by (simp_all add: write_cell_def write_tag_def null_buf_def)

lemma write_null_ok: "memory_ok mem \<Longrightarrow> memory_ok (write_cell c null_buf mem)"
  by (auto simp: memory_ok_def owns_def split: if_splits)

lemma clear_ok: "memory_ok mem \<Longrightarrow> memory_ok (clear_buffer_output out mem)"
  by (auto simp: clear_buffer_output_def write_null_ok split: option.splits)

lemma clear_tag_ok: "memory_ok mem \<Longrightarrow> memory_ok (clear_tag_output out mem)" "memory_ok mem \<Longrightarrow> memory_ok (write_tag c t mem)"
  by (auto simp: clear_tag_output_def memory_ok_def owns_def split: option.splits)

lemma hand_out_ok:
  assumes "memory_ok mem" and "owned_buffer bytes mem = (b, mem')"
  shows "memory_ok (write_cell c b mem')"
proof -
  have fresh: "\<not> owns mem c' (am_next mem)" for c' using memory_okD(1,3) [OF assms(1)] by fastforce
  show ?thesis
    using assms fresh memory_okD [OF assms(1)]
    by (auto simp: memory_ok_def owned_buffer_def owns_def less_Suc_eq split: if_splits)
qed

lemma write_error_out_ok:
  assumes "memory_ok mem" and "write_error_out ser out err mem = (code, mem')"
  shows "memory_ok mem'"
  using assms clear_ok [OF assms(1), of out] hand_out_ok
  by (auto simp: write_error_out_def Let_def split: option.splits prod.splits)

lemma buffer_call_cases:
  assumes "buffer_call ser body request out out_error st mem = Some (code, st', mem')"
  obtains (failed) req err where "read_request request mem = Some req" "body (out \<noteq> None) req st = (Inl err, st')"
      "write_error_out ser out_error err (clear_buffer_output out mem) = (code, mem')"
  | (answered) req bytes c b mem2 where "read_request request mem = Some req" "body (out \<noteq> None) req st = (Inr bytes, st')"
      "out = Some c" "owned_buffer bytes (clear_buffer_output out mem) = (b, mem2)" "code = ES_OK"
      "mem' = clear_buffer_output out_error (write_cell c b mem2)"
proof (cases "read_request request mem")
  case None
  then show ?thesis using assms by (simp add: buffer_call_def)
next
  case (Some req)
  obtain result st1 where r: "body (out \<noteq> None) req st = (result, st1)" by fastforce
  show ?thesis
  proof (cases result)
    case (Inl err)
    then show ?thesis using assms Some r failed by (auto simp: buffer_call_def Let_def split: prod.splits)
  next
    case (Inr bytes)
    then show ?thesis using assms Some r answered by (auto simp: buffer_call_def Let_def split: option.splits prod.splits)
  qed
qed

lemma tag_call_cases:
  assumes "tag_call ser body request out out_error st mem = Some (code, st', mem')"
  obtains (failed) req err where "read_request request mem = Some req" "body (out \<noteq> None) req st = (Inl err, st')"
      "write_error_out ser out_error err (clear_tag_output out mem) = (code, mem')"
  | (answered) req tag c where "read_request request mem = Some req" "body (out \<noteq> None) req st = (Inr tag, st')"
      "out = Some c" "code = ES_OK" "mem' = clear_buffer_output out_error (write_tag c tag (clear_tag_output out mem))"
proof (cases "read_request request mem")
  case None
  then show ?thesis using assms by (simp add: tag_call_def)
next
  case (Some req)
  obtain result st1 where r: "body (out \<noteq> None) req st = (result, st1)" by fastforce
  show ?thesis
  proof (cases result)
    case (Inl err)
    then show ?thesis using assms Some r failed by (auto simp: tag_call_def Let_def split: prod.splits)
  next
    case (Inr tag)
    then show ?thesis using assms Some r answered by (auto simp: tag_call_def Let_def split: option.splits prod.splits)
  qed
qed

lemma buffer_call_ok:
  assumes "memory_ok mem" and "buffer_call ser body request out out_error st mem = Some (code, st', mem')"
  shows "memory_ok mem'"
  using assms(2)
proof (cases rule: buffer_call_cases)
  case (failed req err)
  then show ?thesis using write_error_out_ok clear_ok [OF assms(1)] by blast
next
  case (answered req bytes c b mem2)
  then show ?thesis using clear_ok hand_out_ok [OF clear_ok [OF assms(1)] answered(4)] by simp
qed

lemma tag_call_ok:
  assumes "memory_ok mem" and "tag_call ser body request out out_error st mem = Some (code, st', mem')"
  shows "memory_ok mem'"
  using assms(2)
proof (cases rule: tag_call_cases)
  case (failed req err)
  then show ?thesis using write_error_out_ok clear_tag_ok(1) [OF assms(1)] by blast
next
  case (answered req tag c)
  then show ?thesis using clear_ok clear_tag_ok(2) clear_tag_ok(1) [OF assms(1)] by simp
qed

lemma free_owned:
  assumes "memory_ok mem" and "owns mem c k"
  shows "es_buf_free (Some c) mem = Some ((write_cell c null_buf mem)\<lparr>am_boxed := (am_boxed mem)(k := None)\<rparr>)"
  using memory_okD(1) [OF assms] assms(2) by (auto simp: es_buf_free_def owns_def)

lemma free_ok:
  assumes "memory_ok mem" and "es_buf_free (Some c) mem = Some mem'"
  shows "memory_ok mem'"
proof (cases "\<exists>k. owns mem c k")
  case True
  then obtain k where k: "owns mem c k" by blast
  have "mem' = (write_cell c null_buf mem)\<lparr>am_boxed := (am_boxed mem)(k := None)\<rparr>" using free_owned [OF assms(1) k] assms(2) by simp
  then show ?thesis
    using memory_okD [OF assms(1)] k by (auto simp: memory_ok_def owns_def split: if_splits)
next
  case False
  then have "mem' = mem" using assms(2) by (auto simp: es_buf_free_def owns_def split: option.splits address.splits)
  then show ?thesis using assms(1) by simp
qed

section \<open>Callers\<close>

text \<open>
  A caller calls, frees buffers it was given, puts its own buffers into cells that hold none of the library's, and
  writes its own memory. It does not copy a cell.
\<close>

inductive memory_step :: "abi_memory \<Rightarrow> abi_memory \<Rightarrow> bool" where
  buffer_call: "buffer_call ser (body :: bool \<Rightarrow> es_request \<Rightarrow> store_inner \<Rightarrow> _) request out out_error st mem = Some (code, st', mem')
    \<Longrightarrow> memory_step mem mem'"
| tag_call: "tag_call ser (body :: bool \<Rightarrow> es_request \<Rightarrow> store_inner \<Rightarrow> _) request out out_error st mem = Some (code, st', mem')
    \<Longrightarrow> memory_step mem mem'"
| free: "es_buf_free (Some c) mem = Some mem' \<Longrightarrow> memory_step mem mem'"
| caller_buffer: "\<forall>k. \<not> owns mem c k \<Longrightarrow> memory_step mem (write_cell c \<lparr>eb_ptr = Some (Caller a), eb_len = n\<rparr> mem)"
| caller_write: "memory_step mem (mem\<lparr>am_caller := blocks\<rparr>)"

inductive memory_reachable :: "abi_memory \<Rightarrow> bool" where
  init: "am_boxed mem = (\<lambda>_. None) \<Longrightarrow> \<forall>c k. \<not> owns mem c k \<Longrightarrow> memory_reachable mem"
| step: "memory_reachable mem \<Longrightarrow> memory_step mem mem' \<Longrightarrow> memory_reachable mem'"

inductive_cases memory_stepE: "memory_step mem mem'"

lemma memory_step_ok:
  assumes "memory_ok mem" and "memory_step mem mem'"
  shows "memory_ok mem'"
  using assms(2)
proof (cases rule: memory_step.cases)
  case (caller_buffer c a n)
  then show ?thesis using memory_okD [OF assms(1)] by (auto simp: memory_ok_def owns_def split: if_splits)
next
  case (caller_write blocks)
  then show ?thesis using assms(1) by (simp add: memory_ok_def owns_def)
next
  case (buffer_call ser body request out out_error st code st')
  then show ?thesis by (rule buffer_call_ok [OF assms(1)])
next
  case (tag_call ser body request out out_error st code st')
  then show ?thesis by (rule tag_call_ok [OF assms(1)])
next
  case (free c)
  then show ?thesis by (rule free_ok [OF assms(1)])
qed

lemma reachable_memory_ok: "memory_reachable mem \<Longrightarrow> memory_ok mem"
proof (induction rule: memory_reachable.induct)
  case (init mem)
  then show ?case by (simp add: memory_ok_def)
qed (rule memory_step_ok)

section \<open>Properties\<close>

text \<open>
  C38 (abi_buffers_safe). Freeing is safe however calls, frees and the caller's own writes were interleaved before:
  \<open>es_buf_free\<close> on a cell that holds nothing of the caller's own never reaches undefined behaviour. It leaves the cell null, so
  that a second free does nothing; it releases exactly the box that cell owned; and every other cell keeps its own box and its
  contents.
\<close>

theorem abi_buffers_safe:
  assumes "memory_reachable mem" and "\<forall>a. eb_ptr (am_cells mem c) \<noteq> Some (Caller a)"
  shows "\<exists>mem'. es_buf_free (Some c) mem = Some mem' \<and> eb_ptr (am_cells mem' c) = None \<and> es_buf_free (Some c) mem' = Some mem'
    \<and> (\<forall>k. owns mem c k \<longrightarrow> am_boxed mem' k = None)
    \<and> (\<forall>c' k. c' \<noteq> c \<longrightarrow> owns mem c' k \<longrightarrow> owns mem' c' k \<and> am_boxed mem' k = am_boxed mem k)"
proof (cases "\<exists>k. owns mem c k")
  case True
  then obtain k where k: "owns mem c k" by blast
  note ok = reachable_memory_ok [OF assms(1)]
  have "k' \<noteq> k" if "owns mem c' k'" "c' \<noteq> c" for c' k' using memory_okD(2) [OF ok] k that by blast
  then show ?thesis
    using free_owned [OF ok k] k by (auto simp: owns_def es_buf_free_def)
next
  case False
  then have "eb_ptr (am_cells mem c) \<noteq> Some a" for a using assms(2) by (cases a) (auto simp: owns_def)
  then have "eb_ptr (am_cells mem c) = None" by (cases "eb_ptr (am_cells mem c)") auto
  then show ?thesis by (simp add: es_buf_free_def owns_def)
qed

text \<open>
  A call answers in exactly one of its two output cells: on success the output cell holds
  precisely the response of the body and the error cell is null; on an error the output is null and the error cell holds
  the encoded error, where it can be encoded within the limit. The body always sees the request as the caller passed it, even
  when the request shares its cell with an output.
\<close>

definition response :: "cell \<Rightarrow> abi_memory \<Rightarrow> 8 word list option" where
  "response c mem = Option.bind (eb_ptr (am_cells mem c)) (\<lambda>a. read_bytes a (eb_len (am_cells mem c)) mem)"

lemma response_handed_out:
  "owned_buffer bytes mem = (b, mem') \<Longrightarrow> response c (write_cell c b mem') = Some bytes"
  by (auto simp: owned_buffer_def response_def read_bytes_def)

theorem buffer_call_outputs:
  assumes "out \<noteq> out_error" and "read_request request mem = Some req"
    and "buffer_call ser body request (Some out) (Some out_error) st mem = Some (code, st', mem')"
  shows "case body True req st of
      (Inr bytes, _) \<Rightarrow> code = ES_OK \<and> response out mem' = Some bytes \<and> response out_error mem' = None
    | (Inl err, _) \<Rightarrow> code = abi_code err \<and> response out mem' = None \<and> response out_error mem' = snd (write_error ser True err)"
proof -
  from assms(3) show ?thesis
  proof (cases rule: buffer_call_cases)
    case (failed req' err)
    then show ?thesis
      using assms(1,2)
      by (auto simp: write_error_out_def Let_def clear_buffer_output_def owned_buffer_def response_def read_bytes_def
          write_error_def split: option.splits if_splits)
  next
    case (answered req' bytes c b mem2)
    then show ?thesis
      using assms(1,2) by (auto simp: clear_buffer_output_def owned_buffer_def response_def read_bytes_def)
  qed
qed

text \<open>The witnesses start from an empty memory and run one call that answers two bytes into cell 0.\<close>

definition empty_memory :: abi_memory where
  "empty_memory = \<lparr>am_boxed = (\<lambda>_. None), am_next = 0, am_caller = (\<lambda>_. None), am_cells = (\<lambda>_. null_buf), am_tags = (\<lambda>_. 0)\<rparr>"

definition sample_body :: "bool \<Rightarrow> es_request \<Rightarrow> store_inner \<Rightarrow> (abi_error + 8 word list) \<times> store_inner" where
  "sample_body has_out req st = (if has_out then Inr [1, 2] else Inl (State ''out is null''), st)"

definition sample_inner :: store_inner where
  "sample_inner = \<lparr>si_db = empty_db, si_claims = empty_registry\<rparr>"

definition answered_memory :: abi_memory where
  "answered_memory = \<lparr>am_boxed = [0 \<mapsto> [1, 2]], am_next = 1, am_caller = (\<lambda>_. None),
     am_cells = (\<lambda>_. null_buf)(0 := \<lparr>eb_ptr = Some (Boxed 0), eb_len = 2\<rparr>), am_tags = (\<lambda>_. 0)\<rparr>"

lemma sample_call:
  "buffer_call (\<lambda>_. None) sample_body None (Some 0) (Some 1) sample_inner empty_memory = Some (ES_OK, sample_inner, answered_memory)"
  by (simp add: buffer_call_def read_request_def sample_body_def clear_buffer_output_def owned_buffer_def write_cell_def
      empty_memory_def answered_memory_def fun_eq_iff)

lemma sample_memory: "memory_reachable answered_memory"
proof (rule memory_reachable.step)
  show "memory_reachable empty_memory"
    by (rule memory_reachable.init) (simp_all add: empty_memory_def owns_def null_buf_def)
  show "memory_step empty_memory answered_memory" using sample_call by (rule memory_step.buffer_call)
qed

theorem abi_buffers_safe_witness:
  "\<exists>mem'. es_buf_free (Some 0) answered_memory = Some mem' \<and> am_boxed mem' 0 = None \<and> es_buf_free (Some 0) mem' = Some mem'"
proof -
  have "\<forall>a. eb_ptr (am_cells answered_memory 0) \<noteq> Some (Caller a)" by (simp add: answered_memory_def)
  moreover have "owns answered_memory 0 0" by (simp add: owns_def answered_memory_def)
  ultimately show ?thesis using abi_buffers_safe [OF sample_memory] by blast
qed

theorem buffer_call_outputs_witness:
  "(0 :: cell) \<noteq> 1 \<and> response 0 answered_memory = Some [1, 2] \<and> response 1 answered_memory = None"
proof -
  have r: "read_request None empty_memory = Some None" by (simp add: read_request_def)
  show ?thesis using buffer_call_outputs [OF _ r sample_call] by (simp add: sample_body_def)
qed

section \<open>Leaks\<close>

text \<open>
  Outputs are cleared without being freed, so a caller that passes a cell still holding a buffer loses it. One that frees
  before it reuses a cell leaks nothing: every live box keeps an owner.
\<close>

definition leak_free :: "abi_memory \<Rightarrow> bool" where
  "leak_free mem \<longleftrightarrow> (\<forall>k. am_boxed mem k \<noteq> None \<longrightarrow> (\<exists>c. owns mem c k))"

lemma clear_leak_free:
  assumes "leak_free mem" and "\<forall>c k. out = Some c \<longrightarrow> \<not> owns mem c k"
  shows "leak_free (clear_buffer_output out mem)"
proof (cases out)
  case (Some c)
  have "\<exists>c'. c' \<noteq> c \<and> owns mem c' k" if "am_boxed mem k \<noteq> None" for k using assms Some that unfolding leak_free_def by metis
  then show ?thesis by (auto simp: leak_free_def clear_buffer_output_def Some owns_def)
qed (use assms(1) in \<open>simp add: clear_buffer_output_def\<close>)

lemma hand_out_leak_free:
  assumes "leak_free mem" and "owned_buffer bytes mem = (b, mem')" and "\<forall>k. \<not> owns mem c k"
  shows "leak_free (write_cell c b mem')"
  unfolding leak_free_def
proof (intro allI impI)
  fix k assume k: "am_boxed (write_cell c b mem') k \<noteq> None"
  show "\<exists>c'. owns (write_cell c b mem') c' k"
  proof (cases "k = am_next mem")
    case True
    then show ?thesis using assms(2) by (auto simp: owned_buffer_def owns_def intro: exI [of _ c])
  next
    case False
    then have "am_boxed mem k \<noteq> None" using k assms(2) by (auto simp: owned_buffer_def)
    then obtain c' where "owns mem c' k" "c' \<noteq> c" using assms(1,3) unfolding leak_free_def by metis
    then show ?thesis using assms(2) by (auto simp: owned_buffer_def owns_def intro!: exI [of _ c'])
  qed
qed

lemma cleared_owns: "owns (clear_buffer_output out mem) c k \<longleftrightarrow> owns mem c k \<and> out \<noteq> Some c"
  by (auto simp: owns_def clear_buffer_output_def split: option.splits)

theorem buffer_call_leaks_nothing:
  assumes "leak_free mem" and "buffer_call ser body request (Some out) (Some out_error) st mem = Some (code, st', mem')"
    and "out \<noteq> out_error" and "\<forall>k. \<not> owns mem out k \<and> \<not> owns mem out_error k"
  shows "leak_free mem'"
proof -
  note cleared = clear_leak_free [OF assms(1), of "Some out"]
  from assms(2) show ?thesis
  proof (cases rule: buffer_call_cases)
    case (failed req err)
    let ?mem = "clear_buffer_output (Some out_error) (clear_buffer_output (Some out) mem)"
    have "leak_free ?mem" by (rule clear_leak_free [OF clear_leak_free [OF assms(1)]]) (use assms(4) in \<open>auto simp: cleared_owns\<close>)
    moreover have "\<forall>k. \<not> owns ?mem out_error k" by (simp add: cleared_owns)
    ultimately show ?thesis
      using failed(3) hand_out_leak_free [of ?mem]
      by (auto simp: write_error_out_def Let_def split: option.splits prod.splits)
  next
    case (answered req bytes c b mem2)
    have "leak_free (write_cell c b mem2)"
      using hand_out_leak_free [OF cleared answered(4)] answered(3) assms(4) by (simp add: cleared_owns)
    moreover have "\<not> owns (write_cell c b mem2) out_error k" for k
      using answered(3,4) assms(3,4) by (auto simp: owned_buffer_def owns_def clear_buffer_output_def)
    ultimately show ?thesis using clear_leak_free answered(6) by simp
  qed
qed

end
