(* ===== verification/Job_Spec.thy ===== *)
theory Job_Spec
  imports Job_System
begin

text \<open>
  What the durable queue promises, without streams, rows, versions or leases: a table of tickets. A ticket
  waits, is leased under a claim id, or is finished; a claim id is used once per job; only the claim that
  holds a ticket settles it; the planner may abandon a ticket that is not finished. \<open>queue_abs\<close> reads a ticket
  off the fold of a job's stream. Every step of the system is labelled with the action its caller performs and reports -
  a settlement with the claim id and the command of the caller - and is that very action of the specification.
  The theory also shows that a reachable database is well-typed: whatever a reader decodes there decodes.
\<close>

section \<open>The specification\<close>

datatype ticket = Waiting | Leased string | Finished

record queue_spec =
  sp_ticket :: "string \<Rightarrow> ticket option"
  sp_used :: "string \<Rightarrow> string set"

definition spec_init :: queue_spec where
  "spec_init = \<lparr>sp_ticket = (\<lambda>_. None), sp_used = (\<lambda>_. {})\<rparr>"

datatype spec_action = Silent | Add "string set" | Lease string string | Settle string string ticket | Abandon_ticket string

inductive spec_step :: "queue_spec \<Rightarrow> spec_action \<Rightarrow> queue_spec \<Rightarrow> bool" where
  silent: "spec_step q Silent q"
| add: "\<forall>j \<in> new. sp_ticket q j = None \<Longrightarrow>
     spec_step q (Add new) (q\<lparr>sp_ticket := (\<lambda>j. if j \<in> new then Some Waiting else sp_ticket q j)\<rparr>)"
| lease: "sp_ticket q j = Some t \<Longrightarrow> t \<noteq> Finished \<Longrightarrow> c \<notin> sp_used q j \<Longrightarrow>
     spec_step q (Lease j c)
       \<lparr>sp_ticket = (sp_ticket q)(j := Some (Leased c)), sp_used = (sp_used q)(j := insert c (sp_used q j))\<rparr>"
| settle: "sp_ticket q j = Some (Leased c) \<Longrightarrow> t = Waiting \<or> t = Finished \<Longrightarrow>
     spec_step q (Settle j c t) (q\<lparr>sp_ticket := (sp_ticket q)(j := Some t)\<rparr>)"
| abandon: "sp_ticket q j = Some t \<Longrightarrow> t \<noteq> Finished \<Longrightarrow>
     spec_step q (Abandon_ticket j) (q\<lparr>sp_ticket := (sp_ticket q)(j := Some Finished)\<rparr>)"

inductive_cases spec_stepE: "spec_step q a q'"

text \<open>The runs of a labelled transition relation from a state, with the labels in order.\<close>

inductive labelled_run :: "('s \<Rightarrow> 'a \<Rightarrow> 's \<Rightarrow> bool) \<Rightarrow> 's \<Rightarrow> 'a list \<Rightarrow> 's \<Rightarrow> bool"
  for step :: "'s \<Rightarrow> 'a \<Rightarrow> 's \<Rightarrow> bool" and q :: 's where
  start: "labelled_run step q [] q"
| next_action: "labelled_run step q acts q1 \<Longrightarrow> step q1 a q2 \<Longrightarrow> labelled_run step q (acts @ [a]) q2"

section \<open>Simulation\<close>

text \<open>
  A system whose labelled steps keep an invariant and are each the step of the specification with the same label: its
  traces are traces of the specification.
\<close>

locale spec_simulation =
  fixes init :: 's and step :: "'s \<Rightarrow> spec_action \<Rightarrow> 's \<Rightarrow> bool" and inv :: "'s \<Rightarrow> bool" and abs :: "'s \<Rightarrow> queue_spec"
  assumes inv_start: "inv init"
    and inv_kept: "inv s \<Longrightarrow> step s a s' \<Longrightarrow> inv s'"
    and abs_start: "abs init = spec_init"
    and simulated: "inv s \<Longrightarrow> step s a s' \<Longrightarrow> spec_step (abs s) a (abs s')"
begin

lemma run_simulated: "labelled_run step init acts s \<Longrightarrow> inv s \<and> labelled_run spec_step spec_init acts (abs s)"
proof (induction rule: labelled_run.induct)
  case start
  show ?case using inv_start abs_start labelled_run.start by metis
next
  case (next_action acts s a s')
  then show ?case using inv_kept simulated labelled_run.next_action by metis
qed

end

section \<open>The labelled system\<close>

text \<open>
  The steps of \<open>queue_step\<close>, each with the action the caller performs, read off the arguments and the result of the
  operation alone: a claim that reports a won job leases it under the id it minted, one that reports an abandoned job
  ends it, an acknowledgement that commits settles under the claim id its command carries, to the status its
  command asks for. As in \<open>queue_step\<close>, the id a claim mints (a random UUID) is new to the job.
\<close>

fun settled_ticket :: "job_command \<Rightarrow> ticket" where
  "settled_ticket (CmdSucceed _) = Finished"
| "settled_ticket (CmdKill _ _ _) = Finished"
| "settled_ticket (CmdRetrySchedule _ _ _ _) = Waiting"
| "settled_ticket (CmdReschedule _ _) = Waiting"

fun claim_action :: "string \<Rightarrow> string \<Rightarrow> job_claim_result \<Rightarrow> spec_action" where
  "claim_action j fresh (RClaimed _) = Lease j fresh"
| "claim_action j fresh RAbandoned = Abandon_ticket j"
| "claim_action j fresh _ = Silent"

inductive queue_does ::
  "(int \<Rightarrow> bool) \<Rightarrow> (job_state, job_event, job_error) sink_write \<Rightarrow> job_wrap \<Rightarrow> queue_sys \<Rightarrow> spec_action \<Rightarrow> queue_sys \<Rightarrow> bool"
  for tr :: "int \<Rightarrow> bool" and sink :: "(job_state, job_event, job_error) sink_write" and wrap :: job_wrap where
  enqueue: "enqueue_job_payload tr j kind payload run_at (qs_db s) = Inr d' \<Longrightarrow> in_i64 run_at \<Longrightarrow>
     queue_does tr sink wrap s (Add {j}) (s\<lparr>qs_db := d'\<rparr>)"
| commit: "Engine.commit tr r (qs_db s) = Inr d' \<Longrightarrow> domain_stream (cm_stream r) \<Longrightarrow>
     \<forall>req \<in> set (cm_jobs r). in_i64 (eq_run_at_ms req) \<Longrightarrow>
     queue_does tr sink wrap s (Add (eq_job_id ` set (cm_jobs r))) (s\<lparr>qs_db := d'\<rparr>)"
| claim: "claim_job_as tr fresh j worker now lease budget (qs_db s) = Inr (result, d') \<Longrightarrow>
     fresh \<notin> set (claim_ids (job_stream tr (qs_db s) j)) \<Longrightarrow>
     queue_does tr sink wrap s (claim_action j fresh result) (s\<lparr>qs_db := d'\<rparr>)"
| renew: "renew_claim claim_handle lease (qs_db s) = (result, d') \<Longrightarrow>
     queue_does tr sink wrap s Silent (s\<lparr>qs_db := d'\<rparr>)"
| load: "valid_command tr cmd \<Longrightarrow>
     queue_does tr sink wrap s Silent
       (s\<lparr>qs_inflight := qs_inflight s @ [(j, cmd, job_stream tr (qs_db s) j)]\<rparr>)"
| settle: "(j, cmd, evs) \<in> set (qs_inflight s) \<Longrightarrow>
     Lifecycle.handle sink job_entity (job_fold evs) cmd (Some []) = (scope, Inr new) \<Longrightarrow>
     repo_persist tr now_ns JOB_AGGREGATE_TYPE (wrap j (length evs) new) snapshot scope (qs_db s)
       = (scope', Inr d') \<Longrightarrow>
     queue_does tr sink wrap s (if new = [] then Silent else Settle j (cmd_claim_id cmd) (settled_ticket cmd))
       (s\<lparr>qs_db := d', qs_inflight := remove1 (j, cmd, evs) (qs_inflight s),
          qs_pending := qs_pending s @ map (Pair j) new\<rparr>)"
| abort: "queue_does tr sink wrap s Silent (s\<lparr>qs_inflight := remove1 op (qs_inflight s)\<rparr>)"
| react: "(j, e) \<in> set (qs_pending s) \<Longrightarrow>
     queue_does tr sink wrap s Silent
       (s\<lparr>qs_db := (qs_db s)\<lparr>job_queue := Projection.react (job_projection tr) quiet j e (job_queue (qs_db s))\<rparr>,
          qs_pending := remove1 (j, e) (qs_pending s)\<rparr>)"
| lose: "queue_does tr sink wrap s Silent (s\<lparr>qs_pending := remove1 p (qs_pending s)\<rparr>)"
| restart: "queue_does tr sink wrap s Silent
     (s\<lparr>qs_db := (qs_db s)\<lparr>job_queue :=
          fst (catch_up (job_projection tr) (events (qs_db s)) (job_queue (qs_db s)))\<rparr>,
        qs_inflight := [], qs_pending := []\<rparr>)"

text \<open>The labels add and remove no behaviour.\<close>

lemma queue_step_does: "queue_step tr sink wrap s s' \<longleftrightarrow> (\<exists>a. queue_does tr sink wrap s a s')"
proof
  show "queue_step tr sink wrap s s' \<Longrightarrow> \<exists>a. queue_does tr sink wrap s a s'"
    by (induction rule: queue_step.cases) (blast intro: queue_does.intros)+
next
  assume "\<exists>a. queue_does tr sink wrap s a s'"
  then obtain a where "queue_does tr sink wrap s a s'" by blast
  then show "queue_step tr sink wrap s s'"
    by (induction rule: queue_does.cases) (blast intro: queue_step.intros)+
qed

lemma queue_does_step: "queue_does tr sink wrap s a s' \<Longrightarrow> queue_step tr sink wrap s s'"
  using queue_step_does by blast

lemma reachable_run: "reachable tr sink wrap s \<longleftrightarrow> (\<exists>acts. labelled_run (queue_does tr sink wrap) queue_init acts s)"
proof
  show "reachable tr sink wrap s \<Longrightarrow> \<exists>acts. labelled_run (queue_does tr sink wrap) queue_init acts s"
    by (induction rule: reachable.induct) (auto simp: queue_step_does intro: labelled_run.intros)
next
  assume "\<exists>acts. labelled_run (queue_does tr sink wrap) queue_init acts s"
  then obtain acts where "labelled_run (queue_does tr sink wrap) queue_init acts s" by blast
  then show "reachable tr sink wrap s"
    by (induction rule: labelled_run.induct) (blast intro: reachable.intros queue_does_step)+
qed

section \<open>The abstraction\<close>

fun ticket_of :: "job_lifecycle \<Rightarrow> ticket option" where
  "ticket_of (Live (StPending _ _ _ _ _)) = Some Waiting"
| "ticket_of (Live (StClaimed _ _ _ c _ _ _)) = Some (Leased c)"
| "ticket_of (Live StDone) = Some Finished"
| "ticket_of (Live (StDead _)) = Some Finished"
| "ticket_of _ = None"

definition queue_abs :: "(int \<Rightarrow> bool) \<Rightarrow> queue_sys \<Rightarrow> queue_spec" where
  "queue_abs tr s =
     \<lparr>sp_ticket = (\<lambda>j. ticket_of (job_fold (job_stream tr (qs_db s) j))),
      sp_used = (\<lambda>j. set (claim_ids (job_stream tr (qs_db s) j)))\<rparr>"

lemma abs_unchanged:
  "(\<And>j. job_stream tr (qs_db s') j = job_stream tr (qs_db s) j) \<Longrightarrow> queue_abs tr s' = queue_abs tr s"
  by (simp add: queue_abs_def)

lemma abs_appends:
  assumes "job_appends tr (qs_db s) (qs_db s') j e" and "\<And>i. i \<noteq> j \<Longrightarrow> job_same (qs_db s) (qs_db s') i"
  shows "queue_abs tr s' = \<lparr>sp_ticket = (sp_ticket (queue_abs tr s))
      (j := ticket_of (apply_event job_entity (job_fold (job_stream tr (qs_db s) j)) e)),
    sp_used = (sp_used (queue_abs tr s))
      (j := set (claim_ids [e]) \<union> set (claim_ids (job_stream tr (qs_db s) j)))\<rparr>"
  using job_appends_stream [OF assms(1)] job_same_stream [OF assms(2)]
  by (auto simp: queue_abs_def fun_eq_iff claim_ids_def)

lemma abs_enqueued:
  assumes new: "\<And>j. j \<in> new \<Longrightarrow> job_stream tr (qs_db s) j = []
      \<and> (\<exists>kind payload run_at. job_stream tr (qs_db s') j = [EvEnqueued kind payload run_at])"
    and old: "\<And>j. j \<notin> new \<Longrightarrow> job_stream tr (qs_db s') j = job_stream tr (qs_db s) j"
  shows "spec_step (queue_abs tr s) (Add new) (queue_abs tr s')"
proof -
  have "queue_abs tr s' = (queue_abs tr s)\<lparr>sp_ticket := (\<lambda>j. if j \<in> new then Some Waiting else sp_ticket (queue_abs tr s) j)\<rparr>"
  proof -
    have "ticket_of (job_fold (job_stream tr (qs_db s') j)) =
        (if j \<in> new then Some Waiting else ticket_of (job_fold (job_stream tr (qs_db s) j)))"
      "set (claim_ids (job_stream tr (qs_db s') j)) = set (claim_ids (job_stream tr (qs_db s) j))" for j
      using new [of j] old [of j] by (cases "j \<in> new"; auto simp: job_fold_def claim_ids_def)+
    then show ?thesis by (simp add: queue_abs_def fun_eq_iff)
  qed
  moreover have "\<forall>j \<in> new. sp_ticket (queue_abs tr s) j = None"
    using new by (auto simp: queue_abs_def job_fold_def)
  ultimately show ?thesis using spec_step.add by metis
qed

section \<open>Every step is a step of the specification\<close>

lemma claim_simulated:
  assumes inv: "queue_inv tr s" and "claim_job_as tr fresh j worker now lease budget (qs_db s) = Inr (result, d')"
    and fresh: "fresh \<notin> set (claim_ids (job_stream tr (qs_db s) j))"
  shows "spec_step (queue_abs tr s) (claim_action j fresh result) (queue_abs tr (s\<lparr>qs_db := d'\<rparr>))"
proof -
  consider (none) "d' = qs_db s" "claim_action j fresh result = Silent"
    | (won) st and r :: view_row where "claim_effect tr (qs_db s) d' j (EvClaimed worker fresh (now + lease))"
        "job_fold (job_stream tr (qs_db s) j) = Live st" "runnable st (vw_lease r) now"
        "claim_action j fresh result = Lease j fresh"
    | (abandoned) st and r :: view_row where "claim_effect tr (qs_db s) d' j (EvDead Abandoned ''claim budget exhausted'')"
        "job_fold (job_stream tr (qs_db s) j) = Live st" "runnable st (vw_lease r) now"
        "claim_action j fresh result = Abandon_ticket j"
    using claim_step [OF queue_invD(1) [OF inv] assms(2)] by fastforce
  then show ?thesis
  proof cases
    case none
    then show ?thesis using spec_step.silent by simp
  next
    case (won st r)
    note e = won(1) and st = won(2,3)
    let ?q = "queue_abs tr s"
    have "queue_abs tr (s\<lparr>qs_db := d'\<rparr>) =
        \<lparr>sp_ticket = (sp_ticket ?q)(j := Some (Leased fresh)), sp_used = (sp_used ?q)(j := insert fresh (sp_used ?q j))\<rparr>"
      using abs_appends [of tr s "s\<lparr>qs_db := d'\<rparr>" j] e st
      by (cases st) (auto simp: claim_effect_def claim_ids_def queue_abs_def)
    moreover obtain t where "sp_ticket ?q j = Some t" "t \<noteq> Finished" using st by (cases st) (auto simp: queue_abs_def)
    moreover have "fresh \<notin> sp_used ?q j" using fresh by (simp add: queue_abs_def)
    ultimately show ?thesis using spec_step.lease won(4) by metis
  next
    case (abandoned st r)
    note e = abandoned(1) and st = abandoned(2,3)
    let ?q = "queue_abs tr s"
    have "queue_abs tr (s\<lparr>qs_db := d'\<rparr>) = ?q\<lparr>sp_ticket := (sp_ticket ?q)(j := Some Finished)\<rparr>"
      using abs_appends [of tr s "s\<lparr>qs_db := d'\<rparr>" j] e st
      by (cases st) (auto simp: claim_effect_def claim_ids_def queue_abs_def)
    moreover obtain t where "sp_ticket ?q j = Some t" "t \<noteq> Finished" using st by (cases st) (auto simp: queue_abs_def)
    ultimately show ?thesis using spec_step.abandon abandoned(4) by metis
  qed
qed

lemma settle_simulated:
  assumes "settle_effect tr (qs_db s) (qs_db s') j cmd"
  shows "spec_step (queue_abs tr s) (Settle j (cmd_claim_id cmd) (settled_ticket cmd)) (queue_abs tr s')"
proof -
  let ?q = "queue_abs tr s"
  obtain kind payload worker run_at attempt claims where
    st: "job_fold (job_stream tr (qs_db s) j) = Live (StClaimed kind payload worker (cmd_claim_id cmd) run_at attempt claims)"
    using assms by (auto simp: settle_effect_def holds_claim_def)
  have t: "settled_ticket cmd = Waiting \<or> settled_ticket cmd = Finished"
    "ticket_of (apply_event job_entity (job_fold (job_stream tr (qs_db s) j)) (ack_event cmd)) = Some (settled_ticket cmd)"
    using st by (cases cmd; simp)+
  have "queue_abs tr s' = ?q\<lparr>sp_ticket := (sp_ticket ?q)(j := Some (settled_ticket cmd))\<rparr>"
    using abs_appends [of tr s s' j "ack_event cmd"] assms t(2)
    by (cases cmd) (auto simp: settle_effect_def claim_ids_def queue_abs_def)
  then show ?thesis using spec_step.settle [of ?q j "cmd_claim_id cmd" "settled_ticket cmd"] st t(1) by (simp add: queue_abs_def)
qed

lemma enqueue_simulated:
  assumes "queue_db_ok tr (qs_db s)" and enq: "enqueue_job_payload tr j kind payload run_at (qs_db s) = Inr d'"
    and "in_i64 run_at"
  shows "spec_step (queue_abs tr s) (Add {j}) (queue_abs tr (s\<lparr>qs_db := d'\<rparr>))"
proof (rule abs_enqueued)
  fix i assume "i \<in> {j}"
  then show "job_stream tr (qs_db s) i = []
      \<and> (\<exists>kind payload run_at. job_stream tr (qs_db (s\<lparr>qs_db := d'\<rparr>)) i = [EvEnqueued kind payload run_at])"
    using enqueue_step(3,4) [OF assms] by simp
next
  fix i assume "i \<notin> {j}"
  then have "job_rows d' i = job_rows (qs_db s) i"
    using enqueue_job_payload_Inr(3) [OF enq] by (simp add: job_rows_snoc)
  then show "job_stream tr (qs_db (s\<lparr>qs_db := d'\<rparr>)) i = job_stream tr (qs_db s) i"
    by (simp add: job_stream_def)
qed

lemma commit_simulated:
  assumes ok: "queue_db_ok tr (qs_db s)" and com: "commit_serialized tr r (qs_db s) = Inr d'"
    and dom: "domain_stream (cm_stream r)" and i64: "\<forall>q \<in> set (cm_jobs r). in_i64 (eq_run_at_ms q)"
  shows "spec_step (queue_abs tr s) (Add (eq_job_id ` set (cm_jobs r))) (queue_abs tr (s\<lparr>qs_db := d'\<rparr>))"
proof (rule abs_enqueued)
  fix j assume "j \<in> eq_job_id ` set (cm_jobs r)"
  then obtain q where q: "q \<in> set (cm_jobs r)" "j = eq_job_id q" by blast
  show "job_stream tr (qs_db s) j = []
      \<and> (\<exists>kind payload run_at. job_stream tr (qs_db (s\<lparr>qs_db := d'\<rparr>)) j = [EvEnqueued kind payload run_at])"
    using seeded_job(3,4) [OF ok com dom i64 q(1)] q(2) by simp
next
  fix j assume "j \<notin> eq_job_id ` set (cm_jobs r)"
  then have "job_rows d' j = job_rows (qs_db s) j"
    using commit_serialized_Inr(1,2) [OF com] dom
    by (auto simp: committed_db_def job_rows_def identity_matches_def domain_stream_def filter_empty_conv)
  then show "job_stream tr (qs_db (s\<lparr>qs_db := d'\<rparr>)) j = job_stream tr (qs_db s) j"
    by (simp add: job_stream_def)
qed

lemma step_simulated:
  assumes inv: "queue_inv tr s" and sink: "event_sink_contract job_entity sink" and wrap: "wrap_contract wrap"
    and step: "queue_does tr sink wrap s a s'"
  shows "spec_step (queue_abs tr s) a (queue_abs tr s')"
proof -
  note ok = queue_invD(1) [OF inv]
  have quiet_step: ?thesis if "a = Silent" "\<And>j. job_stream tr (qs_db s') j = job_stream tr (qs_db s) j"
    using abs_unchanged [OF that(2)] that(1) spec_step.silent by metis
  from step show ?thesis
  proof (cases rule: queue_does.cases)
    case (enqueue i kind payload run_at d')
    then show ?thesis using enqueue_simulated [OF ok] by blast
  next
    case (commit r d')
    then have "commit_serialized tr r (qs_db s) = Inr d'" by (simp add: Engine.commit_def split: if_splits)
    then show ?thesis using commit commit_simulated [OF ok] by blast
  next
    case (claim fresh i worker now lease budget result d')
    then show ?thesis using claim_simulated [OF inv] by blast
  next
    case (renew claim_handle lease result d')
    then show ?thesis using renew_step(2) [OF ok] job_same_stream quiet_step unfolding renew_claim_def by fastforce
  next
    case (settle i cmd evs scope new now_ns snapshot scope' d')
    from settle_step(2) [OF ok sink wrap queue_invD(3) [OF inv settle(3)] queue_invD(2) [OF inv settle(3)] settle(4,5)]
    show ?thesis
    proof (elim disjE conjE)
      assume "new = []" "\<forall>i. job_same (qs_db s) d' i"
      then show ?thesis using settle(1,2) job_same_stream quiet_step by simp
    next
      assume "new = [ack_event cmd]" "settle_effect tr (qs_db s) d' i cmd"
      then show ?thesis using settle(1,2) settle_simulated [of tr s s' i cmd] by auto
    qed
  next
    case (react i e)
    then have "job_rows (qs_db s') j = job_rows (qs_db s) j" for j by (simp add: job_rows_def)
    then show ?thesis using react(1) job_stream_rows quiet_step by blast
  next
    case restart
    then have "job_rows (qs_db s') j = job_rows (qs_db s) j" for j by (simp add: job_rows_def)
    then show ?thesis using restart(1) job_stream_rows quiet_step by blast
  qed (rule quiet_step; simp)+
qed

lemma abs_init: "queue_abs tr queue_init = spec_init"
  by (simp add: queue_abs_def queue_init_def spec_init_def job_stream_def job_rows_def empty_db_def job_fold_def
      claim_ids_def List.map_filter_def)

text \<open>The queue of the library meets the interface, under the contracts of its cqrs-es parameters.\<close>

interpretation queue_sim: spec_simulation queue_init
  "\<lambda>s a s'. event_sink_contract job_entity sink \<and> wrap_contract wrap \<and> queue_does tr sink wrap s a s'"
  "queue_inv tr" "queue_abs tr" for tr sink wrap
  by unfold_locales (auto simp: inv_init abs_init intro: inv_step step_simulated dest: queue_does_step)

section \<open>Properties\<close>

text \<open>
  C19 (queue_refines_spec). The job queue refines its specification, action by action: the states the system reaches
  are those its labelled runs reach, and whatever the interleaving of enqueues, commits, claims, renewals, settlements,
  lost reactions and restarts, the sequence of labels of a run is a sequence of specification steps from the empty
  ticket table to the tickets of the state reached. In particular an acknowledgement that commits is a settlement by
  the claim its own command names, which the specification allows only to the holder of the ticket, a claim that reports
  a won job is a lease of a ticket that was not finished, and everything else leaves all tickets alone.
\<close>

theorem queue_refines_spec:
  assumes "event_sink_contract job_entity sink" and "wrap_contract wrap"
  shows "(reachable tr sink wrap s \<longleftrightarrow> (\<exists>acts. labelled_run (queue_does tr sink wrap) queue_init acts s))
    \<and> (labelled_run (queue_does tr sink wrap) queue_init acts s
        \<longrightarrow> labelled_run spec_step spec_init acts (queue_abs tr s))"
proof -
  have "(\<lambda>s a s'. event_sink_contract job_entity sink \<and> wrap_contract wrap \<and> queue_does tr sink wrap s a s')
      = queue_does tr sink wrap"
    using assms by simp
  then show ?thesis using queue_sim.run_simulated [of sink wrap tr acts s] reachable_run by simp
qed

theorem queue_refines_spec_witness:
  "\<exists>s acts. labelled_run (queue_does (\<lambda>_. True) sample_sink sample_wrap) queue_init acts s
     \<and> sp_ticket (queue_abs (\<lambda>_. True) s) ''j'' = Some Finished
     \<and> labelled_run spec_step spec_init acts (queue_abs (\<lambda>_. True) s)"
proof -
  obtain s where s: "reachable (\<lambda>_. True) sample_sink sample_wrap s"
    "job_stream (\<lambda>_. True) (qs_db s) ''j'' = sample_events @ [EvSucceeded]"
    by (rule Job_System.sample_settled)
  have "sp_ticket (queue_abs (\<lambda>_. True) s) ''j'' = Some Finished"
    by (simp add: queue_abs_def s(2)) (simp add: sample_events_def job_fold_def)
  then show ?thesis using queue_refines_spec [OF sample_contracts, of "\<lambda>_. True" s] s(1) by blast
qed

lemma live_prefix:
  assumes "job_fold evs = Live st" and "0 < n" and "n \<le> length evs"
  shows "\<exists>st. job_fold (take n evs) = Live st"
  using assms
proof (induction evs arbitrary: st rule: rev_induct)
  case (snoc e evs)
  show ?case
  proof (cases "n = Suc (length evs)")
    case False
    then have "n \<le> length evs" "evs \<noteq> []" using snoc.prems by auto
    moreover obtain st0 where "job_fold evs = Live st0" by (rule job_fold_butlast [OF snoc.prems(1) \<open>evs \<noteq> []\<close>])
    ultimately show ?thesis using snoc.IH snoc.prems(2) by simp
  qed (use snoc.prems(1) in auto)
qed simp

text \<open>
  C20 (reachable_well_typed). A reachable database is well-typed: every event row of a job stream decodes,
  with the sequence of its position; every queue row decodes as a live job whose timestamps are
  representable, its version fits the database's integers, and the keys of all tables are unique. So no read of the queue
  takes a deserialization branch.
\<close>

theorem reachable_well_typed:
  assumes "event_sink_contract job_entity sink" and "wrap_contract wrap" and "reachable tr sink wrap s"
  shows "db_keys_unique (qs_db s)
    \<and> list_all (\<lambda>r. \<exists>e. decode_job_row tr r = Some e \<and> valid_job_event tr e) (job_rows (qs_db s) j)
    \<and> map er_seq (job_rows (qs_db s) j) = map int [1..<Suc (length (job_rows (qs_db s) j))]
    \<and> (case queue_row (qs_db s) j of None \<Rightarrow> job_rows (qs_db s) j = []
       | Some r \<Rightarrow> in_i64 (vw_version r)
           \<and> (\<exists>st. read_job_payload tr (vw_payload r) = Some (Live st) \<and> valid_job_state tr st))"
proof -
  let ?d = "qs_db s"
  note ok = queue_invD(1) [OF reachable_inv [OF assms]]
  note wf = queue_db_okD(2) [OF ok, of j]
  have len: "length (job_stream tr ?d j) = length (job_rows ?d j)" using job_rows_length [OF wf] by simp
  have rows: "\<exists>e. decode_job_row tr r = Some e \<and> valid_job_event tr e" if "r \<in> set (job_rows ?d j)" for r
    using map_filter_all [OF len [unfolded job_stream_def]] that job_event_from_json_valid
    by (fastforce simp: decode_job_row_def bind_eq_Some_conv)
  have row: "in_i64 (vw_version r) \<and> (\<exists>st. read_job_payload tr (vw_payload r) = Some (Live st) \<and> valid_job_state tr st)"
    if r: "queue_row ?d j = Some r" for r
  proof -
    obtain n where n: "0 < n" "vw_payload r = job_payload (job_fold (take n (job_stream tr ?d j)))"
        "n \<le> length (job_stream tr ?d j)"
      using queue_db_okD(3) [OF ok, of j] r by (auto simp: row_ok_def)
    then obtain st where st: "job_fold (take n (job_stream tr ?d j)) = Live st"
      using wf live_prefix [of "job_stream tr ?d j" _ n] by (fastforce simp: stream_wf_def)
    have "list_all (valid_job_event tr) (take n (job_stream tr ?d j))"
      using job_stream_valid [of tr ?d j] by (auto simp: list_all_iff dest: in_set_takeD)
    then have "valid_job_state tr st" using job_fold_valid [OF st] by blast
    then show ?thesis using n(2) st row_version_i64 [OF ok r] by simp
  qed
  have "queue_row ?d j = None \<Longrightarrow> job_rows ?d j = []" using queue_db_okD(3) [OF ok, of j] by (simp add: row_ok_def)
  then show ?thesis
    using queue_db_okD(1) [OF ok] rows row wf len by (auto simp: list_all_iff stream_wf_def split: option.split)
qed

theorem reachable_well_typed_witness:
  "\<exists>s r st. reachable (\<lambda>_. True) sample_sink sample_wrap s \<and> queue_row (qs_db s) ''j'' = Some r
     \<and> read_job_payload (\<lambda>_. True) (vw_payload r) = Some (Live st)"
proof -
  obtain s where s: "reachable (\<lambda>_. True) sample_sink sample_wrap s" "queue_row (qs_db s) ''j'' \<noteq> None"
    by (rule sample_enqueued)
  then obtain r where "queue_row (qs_db s) ''j'' = Some r" by blast
  then show ?thesis using reachable_well_typed [OF sample_contracts s(1), of "''j''"] s(1) by auto
qed

end
