(* ===== verification/Dispatch.thy ===== *)
theory Dispatch
  imports Job_Backend
begin

text \<open>
  Entity-dispatched jobs, \<open>dispatch.rs\<close>: what a command handler may return, the dispatch cell an entity
  embeds (\<open>DispatchedJob\<close>) with its guard, its settlement and its fold, the delivery of a verdict to the
  origin entity, and the execution of a dispatched job, which routes between \<open>submit\<close> and \<open>reconcile\<close> and
  delivers before it acknowledges. The consumer's job (its \<open>submit\<close>, \<open>reconcile\<close>, encoding and origin id)
  is a dictionary \<open>job_def\<close> over a world of type \<open>'w\<close>; \<open>Store::send\<close> is an argument of \<open>deliver\<close>.
\<close>

section \<open>Jobs, verdicts and events\<close>

datatype 'e job_failure = TransientFailure 'e | TerminalFailure 'e

datatype 'o reconciliation = SettledAs 'o | NotSubmitted | Indeterminate nat

text \<open>\<open>jd_sources\<close> is the display of an error followed by those of its \<open>source()\<close> chain.\<close>

record ('j, 'o, 'e, 'w) job_def =
  jd_kind :: string
  jd_encode :: "'j \<Rightarrow> json option"
  jd_origin_id :: "'j \<Rightarrow> string"
  jd_submit :: "'j \<Rightarrow> job_context \<Rightarrow> 'w \<Rightarrow> ('e job_failure + 'o job_outcome) \<times> 'w"
  jd_reconcile :: "'j \<Rightarrow> job_context \<Rightarrow> 'w \<Rightarrow> ('e job_failure + 'o reconciliation) \<times> 'w"
  jd_sources :: "'e \<Rightarrow> string list"

record 'o settled_output =
  so_job_id :: string
  so_output :: 'o
  so_attempts :: u32

datatype 'e dispatch_failure = RejectedBy 'e | DeadLettered dead_reason string

record 'e settled_failure =
  sf_job_id :: string
  sf_failure :: "'e dispatch_failure"
  sf_attempts :: u32

datatype ('o, 'e) dispatched_job =
    Idle
  | InFlight string
  | Confirmed "'o settled_output"
  | FailedWith "'e settled_failure"

datatype ('j, 'o, 'e) dispatch_event =
    EvDispatched string 'j
  | EvConfirmed "'o settled_output"
  | EvFailed "'e settled_failure"

datatype ('o, 'e) verdict = VdConfirmed "'o settled_output" | VdFailed "'e settled_failure"

definition confirmed_outcome :: "string \<Rightarrow> 'o \<Rightarrow> u32 \<Rightarrow> ('o, 'e) verdict" where
  "confirmed_outcome job_id output attempts =
     VdConfirmed \<lparr>so_job_id = job_id, so_output = output, so_attempts = attempts\<rparr>"

definition failed_outcome :: "string \<Rightarrow> 'e dispatch_failure \<Rightarrow> u32 \<Rightarrow> ('o, 'e) verdict" where
  "failed_outcome job_id failure attempts =
     VdFailed \<lparr>sf_job_id = job_id, sf_failure = failure, sf_attempts = attempts\<rparr>"

datatype dispatch_refused = RefusedInFlight | AlreadyConfirmed | OutcomeMismatch

datatype dispatch_replay = DispatchReplay

section \<open>What a handler returns\<close>

text \<open>\<open>fresh\<close> is the minted job id and \<open>into\<close> the consumer's \<open>From<DispatchEvent<J>>\<close>.\<close>

record 'ev job_dispatch =
  dp_event :: 'ev
  dp_pending :: pending_push

definition kick ::
  "('j, 'o, 'e, 'w) job_def \<Rightarrow> (('j, 'o, 'e) dispatch_event \<Rightarrow> 'ev) \<Rightarrow> string \<Rightarrow> 'j \<Rightarrow> 'ev job_dispatch" where
  "kick jd into fresh job =
     \<lparr>dp_event = into (EvDispatched fresh job),
      dp_pending = \<lparr>pp_job_id = fresh, pp_kind = jd_kind jd, pp_encode = jd_encode jd job, pp_delay = None\<rparr>\<rparr>"

definition dispatch_effect :: "'ev job_dispatch \<Rightarrow> 'ev effect" where
  "dispatch_effect d = Dispatch (dp_event d) (dp_pending d)"

definition kickoff ::
  "('j, 'o, 'e, 'w) job_def \<Rightarrow> (('j, 'o, 'e) dispatch_event \<Rightarrow> 'ev) \<Rightarrow> string \<Rightarrow> 'j \<Rightarrow> 'ev effect" where
  "kickoff jd into fresh job = dispatch_effect (kick jd into fresh job)"

definition uneventful :: "'err + 'ev effect" where
  "uneventful = Inr (Events [])"

definition fx_event :: "'ev \<Rightarrow> 'err + 'ev effect" where
  "fx_event event = Inr (Events [event])"

definition fx_events :: "'ev list \<Rightarrow> 'err + 'ev effect" where
  "fx_events evs = Inr (Events evs)"

definition fx_settlement ::
  "(('j, 'o, 'e) dispatch_event \<Rightarrow> 'ev) \<Rightarrow> ('j, 'o, 'e) dispatch_event list \<Rightarrow> 'err + 'ev effect" where
  "fx_settlement into evs = Inr (Events (map into evs))"

definition fx_kickoff ::
  "('j, 'o, 'e, 'w) job_def \<Rightarrow> (('j, 'o, 'e) dispatch_event \<Rightarrow> 'ev) \<Rightarrow> string \<Rightarrow> 'j \<Rightarrow> 'err + 'ev effect" where
  "fx_kickoff jd into fresh job = Inr (kickoff jd into fresh job)"

definition fx_guarded :: "'ev job_dispatch \<Rightarrow> 'err + 'ev effect" where
  "fx_guarded d = Inr (dispatch_effect d)"

definition fx_failure :: "'err \<Rightarrow> 'err + 'ev effect" where
  "fx_failure err = Inl err"

section \<open>The dispatch cell\<close>

definition dispatch_job ::
  "('j, 'o, 'e, 'w) job_def \<Rightarrow> (('j, 'o, 'e) dispatch_event \<Rightarrow> 'ev) \<Rightarrow> ('o, 'e) dispatched_job \<Rightarrow> string \<Rightarrow> 'j
     \<Rightarrow> dispatch_refused + 'ev job_dispatch" where
  "dispatch_job jd into self fresh job =
     (case self of
        Idle \<Rightarrow> Inr (kick jd into fresh job)
      | FailedWith _ \<Rightarrow> Inr (kick jd into fresh job)
      | InFlight _ \<Rightarrow> Inl RefusedInFlight
      | Confirmed _ \<Rightarrow> Inl AlreadyConfirmed)"

fun settle ::
  "('o, 'e) dispatched_job \<Rightarrow> ('o, 'e) verdict \<Rightarrow> dispatch_refused + ('j, 'o, 'e) dispatch_event list" where
  "settle (InFlight job_id) (VdConfirmed settled) =
     (if job_id = so_job_id settled then Inr [EvConfirmed settled] else Inl OutcomeMismatch)"
| "settle (InFlight job_id) (VdFailed settled) =
     (if job_id = sf_job_id settled then Inr [EvFailed settled] else Inl OutcomeMismatch)"
| "settle (Confirmed existing) (VdConfirmed settled) =
     (if so_job_id existing = so_job_id settled then Inr [] else Inl OutcomeMismatch)"
| "settle (FailedWith existing) (VdFailed settled) =
     (if sf_job_id existing = sf_job_id settled then Inr [] else Inl OutcomeMismatch)"
| "settle _ _ = Inl OutcomeMismatch"

fun evolve_cell ::
  "('o, 'e) dispatched_job \<Rightarrow> ('j, 'o, 'e) dispatch_event \<Rightarrow> dispatch_replay + ('o, 'e) dispatched_job" where
  "evolve_cell Idle (EvDispatched job_id _) = Inr (InFlight job_id)"
| "evolve_cell (FailedWith _) (EvDispatched job_id _) = Inr (InFlight job_id)"
| "evolve_cell (InFlight job_id) (EvConfirmed settled) =
     (if job_id = so_job_id settled then Inr (Confirmed settled) else Inl DispatchReplay)"
| "evolve_cell (InFlight job_id) (EvFailed settled) =
     (if job_id = sf_job_id settled then Inr (FailedWith settled) else Inl DispatchReplay)"
| "evolve_cell _ _ = Inl DispatchReplay"

definition originate_cell ::
  "('j, 'o, 'e) dispatch_event \<Rightarrow> dispatch_replay + ('o, 'e) dispatched_job" where
  "originate_cell event = evolve_cell Idle event"

section \<open>Delivery\<close>

datatype origin_delivery_error = Transport | RefusedVerdict

fun delivery_error_of :: "'e aggregate_error \<Rightarrow> origin_delivery_error" where
  "delivery_error_of (UserError _) = RefusedVerdict"
| "delivery_error_of AggregateConflict = Transport"
| "delivery_error_of DatabaseConnectionError = Transport"
| "delivery_error_of AggregateDeserializationError = Transport"
| "delivery_error_of UnexpectedError = Transport"

type_synonym ('o, 'e, 'w) origin_port =
  "string \<Rightarrow> ('o, 'e) verdict \<Rightarrow> 'w \<Rightarrow> (origin_delivery_error + unit) \<times> 'w"

definition deliver ::
  "(string \<Rightarrow> 'c \<Rightarrow> 'w \<Rightarrow> ('le aggregate_error + unit) \<times> 'w) \<Rightarrow> (('o, 'e) verdict \<Rightarrow> 'c)
     \<Rightarrow> ('o, 'e, 'w) origin_port" where
  "deliver send into_command origin_id outcome w =
     (case send origin_id (into_command outcome) w of (sent, w') \<Rightarrow> (map_err delivery_error_of sent, w'))"

definition default_delivery_policy :: delivery_policy where
  "default_delivery_policy = \<lparr>dl_retry_delay = 5 * 1000000000, dl_refused_backoff = 300 * 1000000000\<rparr>"

definition delivery_deferral :: "job_context \<Rightarrow> origin_delivery_error \<Rightarrow> nat" where
  "delivery_deferral ctx err =
     (case err of
        Transport \<Rightarrow> dl_retry_delay (cx_delivery ctx)
      | RefusedVerdict \<Rightarrow> dl_refused_backoff (cx_delivery ctx))"

section \<open>Execution\<close>

text \<open>
  The first half of \<open>perform\<close> up to its first await: a submission on the first execution, a reconciliation on any later
  one. \<open>None\<close> is the answer \<open>NotSubmitted\<close>, after which \<open>perform\<close> submits; \<open>Inl\<close> is the early return of an
  indeterminate reconciliation.
\<close>

fun route_reconciled ::
  "'e job_failure + 'o reconciliation \<Rightarrow> (nat + ('e job_failure + 'o job_outcome)) option" where
  "route_reconciled (Inr (SettledAs output)) = Some (Inr (Inr (Done output)))"
| "route_reconciled (Inr (Indeterminate delay)) = Some (Inl delay)"
| "route_reconciled (Inr NotSubmitted) = None"
| "route_reconciled (Inl failure) = Some (Inr (Inl failure))"

definition first_call ::
  "('j, 'o, 'e, 'w) job_def \<Rightarrow> 'j \<Rightarrow> job_context \<Rightarrow> 'w \<Rightarrow> (nat + ('e job_failure + 'o job_outcome)) option \<times> 'w" where
  "first_call jd job ctx w =
     (if is_first_execution ctx then map_prod (Some \<circ> Inr) id (jd_submit jd job ctx w)
      else map_prod route_reconciled id (jd_reconcile jd job ctx w))"

text \<open>The whole first half, when nothing interleaves.\<close>

definition execute_routed ::
  "('j, 'o, 'e, 'w) job_def \<Rightarrow> 'j \<Rightarrow> job_context \<Rightarrow> 'w \<Rightarrow> (nat + ('e job_failure + 'o job_outcome)) \<times> 'w" where
  "execute_routed jd job ctx w =
     (case first_call jd job ctx w of
        (Some outcome, w') \<Rightarrow> (outcome, w')
      | (None, w') \<Rightarrow> map_prod Inr id (jd_submit jd job ctx w'))"

text \<open>The second half; \<open>attempts\<close> is \<open>ctx.attempt() + 1\<close>, which wraps as a \<open>u32\<close>.\<close>

definition conclude ::
  "('j, 'o, 'e, 'w) job_def \<Rightarrow> ('o, 'e, 'w) origin_port \<Rightarrow> 'j \<Rightarrow> job_context \<Rightarrow> 'e job_failure + 'o job_outcome
     \<Rightarrow> 'w \<Rightarrow> ('e job_failure + unit job_outcome) \<times> 'w" where
  "conclude jd port job ctx outcome w =
     (let attempts = cx_attempt ctx + 1; origin = jd_origin_id jd job; job_id = cx_job_id ctx
      in case outcome of
        Inr (Done output) \<Rightarrow>
          (case port origin (confirmed_outcome job_id output attempts) w of
             (Inr _, w') \<Rightarrow> (Inr (Done ()), w')
           | (Inl err, w') \<Rightarrow> (Inr (Defer (delivery_deferral ctx err)), w'))
      | Inr (Defer delay) \<Rightarrow> (Inr (Defer delay), w)
      | Inl (TerminalFailure err) \<Rightarrow>
          (case port origin (failed_outcome job_id (RejectedBy err) attempts) w of
             (Inr _, w') \<Rightarrow> (Inl (TerminalFailure err), w')
           | (Inl derr, w') \<Rightarrow> (Inr (Defer (delivery_deferral ctx derr)), w'))
      | Inl (TransientFailure err) \<Rightarrow>
          (Inl (TransientFailure err),
           if is_final_attempt ctx
           then snd (port origin (failed_outcome job_id
                  (DeadLettered RetriesExhausted (error_chain (jd_sources jd err))) attempts) w)
           else w))"

definition perform ::
  "('j, 'o, 'e, 'w) job_def \<Rightarrow> ('o, 'e, 'w) origin_port \<Rightarrow> 'j \<Rightarrow> job_context \<Rightarrow> 'w
     \<Rightarrow> ('e job_failure + unit job_outcome) \<times> 'w" where
  "perform jd port job ctx w =
     (case execute_routed jd job ctx w of
        (Inl delay, w') \<Rightarrow> (Inr (Defer delay), w')
      | (Inr outcome, w') \<Rightarrow> conclude jd port job ctx outcome w')"

text \<open>A \<open>JobFailure\<close> as the worker's middleware sees it, boxed; the message is thiserror's.\<close>

fun exec_result ::
  "('j, 'o, 'e, 'w) job_def \<Rightarrow> 'e job_failure + unit job_outcome \<Rightarrow> exec_error + unit job_outcome" where
  "exec_result jd (Inr outcome) = Inr outcome"
| "exec_result jd (Inl (TransientFailure err)) =
     Inl \<lparr>ee_class = Some Transient, ee_chain = ''transient job failure'' # jd_sources jd err\<rparr>"
| "exec_result jd (Inl (TerminalFailure err)) =
     Inl \<lparr>ee_class = Some Terminal, ee_chain = ''terminal job failure'' # jd_sources jd err\<rparr>"

section \<open>The cell as a read model of its history\<close>

text \<open>The replay of a cell's events, and a description of the histories it accepts that uses no cell.\<close>

definition fold_cell ::
  "('o, 'e) dispatched_job \<Rightarrow> ('j, 'o, 'e) dispatch_event list \<Rightarrow> dispatch_replay + ('o, 'e) dispatched_job" where
  "fold_cell cell evs = foldl (\<lambda>r event. bind_result r (\<lambda>c. evolve_cell c event)) (Inr cell) evs"

fun cell_history :: "('j, 'o, 'e) dispatch_event list \<Rightarrow> bool" where
  "cell_history [] = True"
| "cell_history [EvDispatched _ _] = True"
| "cell_history (EvDispatched job_id _ # EvConfirmed settled # rest) = (job_id = so_job_id settled \<and> rest = [])"
| "cell_history (EvDispatched job_id _ # EvFailed settled # rest) = (job_id = sf_job_id settled \<and> cell_history rest)"
| "cell_history _ = False"

fun cell_of_event :: "('j, 'o, 'e) dispatch_event \<Rightarrow> ('o, 'e) dispatched_job" where
  "cell_of_event (EvDispatched job_id _) = InFlight job_id"
| "cell_of_event (EvConfirmed settled) = Confirmed settled"
| "cell_of_event (EvFailed settled) = FailedWith settled"

definition cell_read :: "('j, 'o, 'e) dispatch_event list \<Rightarrow> ('o, 'e) dispatched_job" where
  "cell_read evs = (if evs = [] then Idle else cell_of_event (last evs))"

lemma fold_cell_Inl: "foldl (\<lambda>r event. bind_result r (\<lambda>c. evolve_cell c event)) (Inl x) evs = Inl x"
  by (induction evs) auto

lemma fold_cell_simps [simp]:
  "fold_cell cell [] = Inr cell"
  "fold_cell cell (event # evs) = bind_result (evolve_cell cell event) (\<lambda>c. fold_cell c evs)"
  by (simp_all add: fold_cell_def) (cases "evolve_cell cell event"; simp add: fold_cell_Inl)

lemma fold_cell_append:
  "fold_cell cell (xs @ ys) = bind_result (fold_cell cell xs) (\<lambda>c. fold_cell c ys)"
  by (induction xs arbitrary: cell) (auto simp: bind_result_def split: sum.splits)

lemma evolve_cell_Inr:
  "evolve_cell cell event = Inr cell' \<Longrightarrow> cell' = cell_of_event event"
  by (cases "(cell, event)" rule: evolve_cell.cases) (auto split: if_splits)

lemma fold_cell_Confirmed: "fold_cell (Confirmed s) evs = (if evs = [] then Inr (Confirmed s) else Inl DispatchReplay)"
  by (cases evs) auto

lemma fold_cell_Idle_Failed: "evs \<noteq> [] \<Longrightarrow> fold_cell (FailedWith f) evs = fold_cell Idle evs"
  by (cases evs; cases "hd evs") auto

lemma twice_dispatched [simp]:
  "bind_result (evolve_cell Idle event) (\<lambda>c. bind_result (evolve_cell c (EvDispatched job_id job)) f) = Inl DispatchReplay"
  by (cases event) simp_all

lemma fold_cell_exact:
  "fold_cell Idle evs = (if cell_history evs then Inr (cell_read evs) else Inl DispatchReplay)"
proof (induction evs rule: cell_history.induct)
  case (3 job_id job settled rest)
  then show ?case by (simp add: fold_cell_Confirmed cell_read_def)
next
  case (4 job_id job settled rest)
  then show ?case
    by (cases "rest = []") (auto simp: fold_cell_Idle_Failed cell_read_def)
qed (auto simp: cell_read_def)

text \<open>
  Replaying a dispatch cell accepts exactly the well-formed histories: pairs of a
  dispatch and a failed verdict for the dispatched job, then possibly one more dispatch, possibly with its
  confirmation. The cell it arrives at is the one its last event alone describes, and \<open>originate\<close> is the
  replay of a one-event history.
\<close>

theorem cell_fold_exact:
  "fold_cell Idle evs = (if cell_history evs then Inr (cell_read evs) else Inl DispatchReplay)
   \<and> originate_cell event = fold_cell Idle [event]"
  by (simp add: fold_cell_exact originate_cell_def bind_result_def split: sum.splits)

section \<open>Settlement and the dispatch guard\<close>

fun verdict_id :: "('o, 'e) verdict \<Rightarrow> string" where
  "verdict_id (VdConfirmed settled) = so_job_id settled"
| "verdict_id (VdFailed settled) = sf_job_id settled"

fun is_confirmation :: "('o, 'e) verdict \<Rightarrow> bool" where
  "is_confirmation (VdConfirmed _) = True"
| "is_confirmation (VdFailed _) = False"

fun cell_of_verdict :: "('o, 'e) verdict \<Rightarrow> ('o, 'e) dispatched_job" where
  "cell_of_verdict (VdConfirmed settled) = Confirmed settled"
| "cell_of_verdict (VdFailed settled) = FailedWith settled"

lemma settle_Inr:
  assumes "settle cell v = Inr evs"
  shows "(cell = InFlight (verdict_id v) \<and> fold_cell cell evs = Inr (cell_of_verdict v) \<and> length evs = 1)
    \<or> (\<exists>v'. cell = cell_of_verdict v' \<and> verdict_id v' = verdict_id v \<and> is_confirmation v' = is_confirmation v
          \<and> evs = [])"
  using assms
  by (cases "(cell, v)" rule: settle.cases)
    (auto split: if_splits intro: exI [of _ "VdConfirmed _"] exI [of _ "VdFailed _"])

lemma settle_verdict_cell:
  "settle (cell_of_verdict v') v =
     (if verdict_id v' = verdict_id v \<and> is_confirmation v' = is_confirmation v then Inr [] else Inl OutcomeMismatch)"
  by (cases v'; cases v) auto

text \<open>
  Settling a cell with a verdict succeeds only when the cell waits for that
  verdict's job, or already holds a verdict of the same kind for it. In the first case it yields one event,
  which replays to the verdict; in the second none. Either way a redelivery of the same verdict is then
  absorbed without events, and a verdict of the other kind or for another job is refused.
\<close>

theorem settle_exactly_once:
  assumes "settle cell v = (Inr evs :: dispatch_refused + ('j, 'o, 'e) dispatch_event list)"
  shows "\<exists>held. fold_cell cell evs = Inr (cell_of_verdict held)
    \<and> verdict_id held = verdict_id v \<and> is_confirmation held = is_confirmation v
    \<and> (if cell = InFlight (verdict_id v) then held = v \<and> length evs = 1 else cell = cell_of_verdict held \<and> evs = [])
    \<and> (\<forall>again. settle (cell_of_verdict held) again =
          (if verdict_id again = verdict_id v \<and> is_confirmation again = is_confirmation v
           then Inr [] else (Inl OutcomeMismatch :: dispatch_refused + ('j, 'o, 'e) dispatch_event list)))"
  using settle_Inr [OF assms]
proof
  assume "cell = InFlight (verdict_id v) \<and> fold_cell cell evs = Inr (cell_of_verdict v) \<and> length evs = 1"
  then show ?thesis by (intro exI [of _ v]) (auto simp: settle_verdict_cell)
next
  assume "\<exists>v'. cell = cell_of_verdict v' \<and> verdict_id v' = verdict_id v \<and> is_confirmation v' = is_confirmation v
    \<and> evs = []"
  then obtain v' where v': "cell = cell_of_verdict v'" "verdict_id v' = verdict_id v"
      "is_confirmation v' = is_confirmation v" "evs = []" by blast
  then show ?thesis
    by (intro exI [of _ v']) (simp add: settle_verdict_cell, cases v'; simp)
qed

theorem settle_exactly_once_witness:
  "\<exists>held. fold_cell (InFlight ''j'') [EvConfirmed \<lparr>so_job_id = ''j'', so_output = (7 :: nat), so_attempts = 1\<rparr>
        :: (nat, nat, nat) dispatch_event] = Inr (cell_of_verdict held)
    \<and> settle (cell_of_verdict held) (confirmed_outcome ''j'' 7 2) = (Inr [] :: dispatch_refused + (nat, nat, nat) dispatch_event list)
    \<and> settle (cell_of_verdict held) (failed_outcome ''j'' (RejectedBy 3) 2)
        = (Inl OutcomeMismatch :: dispatch_refused + (nat, nat, nat) dispatch_event list)"
proof -
  let ?v = "confirmed_outcome ''j'' 7 1 :: (nat, nat) verdict"
  have "settle (InFlight ''j'') ?v = (Inr [EvConfirmed \<lparr>so_job_id = ''j'', so_output = 7, so_attempts = 1\<rparr>]
      :: dispatch_refused + (nat, nat, nat) dispatch_event list)"
    by (simp add: confirmed_outcome_def)
  from settle_exactly_once [OF this] obtain held where
      fold: "fold_cell (InFlight ''j'') [EvConfirmed \<lparr>so_job_id = ''j'', so_output = (7 :: nat), so_attempts = 1\<rparr>
          :: (nat, nat, nat) dispatch_event] = Inr (cell_of_verdict held)"
      and again: "\<And>again. settle (cell_of_verdict held) again =
          (if verdict_id again = verdict_id ?v \<and> is_confirmation again = is_confirmation ?v
           then Inr [] else (Inl OutcomeMismatch :: dispatch_refused + (nat, nat, nat) dispatch_event list))"
    by blast
  show ?thesis
    by (intro exI [of _ held] conjI fold) (simp_all add: again confirmed_outcome_def failed_outcome_def)
qed

end
