(* ===== verification/Worker.thy ===== *)
theory Worker
  imports Job_Spec Dispatch
begin

text \<open>
  A native worker from its poll to its acknowledgement, \<open>job_backend.rs\<close>: the poll tick scans the due
  candidates and claims one, the job runs, and the acknowledgement service records what it did. Shows that
  a tick with a due job in reach always hands out a task (whatever the other candidates are), that the task
  holds its claim, what one cycle leaves behind for every outcome of the job, and what a renewal tells the worker.

  The job store's \<open>Store::send\<close> is the command execution of cqrs-es in a pending scope, a parameter with
  \<open>job_store_contract\<close>: load, handle, commit, then the reaction of the queue projection.
\<close>

section \<open>A cycle of the worker\<close>

text \<open>
  \<open>run\<close> is the job's \<open>perform\<close> under its timeout, \<open>lost\<close> whether the renewal loop lost the lease meanwhile.
  \<open>None\<close> for no task, or an acknowledgement that never returns.
\<close>

definition worker_cycle ::
  "(int \<Rightarrow> bool) \<Rightarrow> (json \<Rightarrow> 'j option) \<Rightarrow> (string \<Rightarrow> bool) \<Rightarrow> string \<Rightarrow> string \<Rightarrow> job_worker_config \<Rightarrow> int \<Rightarrow> (nat \<Rightarrow> string)
     \<Rightarrow> ('j \<Rightarrow> job_context \<Rightarrow> exec_error + 'o job_outcome) \<Rightarrow> bool \<Rightarrow> db job_send \<Rightarrow> nat \<Rightarrow> int \<Rightarrow> db
     \<Rightarrow> (job_context \<times> settlement_verdict option \<times> db) option" where
  "worker_cycle tr dec is_id kind worker config now_ms fresh run lost send fuel ack_now_ns d =
     (case poll_tick tr dec is_id kind worker config now_ms fresh d of
        (None, d') \<Rightarrow> None
      | (Some (job, ctx), d') \<Rightarrow>
          map_option (Pair ctx) (ack_service tr config send fuel ack_now_ns ctx lost (run job ctx) d'))"

section \<open>Claims under a valid policy\<close>

definition policy_ok :: "(int \<Rightarrow> bool) \<Rightarrow> job_worker_config \<Rightarrow> int \<Rightarrow> bool" where
  "policy_ok tr config now \<longleftrightarrow>
     (let lease = lease_millis (wk_lease_duration config)
      in 0 < lease \<and> 0 < wk_max_claims config \<and> in_i64 (now + lease) \<and> tr (now + lease))"

lemma policy_okD:
  assumes "policy_ok tr config now"
  shows "0 < lease_millis (wk_lease_duration config)" "0 < wk_max_claims config"
    "in_i64 (now + lease_millis (wk_lease_duration config))" "tr (now + lease_millis (wk_lease_duration config))"
  using assms by (simp_all add: policy_ok_def Let_def)

lemma append_fits: "seq_fits ev \<Longrightarrow> \<exists>appended. append_job_event ev d = Inr appended"
  by (auto simp: append_job_event_def insert_batch_single seq_fits_def)

lemma claim_job_answers:
  assumes "\<And>ev cell until won. plan (read_job_projection_for_claim j d) = Claim ev cell until won \<Longrightarrow> seq_fits ev"
    and "\<And>ev cell. plan (read_job_projection_for_claim j d) = Abandon ev cell \<Longrightarrow> seq_fits ev"
  shows "\<exists>outcome d'. claim_job j plan d = Inr (outcome, d')"
proof (cases "plan (read_job_projection_for_claim j d)")
  case (Claim ev cell until won)
  then obtain appended where "append_job_event ev d = Inr appended" using assms(1) append_fits by blast
  then show ?thesis by (cases appended) (auto simp: claim_job_unfold claim_job_in_transaction_def Claim split: prod.splits)
next
  case (Abandon ev cell)
  then obtain appended where "append_job_event ev d = Inr appended" using assms(2) append_fits by blast
  then show ?thesis by (cases appended) (auto simp: claim_job_unfold claim_job_in_transaction_def Abandon split: prod.splits)
qed (simp add: claim_job_unfold claim_job_in_transaction_def)

lemma claim_answers:
  assumes ok: "queue_db_ok tr d" and pol: "policy_ok tr config now"
  shows "\<exists>result d'. claim_one tr fresh worker config j now d = Inr (result, d')"
proof -
  let ?lease = "lease_millis (wk_lease_duration config)"
  let ?plan = "\<lambda>read. plan_claim tr fresh j read worker now ?lease (wk_max_claims config)"
  have fits: "seq_fits (serialized e j (nat n))" if "in_i64 n" "0 \<le> n" for e n
    using that by (simp add: seq_fits_def in_i64_def)
  have "\<exists>outcome d'. claim_job j ?plan d = Inr (outcome, d')"
  proof (cases "queue_row d j")
    case None
    then show ?thesis by (simp add: claim_job_unfold claim_job_in_transaction_def read_for_claim plan_claim_def)
  next
    case (Some r)
    let ?row = "\<lparr>cr_version = vw_version r, cr_payload = vw_payload r, cr_lease = vw_lease r\<rparr>"
    have v: "in_i64 (cr_version ?row)" using row_version_i64 [OF ok Some] by simp
    have "seq_fits ev" if "?plan (Some ?row) = Claim ev cell until won" for ev cell until won
      by (rule plan_claim_Claim [OF that v]) (simp add: fits)
    moreover have "seq_fits ev" if "?plan (Some ?row) = Abandon ev cell" for ev cell
      by (rule plan_claim_Abandon [OF that v]) (simp add: fits)
    ultimately show ?thesis by (intro claim_job_answers) (simp_all add: read_for_claim Some)
  qed
  then show ?thesis
    using policy_okD [OF pol]
    by (auto simp: claim_one_def claim_job_as_def Let_def i64_checked_add_def word_neq_0_conv)
qed

lemma claim_other_rows:
  assumes "claim_job_as tr fresh j worker now lease budget d = Inr (result, d')" and "i \<noteq> j"
  shows "queue_row d' i = queue_row d i"
proof -
  obtain outcome where "claim_job j (\<lambda>read. plan_claim tr fresh j read worker now lease budget) d = Inr (outcome, d')"
    using claim_job_as_Inr [OF assms(1)] by blast
  then show ?thesis
  proof (cases rule: claim_job_cases)
    case (won ev cell until w v tx)
    then show ?thesis using assms(2) by (auto simp: append_job_event_Some queue_row_written) (simp add: queue_row_def)
  next
    case (abandoned ev cell v tx)
    then show ?thesis using assms(2) by (auto simp: append_job_event_Some queue_row_written) (simp add: queue_row_def)
  qed simp
qed

section \<open>The poll tick\<close>

text \<open>A job the planner grants to the next claim of a kind.\<close>

definition claimable :: "(int \<Rightarrow> bool) \<Rightarrow> (json \<Rightarrow> 'j option) \<Rightarrow> job_worker_config \<Rightarrow> string \<Rightarrow> int \<Rightarrow> db \<Rightarrow> string \<Rightarrow> bool" where
  "claimable tr dec config kind now d j \<longleftrightarrow>
     (\<exists>r st payload run_at attempt claims. queue_row d j = Some r \<and> row_current tr d j
        \<and> job_fold (job_stream tr d j) = Live st \<and> runnable st (vw_lease r) now
        \<and> claim_parts st = Some (kind, payload, run_at, attempt, claims) \<and> claims < wk_max_claims config
        \<and> dec payload \<noteq> None \<and> in_i64 (int (Suc (length (job_stream tr d j)))))"

lemma claimable_frame:
  assumes "claimable tr dec config kind now d j" and "job_same d d' j" and "queue_row d' j = queue_row d j"
  shows "claimable tr dec config kind now d' j"
  using assms job_same_stream [OF assms(2), of tr] by (auto simp: claimable_def row_current_def)

text \<open>
  What a task knows of its job: the tick that handed it out appended the worker's claim to the stream and
  nothing else, and the task names that claim and the version it made.
\<close>

definition task_holds :: "(int \<Rightarrow> bool) \<Rightarrow> string \<Rightarrow> job_worker_config \<Rightarrow> int \<Rightarrow> db \<Rightarrow> db \<Rightarrow> job_context \<Rightarrow> bool" where
  "task_holds tr worker config now d d' ctx \<longleftrightarrow>
     job_stream tr d' (cx_job_id ctx) = job_stream tr d (cx_job_id ctx)
       @ [EvClaimed worker (cx_claim_id ctx) (now + lease_millis (wk_lease_duration config))]
     \<and> holds_claim (job_stream tr d' (cx_job_id ctx)) (cx_claim_id ctx)
     \<and> cx_claim_seq ctx = int (length (job_stream tr d' (cx_job_id ctx))) \<and> cx_max_attempts ctx = wk_max_attempts config"

lemma task_holds_frame:
  "task_holds tr worker config now d1 d' ctx \<Longrightarrow> job_same d d1 (cx_job_id ctx) \<Longrightarrow> task_holds tr worker config now d d' ctx"
  by (auto simp: task_holds_def dest: job_same_stream [of d d1 _ tr])

lemma claimed_task:
  assumes ok: "queue_db_ok tr d" and c: "claim_one tr fresh worker config j now d = Inr (RClaimed claimed, d')"
    and task: "build_task dec claimed config = Some (job, ctx)"
  shows "task_holds tr worker config now d d' ctx \<and> cx_job_id ctx = j"
proof -
  obtain st where st: "claim_effect tr d d' j (EvClaimed worker fresh (now + lease_millis (wk_lease_duration config)))"
      "job_fold (job_stream tr d j) = Live st"
      "jh_claim_seq (cj_handle claimed) = int (Suc (length (job_stream tr d j)))" "jh_claim_id (cj_handle claimed) = fresh"
    and run: "\<exists>lease. runnable st lease now"
    using claim_step [OF ok c [unfolded claim_one_def]] by blast
  have stream: "job_stream tr d' j = job_stream tr d j @ [EvClaimed worker fresh (now + lease_millis (wk_lease_duration config))]"
    using st(1) job_appends_stream by (auto simp: claim_effect_def)
  have "jh_job_id (cj_handle claimed) = j" using claimed_job_id c by (simp add: claim_one_def)
  then have ctx: "cx_job_id ctx = j" "cx_claim_id ctx = fresh" "cx_claim_seq ctx = int (Suc (length (job_stream tr d j)))"
      "cx_max_attempts ctx = wk_max_attempts config"
    using task st(3,4) by (auto simp: build_task_def split: option.splits)
  have "holds_claim (job_stream tr d' j) fresh"
    using run by (cases st) (auto simp: holds_claim_def stream st(2))
  then show ?thesis by (simp add: task_holds_def ctx stream)
qed

lemma claim_frame:
  assumes ok: "queue_db_ok tr d" and c: "claim_one tr fresh worker config j now d = Inr (result, d')"
    and fresh: "fresh \<notin> set (claim_ids (job_stream tr d j))"
  shows "queue_db_ok tr d'" and "i \<noteq> j \<Longrightarrow> job_same d d' i \<and> queue_row d' i = queue_row d i"
proof -
  note step = claim_step [OF ok c [unfolded claim_one_def]]
  show "queue_db_ok tr d'" using step ok claim_effect_ok [OF ok] fresh by (elim disjE exE conjE) auto
  show "job_same d d' i \<and> queue_row d' i = queue_row d i" if "i \<noteq> j"
    using step that claim_other_rows [OF c [unfolded claim_one_def] that]
    by (elim disjE exE conjE) (auto simp: claim_effect_def)
qed

lemma claimable_claimed:
  assumes ok: "queue_db_ok tr d" and pol: "policy_ok tr config now" and j: "claimable tr dec config kind now d j"
  obtains claimed d' job ctx where "claim_one tr fresh worker config j now d = Inr (RClaimed claimed, d')"
    "build_task dec claimed config = Some (job, ctx)"
proof -
  obtain r st payload run_at attempt claims where row: "queue_row d j = Some r" and cur: "row_current tr d j"
    and fold: "job_fold (job_stream tr d j) = Live st" and run: "runnable st (vw_lease r) now"
    and parts: "claim_parts st = Some (kind, payload, run_at, attempt, claims)" "claims < wk_max_claims config"
    and dec: "dec payload \<noteq> None" and seq: "in_i64 (int (Suc (length (job_stream tr d j))))"
    using j unfolding claimable_def by blast
  obtain claimed d' where "claim_job_as tr fresh j worker now (lease_millis (wk_lease_duration config)) (wk_max_claims config) d
      = Inr (RClaimed claimed, d')" "cj_payload claimed = payload"
    by (rule claim_wins [OF ok row cur fold run parts policy_okD(1,3,4) [OF pol] seq, where fresh = fresh and worker = worker])
  then show ?thesis using that dec by (auto simp: claim_one_def build_task_def)
qed

text \<open>A candidate that hands out no task leaves every other candidate as it was.\<close>

lemma passed_over:
  assumes c: "claim_one tr fresh worker config i now d = Inr (result, d1)" and id: "is_id i"
    and no: "\<nexists>claimed job ctx. result = RClaimed claimed \<and> build_task dec claimed config = Some (job, ctx)"
  shows "try_candidates tr dec is_id worker config now ((i, fresh) # cands) d = try_candidates tr dec is_id worker config now cands d1"
  using no id c by (cases result) (auto split: option.splits)

lemma fresh_frame:
  assumes frame: "\<And>i'. i' \<noteq> i \<Longrightarrow> job_same d d1 i'" and new: "i \<notin> fst ` set cands"
    and fr: "\<forall>(i', f) \<in> set cands. f \<notin> set (claim_ids (job_stream tr d i'))"
  shows "\<forall>(i', f) \<in> set cands. f \<notin> set (claim_ids (job_stream tr d1 i'))"
proof clarify
  fix i' f assume m: "(i', f) \<in> set cands" "f \<in> set (claim_ids (job_stream tr d1 i'))"
  then have "i' \<noteq> i" using new by force
  then have "job_stream tr d1 i' = job_stream tr d i'" using frame job_same_stream by blast
  then show False using m fr by auto
qed

lemma try_candidates_task:
  assumes "queue_db_ok tr d" and "policy_ok tr config now" and "distinct (map fst cands)"
    and "\<forall>(i, fresh) \<in> set cands. fresh \<notin> set (claim_ids (job_stream tr d i))"
    and "j \<in> fst ` set cands" and "is_id j" and "claimable tr dec config kind now d j"
  shows "\<exists>job ctx d'. try_candidates tr dec is_id worker config now cands d = (Some (job, ctx), d')
    \<and> queue_db_ok tr d' \<and> task_holds tr worker config now d d' ctx \<and> cx_job_id ctx \<in> fst ` set cands"
  using assms
proof (induction cands arbitrary: d)
  case (Cons cand cands)
  obtain i fresh where cand: "cand = (i, fresh)" by fastforce
  have fr: "fresh \<notin> set (claim_ids (job_stream tr d i))" and new: "i \<notin> fst ` set cands"
    using Cons.prems(3,4) cand by auto
  show ?case
  proof (cases "is_id i")
    case False
    then have "j \<in> fst ` set cands" using Cons.prems(5,6) cand by auto
    then obtain job ctx d' where "try_candidates tr dec is_id worker config now cands d = (Some (job, ctx), d')" "queue_db_ok tr d'"
        "task_holds tr worker config now d d' ctx" "cx_job_id ctx \<in> fst ` set cands"
      using Cons.IH [OF Cons.prems(1,2)] Cons.prems(3,4,6,7) cand by auto
    then show ?thesis using False cand by auto
  next
    case True
    obtain result d1 where c: "claim_one tr fresh worker config i now d = Inr (result, d1)"
      using claim_answers [OF Cons.prems(1,2)] by blast
    note frame = claim_frame [OF Cons.prems(1) c fr]
    show ?thesis
    proof (cases "\<exists>claimed job ctx. result = RClaimed claimed \<and> build_task dec claimed config = Some (job, ctx)")
      case True
      then obtain claimed job ctx where r: "result = RClaimed claimed" "build_task dec claimed config = Some (job, ctx)" by blast
      have "task_holds tr worker config now d d1 ctx \<and> cx_job_id ctx = i" using claimed_task [OF Cons.prems(1) c [unfolded r(1)] r(2)] .
      then show ?thesis using \<open>is_id i\<close> c r frame(1) cand by simp
    next
      case False
      then have "i \<noteq> j" using claimable_claimed [OF Cons.prems(1,2,7), of fresh worker] c by fastforce
      then have "j \<in> fst ` set cands" "claimable tr dec config kind now d1 j"
        using Cons.prems(5) claimable_frame [OF Cons.prems(7)] frame(2) by (auto simp: cand)
      then obtain job ctx d' where task: "try_candidates tr dec is_id worker config now cands d1 = (Some (job, ctx), d')"
          "queue_db_ok tr d'" "task_holds tr worker config now d1 d' ctx" "cx_job_id ctx \<in> fst ` set cands"
        using Cons.IH [OF frame(1) Cons.prems(2)] Cons.prems(3,4,6) fresh_frame [of i d d1 cands tr, OF _ new] frame(2) cand by auto
      then have "cx_job_id ctx \<noteq> i" using new by auto
      then have "task_holds tr worker config now d d' ctx" using task_holds_frame [OF task(3)] frame(2) by blast
      then show ?thesis using passed_over [where is_id = is_id, OF c \<open>is_id i\<close> False, of cands] task cand by auto
    qed
  qed
qed simp

text \<open>A claimable job's row satisfies the poll's SQL predicate.\<close>

lemma claimable_candidate:
  assumes j: "claimable tr dec config kind now d j" and lim: "int (length (job_queue d)) \<le> wk_scan_limit config"
  shows "j \<in> set (find_view job_column (poll_predicate kind now) (Some poll_order) (wk_scan_limit config) (job_queue d))"
proof -
  obtain r st parts where r: "queue_row d j = Some r" "vw_payload r = job_payload (Live st)"
      "runnable st (vw_lease r) now" "claim_parts st = Some (kind, parts)"
    using j by (auto simp: claimable_def row_current_def)
  then have "pred_holds (job_column r) (poll_predicate kind now)" using poll_predicate_holds by blast
  moreover have "r \<in> set (job_queue d)" "vw_id r = j" using r(1) by (auto simp: queue_row_def dest: tbl_get_Some_in)
  ultimately show ?thesis using poll_rows [OF lim] by auto
qed

lemma poll_tick_task:
  assumes ok: "queue_db_ok tr d" and pol: "policy_ok tr config now" and lim: "int (length (job_queue d)) \<le> wk_scan_limit config"
    and j: "claimable tr dec config kind now d j" and id: "is_id j"
    and fr: "\<forall>n i. fresh n \<notin> set (claim_ids (job_stream tr d i))"
  shows "\<exists>job ctx d'. poll_tick tr dec is_id kind worker config now fresh d = (Some (job, ctx), d')
    \<and> queue_db_ok tr d' \<and> task_holds tr worker config now d d' ctx"
proof -
  let ?cands = "find_view job_column (poll_predicate kind now) (Some poll_order) (wk_scan_limit config) (job_queue d)"
  have "distinct ?cands"
    using poll_rows [OF lim] queue_db_okD(1) [OF ok]
    by (simp add: distinct_map db_keys_unique_def tbl_unique_def inj_on_def)
  moreover have "j \<in> set ?cands" using claimable_candidate [OF j lim] .
  moreover have fresh: "\<forall>(i, f) \<in> set (zip ?cands (map fresh [0..<length ?cands])). f \<notin> set (claim_ids (job_stream tr d i))"
    using fr by (auto simp: set_zip)
  ultimately have "\<exists>job ctx d'. try_candidates tr dec is_id worker config now (zip ?cands (map fresh [0..<length ?cands])) d
      = (Some (job, ctx), d') \<and> queue_db_ok tr d' \<and> task_holds tr worker config now d d' ctx
        \<and> cx_job_id ctx \<in> fst ` set (zip ?cands (map fresh [0..<length ?cands]))"
    using fresh by (intro try_candidates_task [where is_id = is_id and j = j and kind = kind] ok pol j id) (simp_all add: image_set)
  then show ?thesis by (auto simp: poll_tick_def Let_def)
qed

text \<open>A policy and a job type for the witnesses.\<close>

definition sample_worker_config :: job_worker_config where
  "sample_worker_config = \<lparr>wk_poll_interval = 250000000, wk_scan_limit = 16, wk_max_concurrency = 8,
     wk_lease_duration = 100000000, wk_renew_interval = 30000000, wk_execution_timeout = 300000000000, wk_max_attempts = 3, wk_max_claims = 5,
     wk_backoff = (\<lambda>_. 1000000), wk_delivery = \<lparr>dl_retry_delay = 5 * 1000000000, dl_refused_backoff = 300 * 1000000000\<rparr>\<rparr>"

lemma sample_policy: "policy_ok (\<lambda>_. True) sample_worker_config 10"
  by (simp add: policy_ok_def sample_worker_config_def lease_millis_def i64_try_from_def i64_simps)

lemma sample_due:
  obtains s where "reachable (\<lambda>_. True) sample_sink sample_wrap s"
    "claimable (\<lambda>_. True) Some sample_worker_config ''mail'' 10 (qs_db s) ''j''"
    "int (length (job_queue (qs_db s))) \<le> wk_scan_limit sample_worker_config"
    "\<forall>n i. ''c'' \<notin> set (claim_ids (job_stream (\<lambda>_. True) (qs_db s) i))"
    "\<forall>i. in_i64 (int (length (job_stream (\<lambda>_. True) (qs_db s) i)) + 2)"
proof -
  obtain s where s: "reachable (\<lambda>_. True) sample_sink sample_wrap s"
    "job_stream (\<lambda>_. True) (qs_db s) ''j'' = [EvEnqueued ''mail'' JNull 0]"
    "row_current (\<lambda>_. True) (qs_db s) ''j''" "queue_row (qs_db s) ''j'' \<noteq> None"
    "length (job_queue (qs_db s)) = 1" "\<forall>i. i \<noteq> ''j'' \<longrightarrow> job_stream (\<lambda>_. True) (qs_db s) i = []"
    by (rule sample_enqueued_only)
  have stream: "job_stream (\<lambda>_. True) (qs_db s) i = (if i = ''j'' then [EvEnqueued ''mail'' JNull 0] else [])" for i
    using s(2,6) by simp
  have "claimable (\<lambda>_. True) Some sample_worker_config ''mail'' 10 (qs_db s) ''j''"
    using s(3,4)
    by (auto simp: claimable_def stream job_fold_def sample_worker_config_def i64_simps)
  then show ?thesis
    using that [OF s(1)] s(5)
    by (simp add: stream claim_ids_def sample_worker_config_def i64_simps)
qed

text \<open>
  A poll tick makes progress: at every reachable state, when some due job of the
  worker's kind is within its claim budget, decodes, and fits the scan, the tick hands out a task - whatever
  the other candidates are (poison rows, contended jobs, jobs out of budget) and in whatever order they come
  - and the task's job is then held under the task's own claim id, at the version the task names.
\<close>

theorem poll_hands_out_task:
  assumes "event_sink_contract job_entity sink" and "wrap_contract wrap" and "reachable tr sink wrap s"
    and "policy_ok tr config now" and "int (length (job_queue (qs_db s))) \<le> wk_scan_limit config"
    and "claimable tr dec config kind now (qs_db s) j" and "is_id j"
    and "\<forall>n i. fresh n \<notin> set (claim_ids (job_stream tr (qs_db s) i))"
  shows "\<exists>job ctx d'. poll_tick tr dec is_id kind worker config now fresh (qs_db s) = (Some (job, ctx), d')
    \<and> task_holds tr worker config now (qs_db s) d' ctx"
  using poll_tick_task [where is_id = is_id and j = j, OF queue_invD(1) [OF reachable_inv [OF assms(1-3)]] assms(4-8)] by blast

theorem poll_hands_out_task_witness:
  "\<exists>s job ctx d'. reachable (\<lambda>_. True) sample_sink sample_wrap s
     \<and> poll_tick (\<lambda>_. True) Some (\<lambda>_. True) ''mail'' ''w'' sample_worker_config 10 (\<lambda>_. ''c'') (qs_db s) = (Some (job, ctx), d')
     \<and> task_holds (\<lambda>_. True) ''w'' sample_worker_config 10 (qs_db s) d' ctx"
proof -
  obtain s where s: "reachable (\<lambda>_. True) sample_sink sample_wrap s"
    "claimable (\<lambda>_. True) Some sample_worker_config ''mail'' 10 (qs_db s) ''j''"
    "int (length (job_queue (qs_db s))) \<le> wk_scan_limit sample_worker_config"
    "\<forall>n i. (\<lambda>_ :: nat. ''c'') n \<notin> set (claim_ids (job_stream (\<lambda>_. True) (qs_db s) i))"
    using sample_due by metis
  show ?thesis
    using poll_hands_out_task [where is_id = "\<lambda>_. True" and j = "''j''" and worker = "''w''" and fresh = "\<lambda>_. ''c''",
        OF sample_contracts s(1) sample_policy s(3,2) TrueI s(4)] s(1) by blast
qed

section \<open>The job store's send\<close>

text \<open>
  What cqrs-es promises of \<open>execute\<close> on the job aggregate, when nobody else writes the job in between: the
  stream is loaded and folded, a rejected command is a \<open>UserError\<close> and changes nothing; events are committed
  through the repository (with a snapshot of this job when one is due), and the queue projection folds each.
  Nothing is promised of a command without events.
\<close>

definition snapshot_ok :: "string \<Rightarrow> (string \<times> json \<times> nat) option \<Rightarrow> bool" where
  "snapshot_ok j su = (case su of None \<Rightarrow> True | Some (i, _, version) \<Rightarrow> i = j \<and> int version \<le> I64_MAX)"

definition plain_metadata :: "job_wrap \<Rightarrow> bool" where
  "plain_metadata wrap \<longleftrightarrow> (\<forall>j n evs. \<forall>e \<in> set (wrap j n evs). se_metadata e = JObject [])"

definition react_all :: "(int \<Rightarrow> bool) \<Rightarrow> string \<Rightarrow> job_event list \<Rightarrow> db \<Rightarrow> db" where
  "react_all tr j evs d = d\<lparr>job_queue := fold (Projection.react (job_projection tr) quiet j) evs (job_queue d)\<rparr>"

definition commits_through ::
  "(int \<Rightarrow> bool) \<Rightarrow> db job_send \<Rightarrow> string \<Rightarrow> job_command \<Rightarrow> job_event list \<Rightarrow> (persistence_error + db) \<Rightarrow> db \<Rightarrow> bool" where
  "commits_through tr send j cmd new persisted d =
     (case persisted of
        Inl e \<Rightarrow> (\<exists>err. send j cmd d = (Inl err, d))
      | Inr d1 \<Rightarrow> send j cmd d = (Inr (), react_all tr j new d1))"

definition job_store_contract ::
  "(int \<Rightarrow> bool) \<Rightarrow> (job_state, job_event, job_error) sink_write \<Rightarrow> job_wrap \<Rightarrow> db job_send \<Rightarrow> bool" where
  "job_store_contract tr sink wrap send \<longleftrightarrow>
     (\<forall>j cmd d. let evs = job_stream tr d j in
        case Lifecycle.handle sink job_entity (job_fold evs) cmd (Some []) of
          (scope, Inl e) \<Rightarrow> send j cmd d = (Inl (UserError e), d)
        | (scope, Inr new) \<Rightarrow> new \<noteq> [] \<longrightarrow>
            (\<exists>now_ns su. snapshot_ok j su
               \<and> commits_through tr send j cmd new
                    (snd (repo_persist tr now_ns JOB_AGGREGATE_TYPE (wrap j (length evs) new) su scope d)) d))"

lemma handle_held:
  assumes "event_sink_contract job_entity sink" and "holds_claim evs (cmd_claim_id cmd)"
  shows "Lifecycle.handle sink job_entity (job_fold evs) cmd (Some []) = (Some [], Inr [ack_event cmd])"
proof -
  obtain kind payload worker run_at attempt claims
    where st: "job_fold evs = Live (StClaimed kind payload worker (cmd_claim_id cmd) run_at attempt claims)"
    using assms(2) by (auto simp: holds_claim_def)
  have "\<exists>s. replay job_entity (job_fold evs) [ack_event cmd] = Live s" by (cases cmd) (simp_all add: st)
  then have "sink_events sink (job_fold evs, []) [ack_event cmd] = Inr [ack_event cmd]"
    using sink_events_ok [OF assms(1), of "job_fold evs" "[ack_event cmd]" _ "[]"] by auto
  then show ?thesis by (simp add: Lifecycle.handle_def decide_def st job_transition_def)
qed

lemma persist_ack:
  assumes ok: "queue_db_ok tr d" and wrap: "wrap_contract wrap" "plain_metadata wrap"
    and su: "snapshot_ok j su" and seq: "in_i64 (int (Suc (length (job_stream tr d j))))"
  shows "\<exists>scope d1. repo_persist tr now_ns JOB_AGGREGATE_TYPE (wrap j (length (job_stream tr d j)) [e]) su (Some []) d
    = (scope, Inr d1)"
proof -
  let ?n = "length (job_stream tr d j)"
  obtain s where s: "wrap j ?n [e] = [s]" "se_aggregate_id s = j" "se_aggregate_type s = JOB_AGGREGATE_TYPE" "se_sequence s = Suc ?n"
    by (rule wrap_single [OF wrap(1)])
  have meta: "\<not> reserves_engine_payload (se_metadata s)"
  proof -
    have "\<forall>x \<in> set (wrap j ?n [e]). se_metadata x = JObject []" using wrap(2) unfolding plain_metadata_def by blast
    then show ?thesis by (simp add: s(1) reserves_engine_payload_def)
  qed
  have "event_pk (event_row_of s) \<notin> event_pk ` set (events d)"
    using next_sequence_free [OF queue_db_okD(2) [OF ok], of j] s by (simp add: event_pk_def)
  moreover have "seq_fits s" using seq s(4) by (simp add: seq_fits_def in_i64_def)
  ultimately have ins: "insert_serialized_events_batch [s] (events d) = Inr (events d @ [event_row_of s])"
    by (simp add: insert_batch_single)
  show ?thesis
    using su seq meta ins s
    by (cases su) (auto simp: commit_path snapshot_ok_def with_snapshot_def write_snapshot_def i64_try_from_def in_i64_def Let_def)
qed

lemma row_at_head_current:
  assumes "queue_db_ok tr d" and "queue_row d j = Some r" and "vw_version r = int (length (job_stream tr d j))"
  shows "row_current tr d j"
  using queue_db_okD(3) [OF assms(1), of j] assms(2,3) by (auto simp: row_ok_def row_current_def)

lemma send_held:
  assumes ok: "queue_db_ok tr d" and sink: "event_sink_contract job_entity sink" and wrap: "wrap_contract wrap" "plain_metadata wrap"
    and store: "job_store_contract tr sink wrap send" and held: "holds_claim (job_stream tr d j) (cmd_claim_id cmd)"
    and cmd: "valid_command tr cmd" and seq: "in_i64 (int (Suc (length (job_stream tr d j))))"
  obtains d' where "send j cmd d = (Inr (), d')" "queue_db_ok tr d'" "job_stream tr d' j = job_stream tr d j @ [ack_event cmd]"
    "row_current tr d' j" "\<And>i. i \<noteq> j \<Longrightarrow> job_same d d' i"
proof -
  note h = handle_held [OF sink held]
  obtain now_ns su where su: "snapshot_ok j su" and send: "commits_through tr send j cmd [ack_event cmd]
      (snd (repo_persist tr now_ns JOB_AGGREGATE_TYPE (wrap j (length (job_stream tr d j)) [ack_event cmd]) su (Some []) d)) d"
    using store [unfolded job_store_contract_def Let_def, THEN spec [of _ j], THEN spec [of _ cmd], THEN spec [of _ d]] h by auto
  obtain scope d1 where p: "repo_persist tr now_ns JOB_AGGREGATE_TYPE (wrap j (length (job_stream tr d j)) [ack_event cmd]) su (Some []) d
      = (scope, Inr d1)"
    using persist_ack [OF ok wrap su seq] by blast
  note settled = settle_step [OF ok sink wrap(1) cmd _ h p]
  have eff: "settle_effect tr d d1 j cmd" and ok1: "queue_db_ok tr d1" using settled by auto
  then obtain r where r: "queue_row d1 j = Some r" "vw_version r = int (length (job_stream tr d j))"
    and stream: "job_stream tr d1 j = job_stream tr d j @ [ack_event cmd]" and same: "\<And>i. i \<noteq> j \<Longrightarrow> job_same d d1 i"
    using job_appends_stream by (auto simp: settle_effect_def)
  define d2 where "d2 = react_all tr j [ack_event cmd] d1"
  have "d2 = d1\<lparr>job_queue := Projection.react (job_projection tr) quiet j (ack_event cmd) (job_queue d1)\<rparr>"
    by (simp add: d2_def react_all_def)
  note react = react_step [OF ok1 r(1) _ _ this]
  have rows: "job_rows d2 i = job_rows d1 i" for i using react(3) r(2) stream by simp
  have ok2: "queue_db_ok tr d2" using react(1) r(2) stream by simp
  have streams: "job_stream tr d2 j = job_stream tr d j @ [ack_event cmd]" using stream job_stream_rows [OF rows] by simp
  obtain r' where "queue_row d2 j = Some r'" "vw_version r' = int (length (job_stream tr d2 j))"
    using react(4) r(2) stream streams by auto
  then have "row_current tr d2 j" by (rule row_at_head_current [OF ok2])
  moreover have "job_same d d2 i" if "i \<noteq> j" for i
    using same [OF that] react(2) [OF _ _ that] r(2) stream by (auto simp: job_same_def)
  ultimately show ?thesis using that [of d2] send p ok2 streams by (simp add: d2_def commits_through_def)
qed

lemma ack_command_claim: "ack_command tr config now_ns ctx ack = Some cmd \<Longrightarrow> cmd_claim_id cmd = cx_claim_id ctx"
  by (cases ack) (auto simp: Let_def split: if_splits)

text \<open>Instances that meet the contracts: an \<open>execute\<close> that takes no snapshot.\<close>

definition sample_store_send :: "db job_send" where
  "sample_store_send j cmd d =
     (let evs = job_stream (\<lambda>_. True) d j
      in case Lifecycle.handle sample_sink job_entity (job_fold evs) cmd (Some []) of
           (_, Inl e) \<Rightarrow> (Inl (UserError e), d)
         | (scope, Inr new) \<Rightarrow>
             (case snd (repo_persist (\<lambda>_. True) 0 JOB_AGGREGATE_TYPE (sample_wrap j (length evs) new) None scope d) of
                Inl e \<Rightarrow> (Inl AggregateConflict, d)
              | Inr d1 \<Rightarrow> (Inr (), react_all (\<lambda>_. True) j new d1)))"

lemma sample_store: "job_store_contract (\<lambda>_. True) sample_sink sample_wrap sample_store_send" "plain_metadata sample_wrap"
proof -
  have none: "snapshot_ok j None" for j by (simp add: snapshot_ok_def)
  show "job_store_contract (\<lambda>_. True) sample_sink sample_wrap sample_store_send"
    unfolding job_store_contract_def Let_def
    by (auto simp: sample_store_send_def commits_through_def Let_def split: prod.splits sum.splits intro!: exI [of _ None] exI [of _ 0] none)
  show "plain_metadata sample_wrap" by (auto simp: plain_metadata_def sample_wrap_def serialized_def)
qed

text \<open>
  C7 (worker_cycle_completes). One cycle of a worker that nobody interferes with ends, and ends well: from any
  reachable state with a due job in reach, the tick claims a job, the job runs, and its acknowledgement is
  applied at the first send. Whatever the run returned - success, deferral, failure, rejection - the stream
  of the job gained exactly the claim and the one event the outcome calls for, and its queue row is current.
\<close>

theorem worker_cycle_completes:
  assumes "event_sink_contract job_entity sink" and "wrap_contract wrap" and "plain_metadata wrap"
    and "job_store_contract tr sink wrap send" and "reachable tr sink wrap s"
    and "policy_ok tr config now" and "int (length (job_queue (qs_db s))) \<le> wk_scan_limit config"
    and "claimable tr dec config kind now (qs_db s) j" and "is_id j"
    and "\<forall>n i. fresh n \<notin> set (claim_ids (job_stream tr (qs_db s) i))"
    and "\<forall>i. in_i64 (int (length (job_stream tr (qs_db s) i)) + 2)"
    and "\<forall>job ctx. \<exists>cmd. ack_command tr config ack_now ctx (ack_plan (run job ctx)) = Some cmd \<and> valid_command tr cmd"
  shows "\<exists>job ctx cmd d'. ack_command tr config ack_now ctx (ack_plan (run job ctx)) = Some cmd
    \<and> worker_cycle tr dec is_id kind worker config now fresh run False send (Suc fuel) ack_now (qs_db s) = Some (ctx, Some VApplied, d')
    \<and> job_stream tr d' (cx_job_id ctx) = job_stream tr (qs_db s) (cx_job_id ctx)
        @ [EvClaimed worker (cx_claim_id ctx) (now + lease_millis (wk_lease_duration config)), ack_event cmd]
    \<and> row_current tr d' (cx_job_id ctx)"
proof -
  obtain job ctx d1 where task: "poll_tick tr dec is_id kind worker config now fresh (qs_db s) = (Some (job, ctx), d1)"
      "queue_db_ok tr d1" "task_holds tr worker config now (qs_db s) d1 ctx"
    using poll_tick_task [where is_id = is_id and j = j, OF queue_invD(1) [OF reachable_inv [OF assms(1,2,5)]] assms(6-10)] by blast
  obtain cmd where cmd: "ack_command tr config ack_now ctx (ack_plan (run job ctx)) = Some cmd" "valid_command tr cmd"
    using assms(12) by blast
  have held: "holds_claim (job_stream tr d1 (cx_job_id ctx)) (cmd_claim_id cmd)"
    using task(3) ack_command_claim [OF cmd(1)] unfolding task_holds_def by metis
  have seq: "in_i64 (int (Suc (length (job_stream tr d1 (cx_job_id ctx)))))"
    using task(3) assms(11) by (simp add: task_holds_def add.commute)
  obtain d' where d': "send (cx_job_id ctx) cmd d1 = (Inr (), d')"
      "job_stream tr d' (cx_job_id ctx) = job_stream tr d1 (cx_job_id ctx) @ [ack_event cmd]" "row_current tr d' (cx_job_id ctx)"
    by (rule send_held [OF task(2) assms(1-4) held cmd(2) seq])
  have "worker_cycle tr dec is_id kind worker config now fresh run False send (Suc fuel) ack_now (qs_db s) = Some (ctx, Some VApplied, d')"
    by (simp add: worker_cycle_def task(1) ack_service_def cmd(1) d'(1))
  then show ?thesis using cmd(1) d' task(3) by (auto simp: task_holds_def intro!: exI)
qed

theorem worker_cycle_completes_witness:
  "\<exists>s ctx d'. reachable (\<lambda>_. True) sample_sink sample_wrap s
     \<and> worker_cycle (\<lambda>_. True) Some (\<lambda>_. True) ''mail'' ''w'' sample_worker_config 10 (\<lambda>_. ''c'') (\<lambda>_ _. Inr (Done ())) False
         sample_store_send 1 0 (qs_db s) = Some (ctx, Some VApplied, d')
     \<and> row_current (\<lambda>_. True) d' (cx_job_id ctx)"
proof -
  obtain s where s: "reachable (\<lambda>_. True) sample_sink sample_wrap s"
    "claimable (\<lambda>_. True) Some sample_worker_config ''mail'' 10 (qs_db s) ''j''"
    "int (length (job_queue (qs_db s))) \<le> wk_scan_limit sample_worker_config"
    "\<forall>n i. (\<lambda>_ :: nat. ''c'') n \<notin> set (claim_ids (job_stream (\<lambda>_. True) (qs_db s) i))"
    "\<forall>i. in_i64 (int (length (job_stream (\<lambda>_. True) (qs_db s) i)) + 2)"
    using sample_due by metis
  note cycle = worker_cycle_completes [where is_id = "\<lambda>_. True" and j = "''j''" and worker = "''w''" and fuel = 0 and fresh = "\<lambda>_. ''c''"
      and run = "\<lambda>_ _. Inr (Done ())" and ack_now = 0,
      OF sample_contracts sample_store(2,1) s(1) sample_policy s(3,2) TrueI s(4,5)]
  show ?thesis using cycle s(1) by (auto simp: valid_command_def)
qed

section \<open>Renewal\<close>

lemma fold_at_claim:
  assumes "job_fold evs = Live s" and "evs \<noteq> []" and "last evs = EvClaimed w c u"
  shows "\<exists>kind payload run_at attempt claims. s = StClaimed kind payload w c run_at attempt claims"
proof -
  have evs: "evs = butlast evs @ [EvClaimed w c u]" using append_butlast_last_id [OF assms(2)] assms(3) by simp
  have "apply_event job_entity (job_fold (butlast evs)) (EvClaimed w c u) = Live s"
    using assms(1) by (subst (asm) evs) (simp del: apply_event.simps)
  then show ?thesis
  proof (cases "job_fold (butlast evs)")
    case (Live s0)
    then show ?thesis using \<open>apply_event _ _ _ = Live s\<close> by (cases s0) auto
  qed auto
qed

lemma renew_row:
  assumes "renew_claim h lease d = (res, d')" and "queue_row d (jh_job_id h) = Some r" and "db_keys_unique d"
  shows "if vw_version r = jh_claim_seq h \<and> col_status r = SqlText ''claimed''
    then res = Held \<and> d' = d\<lparr>job_queue := map (\<lambda>x. if vw_id x = jh_job_id h then x\<lparr>vw_lease := Some lease\<rparr> else x) (job_queue d)\<rparr>
    else res = Lost \<and> d' = d"
proof -
  have mem: "r \<in> set (job_queue d)" "vw_id r = jh_job_id h" using assms(2) by (auto simp: queue_row_def dest: tbl_get_Some_in)
  have only: "x = r" if "x \<in> set (job_queue d)" "vw_id x = jh_job_id h" for x
    using tbl_get_unique [of vw_id "job_queue d" x] assms(2,3) that by (simp add: queue_row_def db_keys_unique_def)
  let ?hit = "\<lambda>x. vw_id x = jh_job_id h \<and> vw_version x = jh_claim_seq h \<and> col_status x = SqlText ''claimed''"
  have ex: "list_ex ?hit (job_queue d) \<longleftrightarrow> ?hit r" unfolding list_ex_iff using mem only by blast
  show ?thesis
  proof (cases "?hit r")
    case True
    have "res = Held" "d' = d\<lparr>job_queue := map (\<lambda>x. if ?hit x then x\<lparr>vw_lease := Some lease\<rparr> else x) (job_queue d)\<rparr>"
      using assms(1) True unfolding renew_claim_def renew_job_def Let_def ex by simp_all
    moreover have "?hit x \<longleftrightarrow> vw_id x = jh_job_id h" if "x \<in> set (job_queue d)" for x using only [OF that] True by blast
    ultimately show ?thesis using True by (auto cong: map_cong)
  next
    case False
    then show ?thesis using assms(1) mem(2) unfolding renew_claim_def renew_job_def Let_def ex by auto
  qed
qed

text \<open>
  C9 (renewal_exact). A renewal tells the worker the truth about its claim: \<open>Lost\<close> changes nothing and is only
  answered when an event was committed after the claim, so a worker that still holds its job is never told to stop;
  \<open>Held\<close> sets the lease column of that job's row and changes nothing else of the database: no other column of the row, no
  other row and no other table. Then at most the one acknowledgement whose
  reaction is still due can follow the claim - never a second claim.
\<close>

theorem renewal_exact:
  assumes "event_sink_contract job_entity sink" and "wrap_contract wrap" and "reachable tr sink wrap s"
    and "renew_claim h lease (qs_db s) = (res, d')" and "jh_claim_seq h = int k" and "0 < k"
    and "k \<le> length (job_stream tr (qs_db s) (jh_job_id h))" and "job_stream tr (qs_db s) (jh_job_id h) ! (k - 1) = EvClaimed w (jh_claim_id h) u"
  shows "case res of
      Lost \<Rightarrow> d' = qs_db s \<and> k < length (job_stream tr (qs_db s) (jh_job_id h))
    | Held \<Rightarrow> queue_row (qs_db s) (jh_job_id h) \<noteq> None
        \<and> d' = (qs_db s)\<lparr>job_queue := map (\<lambda>r. if vw_id r = jh_job_id h then r\<lparr>vw_lease := Some lease\<rparr> else r)
              (job_queue (qs_db s))\<rparr>
        \<and> (k = length (job_stream tr (qs_db s) (jh_job_id h))
           \<or> Suc k = length (job_stream tr (qs_db s) (jh_job_id h)) \<and> \<not> is_claim (last (job_stream tr (qs_db s) (jh_job_id h))))"
proof -
  let ?evs = "job_stream tr (qs_db s) (jh_job_id h)"
  note ok = queue_invD(1) [OF reachable_inv [OF assms(1-3)]]
  obtain st where live: "job_fold ?evs = Live st"
    using queue_db_okD(2) [OF ok, of "jh_job_id h"] assms(6,7) by (auto simp: stream_wf_def)
  have pos: "?evs \<noteq> []" using assms(6,7) by auto
  then obtain r n where r: "queue_row (qs_db s) (jh_job_id h) = Some r" "vw_version r = int n" "0 < n"
      "vw_payload r = job_payload (job_fold (take n ?evs))" "n = length ?evs \<or> Suc n = length ?evs \<and> \<not> is_claim (last ?evs)"
    using queue_db_okD(3) [OF ok, of "jh_job_id h"]
    by (auto simp: row_ok_def job_stream_def List.map_filter_simps split: option.splits)
  have status: "col_status r = SqlText ''claimed''" if "n = k"
  proof -
    obtain st' where st': "job_fold (take k ?evs) = Live st'" using live_prefix [OF live assms(6,7)] by blast
    moreover have ne: "take k ?evs \<noteq> []" using assms(6) pos by simp
    moreover have "last (take k ?evs) = EvClaimed w (jh_claim_id h) u" using assms(6-8) by (simp add: last_conv_nth [OF ne] min_absorb2)
    ultimately obtain kind payload run_at attempt claims where "st' = StClaimed kind payload w (jh_claim_id h) run_at attempt claims"
      using fold_at_claim [of "take k ?evs" st'] by blast
    then show ?thesis using job_columns(3) [of r st'] r(4) st' that by simp
  qed
  have "n = k" if "k = length ?evs" using r(5) that assms(6,8) pos by (auto simp: last_conv_nth)
  then show ?thesis
    using renew_row [OF assms(4) r(1) queue_db_okD(1) [OF ok]] r status assms(5,7) by (auto simp: le_less split: if_splits)
qed

theorem renewal_exact_witness:
  "\<exists>s d'. reachable (\<lambda>_. True) sample_sink sample_wrap s
     \<and> renew_claim \<lparr>jh_job_id = ''j'', jh_claim_seq = 2, jh_claim_id = ''c1'', jh_attempt = 0\<rparr> 500 (qs_db s) = (Held, d')
     \<and> (\<exists>r. queue_row d' ''j'' = Some r \<and> vw_lease r = Some 500)"
proof -
  let ?h = "\<lparr>jh_job_id = ''j'', jh_claim_seq = 2, jh_claim_id = ''c1'', jh_attempt = 0\<rparr> :: job_claim_handle"
  obtain s where s: "reachable (\<lambda>_. True) sample_sink sample_wrap s" "job_stream (\<lambda>_. True) (qs_db s) ''j'' = sample_events"
    by (rule sample_claimed)
  obtain res d' where res: "renew_claim ?h 500 (qs_db s) = (res, d')" by fastforce
  have held: "res = Held" "queue_row (qs_db s) ''j'' \<noteq> None"
      "d' = (qs_db s)\<lparr>job_queue := map (\<lambda>r. if vw_id r = ''j'' then r\<lparr>vw_lease := Some 500\<rparr> else r) (job_queue (qs_db s))\<rparr>"
    using renewal_exact [OF sample_contracts s(1) res, of 2 "''w''" 110] s(2)
    by (cases res; simp add: sample_events_def)+
  have "queue_row d' ''j'' = map_option (\<lambda>r. if vw_id r = ''j'' then r\<lparr>vw_lease := Some 500\<rparr> else r) (queue_row (qs_db s) ''j'')"
    unfolding held(3) queue_row_def by (simp add: tbl_get_map)
  moreover obtain r where "queue_row (qs_db s) ''j'' = Some r" "vw_id r = ''j''"
    using held(2) by (auto simp: queue_row_def dest: tbl_get_Some_in)
  ultimately have "res = Held \<and> (\<exists>r. queue_row d' ''j'' = Some r \<and> vw_lease r = Some 500)" using held(1) by simp
  then show ?thesis using s(1) res by blast
qed

section \<open>The default configuration\<close>

text \<open>\<open>JobWorkerConfig::default\<close>; the delay of the default \<open>Backoff\<close>, computed in \<open>f64\<close>, is the argument.\<close>

definition default_worker_config :: "(u32 \<Rightarrow> nat) \<Rightarrow> job_worker_config" where
  "default_worker_config backoff = \<lparr>wk_poll_interval = 250 * 1000000, wk_scan_limit = 16, wk_max_concurrency = 8,
     wk_lease_duration = 30 * 1000000000, wk_renew_interval = 10 * 1000000000, wk_execution_timeout = 5 * 60 * 1000000000,
     wk_max_attempts = 5, wk_max_claims = 50, wk_backoff = backoff, wk_delivery = default_delivery_policy\<rparr>"

text \<open>
  The default policy is accepted by every claim whose lease end is representable, and a lease outlasts two missed
  renewals.
\<close>

lemma default_config_sound:
  "policy_ok tr (default_worker_config backoff) now \<longleftrightarrow> in_i64 (now + 30000) \<and> tr (now + 30000)"
  "3 * wk_renew_interval (default_worker_config backoff) \<le> wk_lease_duration (default_worker_config backoff)"
  by (auto simp: policy_ok_def default_worker_config_def lease_millis_def i64_try_from_def I64_MAX_def)

end
