(* ===== verification/Dispatch_System.thy ===== *)
theory Dispatch_System
  imports Dispatch
begin

text \<open>
  An origin entity and the jobs it dispatches, run by workers that crash, lose leases and lose replies.
  The origin is the entity whose only field is a dispatch cell, with the handlers \<open>dispatch.rs\<close> prescribes,
  behind the lifecycle of \<open>lifecycle.rs\<close>. Workers execute \<open>perform\<close> in one step per await - the first call, the submission after a
  reconciliation, the delivery - so that executions of one job overlap between any two of them, and then acknowledge by
  the plan of \<open>job_backend.rs\<close>. That a handle's first-execution flag
  is set exactly when the job was never claimed before, that a claim id is not used twice for a job, and that only the
  latest claim settles, is what \<open>Job_System\<close> shows of the queue; here they are guards of the steps.
\<close>

section \<open>The origin entity\<close>

datatype ('j, 'o, 'e) origin_command = Kick string 'j | Deliver "('o, 'e) verdict"

definition origin_entity ::
  "('j, 'o, 'e, 'x) job_def
     \<Rightarrow> (('o, 'e) dispatched_job, ('j, 'o, 'e) origin_command, ('j, 'o, 'e) dispatch_event, dispatch_refused) event_sourced" where
  "origin_entity jd = \<lparr>
     es_originate = (\<lambda>event. case originate_cell event of Inr cell \<Rightarrow> Some cell | Inl _ \<Rightarrow> None),
     es_evolve = (\<lambda>cell event. Inr (case evolve_cell cell event of Inr cell' \<Rightarrow> Some cell' | Inl _ \<Rightarrow> None)),
     es_initialize = (\<lambda>command. case command of
         Kick fresh job \<Rightarrow> fx_kickoff jd id fresh job
       | Deliver v \<Rightarrow> bind_result (settle Idle v) (fx_settlement id)),
     es_transition = (\<lambda>cell command. case command of
         Kick fresh job \<Rightarrow> bind_result (dispatch_job jd id cell fresh job) fx_guarded
       | Deliver v \<Rightarrow> bind_result (settle cell v) (fx_settlement id)),
     es_aggregate_type = ''Origin'', es_schema_version = 1, es_snapshot_size = 10,
     es_compaction_policy = Retain\<rparr>"

type_synonym ('j, 'o, 'e) origin_sink =
  "(('o, 'e) dispatched_job, ('j, 'o, 'e) dispatch_event, dispatch_refused) sink_write"

type_synonym ('j, 'o, 'e) origin_lifecycle =
  "(('o, 'e) dispatched_job, ('j, 'o, 'e) dispatch_event, dispatch_refused) lifecycle"

section \<open>State\<close>

datatype ('o, 'e) call =
    CallSubmit "'e job_failure + 'o job_outcome"
  | CallReconcile "'e job_failure + 'o reconciliation"

text \<open>\<open>Unsubmitted\<close>: the reconciliation answered that nothing was submitted, and the submission is next.\<close>

datatype ('o, 'e) stage = Started | Unsubmitted | Executed "nat + ('e job_failure + 'o job_outcome)"
  | Concluded "'e job_failure + unit job_outcome"

text \<open>One execution: the job, its context, and how many claims preceded the one it holds.\<close>

record ('j, 'o, 'e) execution =
  en_job :: 'j
  en_ctx :: job_context
  en_ordinal :: nat
  en_stage :: "('o, 'e) stage"

record ('j, 'o, 'e, 'x) origin_sys =
  os_stream :: "('j, 'o, 'e) dispatch_event list"
  os_queue :: "(string \<times> 'j) list"
  os_claims :: "string \<Rightarrow> nat"
  os_running :: "('j, 'o, 'e) execution list"
  os_dead :: "string list"
  os_ext :: 'x
  os_calls :: "(string \<times> string \<times> ('o, 'e) call) list"

definition origin_init :: "'x \<Rightarrow> ('j, 'o, 'e, 'x) origin_sys" where
  "origin_init x = \<lparr>os_stream = [], os_queue = [], os_claims = (\<lambda>_. 0), os_running = [], os_dead = [],
     os_ext = x, os_calls = []\<rparr>"

text \<open>The consumer's job, run on the system's external world with its calls recorded under job and claim.\<close>

definition on_origin :: "('j, 'o, 'e, 'x) job_def \<Rightarrow> ('j, 'o, 'e, ('j, 'o, 'e, 'x) origin_sys) job_def" where
  "on_origin jd = \<lparr>jd_kind = jd_kind jd, jd_encode = jd_encode jd, jd_origin_id = jd_origin_id jd,
     jd_submit = (\<lambda>job ctx s. case jd_submit jd job ctx (os_ext s) of (r, x) \<Rightarrow>
       (r, s\<lparr>os_ext := x, os_calls := os_calls s @ [(cx_job_id ctx, cx_claim_id ctx, CallSubmit r)]\<rparr>)),
     jd_reconcile = (\<lambda>job ctx s. case jd_reconcile jd job ctx (os_ext s) of (r, x) \<Rightarrow>
       (r, s\<lparr>os_ext := x, os_calls := os_calls s @ [(cx_job_id ctx, cx_claim_id ctx, CallReconcile r)]\<rparr>)),
     jd_sources = jd_sources jd\<rparr>"

definition origin_life :: "('j, 'o, 'e, 'x) job_def \<Rightarrow> ('j, 'o, 'e) dispatch_event list \<Rightarrow> ('j, 'o, 'e) origin_lifecycle" where
  "origin_life jd evs = replay (origin_entity jd) Uninitialized evs"

text \<open>
  The link to the origin store: up, unreachable, or failing after the commit. \<open>Store::send\<close> loads the origin
  by replay, handles the command and commits the events.
\<close>

datatype link = Up | Down | ReplyLost

definition origin_send ::
  "('j, 'o, 'e) origin_sink \<Rightarrow> ('j, 'o, 'e, 'x) job_def \<Rightarrow> link \<Rightarrow> string \<Rightarrow> ('j, 'o, 'e) origin_command
     \<Rightarrow> ('j, 'o, 'e, 'x) origin_sys
     \<Rightarrow> ((('o, 'e) dispatched_job, ('j, 'o, 'e) dispatch_event, dispatch_refused) lifecycle_error aggregate_error + unit)
        \<times> ('j, 'o, 'e, 'x) origin_sys" where
  "origin_send sink jd link origin command s =
     (if link = Down then (Inl DatabaseConnectionError, s)
      else case Lifecycle.handle sink (origin_entity jd) (origin_life jd (os_stream s)) command (Some []) of
        (_, Inl err) \<Rightarrow> (Inl (UserError err), s)
      | (_, Inr evs) \<Rightarrow>
          (if link = Up then Inr () else Inl DatabaseConnectionError, s\<lparr>os_stream := os_stream s @ evs\<rparr>))"

section \<open>Steps\<close>

text \<open>What an applied acknowledgement does to the queue.\<close>

fun apply_ack :: "job_command \<Rightarrow> string \<Rightarrow> ('j, 'o, 'e, 'x) origin_sys \<Rightarrow> ('j, 'o, 'e, 'x) origin_sys" where
  "apply_ack (CmdSucceed _) job_id s = s\<lparr>os_queue := filter (\<lambda>q. fst q \<noteq> job_id) (os_queue s)\<rparr>"
| "apply_ack (CmdKill _ reason _) job_id s =
     s\<lparr>os_queue := filter (\<lambda>q. fst q \<noteq> job_id) (os_queue s),
       os_dead := (if reason = Rejected then os_dead s else job_id # os_dead s)\<rparr>"
| "apply_ack _ job_id s = s"

definition drop_execution :: "nat \<Rightarrow> ('j, 'o, 'e, 'x) origin_sys \<Rightarrow> ('j, 'o, 'e, 'x) origin_sys" where
  "drop_execution i s = s\<lparr>os_running := take i (os_running s) @ drop (Suc i) (os_running s)\<rparr>"

definition set_stage :: "nat \<Rightarrow> ('o, 'e) stage \<Rightarrow> ('j, 'o, 'e, 'x) origin_sys \<Rightarrow> ('j, 'o, 'e, 'x) origin_sys" where
  "set_stage i st s = s\<lparr>os_running := (os_running s)[i := (os_running s ! i)\<lparr>en_stage := st\<rparr>]\<rparr>"

definition execution_key :: "('j, 'o, 'e) execution \<Rightarrow> string \<times> string" where
  "execution_key e = (cx_job_id (en_ctx e), cx_claim_id (en_ctx e))"

definition claim_unused :: "('j, 'o, 'e, 'x) origin_sys \<Rightarrow> string \<Rightarrow> string \<Rightarrow> bool" where
  "claim_unused s job_id claim_id \<longleftrightarrow>
     (job_id, claim_id) \<notin> execution_key ` set (os_running s) \<union> (\<lambda>(j, c, _). (j, c)) ` set (os_calls s)"

inductive origin_step ::
  "('j, 'o, 'e) origin_sink \<Rightarrow> ('j, 'o, 'e, 'x) job_def \<Rightarrow> (int \<Rightarrow> bool) \<Rightarrow> job_worker_config
     \<Rightarrow> ('j, 'o, 'e, 'x) origin_sys \<Rightarrow> ('j, 'o, 'e, 'x) origin_sys \<Rightarrow> bool"
  for sink :: "('j, 'o, 'e) origin_sink" and jd :: "('j, 'o, 'e, 'x) job_def" and tr :: "int \<Rightarrow> bool"
    and config :: job_worker_config
where
  kick: "Lifecycle.handle sink (origin_entity jd) (origin_life jd (os_stream s)) (Kick fresh job) (Some [])
      = (Some pushes, Inr evs) \<Longrightarrow>
    (\<forall>job'. EvDispatched fresh job' \<notin> set (os_stream s)) \<Longrightarrow>
    origin_step sink jd tr config s (s\<lparr>os_stream := os_stream s @ evs,
      os_queue := os_queue s @ map (\<lambda>p. (pp_job_id p, job)) pushes\<rparr>)"
| claim: "(cx_job_id ctx, job) \<in> set (os_queue s) \<Longrightarrow>
    is_first_execution ctx \<longleftrightarrow> os_claims s (cx_job_id ctx) = 0 \<Longrightarrow>
    claim_unused s (cx_job_id ctx) (cx_claim_id ctx) \<Longrightarrow>
    cx_max_attempts ctx = wk_max_attempts config \<Longrightarrow>
    origin_step sink jd tr config s (s\<lparr>os_claims := (os_claims s)(cx_job_id ctx := Suc (os_claims s (cx_job_id ctx))),
      os_running := os_running s @ [\<lparr>en_job = job, en_ctx = ctx, en_ordinal = os_claims s (cx_job_id ctx),
        en_stage = Started\<rparr>]\<rparr>)"
| call: "i < length (os_running s) \<Longrightarrow> e = os_running s ! i \<Longrightarrow> en_stage e = Started \<Longrightarrow>
    first_call (on_origin jd) (en_job e) (en_ctx e) s = (answer, s') \<Longrightarrow>
    origin_step sink jd tr config s (set_stage i (case answer of Some outcome \<Rightarrow> Executed outcome | None \<Rightarrow> Unsubmitted) s')"
| submit: "i < length (os_running s) \<Longrightarrow> e = os_running s ! i \<Longrightarrow> en_stage e = Unsubmitted \<Longrightarrow>
    jd_submit (on_origin jd) (en_job e) (en_ctx e) s = (outcome, s') \<Longrightarrow>
    origin_step sink jd tr config s (set_stage i (Executed (Inr outcome)) s')"
| deferred: "i < length (os_running s) \<Longrightarrow> e = os_running s ! i \<Longrightarrow> en_stage e = Executed (Inl delay) \<Longrightarrow>
    origin_step sink jd tr config s (set_stage i (Concluded (Inr (Defer delay))) s)"
| concluded: "i < length (os_running s) \<Longrightarrow> e = os_running s ! i \<Longrightarrow> en_stage e = Executed (Inr outcome) \<Longrightarrow>
    Dispatch.conclude (on_origin jd) (deliver (origin_send sink jd link) Deliver) (en_job e) (en_ctx e) outcome s
      = (r, s') \<Longrightarrow>
    origin_step sink jd tr config s (set_stage i (Concluded r) s')"
| ack: "i < length (os_running s) \<Longrightarrow> e = os_running s ! i \<Longrightarrow> en_stage e = Concluded r \<Longrightarrow>
    Suc (en_ordinal e) = os_claims s (cx_job_id (en_ctx e)) \<Longrightarrow>
    ack_command tr config now_ns (en_ctx e) (ack_plan (exec_result jd r)) = Some command \<Longrightarrow>
    origin_step sink jd tr config s (drop_execution i (apply_ack command (cx_job_id (en_ctx e)) s))"
| crash: "i < length (os_running s) \<Longrightarrow> origin_step sink jd tr config s (drop_execution i s)"
| abandon: "job_id \<in> fst ` set (os_queue s) \<Longrightarrow> reason \<noteq> Rejected \<Longrightarrow>
    origin_step sink jd tr config s (apply_ack (CmdKill claim reason err) job_id s)"

inductive origin_reachable ::
  "('j, 'o, 'e) origin_sink \<Rightarrow> ('j, 'o, 'e, 'x) job_def \<Rightarrow> (int \<Rightarrow> bool) \<Rightarrow> job_worker_config
     \<Rightarrow> ('j, 'o, 'e, 'x) origin_sys \<Rightarrow> bool"
  for sink :: "('j, 'o, 'e) origin_sink" and jd :: "('j, 'o, 'e, 'x) job_def" and tr :: "int \<Rightarrow> bool"
    and config :: job_worker_config
where
  init: "origin_reachable sink jd tr config (origin_init x)"
| step: "origin_reachable sink jd tr config s \<Longrightarrow> origin_step sink jd tr config s s'
    \<Longrightarrow> origin_reachable sink jd tr config s'"

section \<open>The origin under its lifecycle\<close>

lemma origin_entity_simps [simp]:
  "es_originate (origin_entity jd) event = (case originate_cell event of Inr cell \<Rightarrow> Some cell | Inl _ \<Rightarrow> None)"
  "es_evolve (origin_entity jd) cell event = Inr (case evolve_cell cell event of Inr cell' \<Rightarrow> Some cell' | Inl _ \<Rightarrow> None)"
  by (simp_all add: origin_entity_def)

lemma replay_origin:
  "fold_cell cell evs = Inr cell' \<Longrightarrow> replay (origin_entity jd) (Live cell) evs = Live cell'"
proof (induction evs arbitrary: cell)
  case (Cons event evs)
  then show ?case by (cases "evolve_cell cell event") auto
qed simp

lemma origin_life_read:
  assumes "cell_history evs"
  shows "origin_life jd evs = (if evs = [] then Uninitialized else Live (cell_read evs))"
proof (cases evs)
  case (Cons event rest)
  have "fold_cell Idle evs = Inr (cell_read evs)" using assms by (simp add: fold_cell_exact)
  then obtain cell where "evolve_cell Idle event = Inr cell" "fold_cell cell rest = Inr (cell_read evs)"
    unfolding Cons by auto
  then show ?thesis using replay_origin [of cell rest "cell_read evs" jd] Cons
    by (simp add: origin_life_def originate_cell_def)
qed (simp add: origin_life_def)

lemma origin_decide:
  assumes "cell_history evs"
  shows "decide (origin_entity jd) (origin_life jd evs) command =
    map_err Apply (case command of
        Kick fresh job \<Rightarrow> bind_result (dispatch_job jd id (cell_read evs) fresh job) fx_guarded
      | Deliver v \<Rightarrow> bind_result (settle (cell_read evs) v) (fx_settlement id))"
  by (simp add: origin_life_read [OF assms] decide_def origin_entity_def map_err_def cell_read_def
      dispatch_job_def fx_kickoff_def fx_guarded_def kickoff_def split: origin_command.splits sum.splits)

lemma origin_replays:
  assumes "cell_history stream" and "fold_cell (cell_read stream) evs = Inr cell" and "evs \<noteq> []"
  shows "replay (origin_entity jd) (origin_life jd stream) evs = Live cell" "cell_history (stream @ evs)"
    "cell_read (stream @ evs) = cell"
proof -
  have fold: "fold_cell Idle (stream @ evs) = Inr cell"
    using assms(1,2) by (simp add: fold_cell_append fold_cell_exact)
  then show "cell_history (stream @ evs)" "cell_read (stream @ evs) = cell"
    by (simp_all add: fold_cell_exact split: if_splits)
  then have "origin_life jd (stream @ evs) = Live cell" using assms(3) by (simp add: origin_life_read)
  then show "replay (origin_entity jd) (origin_life jd stream) evs = Live cell"
    by (simp add: origin_life_def)
qed

lemma origin_deliver:
  fixes stream :: "('j, 'o, 'e) dispatch_event list"
  assumes contract: "event_sink_contract (origin_entity jd) sink" and hist: "cell_history stream"
  shows "Lifecycle.handle sink (origin_entity jd) (origin_life jd stream) (Deliver v) (Some []) =
    (Some [], map_err Apply (settle (cell_read stream) v))"
proof (cases "settle (cell_read stream) v :: dispatch_refused + ('j, 'o, 'e) dispatch_event list")
  case (Inl err)
  then show ?thesis
    by (simp add: Lifecycle.handle_def origin_decide [OF hist] map_err_def)
next
  case (Inr evs)
  have "sink_events sink (origin_life jd stream, []) evs = Inr evs"
  proof (cases "evs = []")
    case False
    then obtain cell where "fold_cell (cell_read stream) evs = Inr cell"
      using settle_Inr [OF Inr] by auto
    from origin_replays(1) [OF hist this False] show ?thesis
      using sink_events_ok [OF contract] by fastforce
  qed simp
  then show ?thesis
    by (simp add: Lifecycle.handle_def origin_decide [OF hist] map_err_def Inr fx_settlement_def)
qed

lemma origin_kick:
  assumes contract: "event_sink_contract (origin_entity jd) sink" and hist: "cell_history stream"
    and kick: "Lifecycle.handle sink (origin_entity jd) (origin_life jd stream) (Kick fresh job) (Some []) =
      (Some pushes, Inr evs)"
  shows "evs = [EvDispatched fresh job]" "map pp_job_id pushes = [fresh]"
    "cell_history (stream @ evs)" "cell_read (stream @ evs) = InFlight fresh"
proof -
  obtain d where d: "dispatch_job jd id (cell_read stream) fresh job = Inr d"
    using kick by (cases "dispatch_job jd id (cell_read stream) fresh job")
      (simp_all add: Lifecycle.handle_def origin_decide [OF hist] map_err_def)
  then have d': "d = kick jd id fresh job" and cell: "fold_cell (cell_read stream) [EvDispatched fresh job] = Inr (InFlight fresh)"
    by (auto simp: dispatch_job_def split: dispatched_job.splits)
  note r = origin_replays [OF hist cell]
  have "sink_events sink (origin_life jd stream, []) [EvDispatched fresh job] = Inr [EvDispatched fresh job]"
    using sink_events_ok [OF contract r(1)] by simp
  then have k: "evs = [EvDispatched fresh job] \<and> map pp_job_id pushes = [fresh]"
    using kick by (auto simp: Lifecycle.handle_def origin_decide [OF hist] map_err_def d d' kick_def buffer_def
        fx_guarded_def dispatch_effect_def)
  then show "evs = [EvDispatched fresh job]" "map pp_job_id pushes = [fresh]" by simp_all
  show "cell_history (stream @ evs)" "cell_read (stream @ evs) = InFlight fresh" using r(2,3) k by simp_all
qed

section \<open>Effects of the steps\<close>

fun verdict_event :: "('o, 'e) verdict \<Rightarrow> ('j, 'o, 'e) dispatch_event" where
  "verdict_event (VdConfirmed settled) = EvConfirmed settled"
| "verdict_event (VdFailed settled) = EvFailed settled"

fun event_verdict :: "('j, 'o, 'e) dispatch_event \<Rightarrow> ('o, 'e) verdict option" where
  "event_verdict (EvDispatched _ _) = None"
| "event_verdict (EvConfirmed settled) = Some (VdConfirmed settled)"
| "event_verdict (EvFailed settled) = Some (VdFailed settled)"

definition verdicts :: "('j, 'o, 'e) dispatch_event list \<Rightarrow> ('o, 'e) verdict list" where
  "verdicts evs = List.map_filter event_verdict evs"

fun dispatched_id :: "('j, 'o, 'e) dispatch_event \<Rightarrow> string option" where
  "dispatched_id (EvDispatched job_id _) = Some job_id"
| "dispatched_id _ = None"

definition dispatched_ids :: "('j, 'o, 'e) dispatch_event list \<Rightarrow> string list" where
  "dispatched_ids evs = List.map_filter dispatched_id evs"

definition settled_in :: "('j, 'o, 'e) dispatch_event list \<Rightarrow> string \<Rightarrow> bool" where
  "settled_in evs job_id \<longleftrightarrow> job_id \<in> verdict_id ` set (verdicts evs)"

lemma map_filter_append [simp]: "List.map_filter f (xs @ ys) = List.map_filter f xs @ List.map_filter f ys"
  by (simp add: List.map_filter_def)

lemma cell_event_simps [simp]:
  "verdicts [] = []" "verdicts (xs @ ys) = verdicts xs @ verdicts ys"
  "verdicts (verdict_event v # evs) = v # verdicts evs" "verdicts (EvDispatched j job # evs) = verdicts evs"
  "verdicts (EvConfirmed c # evs) = VdConfirmed c # verdicts evs" "verdicts (EvFailed f # evs) = VdFailed f # verdicts evs"
  "dispatched_ids [] = []" "dispatched_ids (xs @ ys) = dispatched_ids xs @ dispatched_ids ys"
  "dispatched_ids (verdict_event v # evs) = dispatched_ids evs"
  "dispatched_ids (EvDispatched j job # evs) = j # dispatched_ids evs"
  "dispatched_ids (EvConfirmed c # evs) = dispatched_ids evs" "dispatched_ids (EvFailed f # evs) = dispatched_ids evs"
  by (cases v; simp add: verdicts_def dispatched_ids_def List.map_filter_simps)+

lemma settled_in_append [simp]: "settled_in (xs @ ys) j \<longleftrightarrow> settled_in xs j \<or> settled_in ys j"
  by (auto simp: settled_in_def)

lemma settle_verdict_event: "settle cell v = Inr evs \<Longrightarrow> evs \<noteq> [] \<Longrightarrow> evs = [verdict_event v] \<and> cell = InFlight (verdict_id v)"
  by (cases "(cell, v)" rule: settle.cases) (auto split: if_splits)

lemma cell_read_verdict:
  assumes "cell_read evs = cell_of_verdict v"
  shows "settled_in evs (verdict_id v)"
proof -
  from assms obtain pre event where evs: "evs = pre @ [event]"
    by (cases evs rule: rev_cases) (cases v; simp add: cell_read_def)+
  with assms show ?thesis
    by (cases event; cases v) (auto simp: cell_read_def settled_in_def)
qed

text \<open>Delivery appends the verdict's event or nothing, and reports success only once the verdict is recorded.\<close>

definition records :: "('j, 'o, 'e, 'x) origin_sys \<Rightarrow> ('j, 'o, 'e, 'x) origin_sys \<Rightarrow> ('o, 'e) verdict \<Rightarrow> bool" where
  "records s s' v \<longleftrightarrow> s' = s \<or> (cell_read (os_stream s) = InFlight (verdict_id v)
     \<and> s' = s\<lparr>os_stream := os_stream s @ [verdict_event v]\<rparr>)"

lemma records_refl [simp]: "records s s v"
  by (simp add: records_def)

lemma deliver_origin:
  fixes s :: "('j, 'o, 'e, 'x) origin_sys"
  assumes contract: "event_sink_contract (origin_entity jd) sink" and hist: "cell_history (os_stream s)"
  shows "deliver (origin_send sink jd link) Deliver origin v s =
    (if link = Down then (Inl Transport, s)
     else case settle (cell_read (os_stream s)) v of
       Inl _ \<Rightarrow> (Inl RefusedVerdict, s)
     | Inr evs \<Rightarrow> (if link = Up then Inr () else Inl Transport, s\<lparr>os_stream := os_stream s @ evs\<rparr>))"
  by (cases "settle (cell_read (os_stream s)) v :: dispatch_refused + ('j, 'o, 'e) dispatch_event list")
    (simp_all add: deliver_def origin_send_def origin_deliver [OF assms] map_err_def)

lemma settle_recorded:
  assumes "settle (cell_read evs) v = Inr new"
  shows "settled_in (evs @ new) (verdict_id v)"
proof (cases "new = []")
  case True
  then show ?thesis using settle_Inr [OF assms] cell_read_verdict by fastforce
next
  case False
  then show ?thesis using settle_verdict_event [OF assms] by (simp add: settled_in_def)
qed

lemma deliver_effect:
  fixes s :: "('j, 'o, 'e, 'x) origin_sys"
  assumes contract: "event_sink_contract (origin_entity jd) sink" and hist: "cell_history (os_stream s)"
    and del: "deliver (origin_send sink jd link) Deliver origin v s = (r, s')"
  shows "records s s' v" "r = Inr () \<Longrightarrow> settled_in (os_stream s') (verdict_id v)"
proof -
  let ?set = "settle (cell_read (os_stream s)) v :: dispatch_refused + ('j, 'o, 'e) dispatch_event list"
  note eq = del [unfolded deliver_origin [OF contract hist]]
  have "records s s' v \<and> (r = Inr () \<longrightarrow> settled_in (os_stream s') (verdict_id v))"
  proof (cases ?set)
    case (Inr evs)
    have rec: "records s (s\<lparr>os_stream := os_stream s @ evs\<rparr>) v"
      using settle_verdict_event [OF Inr] by (cases "evs = []") (auto simp: records_def)
    show ?thesis
      using eq settle_recorded [OF Inr] by (auto simp: Inr rec split: if_splits)
  qed (use eq in \<open>auto simp: records_def split: if_splits\<close>)
  then show "records s s' v" "r = Inr () \<Longrightarrow> settled_in (os_stream s') (verdict_id v)" by blast+
qed

text \<open>The verdict an execution's outcome stands for, if any.\<close>

fun outcome_verdict ::
  "('j, 'o, 'e, 'w) job_def \<Rightarrow> job_context \<Rightarrow> 'e job_failure + 'o job_outcome \<Rightarrow> ('o, 'e) verdict option" where
  "outcome_verdict jd ctx (Inr (Done output)) = Some (confirmed_outcome (cx_job_id ctx) output (cx_attempt ctx + 1))"
| "outcome_verdict jd ctx (Inr (Defer _)) = None"
| "outcome_verdict jd ctx (Inl (TerminalFailure err)) =
     Some (failed_outcome (cx_job_id ctx) (RejectedBy err) (cx_attempt ctx + 1))"
| "outcome_verdict jd ctx (Inl (TransientFailure err)) =
     (if is_final_attempt ctx
      then Some (failed_outcome (cx_job_id ctx) (DeadLettered RetriesExhausted (error_chain (jd_sources jd err)))
             (cx_attempt ctx + 1)) else None)"

lemma verdict_id_outcome [simp]:
  "verdict_id (confirmed_outcome j out n) = j" "verdict_id (failed_outcome j f n) = j"
  by (simp_all add: confirmed_outcome_def failed_outcome_def)

lemma outcome_verdict_id: "outcome_verdict jd ctx out = Some v \<Longrightarrow> verdict_id v = cx_job_id ctx"
  by (cases "(jd, ctx, out)" rule: outcome_verdict.cases)
    (auto split: if_splits)

definition final_result :: "'e job_failure + unit job_outcome \<Rightarrow> bool" where
  "final_result r \<longleftrightarrow> r = Inr (Done ()) \<or> (\<exists>err. r = Inl (TerminalFailure err))"

lemma conclude_effect:
  assumes contract: "event_sink_contract (origin_entity jd) sink" and hist: "cell_history (os_stream s)"
    and con: "Dispatch.conclude (on_origin jd) (deliver (origin_send sink jd link) Deliver) job ctx out s = (r, s')"
  shows "s' = s \<or> (\<exists>v. outcome_verdict jd ctx out = Some v \<and> records s s' v)"
    "final_result r \<Longrightarrow> settled_in (os_stream s') (cx_job_id ctx)"
proof -
  let ?port = "deliver (origin_send sink jd link) Deliver"
  note eff = deliver_effect [OF contract hist]
  have src: "jd_sources (on_origin jd) = jd_sources jd" by (simp add: on_origin_def)
  show "s' = s \<or> (\<exists>v. outcome_verdict jd ctx out = Some v \<and> records s s' v)"
    using con eff(1) [OF surjective_pairing, of link "jd_origin_id (on_origin jd) job"]
      eff(1) [of link "jd_origin_id (on_origin jd) job"]
    by (cases "(jd, ctx, out)" rule: outcome_verdict.cases)
      (auto simp: conclude_def Let_def src split: prod.splits sum.splits if_splits)
  show "settled_in (os_stream s') (cx_job_id ctx)" if "final_result r"
    using con that
    by (cases "(jd, ctx, out)" rule: outcome_verdict.cases)
      (auto simp: conclude_def Let_def final_result_def split: prod.splits sum.splits if_splits
        dest!: eff(2) [OF _ refl])
qed

definition produced ::
  "(string \<times> string \<times> ('o, 'e) call) list \<Rightarrow> string \<Rightarrow> 'e job_failure + 'o job_outcome \<Rightarrow> bool" where
  "produced calls job_id out \<longleftrightarrow> (\<exists>c. (job_id, c, CallSubmit out) \<in> set calls)
     \<or> (\<exists>c output. out = Inr (Done output) \<and> (job_id, c, CallReconcile (Inr (SettledAs output))) \<in> set calls)
     \<or> (\<exists>c failure. out = Inl failure \<and> (job_id, c, CallReconcile (Inl failure)) \<in> set calls)"

lemma produced_append [simp]: "produced calls j out \<Longrightarrow> produced (calls @ newer) j out"
  by (auto simp: produced_def)

lemma call_effect:
  assumes "first_call (on_origin jd) job ctx s = (answer, s')"
  obtains x made where "s' = s\<lparr>os_ext := x, os_calls := os_calls s @ [(cx_job_id ctx, cx_claim_id ctx, made)]\<rparr>"
    "\<forall>r. answer = Some (Inr r) \<longrightarrow> produced (os_calls s') (cx_job_id ctx) r"
    "if is_first_execution ctx then answer \<noteq> None \<and> (\<exists>r. made = CallSubmit r)
     else (\<exists>r. made = CallReconcile r) \<and> (answer = None \<longrightarrow> made = CallReconcile (Inr NotSubmitted))"
proof (cases "is_first_execution ctx")
  case True
  obtain r x where "jd_submit jd job ctx (os_ext s) = (r, x)" by fastforce
  with assms True show ?thesis
    by (intro that [where x = x and made = "CallSubmit r"]) (auto simp: first_call_def on_origin_def produced_def)
next
  case False
  obtain r x where rec: "jd_reconcile jd job ctx (os_ext s) = (r, x)" by fastforce
  with assms False show ?thesis
    by (intro that [where x = x and made = "CallReconcile r"]; cases r rule: route_reconciled.cases)
      (auto simp: first_call_def on_origin_def produced_def)
qed

lemma submit_effect:
  assumes "jd_submit (on_origin jd) job ctx s = (r, s')"
  obtains x where "s' = s\<lparr>os_ext := x, os_calls := os_calls s @ [(cx_job_id ctx, cx_claim_id ctx, CallSubmit r)]\<rparr>"
    "produced (os_calls s') (cx_job_id ctx) r"
proof -
  obtain x where "s' = s\<lparr>os_ext := x, os_calls := os_calls s @ [(cx_job_id ctx, cx_claim_id ctx, CallSubmit r)]\<rparr>"
    using assms by (cases "jd_submit jd job ctx (os_ext s)") (auto simp: on_origin_def)
  moreover from this have "produced (os_calls s') (cx_job_id ctx) r"
    unfolding produced_def by (intro disjI1 exI [of _ "cx_claim_id ctx"]) simp
  ultimately show ?thesis using that by blast
qed

section \<open>Invariants\<close>

text \<open>The origin's history is well formed and names each job once.\<close>

definition history_ok :: "('j, 'o, 'e, 'x) origin_sys \<Rightarrow> bool" where
  "history_ok s \<longleftrightarrow> cell_history (os_stream s) \<and> distinct (dispatched_ids (os_stream s))"

lemma cell_read_InFlight: "cell_read evs = InFlight j \<Longrightarrow> j \<in> set (dispatched_ids evs)"
proof (cases evs rule: rev_cases)
  case (snoc pre event)
  assume "cell_read evs = InFlight j"
  then show ?thesis using snoc by (cases event) (auto simp: cell_read_def)
qed (simp add: cell_read_def)

lemma settled_not_in_flight:
  "cell_history evs \<Longrightarrow> distinct (dispatched_ids evs) \<Longrightarrow> settled_in evs j \<Longrightarrow> cell_read evs \<noteq> InFlight j"
proof (induction evs rule: cell_history.induct)
  case (4 job_id job settled rest)
  have read: "rest \<noteq> [] \<Longrightarrow> cell_read (EvDispatched job_id job # EvFailed settled # rest) = cell_read rest"
    by (simp add: cell_read_def)
  have set: "settled_in (EvDispatched job_id job # EvFailed settled # rest) j \<longleftrightarrow>
      j = sf_job_id settled \<or> settled_in rest j"
    by (auto simp: settled_in_def)
  show ?case
  proof (cases "rest = []")
    case False
    then show ?thesis using 4 read set cell_read_InFlight [of rest j] by auto
  qed (simp add: cell_read_def)
qed (auto simp: cell_read_def settled_in_def)

text \<open>Updates of the running executions.\<close>

lemma set_stage_simps [simp]:
  "os_stream (set_stage i st s) = os_stream s" "os_queue (set_stage i st s) = os_queue s"
  "os_claims (set_stage i st s) = os_claims s" "os_dead (set_stage i st s) = os_dead s"
  "os_calls (set_stage i st s) = os_calls s"
  "os_stream (drop_execution i s) = os_stream s" "os_queue (drop_execution i s) = os_queue s"
  "os_claims (drop_execution i s) = os_claims s" "os_dead (drop_execution i s) = os_dead s"
  "os_calls (drop_execution i s) = os_calls s"
  by (simp_all add: set_stage_def drop_execution_def)

lemma apply_ack_simps [simp]:
  "os_stream (apply_ack c j s) = os_stream s" "os_claims (apply_ack c j s) = os_claims s"
  "os_running (apply_ack c j s) = os_running s" "os_calls (apply_ack c j s) = os_calls s"
  by (cases "(c, j, s)" rule: apply_ack.cases; simp)+

lemma running_set_stage:
  "e \<in> set (os_running (set_stage i st s)) \<Longrightarrow>
     e \<in> set (os_running s) \<or> e = (os_running s ! i)\<lparr>en_stage := st\<rparr>"
  using set_update_subset_insert [of "os_running s" i] by (auto simp: set_stage_def)

lemma running_drop_execution: "set (os_running (drop_execution i s)) \<subseteq> set (os_running s)"
  by (auto simp: drop_execution_def dest: in_set_takeD in_set_dropD)

lemma history_okD: "history_ok s \<Longrightarrow> cell_history (os_stream s)" "history_ok s \<Longrightarrow> distinct (dispatched_ids (os_stream s))"
  by (simp_all add: history_ok_def)

lemma records_history:
  assumes "history_ok s" and "records s s' v"
  shows "history_ok s'"
proof (cases "s' = s")
  case False
  then have cell: "cell_read (os_stream s) = InFlight (verdict_id v)"
    and s': "os_stream s' = os_stream s @ [verdict_event v]" using assms(2) by (auto simp: records_def)
  have "fold_cell (cell_read (os_stream s)) [verdict_event v] = Inr (cell_of_verdict v)"
    by (cases v) (simp_all add: cell)
  from origin_replays(2) [OF history_okD(1) [OF assms(1)] this] show ?thesis
    using assms(1) by (simp add: history_ok_def s')
qed (use assms(1) in simp)

lemma conclude_history:
  assumes "event_sink_contract (origin_entity jd) sink" and "history_ok s"
    and "Dispatch.conclude (on_origin jd) (deliver (origin_send sink jd link) Deliver) job ctx out s = (r, s')"
  shows "history_ok s'"
  using conclude_effect(1) [OF assms(1) history_okD(1) [OF assms(2)] assms(3)] records_history [OF assms(2)] assms(2)
  by auto

lemma not_dispatched: "(\<forall>job. EvDispatched j job \<notin> set evs) \<Longrightarrow> j \<notin> set (dispatched_ids evs)"
proof (induction evs)
  case (Cons event evs)
  then show ?case by (cases event) auto
qed simp

lemma history_step:
  assumes contract: "event_sink_contract (origin_entity jd) sink" and ok: "history_ok s"
    and step: "origin_step sink jd tr config s s'"
  shows "history_ok s'"
  using step
proof (cases rule: origin_step.cases)
  case (kick fresh job pushes evs)
  note k = origin_kick [OF contract history_okD(1) [OF ok] kick(2)]
  show ?thesis using k(3) not_dispatched [OF kick(3)] history_okD(2) [OF ok] by (simp add: history_ok_def kick(1) k(1))
next
  case (call i e answer s1)
  show ?thesis
    by (rule call_effect [OF call(5)]) (use ok in \<open>simp add: history_ok_def call(1)\<close>)
next
  case (submit i e outcome s1)
  show ?thesis
    by (rule submit_effect [OF submit(5)]) (use ok in \<open>simp add: history_ok_def submit(1)\<close>)
next
  case (concluded i e outcome link r s1)
  show ?thesis
    using conclude_history [OF contract ok concluded(5)] by (simp add: history_ok_def concluded(1))
qed (use ok in \<open>auto simp: history_ok_def\<close>)

text \<open>A job in flight is still queued, or was dead-lettered without a verdict; a final result was recorded first.\<close>

definition tracked :: "('j, 'o, 'e, 'x) origin_sys \<Rightarrow> bool" where
  "tracked s \<longleftrightarrow>
     (\<forall>j. cell_read (os_stream s) = InFlight j \<longrightarrow> j \<in> fst ` set (os_queue s) \<or> j \<in> set (os_dead s))
     \<and> (\<forall>e r. e \<in> set (os_running s) \<longrightarrow> en_stage e = Concluded r \<longrightarrow> final_result r
          \<longrightarrow> settled_in (os_stream s) (cx_job_id (en_ctx e)))"

lemma trackedD:
  "tracked s \<Longrightarrow> cell_read (os_stream s) = InFlight j \<Longrightarrow> j \<in> fst ` set (os_queue s) \<or> j \<in> set (os_dead s)"
  "tracked s \<Longrightarrow> e \<in> set (os_running s) \<Longrightarrow> en_stage e = Concluded r \<Longrightarrow> final_result r
     \<Longrightarrow> settled_in (os_stream s) (cx_job_id (en_ctx e))"
  by (auto simp: tracked_def)

lemma ack_command_final:
  assumes "ack_command tr config now_ns ctx (ack_plan (exec_result jd r)) = Some command"
    and "(\<exists>c. command = CmdSucceed c) \<or> (\<exists>c err. command = CmdKill c Rejected err)"
  shows "final_result r"
proof (cases r)
  case (Inl failure)
  then show ?thesis using assms by (cases failure) (auto simp: final_result_def Let_def split: if_splits)
next
  case (Inr outcome)
  then show ?thesis using assms by (cases outcome) (auto simp: final_result_def)
qed

lemma apply_ack_queue:
  "(\<forall>c. command \<noteq> CmdSucceed c) \<Longrightarrow> (\<forall>c err. command \<noteq> CmdKill c Rejected err) \<Longrightarrow>
   j \<in> fst ` set (os_queue s) \<or> j \<in> set (os_dead s) \<Longrightarrow>
   j \<in> fst ` set (os_queue (apply_ack command j' s)) \<or> j \<in> set (os_dead (apply_ack command j' s))"
  "j \<noteq> j' \<Longrightarrow> j \<in> fst ` set (os_queue s) \<or> j \<in> set (os_dead s) \<Longrightarrow>
   j \<in> fst ` set (os_queue (apply_ack command j' s)) \<or> j \<in> set (os_dead (apply_ack command j' s))"
  by (cases "(command, j', s)" rule: apply_ack.cases; auto simp: image_iff split: if_splits)+

lemma records_tracked:
  assumes "tracked s" and "records s s' v"
  shows "tracked s'"
proof (cases "s' = s")
  case False
  then have "s' = s\<lparr>os_stream := os_stream s @ [verdict_event v]\<rparr>" using assms(2) by (simp add: records_def)
  moreover have "cell_read (os_stream s @ [verdict_event v]) \<noteq> InFlight j" for j
    by (cases v) (simp_all add: cell_read_def)
  ultimately show ?thesis using assms(1) by (simp add: tracked_def)
qed (use assms(1) in simp)

lemma tracked_stage:
  assumes "tracked s" and "\<forall>r. st = Concluded r \<longrightarrow> final_result r \<longrightarrow>
    settled_in (os_stream s) (cx_job_id (en_ctx (os_running s ! i)))"
  shows "tracked (set_stage i st s)"
  using assms trackedD(2) [OF assms(1)] by (auto simp: tracked_def dest!: running_set_stage)

lemma tracked_subset:
  assumes "tracked s" and "os_stream s' = os_stream s" and "os_queue s' = os_queue s" and "os_dead s' = os_dead s"
    and "set (os_running s') \<subseteq> set (os_running s)"
  shows "tracked s'"
  using assms by (auto simp: tracked_def)

lemma tracked_step:
  assumes contract: "event_sink_contract (origin_entity jd) sink" and hist: "history_ok s" and ok: "tracked s"
    and step: "origin_step sink jd tr config s s'"
  shows "tracked s'"
  using step
proof (cases rule: origin_step.cases)
  case (kick fresh job pushes evs)
  note k = origin_kick [OF contract history_okD(1) [OF hist] kick(2)]
  have "fresh \<in> fst ` set (os_queue s')" using k(2) by (auto simp: kick(1) image_iff)
  then show ?thesis using ok k(4) by (auto simp: tracked_def kick(1))
next
  case (claim ctx job)
  then show ?thesis using ok by (auto simp: tracked_def)
next
  case (call i e answer s1)
  show ?thesis
    by (rule call_effect [OF call(5)])
      (use ok call(1) in \<open>auto intro!: tracked_stage tracked_subset [OF ok] split: option.splits\<close>)
next
  case (submit i e outcome s1)
  show ?thesis
    by (rule submit_effect [OF submit(5)])
      (use ok submit(1) in \<open>auto intro!: tracked_stage tracked_subset [OF ok]\<close>)
next
  case (deferred i e delay)
  then show ?thesis using tracked_stage [OF ok] by (auto simp: final_result_def)
next
  case (concluded i e outcome link r s1)
  note eff = conclude_effect [OF contract history_okD(1) [OF hist] concluded(5)]
  have "tracked s1" using eff(1) records_tracked [OF ok] ok by auto
  moreover have "os_running s1 = os_running s" using eff(1) by (auto simp: records_def)
  ultimately show ?thesis using eff(2) concluded(3) by (auto simp: concluded(1) intro!: tracked_stage)
next
  case (ack i e r now_ns command)
  let ?s = "apply_ack command (cx_job_id (en_ctx e)) s"
  have "tracked ?s"
  proof (cases "(\<exists>c. command = CmdSucceed c) \<or> (\<exists>c err. command = CmdKill c Rejected err)")
    case True
    from ack_command_final [OF ack(6) True] have "settled_in (os_stream s) (cx_job_id (en_ctx e))"
      using trackedD(2) [OF ok] ack(2-4) by auto
    then have "cell_read (os_stream s) = InFlight j \<Longrightarrow> j \<noteq> cx_job_id (en_ctx e)" for j
      using settled_not_in_flight [OF history_okD [OF hist]] by blast
    then show ?thesis using ok apply_ack_queue(2) by (simp add: tracked_def) blast
  next
    case False
    then show ?thesis using ok apply_ack_queue(1) by (simp add: tracked_def) blast
  qed
  then show ?thesis by (rule tracked_subset) (simp_all add: ack(1) running_drop_execution [of i ?s, simplified])
next
  case (crash i)
  then show ?thesis using running_drop_execution by (intro tracked_subset [OF ok]) auto
next
  case (abandon job_id reason c err)
  then show ?thesis using ok apply_ack_queue(1) [of "CmdKill c reason err"] by (auto simp: tracked_def)
qed

text \<open>What a recorded verdict proves about the calls made for its job.\<close>

fun proved ::
  "('j, 'o, 'e, 'x) job_def \<Rightarrow> (string \<times> string \<times> ('o, 'e) call) list \<Rightarrow> ('o, 'e) verdict \<Rightarrow> bool" where
  "proved jd calls (VdConfirmed settled) = produced calls (so_job_id settled) (Inr (Done (so_output settled)))"
| "proved jd calls (VdFailed settled) =
     (case sf_failure settled of
        RejectedBy err \<Rightarrow> produced calls (sf_job_id settled) (Inl (TerminalFailure err))
      | DeadLettered reason detail \<Rightarrow> reason = RetriesExhausted
          \<and> (\<exists>err. produced calls (sf_job_id settled) (Inl (TransientFailure err))
               \<and> detail = error_chain (jd_sources jd err)))"

lemma proved_append [simp]: "proved jd calls v \<Longrightarrow> proved jd (calls @ newer) v"
  by (cases v) (auto split: dispatch_failure.splits intro: produced_append)

lemma outcome_proved:
  "outcome_verdict jd ctx out = Some v \<Longrightarrow> produced calls (cx_job_id ctx) out \<Longrightarrow> proved jd calls v"
  by (cases "(jd, ctx, out)" rule: outcome_verdict.cases)
    (auto simp: confirmed_outcome_def failed_outcome_def split: if_splits)

definition evidenced :: "('j, 'o, 'e, 'x) job_def \<Rightarrow> ('j, 'o, 'e, 'x) origin_sys \<Rightarrow> bool" where
  "evidenced jd s \<longleftrightarrow> (\<forall>v \<in> set (verdicts (os_stream s)). proved jd (os_calls s) v)
     \<and> (\<forall>e out. e \<in> set (os_running s) \<longrightarrow> en_stage e = Executed (Inr out)
          \<longrightarrow> produced (os_calls s) (cx_job_id (en_ctx e)) out)"

lemma evidencedD:
  "evidenced jd s \<Longrightarrow> v \<in> set (verdicts (os_stream s)) \<Longrightarrow> proved jd (os_calls s) v"
  "evidenced jd s \<Longrightarrow> e \<in> set (os_running s) \<Longrightarrow> en_stage e = Executed (Inr out)
     \<Longrightarrow> produced (os_calls s) (cx_job_id (en_ctx e)) out"
  by (auto simp: evidenced_def)

lemma evidenced_stage:
  assumes "evidenced jd s" and "\<forall>out. st = Executed (Inr out) \<longrightarrow>
    produced (os_calls s) (cx_job_id (en_ctx (os_running s ! i))) out"
  shows "evidenced jd (set_stage i st s)"
  using assms evidencedD(2) [OF assms(1)] by (auto simp: evidenced_def dest!: running_set_stage)

lemma evidenced_subset:
  assumes "evidenced jd s" and "os_stream s' = os_stream s" and "os_calls s' = os_calls s @ newer"
    and "set (os_running s') \<subseteq> set (os_running s)"
  shows "evidenced jd s'"
  using assms by (auto simp: evidenced_def)

lemma evidenced_step:
  assumes contract: "event_sink_contract (origin_entity jd) sink" and hist: "history_ok s" and ok: "evidenced jd s"
    and step: "origin_step sink jd tr config s s'"
  shows "evidenced jd s'"
  using step
proof (cases rule: origin_step.cases)
  case (kick fresh job pushes evs)
  note k = origin_kick [OF contract history_okD(1) [OF hist] kick(2)]
  show ?thesis using ok by (simp add: evidenced_def kick(1) k(1))
next
  case (claim ctx job)
  then show ?thesis using ok by (auto simp: evidenced_def)
next
  case (call i e answer s1)
  obtain x made where s1: "s1 = s\<lparr>os_ext := x, os_calls := os_calls s @ [(cx_job_id (en_ctx e), cx_claim_id (en_ctx e), made)]\<rparr>"
    and prod: "\<forall>r. answer = Some (Inr r) \<longrightarrow> produced (os_calls s1) (cx_job_id (en_ctx e)) r"
    by (rule call_effect [OF call(5)])
  have "evidenced jd s1" by (rule evidenced_subset [OF ok]) (simp_all add: s1)
  then show ?thesis unfolding call(1)
    using prod by (intro evidenced_stage) (auto simp: s1 call(3) split: option.splits)
next
  case (submit i e outcome s1)
  obtain x where s1: "s1 = s\<lparr>os_ext := x, os_calls := os_calls s @ [(cx_job_id (en_ctx e), cx_claim_id (en_ctx e), CallSubmit outcome)]\<rparr>"
    and prod: "produced (os_calls s1) (cx_job_id (en_ctx e)) outcome"
    by (rule submit_effect [OF submit(5)])
  have "evidenced jd s1" by (rule evidenced_subset [OF ok]) (simp_all add: s1)
  then show ?thesis unfolding submit(1) using prod by (intro evidenced_stage) (auto simp: s1 submit(3))
next
  case (deferred i e delay)
  then show ?thesis using evidenced_stage [OF ok] by auto
next
  case (concluded i e outcome link r s1)
  note eff = conclude_effect(1) [OF contract history_okD(1) [OF hist] concluded(5)]
  have "produced (os_calls s) (cx_job_id (en_ctx e)) outcome" using evidencedD(2) [OF ok] concluded(2-4) by auto
  then have "evidenced jd s1"
    using eff ok outcome_proved [of jd "en_ctx e" outcome] by (auto simp: records_def evidenced_def)
  then show ?thesis unfolding concluded(1) by (rule evidenced_stage) simp
next
  case (ack i e r now_ns command)
  let ?s = "apply_ack command (cx_job_id (en_ctx e)) s"
  show ?thesis unfolding ack(1)
    by (rule evidenced_subset [OF ok, of _ "[]"]) (simp_all add: running_drop_execution [of i ?s, simplified])
next
  case (crash i)
  then show ?thesis using running_drop_execution by (intro evidenced_subset [OF ok, of _ "[]"]) auto
next
  case (abandon job_id reason c err)
  then show ?thesis by (intro evidenced_subset [OF ok, of _ "[]"]) auto
qed

text \<open>
  The calls one execution made, in order: none, its submission, its reconciliation, or a reconciliation that answered
  \<open>NotSubmitted\<close> and the submission this authorised. A submission with nothing before it is blind.
\<close>

definition calls_of :: "(string \<times> string \<times> ('o, 'e) call) list \<Rightarrow> string \<Rightarrow> string \<Rightarrow> ('o, 'e) call list" where
  "calls_of calls job_id claim_id = map (snd \<circ> snd) (filter (\<lambda>k. fst k = job_id \<and> fst (snd k) = claim_id) calls)"

fun calls_routed :: "('o, 'e) call list \<Rightarrow> bool" where
  "calls_routed [] = True"
| "calls_routed [CallSubmit _] = True"
| "calls_routed [CallReconcile _] = True"
| "calls_routed [CallReconcile (Inr NotSubmitted), CallSubmit _] = True"
| "calls_routed _ = False"

fun submits_blindly :: "('o, 'e) call list \<Rightarrow> bool" where
  "submits_blindly (CallSubmit _ # _) = True"
| "submits_blindly _ = False"

definition may_submit_blindly :: "('j, 'o, 'e, 'x) origin_sys \<Rightarrow> string \<Rightarrow> string \<Rightarrow> bool" where
  "may_submit_blindly s j c \<longleftrightarrow> submits_blindly (calls_of (os_calls s) j c)
     \<or> (\<exists>e \<in> set (os_running s). execution_key e = (j, c) \<and> is_first_execution (en_ctx e))"

text \<open>What the calls made so far say about an execution that is still to call.\<close>

definition stage_calls :: "(string \<times> string \<times> ('o, 'e) call) list \<Rightarrow> ('j, 'o, 'e) execution \<Rightarrow> bool" where
  "stage_calls calls e \<longleftrightarrow>
     (case en_stage e of
        Started \<Rightarrow> calls_of calls (cx_job_id (en_ctx e)) (cx_claim_id (en_ctx e)) = []
      | Unsubmitted \<Rightarrow> calls_of calls (cx_job_id (en_ctx e)) (cx_claim_id (en_ctx e)) = [CallReconcile (Inr NotSubmitted)]
      | _ \<Rightarrow> True)"

definition authorised :: "('j, 'o, 'e, 'x) origin_sys \<Rightarrow> bool" where
  "authorised s \<longleftrightarrow> distinct (map execution_key (os_running s))
     \<and> (\<forall>e \<in> set (os_running s). stage_calls (os_calls s) e \<and> 0 < os_claims s (cx_job_id (en_ctx e)))
     \<and> (\<forall>k \<in> set (os_calls s). 0 < os_claims s (fst k))
     \<and> (\<forall>j c. calls_routed (calls_of (os_calls s) j c))
     \<and> (\<forall>j c c'. may_submit_blindly s j c \<longrightarrow> may_submit_blindly s j c' \<longrightarrow> c = c')"

lemma authorisedD:
  assumes "authorised s"
  shows "distinct (map execution_key (os_running s))" "e \<in> set (os_running s) \<Longrightarrow> stage_calls (os_calls s) e"
    "e \<in> set (os_running s) \<Longrightarrow> 0 < os_claims s (cx_job_id (en_ctx e))"
    "k \<in> set (os_calls s) \<Longrightarrow> 0 < os_claims s (fst k)" "calls_routed (calls_of (os_calls s) j c)"
    "may_submit_blindly s j c \<Longrightarrow> may_submit_blindly s j c' \<Longrightarrow> c = c'"
  using assms by (auto simp: authorised_def)

lemma authorisedI:
  assumes "distinct (map execution_key (os_running s))"
    and "\<And>e. e \<in> set (os_running s) \<Longrightarrow> stage_calls (os_calls s) e \<and> 0 < os_claims s (cx_job_id (en_ctx e))"
    and "\<And>k. k \<in> set (os_calls s) \<Longrightarrow> 0 < os_claims s (fst k)" and "\<And>j c. calls_routed (calls_of (os_calls s) j c)"
    and "\<And>j c c'. may_submit_blindly s j c \<Longrightarrow> may_submit_blindly s j c' \<Longrightarrow> c = c'"
  shows "authorised s"
  unfolding authorised_def using assms by blast

lemma calls_of_snoc:
  "calls_of (calls @ [(j', c', made)]) j c = calls_of calls j c @ (if j' = j \<and> c' = c then [made] else [])"
  by (simp add: calls_of_def)

lemma calls_of_used: "calls_of calls j c \<noteq> [] \<Longrightarrow> \<exists>made. (j, c, made) \<in> set calls"
  by (force simp: calls_of_def filter_empty_conv)

lemma may_submit_claimed: "authorised s \<Longrightarrow> may_submit_blindly s j c \<Longrightarrow> 0 < os_claims s j"
  using authorisedD(3,4) [of s] calls_of_used [of "os_calls s" j c]
  by (cases "calls_of (os_calls s) j c") (fastforce simp: may_submit_blindly_def execution_key_def)+

lemma stage_calls_kept:
  "stage_calls calls e \<Longrightarrow> en_ctx e' = en_ctx e \<Longrightarrow> en_stage e' = en_stage e \<or> en_stage e' \<notin> {Started, Unsubmitted}
     \<Longrightarrow> stage_calls calls e'"
  by (cases "en_stage e'") (auto simp: stage_calls_def)

text \<open>Steps that make no call and leave every execution that is still to call as it was.\<close>

lemma authorised_quiet:
  assumes "authorised s" and "os_calls s' = os_calls s" and "os_claims s' = os_claims s"
    and "distinct (map execution_key (os_running s'))"
    and "\<And>e'. e' \<in> set (os_running s') \<Longrightarrow> \<exists>e \<in> set (os_running s). en_ctx e' = en_ctx e
      \<and> (en_stage e' = en_stage e \<or> en_stage e' \<notin> {Started, Unsubmitted})"
  shows "authorised s'"
proof -
  have "stage_calls (os_calls s') e' \<and> 0 < os_claims s' (cx_job_id (en_ctx e'))" if mem: "e' \<in> set (os_running s')" for e'
  proof -
    obtain e where "e \<in> set (os_running s)" "en_ctx e' = en_ctx e"
        "en_stage e' = en_stage e \<or> en_stage e' \<notin> {Started, Unsubmitted}"
      using assms(5) [OF mem] by blast
    then show ?thesis using authorisedD(2,3) [OF assms(1)] stage_calls_kept [of "os_calls s" e e'] assms(2,3) by auto
  qed
  moreover have "may_submit_blindly s j c" if "may_submit_blindly s' j c" for j c
    using that assms(2,5) by (fastforce simp: may_submit_blindly_def execution_key_def)
  ultimately show ?thesis using authorisedD(4-6) [OF assms(1)] assms(2-4) unfolding authorised_def by metis
qed

lemma keys_set_stage [simp]: "map execution_key (os_running (set_stage i st s)) = map execution_key (os_running s)"
proof (cases "i < length (os_running s)")
  case True
  then show ?thesis by (simp add: set_stage_def map_update execution_key_def list_update_same_conv)
qed (simp add: set_stage_def list_update_beyond)

lemma keys_drop_execution:
  assumes "distinct (map execution_key (os_running s))"
  shows "distinct (map execution_key (os_running (drop_execution i s)))"
proof (cases "i < length (os_running s)")
  case True
  then have "distinct (map execution_key (take i (os_running s) @ os_running s ! i # drop (Suc i) (os_running s)))"
    using assms id_take_nth_drop [OF True] by metis
  then show ?thesis by (simp add: drop_execution_def)
qed (use assms in \<open>simp add: drop_execution_def\<close>)

lemma authorised_stage: "authorised s \<Longrightarrow> i < length (os_running s) \<Longrightarrow> st \<notin> {Started, Unsubmitted} \<Longrightarrow> authorised (set_stage i st s)"
  by (rule authorised_quiet) (use authorisedD(1) in \<open>force dest!: running_set_stage\<close>)+

lemma authorised_drop: "authorised s \<Longrightarrow> authorised (drop_execution i s)"
  by (rule authorised_quiet) (use authorisedD(1) keys_drop_execution running_drop_execution in \<open>fastforce\<close>)+

text \<open>A call of one execution: only its own calls change.\<close>

lemma running_other:
  assumes "distinct (map execution_key xs)" and "i < length xs" and "x \<in> set (xs[i := y])"
  shows "x = y \<or> (x \<in> set xs \<and> execution_key x \<noteq> execution_key (xs ! i))"
proof -
  from assms(3) obtain k where k: "k < length xs" "x = xs[i := y] ! k" by (auto simp: in_set_conv_nth)
  show ?thesis
  proof (cases "k = i")
    case False
    then have "execution_key (xs ! k) \<noteq> execution_key (xs ! i)"
      using nth_eq_iff_index_eq [OF assms(1), of k i] k(1) assms(2) by simp
    then show ?thesis using k False by simp
  qed (use k assms(2) in simp)
qed

lemma authorised_call:
  assumes ok: "authorised s" and i: "i < length (os_running s)" and e: "e = os_running s ! i"
    and s': "s' = s\<lparr>os_ext := x, os_calls := os_calls s @ [(cx_job_id (en_ctx e), cx_claim_id (en_ctx e), made)]\<rparr>"
    and own: "stage_calls (os_calls s') (e\<lparr>en_stage := st\<rparr>)"
    and routed: "calls_routed (calls_of (os_calls s') (cx_job_id (en_ctx e)) (cx_claim_id (en_ctx e)))"
    and blind: "submits_blindly (calls_of (os_calls s') (cx_job_id (en_ctx e)) (cx_claim_id (en_ctx e)))
      \<Longrightarrow> may_submit_blindly s (cx_job_id (en_ctx e)) (cx_claim_id (en_ctx e))"
  shows "authorised (set_stage i st s')"
proof -
  have mem: "e \<in> set (os_running s)" using e i by simp
  have other: "calls_of (os_calls s') j c = calls_of (os_calls s) j c" if "(j, c) \<noteq> execution_key e" for j c
    using that by (auto simp: s' calls_of_snoc execution_key_def)
  have run: "x = e\<lparr>en_stage := st\<rparr> \<or> (x \<in> set (os_running s) \<and> execution_key x \<noteq> execution_key e)"
    if "x \<in> set (os_running (set_stage i st s'))" for x
    using running_other [OF authorisedD(1) [OF ok] i] that by (simp add: set_stage_def s' e)
  have may: "may_submit_blindly s j c" if m: "may_submit_blindly (set_stage i st s') j c" for j c
  proof (cases "submits_blindly (calls_of (os_calls s') j c)")
    case True
    then show ?thesis using blind other [of j c] by (cases "(j, c) = execution_key e") (auto simp: may_submit_blindly_def execution_key_def)
  next
    case False
    then obtain x where "x \<in> set (os_running (set_stage i st s'))" "execution_key x = (j, c)" "is_first_execution (en_ctx x)"
      using m by (auto simp: may_submit_blindly_def)
    then show ?thesis using run [of x] mem by (force simp: may_submit_blindly_def execution_key_def)
  qed
  show ?thesis
  proof (rule authorisedI)
    show "distinct (map execution_key (os_running (set_stage i st s')))" using authorisedD(1) [OF ok] by (simp add: s')
  next
    fix x assume "x \<in> set (os_running (set_stage i st s'))"
    from run [OF this]
    have "stage_calls (os_calls s') x \<and> 0 < os_claims s (cx_job_id (en_ctx x))"
    proof
      assume "x \<in> set (os_running s) \<and> execution_key x \<noteq> execution_key e"
      then show ?thesis
        using authorisedD(2,3) [OF ok, of x] other [of "cx_job_id (en_ctx x)" "cx_claim_id (en_ctx x)"]
        by (cases "en_stage x") (simp_all add: stage_calls_def execution_key_def)
    qed (use own authorisedD(3) [OF ok mem] in simp)
    then show "stage_calls (os_calls (set_stage i st s')) x \<and> 0 < os_claims (set_stage i st s') (cx_job_id (en_ctx x))"
      by (simp add: s')
  next
    show "calls_routed (calls_of (os_calls (set_stage i st s')) j c)" for j c
      using routed other [of j c] authorisedD(5) [OF ok] by (cases "(j, c) = execution_key e") (auto simp: execution_key_def)
  next
    show "0 < os_claims (set_stage i st s') (fst k)" if "k \<in> set (os_calls (set_stage i st s'))" for k
      using that authorisedD(3) [OF ok mem] authorisedD(4) [OF ok, of k] by (cases "k \<in> set (os_calls s)") (auto simp: s')
  qed (use may authorisedD(6) [OF ok] in blast)
qed

lemma authorised_claim:
  assumes ok: "authorised s" and first: "is_first_execution ctx \<longleftrightarrow> os_claims s (cx_job_id ctx) = 0"
    and new: "claim_unused s (cx_job_id ctx) (cx_claim_id ctx)"
    and s': "s' = s\<lparr>os_claims := (os_claims s)(cx_job_id ctx := Suc (os_claims s (cx_job_id ctx))),
      os_running := os_running s @ [\<lparr>en_job = job, en_ctx = ctx, en_ordinal = n, en_stage = Started\<rparr>]\<rparr>"
  shows "authorised s'"
proof -
  have "calls_of (os_calls s) (cx_job_id ctx) (cx_claim_id ctx) = []"
    using new calls_of_used [of "os_calls s"] by (force simp: claim_unused_def)
  then have new_stage: "stage_calls (os_calls s) \<lparr>en_job = job, en_ctx = ctx, en_ordinal = n, en_stage = Started\<rparr>"
    by (simp add: stage_calls_def)
  have may: "may_submit_blindly s j c \<or> (j = cx_job_id ctx \<and> c = cx_claim_id ctx \<and> os_claims s j = 0)"
    if "may_submit_blindly s' j c" for j c
    using that first by (auto simp: may_submit_blindly_def s' execution_key_def)
  show ?thesis
  proof (rule authorisedI)
    show "distinct (map execution_key (os_running s'))"
      using authorisedD(1) [OF ok] new by (auto simp: s' claim_unused_def execution_key_def)
  next
    show "stage_calls (os_calls s') e \<and> 0 < os_claims s' (cx_job_id (en_ctx e))" if "e \<in> set (os_running s')" for e
      using that authorisedD(2,3) [OF ok, of e] new_stage by (auto simp: s')
  next
    show "0 < os_claims s' (fst k)" if "k \<in> set (os_calls s')" for k
      using that authorisedD(4) [OF ok, of k] by (simp add: s')
  next
    show "calls_routed (calls_of (os_calls s') j c)" for j c using authorisedD(5) [OF ok] by (simp add: s')
  next
    show "c = c'" if "may_submit_blindly s' j c" "may_submit_blindly s' j c'" for j c c'
      using may [OF that(1)] may [OF that(2)] may_submit_claimed [OF ok] authorisedD(6) [OF ok] by (metis less_irrefl)
  qed
qed

lemma authorised_step:
  assumes contract: "event_sink_contract (origin_entity jd) sink" and hist: "history_ok s" and ok: "authorised s"
    and step: "origin_step sink jd tr config s s'"
  shows "authorised s'"
  using step
proof (cases rule: origin_step.cases)
  case (claim ctx job)
  then show ?thesis using authorised_claim [OF ok claim(3,4)] by simp
next
  case (call i e answer s1)
  let ?id = "cx_job_id (en_ctx e)" and ?c = "cx_claim_id (en_ctx e)"
  obtain x made where s1: "s1 = s\<lparr>os_ext := x, os_calls := os_calls s @ [(?id, ?c, made)]\<rparr>"
    and made: "if is_first_execution (en_ctx e) then answer \<noteq> None \<and> (\<exists>r. made = CallSubmit r)
      else (\<exists>r. made = CallReconcile r) \<and> (answer = None \<longrightarrow> made = CallReconcile (Inr NotSubmitted))"
    by (rule call_effect [OF call(5)])
  have mem: "e \<in> set (os_running s)" using call(2,3) by simp
  then have "calls_of (os_calls s) ?id ?c = []" using authorisedD(2) [OF ok mem] call(4) by (simp add: stage_calls_def)
  then have own: "calls_of (os_calls s1) ?id ?c = [made]" by (simp add: s1 calls_of_snoc)
  show ?thesis unfolding call(1)
  proof (rule authorised_call [OF ok call(2,3) s1])
    show "may_submit_blindly s ?id ?c" if "submits_blindly (calls_of (os_calls s1) ?id ?c)"
      using that made mem by (auto simp: own may_submit_blindly_def execution_key_def split: if_splits)
  qed (use made in \<open>auto simp: own stage_calls_def split: if_splits option.splits\<close>)
next
  case (submit i e outcome s1)
  let ?id = "cx_job_id (en_ctx e)" and ?c = "cx_claim_id (en_ctx e)"
  obtain x where s1: "s1 = s\<lparr>os_ext := x, os_calls := os_calls s @ [(?id, ?c, CallSubmit outcome)]\<rparr>"
    by (rule submit_effect [OF submit(5)])
  have "calls_of (os_calls s) ?id ?c = [CallReconcile (Inr NotSubmitted)]"
    using authorisedD(2) [OF ok, of e] submit(2-4) by (auto simp: stage_calls_def)
  then have own: "calls_of (os_calls s1) ?id ?c = [CallReconcile (Inr NotSubmitted), CallSubmit outcome]"
    by (simp add: s1 calls_of_snoc)
  show ?thesis unfolding submit(1)
    by (rule authorised_call [OF ok submit(2,3) s1]) (simp_all add: own stage_calls_def)
next
  case (concluded i e outcome link r s1)
  have s1: "os_running s1 = os_running s" "os_claims s1 = os_claims s" "os_calls s1 = os_calls s"
    using conclude_effect(1) [OF contract history_okD(1) [OF hist] concluded(5)] by (auto simp: records_def)
  then have "authorised s1" using authorisedD(1) [OF ok] by (intro authorised_quiet [OF ok]) auto
  then show ?thesis using concluded(1,2) s1(1) by (simp add: authorised_stage)
next
  case (ack i e r now_ns command)
  have "authorised (apply_ack command (cx_job_id (en_ctx e)) s)" using authorisedD(1) [OF ok] by (intro authorised_quiet [OF ok]) auto
  then show ?thesis using ack(1) authorised_drop by simp
next
  case (abandon job_id reason c err)
  then show ?thesis using authorisedD(1) [OF ok] by (intro authorised_quiet [OF ok]) auto
next
  case (kick fresh job pushes evs)
  then show ?thesis using authorisedD(1) [OF ok] by (intro authorised_quiet [OF ok]) auto
qed (use ok authorised_stage authorised_drop in auto)

section \<open>Properties\<close>

lemma origin_invariant:
  assumes contract: "event_sink_contract (origin_entity jd) sink" and "origin_reachable sink jd tr config s"
  shows "history_ok s \<and> tracked s \<and> evidenced jd s \<and> authorised s"
  using assms(2)
proof (induction rule: origin_reachable.induct)
  case (init x)
  then show ?case
    by (simp add: origin_init_def history_ok_def tracked_def evidenced_def authorised_def may_submit_blindly_def calls_of_def
        cell_read_def)
next
  case (step s s')
  then show ?case
    using history_step [OF contract] tracked_step [OF contract] evidenced_step [OF contract] authorised_step [OF contract]
    by blast
qed

text \<open>A confirmed origin accepts nothing more: its history is final.\<close>

lemma confirmed_final:
  assumes contract: "event_sink_contract (origin_entity jd) sink" and hist: "history_ok s"
    and conf: "cell_read (os_stream s) = Confirmed c" and step: "origin_step sink jd tr config s s'"
  shows "os_stream s' = os_stream s"
  using step
proof (cases rule: origin_step.cases)
  case (kick fresh job pushes evs)
  note k = origin_kick [OF contract history_okD(1) [OF hist] kick(2)]
  have "fold_cell Idle (os_stream s @ [EvDispatched fresh job]) = Inr (cell_read (os_stream s @ [EvDispatched fresh job]))"
    using k(1,3) by (simp add: fold_cell_exact)
  then show ?thesis using history_okD(1) [OF hist] conf by (simp add: fold_cell_append fold_cell_exact)
next
  case (call i e answer s1)
  show ?thesis by (rule call_effect [OF call(5)]) (simp add: call(1))
next
  case (submit i e outcome s1)
  show ?thesis by (rule submit_effect [OF submit(5)]) (simp add: submit(1))
next
  case (concluded i e outcome link r s1)
  then show ?thesis
    using conclude_effect(1) [OF contract history_okD(1) [OF hist] concluded(5)] conf by (auto simp: records_def)
qed simp_all

lemma confirmed_forever:
  assumes contract: "event_sink_contract (origin_entity jd) sink"
    and conf: "cell_read (os_stream s) = Confirmed c" and steps: "(origin_step sink jd tr config)\<^sup>*\<^sup>* s s'"
    and hist: "history_ok s"
  shows "os_stream s' = os_stream s \<and> history_ok s'"
  using steps
proof (induction rule: rtranclp_induct)
  case (step s1 s2)
  then show ?case using confirmed_final [OF contract] history_step [OF contract] conf by metis
qed (simp add: hist)

lemma refused_conclusion:
  fixes s :: "('j, 'o, 'e, 'x) origin_sys"
  assumes contract: "event_sink_contract (origin_entity jd) sink" and hist: "cell_history (os_stream s)"
    and ref: "\<And>v. outcome_verdict jd ctx out = Some v \<Longrightarrow>
      settle (cell_read (os_stream s)) v = (Inl OutcomeMismatch :: dispatch_refused + ('j, 'o, 'e) dispatch_event list)"
  shows "Dispatch.conclude (on_origin jd) (deliver (origin_send sink jd link) Deliver) job ctx out s =
    (case out of
       Inl (TransientFailure err) \<Rightarrow> Inl (TransientFailure err)
     | Inr (Defer delay) \<Rightarrow> Inr (Defer delay)
     | _ \<Rightarrow> Inr (Defer (if link = Down then dl_retry_delay (cx_delivery ctx) else dl_refused_backoff (cx_delivery ctx))), s)"
  using ref
  by (cases "(jd, ctx, out)" rule: outcome_verdict.cases)
    (auto simp: conclude_def Let_def deliver_origin [OF contract hist] delivery_deferral_def on_origin_def)

text \<open>A rejected job, redispatched after its acknowledgement was lost: the run the witnesses use.\<close>

definition sample_job :: "(bool, string, string, unit) job_def" where
  "sample_job = \<lparr>jd_kind = ''charge'', jd_encode = (\<lambda>job. Some (JBool job)), jd_origin_id = (\<lambda>_. ''o''),
     jd_submit = (\<lambda>job ctx x. (if job then Inr (Done ''ok'') else Inl (TerminalFailure ''no''), x)),
     jd_reconcile = (\<lambda>job ctx x. (if job then Inr (SettledAs ''ok'') else Inl (TerminalFailure ''no''), x)),
     jd_sources = (\<lambda>err. [err])\<rparr>"

definition sample_origin_sink :: "(bool, string, string) origin_sink" where
  "sample_origin_sink event p = (apply_event (origin_entity sample_job) (fst p) event, snd p @ [event])"

lemma sample_origin_contract: "event_sink_contract (origin_entity sample_job) sample_origin_sink"
  by (simp add: event_sink_contract_def sample_origin_sink_def)

definition sample_run_ctx :: "string \<Rightarrow> int \<Rightarrow> job_context" where
  "sample_run_ctx job_id claim_seq = \<lparr>cx_job_id = job_id, cx_claim_seq = claim_seq, cx_claim_id = ''c'', cx_attempt = 0,
     cx_max_attempts = 5, cx_delivery = default_delivery_policy\<rparr>"

definition sample_run :: "string \<Rightarrow> bool \<Rightarrow> (string, string) stage \<Rightarrow> (bool, string, string) execution" where
  "sample_run job_id job st = \<lparr>en_job = job, en_ctx = sample_run_ctx job_id 2, en_ordinal = 0, en_stage = st\<rparr>"

definition sample_rejection :: "(bool, string, string) dispatch_event" where
  "sample_rejection = EvFailed \<lparr>sf_job_id = ''a'', sf_failure = RejectedBy ''no'', sf_attempts = 1\<rparr>"

definition sample_confirmation :: "string settled_output" where
  "sample_confirmation = \<lparr>so_job_id = ''b'', so_output = ''ok'', so_attempts = 1\<rparr>"

type_synonym sample_sys = "(bool, string, string, unit) origin_sys"

abbreviation sample_reachable :: "sample_sys \<Rightarrow> bool" where
  "sample_reachable \<equiv> origin_reachable sample_origin_sink sample_job (\<lambda>_. True) sample_config"

lemmas sample_defs = claim_unused_def execution_key_def sample_job_def sample_origin_sink_def sample_run_def sample_run_ctx_def sample_config_def
  sample_rejection_def sample_confirmation_def is_first_execution_def

lemmas origin_run_defs = Lifecycle.handle_def decide_def buffer_def origin_life_def origin_entity_def originate_cell_def
  fx_kickoff_def fx_guarded_def fx_settlement_def kickoff_def kick_def dispatch_effect_def dispatch_job_def
  first_call_def conclude_def on_origin_def deliver_def origin_send_def map_err_def confirmed_outcome_def
  failed_outcome_def set_stage_def drop_execution_def Let_def

definition sample_pushed :: "string \<Rightarrow> bool \<Rightarrow> pending_push" where
  "sample_pushed j job = \<lparr>pp_job_id = j, pp_kind = ''charge'', pp_encode = Some (JBool job), pp_delay = None\<rparr>"

lemma sample_push_id: "pp_job_id (sample_pushed j job) = j"
  by (simp add: sample_pushed_def)

lemma sample_kick:
  "os_stream s = [] \<Longrightarrow> Lifecycle.handle sample_origin_sink (origin_entity sample_job) (origin_life sample_job (os_stream s))
     (Kick j job) (Some []) = (Some [sample_pushed j job], Inr [EvDispatched j job])"
  "os_stream s = [EvDispatched ''a'' False, sample_rejection] \<Longrightarrow>
     Lifecycle.handle sample_origin_sink (origin_entity sample_job) (origin_life sample_job (os_stream s))
     (Kick j job) (Some []) = (Some [sample_pushed j job], Inr [EvDispatched j job])"
  by (simp_all add: origin_run_defs sample_defs sample_pushed_def)

lemma sample_first:
  "sample_reachable \<lparr>os_stream = [EvDispatched ''a'' False, sample_rejection], os_queue = [(''a'', False)],
     os_claims = (\<lambda>_. 0)(''a'' := 1), os_running = [], os_dead = [], os_ext = (),
     os_calls = [(''a'', ''c'', CallSubmit (Inl (TerminalFailure ''no'')))]\<rparr>"
proof -
  let ?s1 = "\<lparr>os_stream = [EvDispatched ''a'' False], os_queue = [(''a'', False)], os_claims = (\<lambda>_. 0), os_running = [],
    os_dead = [], os_ext = (), os_calls = []\<rparr> :: sample_sys"
  let ?s2 = "?s1\<lparr>os_claims := (\<lambda>_. 0)(''a'' := 1), os_running := [sample_run ''a'' False Started]\<rparr>"
  let ?out = "Inl (TerminalFailure ''no'') :: string job_failure + string job_outcome"
  let ?s3 = "?s2\<lparr>os_running := [sample_run ''a'' False (Executed (Inr ?out))], os_calls := [(''a'', ''c'', CallSubmit ?out)]\<rparr>"
  let ?s4 = "?s3\<lparr>os_stream := [EvDispatched ''a'' False, sample_rejection],
    os_running := [sample_run ''a'' False (Concluded (Inl (TerminalFailure ''no'')))]\<rparr>"
  have r1: "sample_reachable ?s1"
    by (rule origin_reachable.step [OF origin_reachable.init [of _ _ _ _ "()"]])
      (use origin_step.kick [OF sample_kick(1), where s = "origin_init ()" and fresh = "''a''" and job = False] in
        \<open>simp add: origin_init_def sample_push_id\<close>)
  have r2: "sample_reachable ?s2"
    by (rule origin_reachable.step [OF r1])
      (use origin_step.claim [of "sample_run_ctx ''a'' 2" False ?s1 sample_config] in \<open>simp add: sample_defs\<close>)
  have r3: "sample_reachable ?s3"
    by (rule origin_reachable.step [OF r2])
      (use origin_step.call [of 0 ?s2 "sample_run ''a'' False Started" sample_job "Some (Inr ?out)"
          "?s2\<lparr>os_calls := [(''a'', ''c'', CallSubmit ?out)]\<rparr>"] in
        \<open>simp add: origin_run_defs sample_defs\<close>)
  have r4: "sample_reachable ?s4"
    by (rule origin_reachable.step [OF r3])
      (use origin_step.concluded [of 0 ?s3 "sample_run ''a'' False (Executed (Inr ?out))" ?out sample_job
          sample_origin_sink Up] in \<open>simp add: origin_run_defs sample_defs\<close>)
  show ?thesis
    by (rule origin_reachable.step [OF r4]) (use origin_step.crash [of 0 ?s4] in \<open>simp add: origin_run_defs\<close>)
qed

definition sample_end :: sample_sys where
  "sample_end = \<lparr>os_stream = [EvDispatched ''a'' False, sample_rejection, EvDispatched ''b'' True,
       EvConfirmed sample_confirmation], os_queue = [(''a'', False), (''b'', True)],
     os_claims = (\<lambda>_. 0)(''a'' := 1, ''b'' := 1), os_running = [sample_run ''b'' True (Concluded (Inr (Done ())))],
     os_dead = [], os_ext = (),
     os_calls = [(''a'', ''c'', CallSubmit (Inl (TerminalFailure ''no''))), (''b'', ''c'', CallSubmit (Inr (Done ''ok'')))]\<rparr>"

lemma sample_second: "sample_reachable sample_end"
proof -
  let ?first = "(''a'', ''c'', CallSubmit (Inl (TerminalFailure ''no''))) :: string \<times> string \<times> (string, string) call"
  let ?s0 = "\<lparr>os_stream = [EvDispatched ''a'' False, sample_rejection], os_queue = [(''a'', False)],
     os_claims = (\<lambda>_. 0)(''a'' := 1), os_running = [], os_dead = [], os_ext = (), os_calls = [?first]\<rparr> :: sample_sys"
  let ?s1 = "?s0\<lparr>os_stream := [EvDispatched ''a'' False, sample_rejection, EvDispatched ''b'' True],
    os_queue := [(''a'', False), (''b'', True)]\<rparr>"
  let ?s2 = "?s1\<lparr>os_claims := (\<lambda>_. 0)(''a'' := 1, ''b'' := 1), os_running := [sample_run ''b'' True Started]\<rparr>"
  let ?out = "Inr (Done ''ok'') :: string job_failure + string job_outcome"
  let ?s3 = "?s2\<lparr>os_running := [sample_run ''b'' True (Executed (Inr ?out))], os_calls := [?first, (''b'', ''c'', CallSubmit ?out)]\<rparr>"
  have r1: "sample_reachable ?s1"
    by (rule origin_reachable.step [OF sample_first])
      (use origin_step.kick [OF sample_kick(2), where s = ?s0 and fresh = "''b''" and job = True] in
        \<open>simp add: sample_push_id\<close>, simp add: sample_rejection_def)
  have r2: "sample_reachable ?s2"
    by (rule origin_reachable.step [OF r1])
      (use origin_step.claim [of "sample_run_ctx ''b'' 2" True ?s1 sample_config] in \<open>simp add: sample_defs\<close>)
  have r3: "sample_reachable ?s3"
    by (rule origin_reachable.step [OF r2])
      (use origin_step.call [of 0 ?s2 "sample_run ''b'' True Started" sample_job "Some (Inr ?out)"
          "?s2\<lparr>os_calls := [?first, (''b'', ''c'', CallSubmit ?out)]\<rparr>"] in
        \<open>simp add: origin_run_defs sample_defs\<close>)
  show ?thesis
    by (rule origin_reachable.step [OF r3])
      (use origin_step.concluded [of 0 ?s3 "sample_run ''b'' True (Executed (Inr ?out))" ?out sample_job
          sample_origin_sink Up] in \<open>simp add: sample_end_def origin_run_defs sample_defs\<close>)
qed

lemma verdicts_mem:
  "EvConfirmed c \<in> set evs \<Longrightarrow> VdConfirmed c \<in> set (verdicts evs)"
  "EvFailed f \<in> set evs \<Longrightarrow> VdFailed f \<in> set (verdicts evs)"
  by (force simp: verdicts_def List.map_filter_def image_iff)+

text \<open>
  C21 (verdict_is_proof). A verdict in an origin's history is evidence, not a claim: at every reachable state,
  a confirmation of a job carries an output that \<open>submit\<close> returned or \<open>reconcile\<close> reported for that very job,
  a rejection carries the terminal error one of them returned, and a dead letter names exhausted retries
  with the error chain of a transient failure one of them returned.
\<close>

theorem verdict_is_proof:
  assumes "event_sink_contract (origin_entity jd) sink" and "origin_reachable sink jd tr config s"
  shows "(\<forall>settled. EvConfirmed settled \<in> set (os_stream s) \<longrightarrow>
       produced (os_calls s) (so_job_id settled) (Inr (Done (so_output settled))))
    \<and> (\<forall>settled err. EvFailed settled \<in> set (os_stream s) \<longrightarrow> sf_failure settled = RejectedBy err \<longrightarrow>
       produced (os_calls s) (sf_job_id settled) (Inl (TerminalFailure err)))
    \<and> (\<forall>settled reason detail. EvFailed settled \<in> set (os_stream s) \<longrightarrow>
       sf_failure settled = DeadLettered reason detail \<longrightarrow> reason = RetriesExhausted
       \<and> (\<exists>err. produced (os_calls s) (sf_job_id settled) (Inl (TransientFailure err))
            \<and> detail = error_chain (jd_sources jd err)))"
proof -
  have "evidenced jd s" using origin_invariant [OF assms] by blast
  note ev = evidencedD(1) [OF this verdicts_mem(1)] evidencedD(1) [OF this verdicts_mem(2)]
  show ?thesis using ev(1) ev(2) by (intro conjI allI impI) force+
qed

theorem verdict_is_proof_witness:
  "\<exists>s. sample_reachable s \<and> EvConfirmed sample_confirmation \<in> set (os_stream s)
     \<and> produced (os_calls s) ''b'' (Inr (Done ''ok''))"
  using verdict_is_proof [OF sample_origin_contract sample_second] sample_second
  by (intro exI [of _ sample_end]) (auto simp: sample_end_def sample_confirmation_def)

text \<open>
  C23 (in_flight_never_forgotten). No dispatch is silently lost: at every reachable state, a job its origin
  still shows in flight is in the queue, or it was dead-lettered for exhausted retries, an exhausted claim
  budget or an undecodable payload. A worker that is about to acknowledge a success or a rejection does so
  only after the verdict is in the origin's history.
\<close>

theorem in_flight_never_forgotten:
  assumes "event_sink_contract (origin_entity jd) sink" and "origin_reachable sink jd tr config s"
  shows "(cell_read (os_stream s) = InFlight j \<longrightarrow> j \<in> fst ` set (os_queue s) \<or> j \<in> set (os_dead s))
    \<and> (e \<in> set (os_running s) \<and> (en_stage e = Concluded (Inr (Done ()))
          \<or> (\<exists>err. en_stage e = Concluded (Inl (TerminalFailure err))))
        \<longrightarrow> settled_in (os_stream s) (cx_job_id (en_ctx e)))"
  using origin_invariant [OF assms] trackedD [of s] by (auto simp: final_result_def)

theorem in_flight_never_forgotten_witness:
  "\<exists>s e. sample_reachable s \<and> e \<in> set (os_running s) \<and> en_stage e = Concluded (Inr (Done ()))
     \<and> settled_in (os_stream s) (cx_job_id (en_ctx e))"
  using in_flight_never_forgotten [OF sample_origin_contract sample_second,
      where e = "sample_run ''b'' True (Concluded (Inr (Done ())))"] sample_second
  by (intro exI [of _ sample_end] exI [of _ "sample_run ''b'' True (Concluded (Inr (Done ())))"])
    (auto simp: sample_end_def sample_run_def)

text \<open>
  C22 (blind_submit_at_most_once). However executions of a job overlap between their calls, crash and repeat, its external
  call is made at most once without authorisation. The calls made under one claim are none, a submission, a
  reconciliation, or a reconciliation that answered \<open>NotSubmitted\<close> followed by one submission; at most one
  claim of the job ever submitted without reconciling first; and no call was made before the job's first claim.
\<close>

theorem blind_submit_at_most_once:
  assumes "event_sink_contract (origin_entity jd) sink" and "origin_reachable sink jd tr config s"
  shows "calls_routed (calls_of (os_calls s) j c)
    \<and> (submits_blindly (calls_of (os_calls s) j c) \<and> submits_blindly (calls_of (os_calls s) j c') \<longrightarrow> c = c')
    \<and> (calls_of (os_calls s) j c \<noteq> [] \<longrightarrow> 0 < os_claims s j)"
proof -
  have ok: "authorised s" using origin_invariant [OF assms] by blast
  have "0 < os_claims s j" if "calls_of (os_calls s) j c \<noteq> []"
    using calls_of_used [OF that] authorisedD(4) [OF ok] by fastforce
  then show ?thesis
    using authorisedD(5) [OF ok] authorisedD(6) [OF ok, of j c c'] by (auto simp: may_submit_blindly_def)
qed

theorem blind_submit_at_most_once_witness:
  "\<exists>s. sample_reachable s \<and> submits_blindly (calls_of (os_calls s) ''b'' ''c'')
     \<and> \<not> submits_blindly (calls_of (os_calls s) ''b'' ''c2'')"
proof -
  have b: "submits_blindly (calls_of (os_calls sample_end) ''b'' ''c'')" by (simp add: sample_end_def calls_of_def)
  then show ?thesis
    using blind_submit_at_most_once [OF sample_origin_contract sample_second, of "''b''" "''c2''" "''c''"] sample_second
    by (intro exI [of _ sample_end]) simp
qed

text \<open>
  C24 (superseded_job_never_settles). Take a job whose acknowledgement was lost, while its origin
  dispatched another job that confirmed. From then on no verdict of the job reaches the origin: whatever an execution of it
  arrives at, over a link in any state, the origin's history no longer changes, and the worker neither completes the job nor kills
  it as rejected. A success or a rejection is deferred by the delivery policy and rescheduled without counting an attempt, so the
  job is executed again and again; only transient failures count, and only they can end it, as dead for exhausted
  retries.
\<close>

theorem superseded_job_never_settles:
  fixes s :: "('j, 'o, 'e, 'x) origin_sys"
  assumes "event_sink_contract (origin_entity jd) sink" and "origin_reachable sink jd tr config s"
    and "cell_read (os_stream s) = Confirmed c" and "so_job_id c \<noteq> cx_job_id ctx"
    and "(origin_step sink jd tr config)\<^sup>*\<^sup>* s s'"
  shows "os_stream s' = os_stream s
    \<and> (\<exists>r. Dispatch.conclude (on_origin jd) (deliver (origin_send sink jd link) Deliver) job ctx out s' = (r, s')
        \<and> ack_plan (exec_result jd r) =
             (case out of
                Inl (TransientFailure err) \<Rightarrow> AckFailed (error_chain (''transient job failure'' # jd_sources jd err))
              | Inr (Defer delay) \<Rightarrow> AckDeferred delay
              | _ \<Rightarrow> AckDeferred (if link = Down then dl_retry_delay (cx_delivery ctx) else dl_refused_backoff (cx_delivery ctx)))
        \<and> (\<forall>command. ack_command tr' config' now_ns ctx (ack_plan (exec_result jd r)) = Some command \<longrightarrow>
             (case out of
                Inl (TransientFailure err) \<Rightarrow>
                  (\<exists>run_at detail. command = CmdRetrySchedule (cx_claim_id ctx) run_at (cx_attempt ctx + 1) detail)
                  \<or> (\<exists>detail. command = CmdKill (cx_claim_id ctx) RetriesExhausted detail
                       \<and> wk_max_attempts config' \<le> cx_attempt ctx + 1)
              | _ \<Rightarrow> \<exists>run_at. command = CmdReschedule (cx_claim_id ctx) run_at)))"
proof -
  have "history_ok s" using origin_invariant [OF assms(1,2)] by blast
  then have s': "os_stream s' = os_stream s" "history_ok s'"
    using confirmed_forever [OF assms(1,3,5)] by blast+
  have ref: "settle (cell_read (os_stream s')) v =
      (Inl OutcomeMismatch :: dispatch_refused + ('j, 'o, 'e) dispatch_event list)" if "outcome_verdict jd ctx out = Some v" for v
    using settle_verdict_cell [of "VdConfirmed c" v] assms(3,4) outcome_verdict_id [OF that] by (simp add: s'(1))
  note con = refused_conclusion [OF assms(1) history_okD(1) [OF s'(2)], where ctx = ctx and out = out, OF ref, where link = link and job = job]
  show ?thesis
    by (cases "(jd, ctx, out)" rule: outcome_verdict.cases) (use s'(1) con in \<open>auto simp: Let_def split: if_splits\<close>)
qed

theorem superseded_job_never_settles_witness:
  "\<exists>s c r. sample_reachable s \<and> cell_read (os_stream s) = Confirmed c \<and> (''a'', False) \<in> set (os_queue s)
     \<and> Dispatch.conclude (on_origin sample_job) (deliver (origin_send sample_origin_sink sample_job Up) Deliver) False
         (sample_run_ctx ''a'' 5) (Inl (TerminalFailure ''no'')) s = (r, s)
     \<and> ack_command (\<lambda>_. True) sample_config 0 (sample_run_ctx ''a'' 5) (ack_plan (exec_result sample_job r)) =
         Some (CmdReschedule ''c'' 300000)"
proof -
  have c: "cell_read (os_stream sample_end) = Confirmed sample_confirmation"
      "so_job_id sample_confirmation \<noteq> cx_job_id (sample_run_ctx ''a'' 5)"
    by (simp_all add: sample_end_def cell_read_def sample_confirmation_def sample_run_ctx_def)
  obtain r where "Dispatch.conclude (on_origin sample_job)
      (deliver (origin_send sample_origin_sink sample_job Up) Deliver) False
      (sample_run_ctx ''a'' 5) (Inl (TerminalFailure ''no'')) sample_end = (r, sample_end)"
    "ack_plan (exec_result sample_job r) = AckDeferred (300 * 1000000000)"
    using superseded_job_never_settles [OF sample_origin_contract sample_second c rtranclp.rtrancl_refl,
      where link = Up and job = False and tr' = "\<lambda>_. True" and now_ns = 0 and config' = sample_config and out = "Inl (TerminalFailure ''no'')"]
    by (auto simp: sample_run_ctx_def default_delivery_policy_def)
  then show ?thesis
    using c sample_second
    by (intro exI [of _ sample_end] exI [of _ sample_confirmation] exI [of _ r])
      (simp add: sample_end_def sample_run_ctx_def add_instant_def lease_delta_def I64_MAX_def)
qed

end
