(* ===== verification/Dependency.thy ===== *)
theory Dependency
  imports Reactor Lifecycle
begin

text \<open>
  How an entity's events reach a reactor. The event union of a dependency list and its chain of handlers,
  \<open>dependency.rs\<close>; the \<open>inject\<close> functions the \<open>deps!\<close> and \<open>register_entities!\<close> macros generate; the bridge that feeds
  committed events to a reactor, \<open>ReactorBridge\<close> of \<open>lifecycle.rs\<close>; the harness and the spy of \<open>testing.rs\<close>. Shows that
  a chain of handlers is total on its union, that an injected event runs the handler of its own entity and no
  other, and that the bridge delivers every event in order whatever the reactor returned for the earlier ones.

  The Rust types nest, \<open>OneOf<A, OneOf<B, Never>>\<close>; HOL has one type of unions over the ids and events of all
  entities, and \<open>fits n\<close> says which of its values inhabit the union of \<open>n\<close> entities. \<open>Never\<close> is the union of none. A
  future is a function on the state it changes, run when it is awaited.
\<close>

section \<open>The event union\<close>

datatype ('i, 'e) one_of = Here 'i 'e | There "('i, 'e) one_of"

fun fits :: "nat \<Rightarrow> ('i, 'e) one_of \<Rightarrow> bool" where
  "fits 0 u = False"
| "fits (Suc n) (Here i e) = True"
| "fits (Suc n) (There u) = fits n u"

datatype ('t, 'i, 'e) fold_state = FoldDone 't | Remaining "('i, 'e) one_of"

fun one_of_on :: "('i, 'e) one_of \<Rightarrow> ('i \<Rightarrow> 'e \<Rightarrow> 't) \<Rightarrow> ('t, 'i, 'e) fold_state" where
  "one_of_on (Here i e) handler = FoldDone (handler i e)"
| "one_of_on (There tail) handler = Remaining tail"

fun fold_on :: "('t, 'i, 'e) fold_state \<Rightarrow> ('i \<Rightarrow> 'e \<Rightarrow> 't) \<Rightarrow> ('t, 'i, 'e) fold_state" where
  "fold_on (FoldDone fut) handler = FoldDone fut"
| "fold_on (Remaining (Here i e)) handler = FoldDone (handler i e)"
| "fold_on (Remaining (There tail)) handler = Remaining tail"

text \<open>The future of the two \<open>on_with_fallback\<close>: the fallback sees the error, the id and the event.\<close>

definition with_fallback ::
  "('i \<Rightarrow> 'e \<Rightarrow> 'st \<Rightarrow> ('err + 'o) \<times> 'st) \<Rightarrow> ('err \<Rightarrow> 'i \<Rightarrow> 'e \<Rightarrow> 'st \<Rightarrow> ('err + 'o) \<times> 'st) \<Rightarrow> 'i \<Rightarrow> 'e \<Rightarrow> 'st \<Rightarrow> ('err + 'o) \<times> 'st" where
  "with_fallback handler fallback i e st =
     (case handler i e st of
        (Inr ok, st') \<Rightarrow> (Inr ok, st')
      | (Inl error, st') \<Rightarrow> fallback error i e st')"

fun one_of_on_with_fallback where
  "one_of_on_with_fallback (Here i e) handler fallback = FoldDone (with_fallback handler fallback i e)"
| "one_of_on_with_fallback (There tail) handler fallback = Remaining tail"

fun fold_on_with_fallback where
  "fold_on_with_fallback (FoldDone fut) handler fallback = FoldDone fut"
| "fold_on_with_fallback (Remaining (Here i e)) handler fallback = FoldDone (with_fallback handler fallback i e)"
| "fold_on_with_fallback (Remaining (There tail)) handler fallback = Remaining tail"

text \<open>
  \<open>exhaustive\<close> and \<open>into_inner\<close> match an empty type in the other case: \<open>None\<close> marks a value that the Rust type does
  not have.
\<close>

fun exhaustive :: "('t, 'i, 'e) fold_state \<Rightarrow> 't option" where
  "exhaustive (FoldDone result) = Some result"
| "exhaustive (Remaining never) = None"

fun into_inner :: "('i, 'e) one_of \<Rightarrow> ('i \<times> 'e) option" where
  "into_inner (Here i e) = Some (i, e)"
| "into_inner (There never) = None"

text \<open>A \<open>react\<close> method is a chain of \<open>on\<close> and \<open>on_with_fallback\<close>, closed by \<open>exhaustive\<close>.\<close>

datatype ('i, 'e, 'st, 'o, 'err) chain_step =
    On "'i \<Rightarrow> 'e \<Rightarrow> 'st \<Rightarrow> ('err + 'o) \<times> 'st"
  | OnWithFallback "'i \<Rightarrow> 'e \<Rightarrow> 'st \<Rightarrow> ('err + 'o) \<times> 'st" "'err \<Rightarrow> 'i \<Rightarrow> 'e \<Rightarrow> 'st \<Rightarrow> ('err + 'o) \<times> 'st"

fun chain_first where
  "chain_first (On handler) u = one_of_on u handler"
| "chain_first (OnWithFallback handler fallback) u = one_of_on_with_fallback u handler fallback"

fun chain_next where
  "chain_next (On handler) acc = fold_on acc handler"
| "chain_next (OnWithFallback handler fallback) acc = fold_on_with_fallback acc handler fallback"

fun react_chain ::
  "('i, 'e, 'st, 'o, 'err) chain_step list \<Rightarrow> ('i, 'e) one_of \<Rightarrow> ('st \<Rightarrow> ('err + 'o) \<times> 'st) option" where
  "react_chain [] u = None"
| "react_chain (first # rest) u = exhaustive (fold chain_next rest (chain_first first u))"

definition chain_react ::
  "('i, 'e, 'st, unit, 'err) chain_step list \<Rightarrow> ('i, 'e) one_of \<Rightarrow> 'st \<Rightarrow> ('err + unit) \<times> 'st" where
  "chain_react steps u st = (case react_chain steps u of Some fut \<Rightarrow> fut st | None \<Rightarrow> (Inr (), st))"

section \<open>Injection\<close>

text \<open>\<open>register_entities!(@wrap ...)\<close> and \<open>register_entities!(@impls ...)\<close>: the generated \<open>HasEntity\<close> impls, by entity.\<close>

fun reg_wrap :: "'t list \<Rightarrow> ('i, 'e) one_of \<Rightarrow> ('i, 'e) one_of" where
  "reg_wrap [] u = u"
| "reg_wrap (head # rest) u = There (reg_wrap rest u)"

fun reg_impls :: "'t list \<Rightarrow> 't list \<Rightarrow> ('t \<times> ('i \<Rightarrow> 'e \<Rightarrow> ('i, 'e) one_of)) list" where
  "reg_impls [] seen = []"
| "reg_impls (current # rest) seen =
     (current, \<lambda>i e. reg_wrap seen (Here i e)) # reg_impls rest (seen @ [current])"

text \<open>
  The impls in scope for a dependency list: the blanket one of \<open>Cons<Entity, Nil>\<close>, and what \<open>deps!\<close> registers for
  more than one entity. \<open>inject\<close> is the impl the trait bound selects, \<open>None\<close> where the bound does not hold.
\<close>

fun register_entities :: "'t list \<Rightarrow> ('t \<times> ('i \<Rightarrow> 'e \<Rightarrow> ('i, 'e) one_of)) list" where
  "register_entities [single] = []"
| "register_entities entities = reg_impls entities []"

fun blanket_impl :: "'t list \<Rightarrow> ('t \<times> ('i \<Rightarrow> 'e \<Rightarrow> ('i, 'e) one_of)) list" where
  "blanket_impl [single] = [(single, Here)]"
| "blanket_impl entities = []"

definition inject :: "'t list \<Rightarrow> 't \<Rightarrow> ('i \<Rightarrow> 'e \<Rightarrow> ('i, 'e) one_of) option" where
  "inject entities entity = map_of (blanket_impl entities @ register_entities entities) entity"

section \<open>The reactor bridge\<close>

text \<open>
  \<open>ReactorBridge::dispatch\<close>: an aggregate id that does not parse skips all events; the error of one event is
  logged and the loop goes on.
\<close>

fun bridge_events ::
  "(('i, 'e) one_of \<Rightarrow> 'st \<Rightarrow> ('err + unit) \<times> 'st) \<Rightarrow> ('i \<Rightarrow> 'e \<Rightarrow> ('i, 'e) one_of) \<Rightarrow> 'i \<Rightarrow> 'e list \<Rightarrow> 'st \<Rightarrow> 'st" where
  "bridge_events react injector typed_id [] st = st"
| "bridge_events react injector typed_id (payload # rest) st =
     (case react (injector typed_id payload) st of
        (Inl error, st') \<Rightarrow> bridge_events react injector typed_id rest st'
      | (Inr _, st') \<Rightarrow> bridge_events react injector typed_id rest st')"

definition bridge_dispatch ::
  "(string \<Rightarrow> 'i option) \<Rightarrow> (('i, 'e) one_of \<Rightarrow> 'st \<Rightarrow> ('err + unit) \<times> 'st) \<Rightarrow> ('i \<Rightarrow> 'e \<Rightarrow> ('i, 'e) one_of) \<Rightarrow> string
     \<Rightarrow> 'e list \<Rightarrow> 'st \<Rightarrow> 'st" where
  "bridge_dispatch parse react injector aggregate_id envelopes st =
     (case parse aggregate_id of
        None \<Rightarrow> st
      | Some typed_id \<Rightarrow> bridge_events react injector typed_id envelopes st)"

text \<open>\<open>RetryOnBusy\<close> around a reactor, without the delays it sleeps.\<close>

definition retrying ::
  "('u \<Rightarrow> 'st \<Rightarrow> ('err + unit) \<times> 'st) \<Rightarrow> ('err \<Rightarrow> bool) \<Rightarrow> 'u \<Rightarrow> 'st \<Rightarrow> ('err + unit) \<times> 'st" where
  "retrying react is_retryable u st = (case retry_on_busy (react u) is_retryable st of (r, _, st') \<Rightarrow> (r, st'))"

section \<open>Test support\<close>

text \<open>\<open>ReactorHarness::receive\<close>, and \<open>SpyReactor\<close>, whose state is its log; it never fails.\<close>

definition harness_receive ::
  "(('i, 'e) one_of \<Rightarrow> 'st \<Rightarrow> ('err + unit) \<times> 'st) \<Rightarrow> ('i \<Rightarrow> 'e \<Rightarrow> ('i, 'e) one_of) \<Rightarrow> 'i \<Rightarrow> 'e \<Rightarrow> 'st \<Rightarrow> ('err + unit) \<times> 'st" where
  "harness_receive react injector i e = react (injector i e)"

definition spy_react :: "('i, 'e) one_of \<Rightarrow> ('i \<times> 'e) list \<Rightarrow> ('err + unit) \<times> ('i \<times> 'e) list" where
  "spy_react u log = (case into_inner u of Some pair \<Rightarrow> (Inr (), log @ [pair]) | None \<Rightarrow> (Inr (), log))"

text \<open>\<open>replay\<close> and \<open>TestHarness\<close>: the harness holds the given events and handles one command in a fresh pending scope.\<close>

definition testing_replay ::
  "('s, 'c, 'e, 'err) event_sourced \<Rightarrow> 'e list \<Rightarrow> ('s, 'e, 'err) lifecycle_error + 's option" where
  "testing_replay es evs = into_result (replay es Uninitialized evs)"

definition harness_when ::
  "('s, 'e, 'err) sink_write \<Rightarrow> ('s, 'c, 'e, 'err) event_sourced \<Rightarrow> 'e list \<Rightarrow> 'c \<Rightarrow> ('s, 'e, 'err) lifecycle_error + 'e list" where
  "harness_when sink es given command = snd (Lifecycle.handle sink es (replay es Uninitialized given) command (Some []))"

text \<open>The assertions of \<open>TestResult\<close>: \<open>None\<close> is the panic.\<close>

definition then_expect_events :: "'e list \<Rightarrow> 'err + 'e list \<Rightarrow> unit option" where
  "then_expect_events expected result = (case result of Inl _ \<Rightarrow> None | Inr evs \<Rightarrow> if evs = expected then Some () else None)"

definition then_expect_no_events :: "'err + 'e list \<Rightarrow> unit option" where
  "then_expect_no_events result = (case result of Inl _ \<Rightarrow> None | Inr evs \<Rightarrow> if evs = [] then Some () else None)"

definition then_expect_error :: "'err + 'e list \<Rightarrow> 'err option" where
  "then_expect_error result = (case result of Inl error \<Rightarrow> Some error | Inr _ \<Rightarrow> None)"

section \<open>Handler chains\<close>

text \<open>The value \<open>k\<close> entities deep, and what a step does with the pair it is handed.\<close>

definition nested :: "nat \<Rightarrow> 'i \<Rightarrow> 'e \<Rightarrow> ('i, 'e) one_of" where
  "nested k i e = (There ^^ k) (Here i e)"

fun run_step where
  "run_step (On handler) = handler"
| "run_step (OnWithFallback handler fallback) = with_fallback handler fallback"

lemma nested_simps [simp]: "nested 0 i e = Here i e" "nested (Suc k) i e = There (nested k i e)"
  by (simp_all add: nested_def)

lemma fits_iff_nested: "fits n u \<longleftrightarrow> (\<exists>k < n. \<exists>i e. u = nested k i e)"
proof (induction n u rule: fits.induct)
  case (2 n i e)
  then show ?case by (auto intro: exI [of _ 0])
next
  case (3 n u)
  have "There u = nested k i e \<longleftrightarrow> (\<exists>m. k = Suc m \<and> u = nested m i e)" for k i e by (cases k) auto
  then show ?case using 3 by auto
qed simp

lemma fold_chain_done: "fold chain_next steps (FoldDone fut) = FoldDone fut"
proof (induction steps)
  case (Cons step steps)
  then show ?case by (cases step) simp_all
qed simp

lemma fold_chain_remaining:
  "k < length steps \<Longrightarrow> fold chain_next steps (Remaining (nested k i e)) = FoldDone (run_step (steps ! k) i e)"
proof (induction steps arbitrary: k)
  case (Cons step steps)
  then show ?case by (cases k; cases step) (simp_all add: fold_chain_done)
qed simp

lemma react_chain_nested: "k < length steps \<Longrightarrow> react_chain steps (nested k i e) = Some (run_step (steps ! k) i e)"
proof (induction steps arbitrary: k)
  case (Cons step steps)
  then show ?case by (cases k; cases step) (simp_all add: fold_chain_done fold_chain_remaining)
qed simp

lemma fold_chain_short:
  "length steps \<le> n \<Longrightarrow> fold chain_next steps (Remaining (nested n i e)) = Remaining (nested (n - length steps) i e)"
proof (induction steps arbitrary: n)
  case (Cons step steps)
  then show ?case by (cases n; cases step) simp_all
qed simp

lemma react_chain_short: "react_chain steps (nested (length steps) i e) = None"
proof (cases steps)
  case (Cons step rest)
  then show ?thesis by (cases step) (simp_all add: fold_chain_short)
qed simp

section \<open>The interface of a dependency list\<close>

text \<open>What the bridge relies on: the entity at position \<open>k\<close> injects its events \<open>k\<close> deep, and only listed entities inject.\<close>

locale entity_list =
  fixes entities :: "'t list" and injector :: "'t \<Rightarrow> ('i \<Rightarrow> 'e \<Rightarrow> ('i, 'e) one_of) option"
  assumes inject_at: "distinct entities \<Longrightarrow> k < length entities \<Longrightarrow> injector (entities ! k) = Some (nested k)"
    and inject_only: "injector c = Some f \<Longrightarrow> c \<in> set entities"
begin

lemma inject_fits:
  assumes "distinct entities" and "injector c = Some f"
  shows "fits (length entities) (f i e)"
proof -
  obtain k where "k < length entities" "c = entities ! k" using inject_only [OF assms(2)] by (auto simp: in_set_conv_nth)
  then show ?thesis using inject_at [OF assms(1)] assms(2) by (auto simp: fits_iff_nested)
qed

lemma routed:
  assumes "distinct entities" and "k < length entities" and "length steps = length entities"
  shows "\<exists>f. injector (entities ! k) = Some f \<and> react_chain steps (f i e) = Some (run_step (steps ! k) i e)"
  using inject_at [OF assms(1,2)] react_chain_nested [of k steps i e] assms(2,3) by simp

end

lemma reg_wrap_nested: "reg_wrap seen (Here i e) = nested (length seen) i e"
  by (induction seen) simp_all

lemma reg_impls_map:
  "map fst (reg_impls entities seen) = entities"
  "k < length entities \<Longrightarrow> reg_impls entities seen ! k = (entities ! k, nested (length seen + k))"
proof (induction entities seen arbitrary: k rule: reg_impls.induct)
  case (2 current rest seen)
  { case 1 show ?case using 2 by simp
  next
    case 2 then show ?case using "2.IH"(2) by (cases k) (simp_all add: reg_wrap_nested fun_eq_iff) }
qed simp_all

lemma in_reg_impls: "(c, f) \<in> set (reg_impls entities seen) \<Longrightarrow> c \<in> set entities"
  by (induction entities seen rule: reg_impls.induct) auto

lemma reg_impls_at:
  assumes "distinct entities" and "k < length entities"
  shows "map_of (reg_impls entities []) (entities ! k) = Some (nested k)"
proof -
  have "length (reg_impls entities []) = length entities" using arg_cong [OF reg_impls_map(1), of length] by simp
  then have "(entities ! k, nested k) \<in> set (reg_impls entities [])"
    using reg_impls_map(2) [of k entities "[]"] assms(2) by (metis add_0 list.size(3) nth_mem)
  then show ?thesis using assms(1) by (simp add: map_of_eq_Some_iff reg_impls_map(1))
qed

interpretation deps: entity_list entities "inject entities"
  for entities
proof
  fix k
  assume "distinct entities" "k < length entities"
  then show "inject entities (entities ! k) = Some (nested k)"
    using reg_impls_at [of entities k]
    by (cases entities rule: register_entities.cases) (auto simp: inject_def fun_eq_iff)
next
  fix c f
  assume "inject entities c = Some f"
  then have "(c, f) \<in> set (blanket_impl entities @ register_entities entities)" unfolding inject_def by (rule map_of_SomeD)
  then show "c \<in> set entities" by (cases entities rule: register_entities.cases) (auto dest: in_reg_impls)
qed

section \<open>The bridge\<close>

lemma bridge_events_fold:
  "bridge_events react injector i evs st = fold (\<lambda>e st. snd (react (injector i e) st)) evs st"
  by (induction evs arbitrary: st) (auto split: prod.splits sum.splits)

lemma chain_react_nested: "k < length steps \<Longrightarrow> chain_react steps (nested k i e) = run_step (steps ! k) i e"
  by (simp add: fun_eq_iff chain_react_def react_chain_nested)

lemma handled_events_replay:
  assumes "event_sink_contract es sink" and "Lifecycle.handle sink es self command scope = (scope', Inr evs)" and "evs \<noteq> []"
  shows "\<exists>s. replay es self evs = Live s"
  using assms(2)
proof (cases rule: handle_cases)
  case (events decided)
  then show ?thesis using sink_events_Inr [OF assms(1), of self "[]" decided evs] assms(3) by simp
next
  case (dispatched ev p pending)
  then show ?thesis using sink_events_Inr [OF assms(1), of self "[]" "[ev]" evs] by simp
qed simp_all

lemma harness_events:
  assumes "event_sink_contract es sink" and "harness_when sink es given command = Inr evs" and "evs \<noteq> []"
  shows "\<exists>s. replay es Uninitialized (given @ evs) = Live s"
proof -
  obtain scope' where "Lifecycle.handle sink es (replay es Uninitialized given) command (Some []) = (scope', Inr evs)"
    using assms(2) by (cases "Lifecycle.handle sink es (replay es Uninitialized given) command (Some [])") (simp add: harness_when_def)
  then show ?thesis using handled_events_replay [OF assms(1)] assms(3) by simp
qed

lemma spy_logs: "bridge_events spy_react Here i evs log = log @ map (Pair i) evs"
  by (induction evs arbitrary: log) (simp_all add: spy_react_def)

section \<open>Properties\<close>

text \<open>
  C17 (reactor_bridge_exact). The events of an entity reach the reactor's handler for that entity and no other,
  each once and in order: for any dependency list and any reactor with one step per entity, the
  generated \<open>inject\<close> of the \<open>k\<close>-th entity exists, what it builds inhabits the list's union, and bridging a batch
  of events runs the \<open>k\<close>-th step on each in turn, going on after failures. An id that does not parse delivers nothing.
\<close>

theorem reactor_bridge_exact:
  assumes "distinct entities" and "k < length entities" and "length steps = length entities"
  shows "\<exists>f. inject entities (entities ! k) = Some f \<and> (\<forall>i e. fits (length entities) (f i e))
    \<and> bridge_dispatch parse (chain_react steps) f aggregate_id evs st =
        (case parse aggregate_id of
           None \<Rightarrow> st
         | Some i \<Rightarrow> fold (\<lambda>e st. snd (run_step (steps ! k) i e st)) evs st)"
proof -
  have "inject entities (entities ! k) = Some (nested k)" using deps.inject_at [OF assms(1,2)] .
  moreover have "fits (length entities) (nested k i e)" for i e using assms(2) by (auto simp: fits_iff_nested)
  ultimately show ?thesis
    using assms(2,3)
    by (auto simp: bridge_dispatch_def bridge_events_fold chain_react_nested split: option.splits)
qed

theorem reactor_bridge_exact_witness:
  "\<exists>f. inject [''Order'', ''Stock''] ''Stock'' = Some f
     \<and> bridge_dispatch Some (chain_react [On (\<lambda>i e st. (Inr (), st @ [(i, 0)])), On (\<lambda>i e st. (Inl e, st @ [(i, e + 1)]))]) f ''a'' [1, 2] []
         = [(''a'', 2), (''a'', 3 :: nat)]"
proof -
  let ?steps = "[On (\<lambda>i e st. (Inr (), st @ [(i, 0)])), On (\<lambda>i e st. (Inl e, st @ [(i, e + 1)]))]
      :: (string, nat, (string \<times> nat) list, unit, nat) chain_step list"
  show ?thesis
    using reactor_bridge_exact [of "[''Order'', ''Stock'']" 1 ?steps Some "''a''" "[1, 2]" "[]"] by auto
qed

text \<open>
  A chain with a step for every entity of its union is total: every value of the union runs
  exactly the step of its position with its own id and event, so the \<open>exhaustive\<close> at the end of the chain
  never meets a remaining value; a chain that is one step short leaves some value of the union unhandled.
\<close>

theorem chain_total:
  "(\<forall>u. fits (length steps) u \<longrightarrow> (\<exists>k < length steps. \<exists>i e. u = nested k i e \<and> react_chain steps u = Some (run_step (steps ! k) i e)))
   \<and> react_chain steps (nested (length steps) i e) = None"
proof
  show "\<forall>u. fits (length steps) u \<longrightarrow> (\<exists>k < length steps. \<exists>i e. u = nested k i e \<and> react_chain steps u = Some (run_step (steps ! k) i e))"
    using react_chain_nested by (fastforce simp: fits_iff_nested)
  show "react_chain steps (nested (length steps) i e) = None" by (rule react_chain_short)
qed

definition sample_steps :: "(string, nat, nat, unit, nat) chain_step list" where
  "sample_steps = [On (\<lambda>i e st. (Inr (), st + e))]"

theorem chain_total_witness:
  "fits (length sample_steps) (Here ''a'' (3 :: nat)) \<and> (\<exists>fut. react_chain sample_steps (Here ''a'' (3 :: nat)) = Some fut)"
proof -
  have "fits (length sample_steps) (Here ''a'' (3 :: nat))" by (simp add: sample_steps_def)
  then show ?thesis using chain_total [of sample_steps] by blast
qed

text \<open>
  The given-when-then harness tells the truth about the aggregate: a history
  that does not replay makes every command fail with the very error \<open>replay\<close> reports, and events a command was
  allowed to emit always replay, after the given ones, to a live entity.
\<close>

theorem harness_agrees_with_replay:
  assumes "event_sink_contract es sink"
  shows "case testing_replay es given of
      Inl error \<Rightarrow> harness_when sink es given command = Inl error
    | Inr _ \<Rightarrow> \<forall>evs. harness_when sink es given command = Inr evs \<and> evs \<noteq> []
        \<longrightarrow> (\<exists>entity. testing_replay es (given @ evs) = Inr (Some entity))"
proof (cases "replay es Uninitialized given")
  case (Failed error lv)
  then show ?thesis by (simp add: testing_replay_def harness_when_def Lifecycle.handle_def decide_def)
qed (use harness_events [OF assms, of given command] in \<open>auto simp: testing_replay_def simp del: replay_append\<close>)

theorem harness_agrees_with_replay_witness:
  "harness_when sample_write sample_counter [0] 2 = Inr [2] \<and> (\<exists>entity. testing_replay sample_counter ([0] @ [2]) = Inr (Some entity))"
proof -
  have "harness_when sample_write sample_counter [0] 2 = Inr [2]"
    by (simp add: harness_when_def Lifecycle.handle_def decide_def sample_counter_def sample_write_def)
  moreover have "testing_replay sample_counter [0] = Inr (Some 0)" by (simp add: testing_replay_def sample_counter_def)
  ultimately show ?thesis using harness_agrees_with_replay [OF sample_write_contract, of "[0]" 2] by simp
qed

end
