(* ===== verification/Store.thy ===== *)
theory Store
  imports Dependency Job_Backend
begin

text \<open>
  The front door of the crate: \<open>Store::send\<close>, \<open>Store::load\<close>, \<open>send_command\<close> and \<open>load_entity\<close> of \<open>lib.rs\<close>, the pending scope of
  \<open>job.rs\<close> they open, and the registration of reactors in \<open>wire.rs\<close>. Shows what one command does to the whole system:
  events, dispatched jobs and reactors together.

  \<open>CqrsFramework::execute\<close> and \<open>PersistedEventStore::load_aggregate\<close> of cqrs-es are parameters; \<open>execute_contract\<close> is the documented
  behaviour of the first over the second. The state is the database and that of the reactors.
\<close>

section \<open>Operations\<close>

type_synonym ('c, 'le, 'r) execute_fn =
  "string \<Rightarrow> 'c \<Rightarrow> pending_scope \<Rightarrow> db \<times> 'r \<Rightarrow> ('le aggregate_error + unit) \<times> pending_scope \<times> db \<times> 'r"

type_synonym ('s, 'e, 'err) load_fn =
  "string \<Rightarrow> db \<Rightarrow> ('s, 'e, 'err) lifecycle_error aggregate_error + ('s, 'e, 'err) lifecycle"

text \<open>\<open>PENDING_JOBS.scope(Vec::new(), ...)\<close>: what is still buffered at the end is dropped with the scope.\<close>

definition with_pending_scope :: "(pending_scope \<Rightarrow> 'st \<Rightarrow> 'o \<times> pending_scope \<times> 'st) \<Rightarrow> 'st \<Rightarrow> 'o \<times> 'st" where
  "with_pending_scope command_execution st =
     (case command_execution (Some []) st of (output, _, st') \<Rightarrow> (output, st'))"

definition store_send ::
  "('c, 'le, 'r) execute_fn \<Rightarrow> ('i \<Rightarrow> string) \<Rightarrow> 'i \<Rightarrow> 'c \<Rightarrow> db \<times> 'r \<Rightarrow> ('le aggregate_error + unit) \<times> db \<times> 'r" where
  "store_send execute to_string i command = with_pending_scope (execute (to_string i) command)"

definition store_load ::
  "('s, 'e, 'err) load_fn \<Rightarrow> ('i \<Rightarrow> string) \<Rightarrow> 'i \<Rightarrow> db \<Rightarrow> ('s, 'e, 'err) lifecycle_error aggregate_error + 's option" where
  "store_load load_aggregate to_string i d =
     bind_result (load_aggregate (to_string i) d) (\<lambda>aggregate. map_err UserError (into_result aggregate))"

definition load_entity ::
  "('s, 'e, 'err) load_fn \<Rightarrow> ('i \<Rightarrow> string) \<Rightarrow> 'i \<Rightarrow> db \<Rightarrow> ('s, 'e, 'err) lifecycle_error aggregate_error + 's option" where
  "load_entity load_aggregate to_string i d =
     bind_result (load_aggregate (to_string i) d) (\<lambda>aggregate. map_err UserError (into_result aggregate))"

text \<open>A query processor sees the aggregate id and the committed events.\<close>

type_synonym ('e, 'r) query = "string \<Rightarrow> 'e list \<Rightarrow> 'r \<Rightarrow> 'r"

text \<open>\<open>send_command\<close> builds a framework without query processors; \<open>framework\<close> is \<open>CqrsFramework::new\<close> over the store.\<close>

definition send_command ::
  "(('e, 'r) query list \<Rightarrow> ('c, 'le, 'r) execute_fn) \<Rightarrow> ('i \<Rightarrow> string) \<Rightarrow> 'i \<Rightarrow> 'c \<Rightarrow> db \<times> 'r \<Rightarrow> ('le aggregate_error + unit) \<times> db \<times> 'r" where
  "send_command framework to_string i command = with_pending_scope (framework [] (to_string i) command)"

record ('e, 'r) store_builder =
  sb_queries :: "('e, 'r) query list"

definition with_backend :: "('e, 'r) store_builder" where
  "with_backend = \<lparr>sb_queries = []\<rparr>"

definition with_reactor ::
  "(string \<Rightarrow> 'i option) \<Rightarrow> (('i, 'e) one_of \<Rightarrow> 'r \<Rightarrow> ('rerr + unit) \<times> 'r) \<times> ('i \<Rightarrow> 'e \<Rightarrow> ('i, 'e) one_of)
     \<Rightarrow> ('e, 'r) store_builder \<Rightarrow> ('e, 'r) store_builder" where
  "with_reactor parse reactor sb =
     sb\<lparr>sb_queries := sb_queries sb @ [bridge_dispatch parse (fst reactor) (snd reactor)]\<rparr>"

section \<open>The contract of the framework\<close>

text \<open>
  \<open>execute\<close> loads the aggregate, handles the command in the scope it runs in, commits the events through the
  repository, and dispatches what was committed to the query processors in the order of registration. An error
  ends it before any query runs. Nothing is promised of a command without events.
\<close>

definition persisted_as ::
  "('le aggregate_error + unit) \<times> pending_scope \<times> db \<times> 'r \<Rightarrow> 'r \<Rightarrow> db \<times> 'r \<Rightarrow> pending_scope \<times> (persistence_error + db) \<Rightarrow> bool" where
  "persisted_as executed after st persisted =
     (case persisted of
        (scope, Inl e) \<Rightarrow> (\<exists>err. executed = (Inl err, scope, st))
      | (scope, Inr d') \<Rightarrow> executed = (Inr (), scope, d', after))"

definition execute_contract ::
  "(int \<Rightarrow> bool) \<Rightarrow> ('s, 'e, 'err) sink_write \<Rightarrow> ('s, 'c, 'e, 'err) event_sourced \<Rightarrow> (string \<Rightarrow> nat \<Rightarrow> 'e list \<Rightarrow> serialized_event list)
     \<Rightarrow> ('s, 'e, 'err) load_fn \<Rightarrow> ('e, 'r) query list \<Rightarrow> ('c, ('s, 'e, 'err) lifecycle_error, 'r) execute_fn \<Rightarrow> bool" where
  "execute_contract tr sink es wrap load_aggregate queries execute \<longleftrightarrow>
     (\<forall>j command scope d r.
        case load_aggregate j d of
          Inl e \<Rightarrow> execute j command scope (d, r) = (Inl e, scope, d, r)
        | Inr aggregate \<Rightarrow>
            (case Lifecycle.handle sink es aggregate command scope of
               (scope', Inl e) \<Rightarrow> execute j command scope (d, r) = (Inl (UserError e), scope', d, r)
             | (scope', Inr evs) \<Rightarrow> evs \<noteq> [] \<longrightarrow>
                 (\<exists>now_ns n su. persisted_as (execute j command scope (d, r)) (fold (\<lambda>query. query j evs) queries r) (d, r)
                    (repo_persist tr now_ns (es_aggregate_type es) (wrap j n evs) su scope' d))))"

lemma execute_contractD:
  assumes "execute_contract tr sink es wrap load_aggregate queries execute"
  shows "load_aggregate j d = Inl e \<Longrightarrow> execute j command scope (d, r) = (Inl e, scope, d, r)"
    and "load_aggregate j d = Inr l \<Longrightarrow> Lifecycle.handle sink es l command scope = (scope', Inl e') \<Longrightarrow>
      execute j command scope (d, r) = (Inl (UserError e'), scope', d, r)"
    and "load_aggregate j d = Inr l \<Longrightarrow> Lifecycle.handle sink es l command scope = (scope', Inr evs) \<Longrightarrow> evs \<noteq> [] \<Longrightarrow>
      \<exists>now_ns n su. persisted_as (execute j command scope (d, r)) (fold (\<lambda>query. query j evs) queries r) (d, r)
        (repo_persist tr now_ns (es_aggregate_type es) (wrap j n evs) su scope' d)"
  using assms [unfolded execute_contract_def, THEN spec [of _ j], THEN spec [of _ command], THEN spec [of _ scope],
      THEN spec [of _ d], THEN spec [of _ r]] by auto

section \<open>One command\<close>

text \<open>What a command leaves behind when it succeeds with events: the jobs it dispatched are in the same commit.\<close>

definition pushes_of :: "('s, 'e, 'err) lifecycle_error + 'e effect \<Rightarrow> pending_push list" where
  "pushes_of decision = (case decision of Inr (Dispatch event push) \<Rightarrow> [push] | _ \<Rightarrow> [])"

definition committed_with :: "pending_push list \<Rightarrow> serialized_event list \<Rightarrow> db \<Rightarrow> db \<Rightarrow> bool" where
  "committed_with pushes evs d d' \<longleftrightarrow>
     (\<exists>requests. list_all2 (\<lambda>push r. eq_job_id r = pp_job_id push \<and> eq_kind r = pp_kind push
          \<and> Some (eq_payload r) = pp_encode push) pushes requests
        \<and> events d' = events d @ map event_row_of (evs @ map enqueued_of requests)
        \<and> job_queue d' = job_queue d @ map seed_row requests)"

lemma handle_scope:
  assumes "Lifecycle.handle sink es self command (Some []) = (scope', Inr evs)"
  shows "scope' = Some (pushes_of (decide es self command))"
  using assms by (cases rule: handle_cases) (auto simp: pushes_of_def)

lemma persist_committed:
  assumes "repo_persist tr now_ns ty evs su (Some pushes) d = (scope', Inr d')"
  shows "committed_with pushes evs d d'"
  using repo_persist_effect [OF assms] by (auto simp: committed_with_def)

lemma builder_queries:
  "sb_queries (fold (with_reactor parse) reactors sb) = sb_queries sb @ map (\<lambda>(react, injector). bridge_dispatch parse react injector) reactors"
  by (induction reactors arbitrary: sb) (simp_all add: with_reactor_def case_prod_beta)

lemma reactors_run:
  assumes "parse j = Some i"
  shows "fold (\<lambda>query. query j evs) (map (\<lambda>(react, injector). bridge_dispatch parse react injector) reactors) r
    = fold (\<lambda>(react, injector). fold (\<lambda>e r. snd (react (injector i e) r)) evs) reactors r"
  using assms by (induction reactors arbitrary: r) (auto simp: bridge_dispatch_def bridge_events_fold)

lemma registered_run:
  assumes "parse j = Some i"
  shows "fold (\<lambda>query. query j evs) (sb_queries (fold (with_reactor parse) reactors with_backend)) r
    = fold (\<lambda>(react, injector). fold (\<lambda>e r. snd (react (injector i e) r)) evs) reactors r"
  unfolding builder_queries with_backend_def store_builder.select_convs append_Nil by (rule reactors_run [of parse j i, OF assms])

text \<open>The whole effect of a command on database and reactors.\<close>

definition command_effect ::
  "('s, 'c, 'e, 'err) event_sourced \<Rightarrow> (string \<Rightarrow> nat \<Rightarrow> 'e list \<Rightarrow> serialized_event list)
     \<Rightarrow> ((('i, 'e) one_of \<Rightarrow> 'r \<Rightarrow> ('rerr + unit) \<times> 'r) \<times> ('i \<Rightarrow> 'e \<Rightarrow> ('i, 'e) one_of)) list
     \<Rightarrow> string \<Rightarrow> 'i \<Rightarrow> 'c \<Rightarrow> ('s, 'e, 'err) lifecycle \<Rightarrow> 'e list \<Rightarrow> db \<times> 'r \<Rightarrow> db \<times> 'r \<Rightarrow> bool" where
  "command_effect es wrap reactors j i command l evs st st' \<longleftrightarrow>
     (\<exists>s. replay es l evs = Live s)
     \<and> (\<exists>n. committed_with (pushes_of (decide es l command)) (wrap j n evs) (fst st) (fst st'))
     \<and> snd st' = fold (\<lambda>(react, injector). fold (\<lambda>e r. snd (react (injector i e) r)) evs) reactors (snd st)"

lemma persisted_command:
  assumes sink: "event_sink_contract es sink" and j: "parse j = Some i"
    and h: "Lifecycle.handle sink es l command (Some []) = (scope', Inr evs)" and ne: "evs \<noteq> []"
    and p: "persisted_as (result, scope, d', r') (fold (\<lambda>query. query j evs) (sb_queries (fold (with_reactor parse) reactors with_backend)) r) (d, r)
      (repo_persist tr now_ns (es_aggregate_type es) (wrap j n evs) su scope' d)"
  shows "case result of Inl e \<Rightarrow> d' = d \<and> r' = r | Inr _ \<Rightarrow> command_effect es wrap reactors j i command l evs (d, r) (d', r')"
proof -
  obtain scope'' persisted where rp: "repo_persist tr now_ns (es_aggregate_type es) (wrap j n evs) su scope' d = (scope'', persisted)"
    by fastforce
  show ?thesis
  proof (cases persisted)
    case (Inl e)
    then show ?thesis using p rp by (auto simp: persisted_as_def)
  next
    case persisted: (Inr d1)
    have q: "(result, scope, d', r') = (Inr (), scope'', d1, fold (\<lambda>query. query j evs)
        (sb_queries (fold (with_reactor parse) reactors with_backend)) r)"
      using p unfolding rp persisted persisted_as_def by (simp only: prod.case sum.case)
    have eff: "result = Inr ()" "d' = d1"
        "r' = fold (\<lambda>(react, injector). fold (\<lambda>e r. snd (react (injector i e) r)) evs) reactors r"
      using q by (simp_all only: prod.inject registered_run [of parse j i, OF j] simp_thms)
    have "committed_with (pushes_of (decide es l command)) (wrap j n evs) d d'"
      unfolding eff(2) by (rule persist_committed [OF rp [unfolded persisted handle_scope [OF h]]])
    then show ?thesis
      unfolding eff(1) sum.case command_effect_def using handled_events_replay [OF sink h ne] eff(3) by auto
  qed
qed

section \<open>Properties\<close>

text \<open>
  C8 (store_send_all_or_nothing). A command sent through a store takes effect as a whole or not at all. On an
  error neither the database nor any reactor changed. On success the events are those the command decided on, they
  replay on the loaded aggregate to a live entity, they and the job the command dispatched are in one commit, and
  every registered reactor has seen each of them once, in order and in the order of registration.
\<close>

theorem store_send_all_or_nothing:
  assumes "event_sink_contract es sink"
    and "execute_contract tr sink es wrap load_aggregate (sb_queries (fold (with_reactor parse) reactors with_backend)) execute"
    and "parse (to_string i) = Some i"
    and "\<forall>l. load_aggregate (to_string i) d = Inr l \<longrightarrow> snd (Lifecycle.handle sink es l command (Some [])) \<noteq> Inr []"
    and "store_send execute to_string i command (d, r) = (result, d', r')"
  shows "case result of
      Inl e \<Rightarrow> d' = d \<and> r' = r
    | Inr _ \<Rightarrow> \<exists>l evs. load_aggregate (to_string i) d = Inr l \<and> snd (Lifecycle.handle sink es l command (Some [])) = Inr evs
        \<and> command_effect es wrap reactors (to_string i) i command l evs (d, r) (d', r')"
proof -
  note contract = execute_contractD [OF assms(2), of "to_string i" d]
  obtain scope where ex: "execute (to_string i) command (Some []) (d, r) = (result, scope, d', r')"
    using assms(5) by (auto simp: store_send_def with_pending_scope_def split: prod.splits)
  show ?thesis
  proof (cases "load_aggregate (to_string i) d")
    case (Inl e)
    then show ?thesis using contract(1) ex by auto
  next
    case (Inr l)
    obtain scope' handled where h: "Lifecycle.handle sink es l command (Some []) = (scope', handled)" by fastforce
    show ?thesis
    proof (cases handled)
      case (Inl e)
      then show ?thesis using contract(2) [OF Inr] h ex by auto
    next
      case handled: (Inr evs)
      then have ne: "evs \<noteq> []" using assms(4) Inr h by auto
      obtain now_ns n su where p: "persisted_as (result, scope, d', r') (fold (\<lambda>query. query (to_string i) evs)
          (sb_queries (fold (with_reactor parse) reactors with_backend)) r) (d, r)
          (repo_persist tr now_ns (es_aggregate_type es) (wrap (to_string i) n evs) su scope' d)"
        using contract(3) [OF Inr h [unfolded handled] ne] ex by metis
      have "case result of Inl e \<Rightarrow> d' = d \<and> r' = r
          | Inr _ \<Rightarrow> command_effect es wrap reactors (to_string i) i command l evs (d, r) (d', r')"
        by (rule persisted_command [where parse = parse and wrap = wrap and n = n, OF assms(1,3) h [unfolded handled] ne p])
      then show ?thesis using Inr h handled by (auto split: sum.splits)
    qed
  qed
qed

text \<open>A framework that meets the contract, over the counter entity, with a spy as its only reactor.\<close>

definition counter_load :: "(nat, nat, string) load_fn" where
  "counter_load j d = Inr (if events d = [] then Uninitialized else Live 0)"

definition counter_wrap :: "string \<Rightarrow> nat \<Rightarrow> nat list \<Rightarrow> serialized_event list" where
  "counter_wrap j n evs = map (\<lambda>(k, e). \<lparr>se_aggregate_id = j, se_sequence = n + k + 1, se_aggregate_type = ''Counter'',
     se_event_type = ''Counted'', se_event_version = ''1.0'', se_payload = JNull, se_metadata = JObject []\<rparr>) (zip [0..<length evs] evs)"

definition counter_framework ::
  "(nat, 'r) query list \<Rightarrow> (nat, (nat, nat, string) lifecycle_error, 'r) execute_fn" where
  "counter_framework queries j command scope st =
     (case st of (d, r) \<Rightarrow>
       (case counter_load j d of
          Inl e \<Rightarrow> (Inl e, scope, d, r)
        | Inr aggregate \<Rightarrow>
            (case Lifecycle.handle sample_write sample_counter aggregate command scope of
               (scope', Inl e) \<Rightarrow> (Inl (UserError e), scope', d, r)
             | (scope', Inr evs) \<Rightarrow>
                 (case repo_persist (\<lambda>_. True) 0 ''Counter'' (counter_wrap j 0 evs) None scope' d of
                    (scope'', Inl e) \<Rightarrow> (Inl AggregateConflict, scope'', d, r)
                  | (scope'', Inr d') \<Rightarrow> (Inr (), scope'', d', fold (\<lambda>query. query j evs) queries r)))))"

lemma counter_framework_contract:
  "execute_contract (\<lambda>_. True) sample_write sample_counter counter_wrap counter_load queries (counter_framework queries)"
proof -
  have ty: "es_aggregate_type sample_counter = ''Counter''" by (simp add: sample_counter_def)
  show ?thesis
    unfolding execute_contract_def ty
    by (auto simp: counter_framework_def persisted_as_def split: sum.splits prod.splits
        intro!: exI [of _ 0] exI [of _ "None :: (string \<times> json \<times> nat) option"])
qed

theorem store_send_all_or_nothing_witness:
  "\<exists>d' r'. store_send (counter_framework (sb_queries (fold (with_reactor Some) [(spy_react :: _ \<Rightarrow> _ \<Rightarrow> (string + unit) \<times> _, Here)] with_backend))) id ''a'' 1 (empty_db, [])
      = (Inr (), d', r') \<and> r' = [(''a'', 0), (''a'', 1)]"
proof -
  let ?queries = "sb_queries (fold (with_reactor Some) [(spy_react :: _ \<Rightarrow> _ \<Rightarrow> (string + unit) \<times> _, Here)] with_backend)"
  let ?send = "store_send (counter_framework ?queries) id ''a'' 1 (empty_db, [])"
  have h: "Lifecycle.handle sample_write sample_counter Uninitialized 1 (Some []) = (Some [], Inr [0, 1])"
    by (simp add: Lifecycle.handle_def decide_def sample_counter_def sample_write_def)
  have l: "counter_load ''a'' empty_db = Inr Uninitialized" by (simp add: counter_load_def empty_db_def)
  have "insert_serialized_events_batch (counter_wrap ''a'' 0 [0, 1]) [] = Inr (map event_row_of (counter_wrap ''a'' 0 [0, 1]))"
    by (simp add: insert_batch_Inr tbl_insert_def seq_fits_def I64_MAX_def event_pk_def counter_wrap_def)
  then have "\<exists>scope d'. repo_persist (\<lambda>_. True) 0 ''Counter'' (counter_wrap ''a'' 0 [0, 1]) None (Some []) empty_db = (scope, Inr d')"
    by (simp add: commit_path counter_wrap_def empty_db_def reserves_engine_payload_def Let_def)
  then obtain d' r' where send: "?send = (Inr (), d', r')"
    by (auto simp: store_send_def with_pending_scope_def counter_framework_def l h [unfolded One_nat_def])
  have ne: "\<forall>l. counter_load (id ''a'') empty_db = Inr l \<longrightarrow> snd (Lifecycle.handle sample_write sample_counter l 1 (Some [])) \<noteq> Inr []"
    by (simp add: l h [unfolded One_nat_def])
  show ?thesis
    using store_send_all_or_nothing [OF sample_write_contract counter_framework_contract, of Some id "''a''", OF _ ne send] send
    by (auto simp: l h [unfolded One_nat_def] spy_react_def command_effect_def)
qed

end
