(* ===== verification/Domain.thy ===== *)
theory Domain
  imports Dispatch_System Store
begin

text \<open>
  What a domain built on the crate gets from it, stated once for all domains. The laws of an entity whose
  handlers emit only what the entity can apply (\<open>sound_handlers\<close>) and of an entity that embeds a dispatch cell
  (\<open>job_origin\<close>); under them every history commands can produce replays, and its dispatch events form a
  history of the origin entity of \<open>Dispatch_System\<close>, with the same jobs pushed. The identifiers of the sample
  domains, a prefix and a zero-padded \<open>u64\<close>, are here too. \<open>Support_Ticket\<close> and \<open>Orders\<close> interpret both interfaces.
\<close>

section \<open>Decimal identifiers\<close>

text \<open>\<open>Display\<close> of an unsigned integer, with and without the format \<open>{:04}\<close>.\<close>

fun show_dec :: "nat \<Rightarrow> string" where
  "show_dec n = (if n < 10 then [char_of (48 + n)] else show_dec (n div 10) @ [char_of (48 + n mod 10)])"

declare show_dec.simps [simp del]

definition show_04 :: "nat \<Rightarrow> string" where
  "show_04 n = replicate (4 - length (show_dec n)) (CHR ''0'') @ show_dec n"

text \<open>
  \<open>str::parse::<u64>\<close>: an optional plus sign, at least one digit, and a checked multiplication and addition per
  digit, an invalid digit being reported before an overflow.
\<close>

datatype int_error = EmptyInput | InvalidDigit | PosOverflow

fun u64_digits :: "nat \<Rightarrow> string \<Rightarrow> int_error + nat" where
  "u64_digits acc [] = Inr acc"
| "u64_digits acc (c # cs) =
     (case digit_value c of
        None \<Rightarrow> Inl InvalidDigit
      | Some d \<Rightarrow> if 10 * acc + d \<le> U64_MAX then u64_digits (10 * acc + d) cs else Inl PosOverflow)"

definition parse_u64 :: "string \<Rightarrow> int_error + nat" where
  "parse_u64 s =
     (case s of
        [] \<Rightarrow> Inl EmptyInput
      | c # cs \<Rightarrow>
          if cs = [] \<and> (c = CHR ''+'' \<or> c = CHR ''-'') then Inl InvalidDigit
          else if c = CHR ''+'' then u64_digits 0 cs
          else u64_digits 0 s)"

text \<open>\<open>str::strip_prefix\<close>, and the \<open>FromStr\<close> and \<open>Display\<close> that the two id types of the samples share.\<close>

fun strip_prefix :: "string \<Rightarrow> string \<Rightarrow> string option" where
  "strip_prefix [] s = Some s"
| "strip_prefix (p # ps) (c # cs) = (if p = c then strip_prefix ps cs else None)"
| "strip_prefix (p # ps) [] = None"

datatype parse_id_error = MissingPrefix | NotNumeric int_error

definition prefixed_to_string :: "string \<Rightarrow> nat \<Rightarrow> string" where
  "prefixed_to_string prefix n = prefix @ show_04 n"

definition prefixed_from_str :: "string \<Rightarrow> string \<Rightarrow> parse_id_error + nat" where
  "prefixed_from_str prefix s =
     bind_result (ok_or MissingPrefix (strip_prefix prefix s)) (\<lambda>suffix. map_err NotNumeric (parse_u64 suffix))"

lemma digit_value_char_of [simp]: "n < 10 \<Longrightarrow> digit_value (char_of (48 + n)) = Some n"
  by (simp add: digit_value_def)

lemma u64_digits_append:
  "u64_digits acc (xs @ ys) = bind_result (u64_digits acc xs) (\<lambda>a. u64_digits a ys)"
  by (induction acc xs rule: u64_digits.induct) (auto split: option.splits)

lemma u64_digits_show: "n \<le> U64_MAX \<Longrightarrow> u64_digits 0 (show_dec n) = Inr n"
proof (induction n rule: show_dec.induct)
  case (1 n)
  show ?case
  proof (cases "n < 10")
    case True
    then show ?thesis using 1(2) by (simp add: show_dec.simps [of n])
  next
    case False
    then have "u64_digits 0 (show_dec (n div 10)) = Inr (n div 10)" using 1 by simp
    then show ?thesis using False 1(2) by (simp add: show_dec.simps [of n] u64_digits_append)
  qed
qed

lemma u64_digits_zeros: "u64_digits 0 (replicate k (CHR ''0'') @ s) = u64_digits 0 s"
  by (induction k) (simp_all add: digit_value_def U64_MAX_def)

lemma show_04_digits: "c \<in> set (show_04 n) \<Longrightarrow> digit_value c \<noteq> None"
proof -
  have "c \<in> set (show_dec n) \<Longrightarrow> digit_value c \<noteq> None"
  proof (induction n rule: show_dec.induct)
    case (1 n)
    then show ?case by (cases "n < 10") (auto simp: show_dec.simps [of n])
  qed
  moreover assume "c \<in> set (show_04 n)"
  ultimately show ?thesis by (auto simp: show_04_def digit_value_def split: if_splits)
qed

lemma show_04_not_empty [simp]: "show_04 n \<noteq> []"
  by (simp add: show_04_def show_dec.simps [of n])

lemma parse_show_04: "n \<le> U64_MAX \<Longrightarrow> parse_u64 (show_04 n) = Inr n"
proof -
  assume "n \<le> U64_MAX"
  then have "u64_digits 0 (show_04 n) = Inr n" by (simp add: show_04_def u64_digits_zeros u64_digits_show)
  moreover obtain c cs where s: "show_04 n = c # cs" by (cases "show_04 n") simp_all
  moreover have "c \<noteq> CHR ''+''" "c \<noteq> CHR ''-''" using show_04_digits [of c n] s by (auto simp: digit_value_def)
  ultimately show ?thesis by (simp add: parse_u64_def)
qed

lemma strip_prefix_append [simp]: "strip_prefix p (p @ s) = Some s"
  by (induction p) simp_all

lemma prefixed_round_trip: "n \<le> U64_MAX \<Longrightarrow> prefixed_from_str p (prefixed_to_string p n) = Inr n"
  by (simp add: prefixed_from_str_def prefixed_to_string_def parse_show_04 map_err_def)

section \<open>Histories of commands\<close>

fun effect_events :: "'e effect \<Rightarrow> 'e list" where
  "effect_events (Events evs) = evs"
| "effect_events (Dispatch event push) = [event]"

fun effect_pushes :: "'e effect \<Rightarrow> pending_push list" where
  "effect_pushes (Events evs) = []"
| "effect_pushes (Dispatch event push) = [push]"

text \<open>
  The streams an aggregate can have when every event comes from a command handled on the replayed stream, and
  the jobs pushed with them. A command that fails, or whose commit does, leaves the stream as it is.
\<close>

inductive command_history ::
  "('s, 'e, 'err) sink_write \<Rightarrow> ('s, 'c, 'e, 'err) event_sourced \<Rightarrow> 'e list \<Rightarrow> pending_push list \<Rightarrow> bool"
  for sink :: "('s, 'e, 'err) sink_write" and es :: "('s, 'c, 'e, 'err) event_sourced"
where
  nothing: "command_history sink es [] []"
| sent: "command_history sink es h ps \<Longrightarrow>
    Lifecycle.handle sink es (replay es Uninitialized h) command (Some []) = (Some qs, Inr evs) \<Longrightarrow>
    command_history sink es (h @ evs) (ps @ qs)"

text \<open>
  The histories when only some commands are ever sent. A \<open>DispatchOutcome\<close> is sealed: its constructors are private to
  the crate and only \<open>perform\<close> calls them, so a settling command carries a verdict some execution of the job arrived at.
\<close>

inductive issued_history ::
  "('c \<Rightarrow> bool) \<Rightarrow> ('s, 'e, 'err) sink_write \<Rightarrow> ('s, 'c, 'e, 'err) event_sourced \<Rightarrow> 'e list \<Rightarrow> pending_push list \<Rightarrow> bool"
  for issued :: "'c \<Rightarrow> bool" and sink :: "('s, 'e, 'err) sink_write" and es :: "('s, 'c, 'e, 'err) event_sourced"
where
  nothing: "issued_history issued sink es [] []"
| sent: "issued_history issued sink es h ps \<Longrightarrow> issued command \<Longrightarrow>
    Lifecycle.handle sink es (replay es Uninitialized h) command (Some []) = (Some qs, Inr evs) \<Longrightarrow>
    issued_history issued sink es (h @ evs) (ps @ qs)"

lemma issued_commands: "issued_history issued sink es h ps \<Longrightarrow> command_history sink es h ps"
  by (induction rule: issued_history.induct) (auto intro: command_history.intros)

definition job_verdict :: "('j, 'o, 'x, 'w) job_def \<Rightarrow> ('o, 'x) verdict \<Rightarrow> bool" where
  "job_verdict jd v \<longleftrightarrow> (\<exists>job ctx w out w'. execute_routed jd job ctx w = (Inr out, w') \<and> outcome_verdict jd ctx out = Some v)"

lemma replay_Live_Cons:
  assumes "replay es l (event # evs) = Live s"
  obtains s' where "apply_event es l event = Live s'" "replay es (Live s') evs = Live s"
proof (cases "apply_event es l event")
  case (Failed error lv)
  then show thesis using assms replay_Failed [of es error lv evs] by auto
qed (use assms that apply_event_not_Uninitialized [of es l event] in simp_all)

lemma cell_read_Idle [simp]: "cell_read [] = Idle" "cell_read ds = Idle \<longleftrightarrow> ds = []" "Idle = cell_read ds \<longleftrightarrow> ds = []"
  by (cases "last ds"; auto simp: cell_read_def)+

text \<open>The sink cqrs-es has: one that meets the contract for any entity.\<close>

definition applying_sink :: "('s, 'c, 'e, 'err) event_sourced \<Rightarrow> ('s, 'e, 'err) sink_write" where
  "applying_sink es event p = (apply_event es (fst p) event, snd p @ [event])"

lemma applying_sink_contract: "event_sink_contract es (applying_sink es)"
  by (simp add: event_sink_contract_def applying_sink_def)

fun sound_life :: "('s \<Rightarrow> bool) \<Rightarrow> ('s, 'e, 'err) lifecycle \<Rightarrow> bool" where
  "sound_life ok Uninitialized = True"
| "sound_life ok (Live s) = ok s"
| "sound_life ok (Failed error last_valid) = False"

lemmas fx_defs = fx_event_def fx_failure_def fx_guarded_def fx_settlement_def fx_kickoff_def kickoff_def dispatch_effect_def
  dispatch_job_def kick_def map_err_def

text \<open>
  The contract of a domain's handlers: from a state the invariant holds of, what a handler decides on can be
  applied, and leads to such a state. Then the lifecycle accepts every decision.
\<close>

locale sound_handlers =
  fixes es :: "('s, 'c, 'e, 'err) event_sourced" and ok :: "'s \<Rightarrow> bool"
  assumes initialized: "es_initialize es command = Inr eff \<Longrightarrow>
      \<exists>s. replay es Uninitialized (effect_events eff) = Live s \<and> ok s"
    and transitioned: "ok s \<Longrightarrow> es_transition es s command = Inr eff \<Longrightarrow>
      \<exists>s'. replay es (Live s) (effect_events eff) = Live s' \<and> ok s'"
begin

lemma decided:
  assumes "sound_life ok l" and "decide es l command = Inr eff"
  shows "\<exists>s. replay es l (effect_events eff) = Live s \<and> ok s"
  using assms initialized [of command eff] transitioned [of _ command eff]
  by (cases l) (auto simp: decide_def split: sum.splits)

lemma accepted:
  assumes "event_sink_contract es sink" and "sound_life ok l"
  shows "Lifecycle.handle sink es l command (Some ps) =
    (case decide es l command of
       Inl error \<Rightarrow> (Some ps, Inl error)
     | Inr eff \<Rightarrow> (Some (ps @ effect_pushes eff), Inr (effect_events eff)))"
proof (cases "decide es l command")
  case (Inr eff)
  obtain s where "replay es l (effect_events eff) = Live s" using decided [OF assms(2) Inr] by blast
  from sink_events_ok [OF assms(1) this, of "[]"] show ?thesis
    using Inr by (cases eff) (simp_all add: Lifecycle.handle_def buffer_def)
qed (simp add: Lifecycle.handle_def)

lemma history_sound:
  assumes "event_sink_contract es sink" and "command_history sink es h ps"
  shows "sound_life ok (replay es Uninitialized h)"
  using assms(2)
proof induction
  case (sent h ps command qs evs)
  then obtain eff where "decide es (replay es Uninitialized h) command = Inr eff" "evs = effect_events eff"
    using accepted [OF assms(1) sent.IH, of command "[]"] by (auto split: sum.splits)
  then show ?case using decided [OF sent.IH] by fastforce
qed simp

lemma history_live:
  assumes "event_sink_contract es sink" and "command_history sink es h ps" and "h \<noteq> []"
  shows "\<exists>s. replay es Uninitialized h = Live s \<and> ok s"
proof -
  have "replay es Uninitialized h \<noteq> Uninitialized"
    using assms(3) by (cases h rule: rev_cases) simp_all
  then show ?thesis using history_sound [OF assms(1,2)] by (cases "replay es Uninitialized h") simp_all
qed

lemma command_step:
  assumes "event_sink_contract es sink" and "command_history sink es h ps"
    and "Lifecycle.handle sink es (replay es Uninitialized h) command (Some []) = (Some qs, Inr evs)"
  obtains eff where "decide es (replay es Uninitialized h) command = Inr eff" "qs = effect_pushes eff"
    "evs = effect_events eff"
  using accepted [OF assms(1) history_sound [OF assms(1,2)], of command "[]"] assms(3) by (auto split: sum.splits)

lemma history_extend:
  assumes "event_sink_contract es sink" and "command_history sink es h ps"
    and "decide es (replay es Uninitialized h) command = Inr eff"
  shows "command_history sink es (h @ effect_events eff) (ps @ effect_pushes eff)"
  using command_history.sent [OF assms(2), of command] accepted [OF assms(1) history_sound [OF assms(1,2)], of command "[]"] assms(3)
  by simp

lemma issued_extend:
  assumes "event_sink_contract es sink" and "issued_history issued sink es h ps" and "issued command"
    and "decide es (replay es Uninitialized h) command = Inr eff"
  shows "issued_history issued sink es (h @ effect_events eff) (ps @ effect_pushes eff)"
  using issued_history.sent [OF assms(2,3)] accepted [OF assms(1) history_sound [OF assms(1) issued_commands [OF assms(2)]], of command "[]"]
    assms(4)
  by simp

end

section \<open>Entities with a dispatch cell\<close>

text \<open>The dispatch events of a stream, and the cell of a lifecycle, which is idle before the entity exists.\<close>

abbreviation dispatches :: "('e \<Rightarrow> ('j, 'o, 'x) dispatch_event option) \<Rightarrow> 'e list \<Rightarrow> ('j, 'o, 'x) dispatch_event list" where
  "dispatches dispatch_of \<equiv> List.map_filter dispatch_of"

fun life_cell :: "('s \<Rightarrow> ('o, 'x) dispatched_job) \<Rightarrow> ('s, 'e, 'err) lifecycle \<Rightarrow> ('o, 'x) dispatched_job" where
  "life_cell cell (Live s) = cell s"
| "life_cell cell _ = Idle"

text \<open>What an event does to the cell of the entity.\<close>

definition cell_step ::
  "('j, 'o, 'x) dispatch_event option \<Rightarrow> ('o, 'x) dispatched_job \<Rightarrow> ('o, 'x) dispatched_job \<Rightarrow> bool" where
  "cell_step d c c' \<longleftrightarrow> (case d of None \<Rightarrow> c' = c | Some event \<Rightarrow> evolve_cell c event = Inr c')"

text \<open>The origin entity of \<open>Dispatch_System\<close>, driven by its two commands.\<close>

lemma origin_sent:
  assumes "event_sink_contract (origin_entity jd) sink" and "cell_history ds"
    and "dispatch_job jd id (cell_read ds) fresh job = Inr \<lparr>dp_event = EvDispatched fresh job, dp_pending = push\<rparr>"
  shows "Lifecycle.handle sink (origin_entity jd) (replay (origin_entity jd) Uninitialized ds) (Kick fresh job) (Some [])
    = (Some [push], Inr [EvDispatched fresh job])"
proof -
  have "fold_cell (cell_read ds) [EvDispatched fresh job] = Inr (InFlight fresh)"
    using assms(3) by (auto simp: dispatch_job_def split: dispatched_job.splits)
  from sink_events_ok [OF assms(1) origin_replays(1) [OF assms(2) this], of "[]"]
  have "sink_events sink (origin_life jd ds, []) [EvDispatched fresh job] = Inr [EvDispatched fresh job]" by simp
  then show ?thesis
    using origin_decide [OF assms(2), of jd "Kick fresh job"] assms(3)
    by (simp add: Lifecycle.handle_def origin_life_def buffer_def map_err_def fx_guarded_def dispatch_effect_def)
qed

fun dispatched_push :: "('j, 'o, 'x, 'w) job_def \<Rightarrow> ('j, 'o, 'x) dispatch_event \<Rightarrow> pending_push option" where
  "dispatched_push jd (EvDispatched fresh job) =
     Some \<lparr>pp_job_id = fresh, pp_kind = jd_kind jd, pp_encode = jd_encode jd job, pp_delay = None\<rparr>"
| "dispatched_push jd _ = None"

lemma settle_pushes: "settle c v = Inr ds \<Longrightarrow> List.map_filter (dispatched_push jd) ds = []"
  by (cases "(c, v)" rule: settle.cases) (auto split: if_splits)

lemma dispatch_job_push:
  "dispatch_job jd id c fresh job = Inr \<lparr>dp_event = event, dp_pending = push\<rparr> \<Longrightarrow>
     dispatched_push jd (EvDispatched fresh job) = Some push"
  by (auto simp: dispatch_job_def kick_def split: dispatched_job.splits)

text \<open>
  The world of a sample domain: the streams of the origin's type by aggregate id, and what was printed. A send
  that reaches the database loads the stream, handles the command and commits its events.
\<close>

record 'e world =
  wd_streams :: "string \<Rightarrow> 'e list"
  wd_printed :: "string list"

definition world_send ::
  "('s, 'e, 'err) sink_write \<Rightarrow> ('s, 'c, 'e, 'err) event_sourced \<Rightarrow> string \<Rightarrow> 'c \<Rightarrow> 'e world
     \<Rightarrow> (('s, 'e, 'err) lifecycle_error aggregate_error + unit) \<times> 'e world" where
  "world_send sink es aggregate_id command w =
     (case Lifecycle.handle sink es (replay es Uninitialized (wd_streams w aggregate_id)) command (Some []) of
        (_, Inl err) \<Rightarrow> (Inl (UserError err), w)
      | (_, Inr evs) \<Rightarrow>
          (Inr (), w\<lparr>wd_streams := (wd_streams w)(aggregate_id := wd_streams w aggregate_id @ evs)\<rparr>))"

text \<open>
  The contract of an entity that dispatches jobs: its fold hands every dispatch event to the cell and touches
  the cell nowhere else; a job is kicked off only where the cell allows it; a delivered verdict is settled by
  the cell; and no other command emits a dispatch event.
\<close>

locale job_origin = sound_handlers es ok
  for es :: "('s, 'c, 'e, 'err) event_sourced" and ok :: "'s \<Rightarrow> bool" +
  fixes jd :: "('j, 'o, 'x, 'w) job_def"
    and cell :: "'s \<Rightarrow> ('o, 'x) dispatched_job"
    and dispatch_of :: "'e \<Rightarrow> ('j, 'o, 'x) dispatch_event option"
    and into :: "('j, 'o, 'x) dispatch_event \<Rightarrow> 'e"
    and settle_command :: "('o, 'x) verdict \<Rightarrow> 'c"
    and refused :: "dispatch_refused \<Rightarrow> 'err"
  assumes originated: "es_originate es event = Some s \<Longrightarrow> cell_step (dispatch_of event) Idle (cell s)"
    and evolved: "es_evolve es s event = Inr (Some s') \<Longrightarrow> cell_step (dispatch_of event) (cell s) (cell s')"
    and into_dispatch: "dispatch_of (into d) = Some d"
    and settled: "es_transition es s (settle_command v) =
      bind_result (map_err refused (settle (cell s) v)) (fx_settlement into)"
    and kicked: "sound_life ok l \<Longrightarrow> decide es l command = Inr (Dispatch event push) \<Longrightarrow>
      \<exists>fresh job. dispatch_of event = Some (EvDispatched fresh job)
        \<and> dispatch_job jd id (life_cell cell l) fresh job = Inr \<lparr>dp_event = EvDispatched fresh job, dp_pending = push\<rparr>"
    and emitted: "sound_life ok l \<Longrightarrow> decide es l command = Inr (Events evs) \<Longrightarrow>
      dispatches dispatch_of evs = [] \<or> (\<exists>v. settle (life_cell cell l) v = Inr (dispatches dispatch_of evs))"
begin

lemma applied_cell:
  assumes "apply_event es l event = Live s" and "l = Uninitialized \<or> (\<exists>s. l = Live s)"
  shows "cell_step (dispatch_of event) (life_cell cell l) (cell s)"
  using assms originated [of event s] evolved [of _ event s]
  by (cases l) (auto split: option.splits sum.splits)

lemma replayed_cell:
  "replay es l evs = Live s \<Longrightarrow> l = Uninitialized \<or> (\<exists>s. l = Live s) \<Longrightarrow>
     fold_cell (life_cell cell l) (dispatches dispatch_of evs) = Inr (cell s)"
proof (induction evs arbitrary: l)
  case (Cons event evs)
  obtain s' where s': "apply_event es l event = Live s'" "replay es (Live s') evs = Live s"
    using replay_Live_Cons [OF Cons.prems(1)] .
  have "cell_step (dispatch_of event) (life_cell cell l) (cell s')" using applied_cell s'(1) Cons.prems(2) by blast
  moreover have "fold_cell (cell s') (dispatches dispatch_of evs) = Inr (cell s)"
    using Cons.IH [of "Live s'"] s'(2) by simp
  ultimately show ?case by (auto simp: cell_step_def split: option.splits)
qed auto

lemma cell_is_read_model:
  assumes "event_sink_contract es sink" and "command_history sink es h ps"
  shows "cell_history (dispatches dispatch_of h)"
    and "life_cell cell (replay es Uninitialized h) = cell_read (dispatches dispatch_of h)"
proof -
  have "fold_cell Idle (dispatches dispatch_of h) = Inr (life_cell cell (replay es Uninitialized h))"
  proof (cases "h = []")
    case False
    then obtain s where "replay es Uninitialized h = Live s" using history_live [OF assms] by blast
    then show ?thesis using replayed_cell [of Uninitialized h s] by simp
  qed simp
  then show "cell_history (dispatches dispatch_of h)"
      "life_cell cell (replay es Uninitialized h) = cell_read (dispatches dispatch_of h)"
    by (simp_all add: fold_cell_exact split: if_splits)
qed

text \<open>
  Every step of the entity is a step of the origin or none, and the pushes are those of the dispatch events.
\<close>

lemma refines_origin:
  assumes "event_sink_contract es sink" and "event_sink_contract (origin_entity jd) origin_sink"
    and "command_history sink es h ps"
  shows "command_history origin_sink (origin_entity jd) (dispatches dispatch_of h) ps"
  using assms(3)
proof induction
  case nothing
  then show ?case using command_history.nothing by simp
next
  case (sent h ps command qs evs)
  let ?l = "replay es Uninitialized h" and ?ds = "dispatches dispatch_of h"
  note read = cell_is_read_model [OF assms(1) sent.hyps(1)]
  have split: "dispatches dispatch_of (h @ evs) = ?ds @ dispatches dispatch_of evs" by (simp add: List.map_filter_def)
  obtain eff where eff: "decide es ?l command = Inr eff" "qs = effect_pushes eff" "evs = effect_events eff"
    using command_step [OF assms(1) sent.hyps] .
  show ?case
  proof (cases eff)
    case (Dispatch event push)
    then obtain fresh job where "dispatch_of event = Some (EvDispatched fresh job)"
      and kick: "dispatch_job jd id (cell_read ?ds) fresh job = Inr \<lparr>dp_event = EvDispatched fresh job, dp_pending = push\<rparr>"
      using kicked [OF history_sound [OF assms(1) sent.hyps(1)]] eff(1) read(2) by metis
    then show ?thesis
      using command_history.sent [OF sent.IH origin_sent [OF assms(2) read(1) kick]] eff Dispatch split
      by simp
  next
    case (Events decided)
    show ?thesis
    proof (cases "dispatches dispatch_of decided = []")
      case False
      then obtain v where "settle (cell_read ?ds) v = Inr (dispatches dispatch_of decided)"
        using emitted [OF history_sound [OF assms(1) sent.hyps(1)]] eff(1) Events read(2) by metis
      then show ?thesis
        using command_history.sent [OF sent.IH, of "Deliver v" "[]" "dispatches dispatch_of decided"]
          origin_deliver [OF assms(2) read(1), of v] eff Events split by (simp add: origin_life_def map_err_def)
    qed (use sent.IH eff Events split in simp)
  qed
qed

lemma pushes_exact:
  assumes "event_sink_contract es sink" and "command_history sink es h ps"
  shows "ps = List.map_filter (dispatched_push jd) (dispatches dispatch_of h)"
  using assms(2)
proof induction
  case (sent h ps command qs evs)
  let ?l = "replay es Uninitialized h"
  obtain eff where eff: "decide es ?l command = Inr eff" "qs = effect_pushes eff" "evs = effect_events eff"
    using command_step [OF assms(1) sent.hyps] .
  have "List.map_filter (dispatched_push jd) (dispatches dispatch_of evs) = qs"
  proof (cases eff)
    case (Dispatch event push)
    then show ?thesis
      using kicked [OF history_sound [OF assms(1) sent.hyps(1)]] eff dispatch_job_push
      by fastforce
  next
    case (Events decided)
    then show ?thesis
      using emitted [OF history_sound [OF assms(1) sent.hyps(1)]] eff settle_pushes
      by fastforce
  qed
  then show ?case using sent.IH by (simp add: List.map_filter_def)
qed simp

lemma verdict_handled:
  assumes "event_sink_contract es sink" and "command_history sink es h ps" and "replay es Uninitialized h = Live s"
  shows "Lifecycle.handle sink es (Live s) (settle_command v) (Some []) =
    (Some [], case settle (cell s) v of Inl r \<Rightarrow> Inl (Apply (refused r)) | Inr ds \<Rightarrow> Inr (map into ds))"
  using accepted [OF assms(1) history_sound [OF assms(1,2)], of "settle_command v" "[]"] assms(3)
  by (simp add: decide_def settled fx_settlement_def map_err_def split: sum.splits)

end

text \<open>
  An origin whose job always gets through: \<open>submit\<close> is done at once and \<open>reconcile\<close> takes an unknown fate as settled.
\<close>

locale confirming_origin = job_origin es ok jd cell dispatch_of into settle_command refused
  for es :: "('s, 'c, 'e, 'err) event_sourced" and ok :: "'s \<Rightarrow> bool"
    and jd :: "('j, unit, 'x, 'e world) job_def"
    and cell :: "'s \<Rightarrow> (unit, 'x) dispatched_job"
    and dispatch_of :: "'e \<Rightarrow> ('j, unit, 'x) dispatch_event option"
    and into :: "('j, unit, 'x) dispatch_event \<Rightarrow> 'e"
    and settle_command :: "(unit, 'x) verdict \<Rightarrow> 'c"
    and refused :: "dispatch_refused \<Rightarrow> 'err" +
  assumes submitted: "\<exists>w'. jd_submit jd job ctx w = (Inr (Done ()), w') \<and> wd_streams w' = wd_streams w"
    and reconciled: "\<exists>w'. jd_reconcile jd job ctx w = (Inr (SettledAs ()), w') \<and> wd_streams w' = wd_streams w"
begin

lemma executed: "\<exists>w'. execute_routed jd job ctx w = (Inr (Inr (Done ())), w') \<and> wd_streams w' = wd_streams w"
  using submitted [of job ctx w] reconciled [of job ctx w] by (auto simp: execute_routed_def first_call_def)

lemma perform_settles:
  assumes h: "h = wd_streams w (jd_origin_id jd job)"
    and verdict: "verdict = \<lparr>so_job_id = cx_job_id ctx, so_output = (), so_attempts = cx_attempt ctx + 1\<rparr>"
    and "event_sink_contract es sink" and "command_history sink es h ps" and "replay es Uninitialized h = Live s"
    and "settle (cell s) (VdConfirmed verdict) = Inr ds"
  shows "\<exists>w'. perform jd (deliver (world_send sink es) settle_command) job ctx w = (Inr (Done ()), w')
    \<and> wd_streams w' = (wd_streams w)(jd_origin_id jd job := h @ map into ds)"
proof -
  obtain w1 where w1: "execute_routed jd job ctx w = (Inr (Inr (Done ())), w1)" "wd_streams w1 = wd_streams w"
    using executed by blast
  then show ?thesis
    using verdict_handled [OF assms(3-5), of "VdConfirmed verdict"] assms(5,6)
    by (simp add: perform_def conclude_def deliver_def world_send_def confirmed_outcome_def map_err_def
        h verdict Let_def)
qed

end

end
