(* ===== verification/Support_Ticket.thy ===== *)
theory Support_Ticket
  imports Domain
begin

text \<open>
  The support-ticket domain, \<open>examples/simple/src/support_ticket.rs\<close>: the ticket aggregate, the \<open>NotifyClosed\<close> job that
  closing a ticket kicks off, and the standalone sweep job. Interprets the interfaces of \<open>Domain\<close> and shows that a
  ticket is closed exactly when the customer's notification was confirmed, that at most one notification is ever
  dispatched, and that running the job settles the ticket.

  An instant is a \<open>chrono::DateTime<Utc>\<close>, which the code only stores and hands on; its serialization \<open>rfc3339\<close> is a
  parameter. The job's error type \<open>Never\<close> is a type variable: what is shown holds for any error type. A command is
  paired with the job id its handler mints when it kicks off a job.
\<close>

section \<open>Ids\<close>

definition ticket_id_to_string :: "nat \<Rightarrow> string" where
  "ticket_id_to_string = prefixed_to_string ''T-''"

definition ticket_id_from_str :: "string \<Rightarrow> parse_id_error + nat" where
  "ticket_id_from_str = prefixed_from_str ''T-''"

section \<open>Data\<close>

type_synonym instant = int

datatype ticket_status = Open | Pending | Closing | Closed

record notify_closed =
  nc_ticket :: nat
  nc_subject :: string
  nc_closed_at :: instant

record 'n support_ticket =
  st_ticket :: nat
  st_subject :: string
  st_status :: ticket_status
  st_last_updated_at :: instant
  st_notify :: "(unit, 'n) dispatched_job"

datatype 'n support_ticket_event =
    Opened nat string instant
  | AwaitingCustomer instant
  | TicketDispatch "(notify_closed, unit, 'n) dispatch_event"

fun ticket_event_type :: "'n support_ticket_event \<Rightarrow> string" where
  "ticket_event_type (Opened _ _ _) = ''SupportTicketEvent::Opened''"
| "ticket_event_type (AwaitingCustomer _) = ''SupportTicketEvent::AwaitingCustomer''"
| "ticket_event_type (TicketDispatch (EvDispatched _ _)) = ''SupportTicketEvent::CloseRequested''"
| "ticket_event_type (TicketDispatch (EvConfirmed _)) = ''SupportTicketEvent::Closed''"
| "ticket_event_type (TicketDispatch (EvFailed _)) = ''SupportTicketEvent::CloseFailed''"

datatype 'n support_ticket_command =
    OpenTicket nat string instant
  | AwaitCustomer instant
  | CloseTicket instant
  | TicketSettle "(unit, 'n) verdict"

datatype support_ticket_error = AlreadyOpen | NotOpen | AlreadyClosed | TicketRefused dispatch_refused

section \<open>Jobs\<close>

definition encode_notify_closed :: "(instant \<Rightarrow> string) \<Rightarrow> notify_closed \<Rightarrow> json" where
  "encode_notify_closed rfc3339 job =
     JObject [(''ticket'', JNumber (JInt (int (nc_ticket job)))), (''subject'', JString (nc_subject job)),
       (''closed_at'', JString (rfc3339 (nc_closed_at job)))]"

definition notify_submit ::
  "notify_closed \<Rightarrow> job_context \<Rightarrow> 'e world \<Rightarrow> ('n job_failure + unit job_outcome) \<times> 'e world" where
  "notify_submit job ctx w = (Inr (Done ()),
     w\<lparr>wd_printed := wd_printed w @ [''  [worker] notified customer that '' @ [CHR 0x27] @ nc_subject job @ [CHR 0x27] @ '' was closed'']\<rparr>)"

definition notify_reconcile ::
  "notify_closed \<Rightarrow> job_context \<Rightarrow> 'e world \<Rightarrow> ('n job_failure + unit reconciliation) \<times> 'e world" where
  "notify_reconcile job ctx w = (Inr (SettledAs ()), w)"

definition notify_closed_job :: "(instant \<Rightarrow> string) \<Rightarrow> (notify_closed, unit, 'n, 'e world) job_def" where
  "notify_closed_job rfc3339 = \<lparr>jd_kind = ''notify-closed'', jd_encode = (\<lambda>job. Some (encode_notify_closed rfc3339 job)),
     jd_origin_id = (\<lambda>job. ticket_id_to_string (nc_ticket job)), jd_submit = notify_submit,
     jd_reconcile = notify_reconcile, jd_sources = (\<lambda>_. [])\<rparr>"

abbreviation ticket_job :: "(instant \<Rightarrow> string) \<Rightarrow> (notify_closed, unit, 'n, 'n support_ticket_event world) job_def" where
  "ticket_job \<equiv> notify_closed_job"

definition sweep_stale_tickets :: "job_context \<Rightarrow> 'e world \<Rightarrow> ('n job_failure + unit job_outcome) \<times> 'e world" where
  "sweep_stale_tickets ctx w = (Inr (Done ()), w\<lparr>wd_printed := wd_printed w @ [''  [worker] swept stale tickets'']\<rparr>)"

section \<open>The entity\<close>

fun ticket_originate :: "'n support_ticket_event \<Rightarrow> 'n support_ticket option" where
  "ticket_originate (Opened ticket subject at) =
     Some \<lparr>st_ticket = ticket, st_subject = subject, st_status = Open, st_last_updated_at = at, st_notify = Idle\<rparr>"
| "ticket_originate (AwaitingCustomer _) = None"
| "ticket_originate (TicketDispatch _) = None"

fun ticket_evolve :: "'n support_ticket \<Rightarrow> 'n support_ticket_event \<Rightarrow> support_ticket_error + 'n support_ticket option" where
  "ticket_evolve entity (Opened _ _ _) = Inr None"
| "ticket_evolve entity (AwaitingCustomer at) = Inr (Some (entity\<lparr>st_status := Pending, st_last_updated_at := at\<rparr>))"
| "ticket_evolve entity (TicketDispatch event) =
     (case evolve_cell (st_notify entity) event of
        Inl _ \<Rightarrow> Inr None
      | Inr notify \<Rightarrow>
          (case (case event of
                   EvDispatched _ job \<Rightarrow> (Closing, nc_closed_at job)
                 | EvConfirmed _ \<Rightarrow> (Closed, st_last_updated_at entity)
                 | EvFailed _ \<Rightarrow> (Closing, st_last_updated_at entity)) of
             (status, at) \<Rightarrow>
               Inr (Some (entity\<lparr>st_status := status, st_last_updated_at := at, st_notify := notify\<rparr>))))"

fun ticket_initialize :: "'n support_ticket_command \<Rightarrow> support_ticket_error + 'n support_ticket_event effect" where
  "ticket_initialize (OpenTicket ticket subject at) = fx_event (Opened ticket subject at)"
| "ticket_initialize (AwaitCustomer _) = fx_failure NotOpen"
| "ticket_initialize (CloseTicket _) = fx_failure NotOpen"
| "ticket_initialize (TicketSettle _) = fx_failure NotOpen"

fun ticket_transition ::
  "(instant \<Rightarrow> string) \<Rightarrow> string \<Rightarrow> 'n support_ticket \<Rightarrow> 'n support_ticket_command
     \<Rightarrow> support_ticket_error + 'n support_ticket_event effect" where
  "ticket_transition rfc3339 fresh self (OpenTicket _ _ _) = fx_failure AlreadyOpen"
| "ticket_transition rfc3339 fresh self (AwaitCustomer at) =
     (if st_status self = Closing \<or> st_status self = Closed then fx_failure AlreadyClosed
      else fx_event (AwaitingCustomer at))"
| "ticket_transition rfc3339 fresh self (CloseTicket at) =
     (if st_status self = Closing \<or> st_status self = Closed then fx_failure AlreadyClosed
      else bind_result (map_err TicketRefused
             (dispatch_job (ticket_job rfc3339) TicketDispatch
                (st_notify self) fresh
                \<lparr>nc_ticket = st_ticket self, nc_subject = st_subject self, nc_closed_at = at\<rparr>)) fx_guarded)"
| "ticket_transition rfc3339 fresh self (TicketSettle outcome) =
     bind_result (map_err TicketRefused (settle (st_notify self) outcome)) (fx_settlement TicketDispatch)"

type_synonym 'n ticket_es =
  "('n support_ticket, string \<times> 'n support_ticket_command, 'n support_ticket_event, support_ticket_error) event_sourced"

type_synonym 'n ticket_sink =
  "('n support_ticket, 'n support_ticket_event, support_ticket_error) sink_write"

definition ticket_entity :: "(instant \<Rightarrow> string) \<Rightarrow> 'n ticket_es" where
  "ticket_entity rfc3339 = \<lparr>es_originate = ticket_originate, es_evolve = ticket_evolve,
     es_initialize = (\<lambda>(fresh, command). ticket_initialize command),
     es_transition = (\<lambda>self (fresh, command). ticket_transition rfc3339 fresh self command),
     es_aggregate_type = ''SupportTicket'', es_schema_version = 2, es_snapshot_size = 10,
     es_compaction_policy = Retain\<rparr>"

section \<open>The ticket as a job origin\<close>

text \<open>The status of a ticket is what its dispatch cell says.\<close>

fun ticket_ok :: "'n support_ticket \<Rightarrow> bool" where
  "ticket_ok t =
     (case st_notify t of
        Idle \<Rightarrow> st_status t = Open \<or> st_status t = Pending
      | InFlight _ \<Rightarrow> st_status t = Closing
      | FailedWith _ \<Rightarrow> st_status t = Closing
      | Confirmed _ \<Rightarrow> st_status t = Closed)"

fun ticket_dispatch :: "'n support_ticket_event \<Rightarrow> (notify_closed, unit, 'n) dispatch_event option" where
  "ticket_dispatch (TicketDispatch event) = Some event"
| "ticket_dispatch _ = None"

lemma notify_origin [simp]: "jd_origin_id (notify_closed_job r) job = ticket_id_to_string (nc_ticket job)"
  by (simp add: notify_closed_job_def)

lemma ticket_entity_simps [simp]:
  "es_originate (ticket_entity r) = ticket_originate"
  "es_evolve (ticket_entity r) = ticket_evolve"
  "es_initialize (ticket_entity r) (fresh, command) = ticket_initialize command"
  "es_transition (ticket_entity r) self (fresh, command) = ticket_transition r fresh self command"
  by (simp_all add: ticket_entity_def)

lemma ticket_transition_cases:
  fixes t :: "'n support_ticket"
  assumes "ticket_transition r fresh t command = Inr eff"
  obtains (awaits) at where "st_status t = Open \<or> st_status t = Pending" "eff = Events [AwaitingCustomer at]"
  | (closes) job where "st_status t = Open \<or> st_status t = Pending" "\<forall>j c. st_notify t \<noteq> InFlight j \<and> st_notify t \<noteq> Confirmed c"
      "job = \<lparr>nc_ticket = st_ticket t, nc_subject = st_subject t, nc_closed_at = nc_closed_at job\<rparr>"
      "eff = kickoff (ticket_job r) TicketDispatch fresh job"
  | (settles) v ds where "settle (st_notify t) v = Inr ds" "eff = Events (map TicketDispatch ds)"
proof (cases command)
  case (CloseTicket at)
  let ?job = "\<lparr>nc_ticket = st_ticket t, nc_subject = st_subject t, nc_closed_at = at\<rparr>"
  from CloseTicket show thesis
    using assms that(2) [of ?job] by (cases "st_status t") (auto simp: fx_defs split: if_splits dispatched_job.splits)
qed (use assms that(1,3) in \<open>cases "st_status t"; auto simp: fx_defs bind_result_def split: if_splits sum.splits\<close>)+

lemma ticket_initialize_cases:
  assumes "ticket_initialize command = Inr eff"
  obtains ticket subject at where "eff = Events [Opened ticket subject at]"
  using assms by (cases command) (auto simp: fx_defs)

lemma settled_ticket:
  assumes "settle (st_notify t) v = Inr ds" and "ticket_ok t"
  shows "\<exists>t'. replay (ticket_entity r) (Live t) (map TicketDispatch ds) = Live t' \<and> ticket_ok t'"
  using assms by (cases "(st_notify t, v)" rule: settle.cases) (auto split: if_splits)

lemma dispatches_of_settlement [simp]: "List.map_filter ticket_dispatch (map TicketDispatch ds) = ds"
  by (induction ds) simp_all

lemma ticket_decides:
  assumes "decide (ticket_entity r) l command = Inr eff"
  obtains (opens) ticket subject at where "l = Uninitialized" "eff = Events [Opened ticket subject at]"
  | (moves) t where "l = Live t" "ticket_transition r (fst command) t (snd command) = Inr eff"
  using assms
  by (cases l; cases command) (auto simp: decide_def split: sum.splits elim: ticket_initialize_cases)

interpretation ticket: confirming_origin "ticket_entity r" ticket_ok "ticket_job r" st_notify ticket_dispatch
    TicketDispatch "\<lambda>v. (fresh, TicketSettle v)" TicketRefused
  for r fresh
proof
  fix command :: "string \<times> 'n support_ticket_command" and eff
  assume "es_initialize (ticket_entity r) command = Inr eff"
  then show "\<exists>s. replay (ticket_entity r) Uninitialized (effect_events eff) = Live s \<and> ticket_ok s"
    by (cases command) (auto elim!: ticket_initialize_cases)
next
  fix s :: "'n support_ticket" and command eff
  assume ok: "ticket_ok s" and "es_transition (ticket_entity r) s command = Inr eff"
  then have "ticket_transition r (fst command) s (snd command) = Inr eff" by (cases command) simp
  then show "\<exists>s'. replay (ticket_entity r) (Live s) (effect_events eff) = Live s' \<and> ticket_ok s'"
  proof (cases rule: ticket_transition_cases)
    case (settles v ds)
    then show ?thesis using settled_ticket [OF _ ok] by simp
  qed (use ok in \<open>auto simp: fx_defs split: dispatched_job.splits\<close>)
next
  fix event :: "'n support_ticket_event" and s
  assume "es_originate (ticket_entity r) event = Some s"
  then show "cell_step (ticket_dispatch event) Idle (st_notify s)" by (cases event) (auto simp: cell_step_def)
next
  fix event :: "'n support_ticket_event" and s s'
  assume "es_evolve (ticket_entity r) s event = Inr (Some s')"
  then show "cell_step (ticket_dispatch event) (st_notify s) (st_notify s')"
    by (cases event) (auto simp: cell_step_def split: sum.splits prod.splits)
next
  fix l and command :: "string \<times> 'n support_ticket_command" and event push
  assume "sound_life ticket_ok l" "decide (ticket_entity r) l command = Inr (Dispatch event push)"
  from this(2) show "\<exists>fresh job. ticket_dispatch event = Some (EvDispatched fresh job) \<and>
      dispatch_job (notify_closed_job r) id (life_cell st_notify l) fresh job
        = Inr \<lparr>dp_event = EvDispatched fresh job, dp_pending = push\<rparr>"
  proof (cases rule: ticket_decides)
    case (moves t)
    from moves(2) show ?thesis
      by (cases rule: ticket_transition_cases) (auto simp: moves(1) fx_defs notify_closed_job_def split: dispatched_job.splits)
  qed simp
next
  fix l and command :: "string \<times> 'n support_ticket_command" and evs
  assume "sound_life ticket_ok l" "decide (ticket_entity r) l command = Inr (Events evs)"
  from this(2) show "List.map_filter ticket_dispatch evs = []
      \<or> (\<exists>v. settle (life_cell st_notify l) v = Inr (List.map_filter ticket_dispatch evs))"
  proof (cases rule: ticket_decides)
    case (moves t)
    from moves(2) show ?thesis
      by (cases rule: ticket_transition_cases) (auto simp: moves(1) fx_defs)
  qed simp
qed (auto simp: notify_closed_job_def notify_submit_def notify_reconcile_def)

section \<open>The shape of a ticket's history\<close>

text \<open>At most one dispatch, then at most one verdict; the job carries the ticket's own id and subject.\<close>

abbreviation closings :: "'n support_ticket_event list \<Rightarrow> (notify_closed, unit, 'n) dispatch_event list" where
  "closings \<equiv> List.map_filter ticket_dispatch"

definition names_ticket :: "'n support_ticket \<Rightarrow> (notify_closed, unit, 'n) dispatch_event list \<Rightarrow> bool" where
  "names_ticket t ds \<longleftrightarrow>
     (\<forall>j job. EvDispatched j job \<in> set ds \<longrightarrow> nc_ticket job = st_ticket t \<and> nc_subject job = st_subject t)"

lemma names_ticket_cong:
  "st_ticket t' = st_ticket t \<and> st_subject t' = st_subject t \<Longrightarrow> names_ticket t ds \<Longrightarrow> names_ticket t' ds"
  by (simp add: names_ticket_def)

lemma short_history:
  assumes "cell_history ds" and "length ds \<le> 2"
  obtains (none) "ds = []"
  | (dispatched) j job where "ds = [EvDispatched j job]"
  | (confirmed) job c where "ds = [EvDispatched (so_job_id c) job, EvConfirmed c]"
  | (failed) job f where "ds = [EvDispatched (sf_job_id f) job, EvFailed f]"
  using assms by (cases ds rule: cell_history.cases) auto

lemma settle_no_dispatch: "settle c v = Inr ds \<Longrightarrow> EvDispatched j job \<notin> set ds"
  by (cases "(c, v)" rule: settle.cases) (auto split: if_splits)

lemma settled_length:
  assumes "settle (cell_read ds) v = Inr ds'" and "cell_history ds" and "length ds \<le> 2"
  shows "length (ds @ ds') \<le> 2"
  using assms(2,3)
proof (cases rule: short_history)
  case (dispatched j job)
  then show ?thesis using settle_Inr [OF assms(1)] by auto
qed (use settle_Inr [OF assms(1)] in \<open>auto simp: cell_read_def\<close>)

lemma ticket_keeps_name:
  "replay (ticket_entity r) (Live t) evs = Live t' \<Longrightarrow> st_ticket t' = st_ticket t \<and> st_subject t' = st_subject t"
proof (induction evs arbitrary: t)
  case (Cons event evs)
  obtain t1 where t1: "apply_event (ticket_entity r) (Live t) event = Live t1" "replay (ticket_entity r) (Live t1) evs = Live t'"
    using replay_Live_Cons [OF Cons.prems] .
  then have "st_ticket t1 = st_ticket t \<and> st_subject t1 = st_subject t"
    by (cases event) (auto split: sum.splits option.splits prod.splits dispatch_event.splits)
  then show ?case using Cons.IH [OF t1(2)] by simp
qed simp

lemma ticket_history_shape:
  assumes contract: "event_sink_contract (ticket_entity r) sink" and "command_history sink (ticket_entity r) h ps"
  shows "length (closings h) \<le> 2 \<and> (\<forall>t. replay (ticket_entity r) Uninitialized h = Live t \<longrightarrow> names_ticket t (closings h))"
  using assms(2)
proof induction
  case (sent h ps command qs evs)
  let ?l = "replay (ticket_entity r) Uninitialized h"
  note read = ticket.cell_is_read_model [OF contract sent.hyps(1)]
  note sound = ticket.history_sound [OF contract sent.hyps(1)]
  have split: "closings (h @ evs) = closings h @ closings evs" by (simp add: List.map_filter_def)
  obtain eff where eff: "decide (ticket_entity r) ?l command = Inr eff" "evs = effect_events eff"
    using ticket.command_step [OF contract sent.hyps] by blast
  from eff(1) show ?case
  proof (cases rule: ticket_decides)
    case (opens ticket subject at)
    then have "closings h = []" using read(2) by simp
    then show ?thesis using opens eff(2) split by (simp add: names_ticket_def)
  next
    case (moves t)
    have same: "st_ticket t' = st_ticket t \<and> st_subject t' = st_subject t"
      if "replay (ticket_entity r) Uninitialized (h @ evs) = Live t'" for t'
      using that moves(1) ticket_keeps_name [of r t evs t'] by simp
    have ih: "length (closings h) \<le> 2" "names_ticket t (closings h)" using sent.IH moves(1) by blast+
    have "length (closings h @ closings evs) \<le> 2 \<and> names_ticket t (closings h @ closings evs)"
      using moves(2)
    proof (cases rule: ticket_transition_cases)
      case (awaits at)
      then show ?thesis using ih eff(2) by simp
    next
      case (closes job)
      then have "closings h = []" using sound moves(1) read(2) by (auto split: dispatched_job.splits)
      moreover have "nc_ticket job = st_ticket t" "nc_subject job = st_subject t"
        using arg_cong [OF closes(3), of nc_ticket] arg_cong [OF closes(3), of nc_subject] by simp_all
      ultimately show ?thesis using closes(4) eff(2) by (simp add: names_ticket_def fx_defs)
    next
      case (settles v ds)
      then have settle: "settle (cell_read (closings h)) v = Inr ds" using moves(1) read(2) by simp
      then have "length (closings h @ ds) \<le> 2" using settled_length [OF _ read(1) ih(1)] by blast
      then show ?thesis using settles(2) ih(2) eff(2) settle_no_dispatch [OF settle] by (simp add: names_ticket_def)
    qed
    then show ?thesis unfolding split using same names_ticket_cong by blast
  qed
qed simp

section \<open>Properties\<close>

lemma ticket_status_read:
  assumes "cell_history ds" and "length ds \<le> 2" and "st_notify t = cell_read ds" and "ticket_ok t"
  shows "st_status t = Open \<or> st_status t = Pending \<longleftrightarrow> ds = []"
    and "st_status t = Closing \<longleftrightarrow> (\<exists>j job. ds = [EvDispatched j job]) \<or> (\<exists>job f. ds = [EvDispatched (sf_job_id f) job, EvFailed f])"
    and "st_status t = Closed \<longleftrightarrow> (\<exists>job c. ds = [EvDispatched (so_job_id c) job, EvConfirmed c])"
proof -
  consider "ds = []" | j job where "ds = [EvDispatched j job]" | job c where "ds = [EvDispatched (so_job_id c) job, EvConfirmed c]"
    | job f where "ds = [EvDispatched (sf_job_id f) job, EvFailed f]"
    using short_history [OF assms(1,2)] by metis
  note cases = this
  show "st_status t = Open \<or> st_status t = Pending \<longleftrightarrow> ds = []"
    using assms(3,4) by (cases rule: cases) (auto simp: cell_read_def)
  show "st_status t = Closing \<longleftrightarrow> (\<exists>j job. ds = [EvDispatched j job]) \<or> (\<exists>job f. ds = [EvDispatched (sf_job_id f) job, EvFailed f])"
    using assms(3,4) by (cases rule: cases) (auto simp: cell_read_def)
  show "st_status t = Closed \<longleftrightarrow> (\<exists>job c. ds = [EvDispatched (so_job_id c) job, EvConfirmed c])"
    using assms(3,4) by (cases rule: cases) (auto simp: cell_read_def)
qed

text \<open>
  C30 (ticket_closed_iff_notified). Whatever commands a ticket receives, its history replays, and its status tells the
  truth about the notification: the ticket is open or pending exactly while none was dispatched, closing while one is in
  flight or has failed, and closed exactly when the one job dispatched for it was confirmed. The job names this ticket
  and its subject, and the jobs pushed to the queue are exactly the dispatched ones, so a customer is notified by one
  job at most.
\<close>

theorem ticket_closed_iff_notified:
  assumes "event_sink_contract (ticket_entity rfc3339) sink"
    and "command_history sink (ticket_entity rfc3339) h ps" and "h \<noteq> []"
  shows "\<exists>t ds. testing_replay (ticket_entity rfc3339) h = Inr (Some t) \<and> ds = List.map_filter ticket_dispatch h
    \<and> (st_status t = Open \<or> st_status t = Pending \<longleftrightarrow> ds = [])
    \<and> (st_status t = Closing \<longleftrightarrow> (\<exists>j job. ds = [EvDispatched j job]) \<or> (\<exists>job f. ds = [EvDispatched (sf_job_id f) job, EvFailed f]))
    \<and> (st_status t = Closed \<longleftrightarrow> (\<exists>job c. ds = [EvDispatched (so_job_id c) job, EvConfirmed c]))
    \<and> (\<forall>j job. EvDispatched j job \<in> set ds \<longrightarrow> nc_ticket job = st_ticket t \<and> nc_subject job = st_subject t)
    \<and> ps = List.map_filter (dispatched_push (ticket_job rfc3339)) ds \<and> length ps \<le> 1"
proof -
  obtain t where t: "replay (ticket_entity rfc3339) Uninitialized h = Live t" "ticket_ok t"
    using ticket.history_live [OF assms] by blast
  note read = ticket.cell_is_read_model [OF assms(1,2)]
  note shape = ticket_history_shape [OF assms(1,2)]
  have "st_notify t = cell_read (closings h)" using read(2) t(1) by simp
  note status = ticket_status_read [OF read(1) shape [THEN conjunct1] this t(2)]
  have ps: "ps = List.map_filter (dispatched_push (ticket_job rfc3339)) (closings h)"
    by (rule ticket.pushes_exact [OF assms(1,2)])
  moreover have "length ps \<le> 1"
    using read(1) shape [THEN conjunct1] by (cases rule: short_history) (simp_all add: ps)
  moreover have "names_ticket t (closings h)" using shape t(1) by blast
  ultimately show ?thesis
    using t(1) status
    by (intro exI [of _ t] exI [of _ "closings h"]) (simp add: testing_replay_def names_ticket_def)
qed

text \<open>A ticket that is opened, closed, and notified: the run of \<open>main.rs\<close> for its ticket 3.\<close>

definition sample_ticket_history :: "unit support_ticket_event list" where
  "sample_ticket_history = [Opened 3 ''billing question'' 0,
     TicketDispatch (EvDispatched ''j'' \<lparr>nc_ticket = 3, nc_subject = ''billing question'', nc_closed_at = 5\<rparr>),
     TicketDispatch (EvConfirmed \<lparr>so_job_id = ''j'', so_output = (), so_attempts = 1\<rparr>)]"

abbreviation sample_tickets :: "unit ticket_es" where
  "sample_tickets \<equiv> ticket_entity (\<lambda>_. ''2026-01-01T00:00:00Z'')"

lemma sample_ticket_run: "\<exists>ps. command_history (applying_sink sample_tickets) sample_tickets sample_ticket_history ps"
proof -
  let ?sink = "applying_sink sample_tickets"
  note defs = sample_ticket_history_def Lifecycle.handle_def decide_def applying_sink_def buffer_def fx_defs
  obtain p1 where h1: "command_history ?sink sample_tickets (take 1 sample_ticket_history) p1"
    using command_history.sent [OF command_history.nothing, of ?sink sample_tickets "(''j'', OpenTicket 3 ''billing question'' 0)"]
    by (simp add: defs)
  obtain p2 where h2: "command_history ?sink sample_tickets (take 2 sample_ticket_history) p2"
    using command_history.sent [OF h1, of "(''j'', CloseTicket 5)"] by (simp add: defs)
  show ?thesis
    using command_history.sent [OF h2, of "(''k'', TicketSettle (confirmed_outcome ''j'' () 1))"]
    by (auto simp: defs confirmed_outcome_def)
qed

theorem ticket_closed_iff_notified_witness:
  "\<exists>ps t. command_history (applying_sink sample_tickets) sample_tickets sample_ticket_history ps
     \<and> testing_replay sample_tickets sample_ticket_history = Inr (Some t) \<and> st_status t = Closed \<and> length ps \<le> 1"
proof -
  obtain ps where run: "command_history (applying_sink sample_tickets) sample_tickets sample_ticket_history ps"
    using sample_ticket_run by blast
  show ?thesis
    using ticket_closed_iff_notified [OF applying_sink_contract run] run
    by (auto simp: sample_ticket_history_def)
qed

text \<open>
  Running the notify job settles the ticket: in a world where the ticket's history came from commands, an execution
  of the job the ticket waits for is acknowledged, and then the ticket replays as closed. A second execution of a job
  that is already confirmed is acknowledged too and leaves every stream as it is.
\<close>

theorem notification_closes_ticket:
  fixes t :: "'n support_ticket"
  assumes "event_sink_contract (ticket_entity rfc3339) sink"
    and "h = wd_streams w (ticket_id_to_string (nc_ticket job))"
    and "command_history sink (ticket_entity rfc3339) h ps"
    and "testing_replay (ticket_entity rfc3339) h = Inr (Some t)"
    and "st_notify t = InFlight (cx_job_id ctx) \<or> (\<exists>c. st_notify t = Confirmed c \<and> so_job_id c = cx_job_id ctx)"
  shows "\<exists>w' t'. perform (notify_closed_job rfc3339)
        (deliver (world_send sink (ticket_entity rfc3339)) (\<lambda>v. (fresh, TicketSettle v))) job ctx w = (Inr (Done ()), w')
    \<and> testing_replay (ticket_entity rfc3339) (wd_streams w' (ticket_id_to_string (nc_ticket job))) = Inr (Some t')
    \<and> st_status t' = Closed \<and> (st_notify t \<noteq> InFlight (cx_job_id ctx) \<longrightarrow> wd_streams w' = wd_streams w)"
proof -
  let ?verdict = "\<lparr>so_job_id = cx_job_id ctx, so_output = (), so_attempts = cx_attempt ctx + 1\<rparr>"
  let ?ds = "if st_notify t = InFlight (cx_job_id ctx) then [EvConfirmed ?verdict] else []"
  have t: "replay (ticket_entity rfc3339) Uninitialized h = Live t"
    using assms(4) by (cases "replay (ticket_entity rfc3339) Uninitialized h") (simp_all add: testing_replay_def)
  have ok: "ticket_ok t" using ticket.history_sound [OF assms(1,3)] t by simp
  have settle: "settle (st_notify t) (VdConfirmed ?verdict) = Inr ?ds" using assms(5) by auto
  have "h = wd_streams w (jd_origin_id (ticket_job rfc3339 :: (_, _, 'n, _) job_def) job)" using assms(2) by simp
  from ticket.perform_settles [OF this refl assms(1,3) t settle, of fresh]
  obtain w' where w': "perform (ticket_job rfc3339) (deliver (world_send sink (ticket_entity rfc3339))
        (\<lambda>v. (fresh, TicketSettle v))) job ctx w = (Inr (Done ()), w')"
      "wd_streams w' = (wd_streams w)(ticket_id_to_string (nc_ticket job) := h @ map TicketDispatch ?ds)"
    by auto
  obtain t' where "replay (ticket_entity rfc3339) Uninitialized (h @ map TicketDispatch ?ds) = Live t'" "st_status t' = Closed"
    using assms(5) ok t by (auto split: dispatched_job.splits)
  then show ?thesis
    using w' assms(2) by (intro exI [of _ w'] exI [of _ t']) (auto simp: testing_replay_def)
qed

end
