(* ===== verification/Inventory.thy ===== *)
theory Inventory
  imports Domain
begin

text \<open>
  The inventory domain, \<open>examples/complex/src/inventory.rs\<close>: stock on hand per SKU, kept in a \<open>u32\<close> under checked arithmetic.
  Interprets \<open>sound_handlers\<close> and shows that the handlers refuse exactly the commands the fold could not apply, so that
  the stock is the sum of its history, over the integers, whatever commands arrive.
\<close>

section \<open>Data\<close>

definition u32_checked_sub :: "u32 \<Rightarrow> u32 \<Rightarrow> u32 option" where
  "u32_checked_sub a b = (if b \<le> a then Some (a - b) else None)"

text \<open>A \<open>Sku\<close> is its string: \<open>Display\<close> writes it and \<open>FromStr\<close> never fails.\<close>

definition sku_to_string :: "string \<Rightarrow> string" where "sku_to_string sku = sku"

definition sku_from_str :: "string \<Rightarrow> string option" where "sku_from_str s = Some s"

record inventory =
  iv_item :: string
  iv_on_hand :: u32

datatype inventory_event = Initialized string u32 | Restocked u32 | Consumed u32

fun inventory_event_type :: "inventory_event \<Rightarrow> string" where
  "inventory_event_type (Initialized _ _) = ''InventoryEvent::Initialized''"
| "inventory_event_type (Restocked _) = ''InventoryEvent::Restocked''"
| "inventory_event_type (Consumed _) = ''InventoryEvent::Consumed''"

datatype inventory_command = Initialize string u32 | Restock u32 | Consume u32

datatype inventory_error = AlreadyInitialized | NotInitialized | Overflow | Underflow u32 u32

section \<open>The entity\<close>

fun inventory_originate :: "inventory_event \<Rightarrow> inventory option" where
  "inventory_originate (Initialized item on_hand) = Some \<lparr>iv_item = item, iv_on_hand = on_hand\<rparr>"
| "inventory_originate (Restocked _) = None"
| "inventory_originate (Consumed _) = None"

fun inventory_evolve :: "inventory \<Rightarrow> inventory_event \<Rightarrow> inventory_error + inventory option" where
  "inventory_evolve entity (Initialized _ _) = Inr None"
| "inventory_evolve entity (Restocked added) =
     ok_or Overflow (map_option (\<lambda>on_hand. Some (entity\<lparr>iv_on_hand := on_hand\<rparr>))
       (u32_checked_add (iv_on_hand entity) added))"
| "inventory_evolve entity (Consumed taken) =
     ok_or (Underflow (iv_on_hand entity) taken) (map_option (\<lambda>on_hand. Some (entity\<lparr>iv_on_hand := on_hand\<rparr>))
       (u32_checked_sub (iv_on_hand entity) taken))"

fun inventory_initialize :: "inventory_command \<Rightarrow> inventory_error + inventory_event effect" where
  "inventory_initialize (Initialize item on_hand) = fx_event (Initialized item on_hand)"
| "inventory_initialize (Restock _) = fx_failure NotInitialized"
| "inventory_initialize (Consume _) = fx_failure NotInitialized"

fun inventory_transition :: "inventory \<Rightarrow> inventory_command \<Rightarrow> inventory_error + inventory_event effect" where
  "inventory_transition self (Initialize _ _) = fx_failure AlreadyInitialized"
| "inventory_transition self (Restock added) =
     bind_result (ok_or Overflow (u32_checked_add (iv_on_hand self) added)) (\<lambda>_. fx_event (Restocked added))"
| "inventory_transition self (Consume taken) =
     (if iv_on_hand self < taken then fx_failure (Underflow (iv_on_hand self) taken) else fx_event (Consumed taken))"

definition inventory_entity :: "(inventory, inventory_command, inventory_event, inventory_error) event_sourced" where
  "inventory_entity = \<lparr>es_originate = inventory_originate, es_evolve = inventory_evolve,
     es_initialize = inventory_initialize, es_transition = inventory_transition,
     es_aggregate_type = ''Inventory'', es_schema_version = 1, es_snapshot_size = 10, es_compaction_policy = Retain\<rparr>"

lemma inventory_entity_simps [simp]:
  "es_originate inventory_entity = inventory_originate"
  "es_evolve inventory_entity = inventory_evolve"
  "es_initialize inventory_entity = inventory_initialize"
  "es_transition inventory_entity = inventory_transition"
  by (simp_all add: inventory_entity_def)

section \<open>Sound handlers\<close>

interpretation stock: sound_handlers inventory_entity "\<lambda>_. True"
proof
  fix command :: inventory_command and eff
  assume "es_initialize inventory_entity command = Inr eff"
  then show "\<exists>s. replay inventory_entity Uninitialized (effect_events eff) = Live s \<and> True"
    by (cases command) (auto simp: fx_defs)
next
  fix s :: inventory and command eff
  assume "es_transition inventory_entity s command = Inr eff"
  then show "\<exists>s'. replay inventory_entity (Live s) (effect_events eff) = Live s' \<and> True"
    by (cases command) (auto simp: fx_defs u32_checked_sub_def bind_result_def split: if_splits sum.splits)
qed

section \<open>Stock as the sum of its history\<close>

fun stock_change :: "inventory_event \<Rightarrow> int" where
  "stock_change (Initialized _ on_hand) = uint on_hand"
| "stock_change (Restocked added) = uint added"
| "stock_change (Consumed taken) = - uint taken"

lemma checked_uint:
  "u32_checked_add a b = Some c \<Longrightarrow> uint c = uint a + uint b"
  "u32_checked_sub a b = Some c \<Longrightarrow> uint c = uint a - uint b"
  "u32_checked_add a b = None \<longleftrightarrow> \<not> uint a + uint b < 2 ^ 32"
proof -
  show "u32_checked_add a b = Some c \<Longrightarrow> uint c = uint a + uint b"
    by (drule u32_checked_add_unat, drule arg_cong [of _ _ int]) simp
  show "u32_checked_sub a b = Some c \<Longrightarrow> uint c = uint a - uint b"
    by (auto simp: u32_checked_sub_def word_le_def uint_sub_lem split: if_splits)
  show "u32_checked_add a b = None \<longleftrightarrow> \<not> uint a + uint b < 2 ^ 32"
    by (simp add: u32_checked_add_def uint_nat del: of_nat_unat)
qed

lemma evolve_change:
  assumes "apply_event inventory_entity (Live s) event = Live s'"
  shows "iv_item s' = iv_item s \<and> uint (iv_on_hand s') = uint (iv_on_hand s) + stock_change event
    \<and> (\<forall>item n. event \<noteq> Initialized item n)"
  using assms
  by (cases event) (auto dest: checked_uint(1,2) simp: ok_or_def split: option.splits sum.splits)

lemma replay_change:
  "replay inventory_entity (Live s) evs = Live s' \<Longrightarrow>
     iv_item s' = iv_item s \<and> uint (iv_on_hand s') = uint (iv_on_hand s) + sum_list (map stock_change evs)
     \<and> (\<forall>item n. Initialized item n \<notin> set evs)"
proof (induction evs arbitrary: s)
  case (Cons event evs)
  obtain s1 where s1: "apply_event inventory_entity (Live s) event = Live s1" "replay inventory_entity (Live s1) evs = Live s'"
    using replay_Live_Cons [OF Cons.prems] .
  then show ?case using evolve_change [OF s1(1)] Cons.IH [OF s1(2)] by auto
qed simp

lemma inventory_history_shape:
  assumes "replay inventory_entity Uninitialized h = Live s" and "h \<noteq> []"
  shows "\<exists>start rest. h = Initialized (iv_item s) start # rest \<and> (\<forall>item n. Initialized item n \<notin> set rest)
    \<and> uint (iv_on_hand s) = sum_list (map stock_change h)"
proof -
  obtain event rest where h: "h = event # rest" using assms(2) by (cases h) auto
  obtain s0 where s0: "apply_event inventory_entity Uninitialized event = Live s0" "replay inventory_entity (Live s0) rest = Live s"
    using replay_Live_Cons [OF assms(1) [unfolded h]] .
  then show ?thesis using replay_change [OF s0(2)] h by (cases event) auto
qed

section \<open>Properties\<close>

lemma decided_inventory:
  "decide inventory_entity (Live s) (Restock added) =
     (if uint (iv_on_hand s) + uint added < 2 ^ 32 then Inr (Events [Restocked added]) else Inl (Apply Overflow))"
  "decide inventory_entity (Live s) (Consume taken) =
     (if uint taken \<le> uint (iv_on_hand s) then Inr (Events [Consumed taken])
      else Inl (Apply (Underflow (iv_on_hand s) taken)))"
  "decide inventory_entity (Live s) (Initialize item n) = Inl (Apply AlreadyInitialized)"
  using checked_uint(3) [of "iv_on_hand s" added]
  by (cases "u32_checked_add (iv_on_hand s) added"; auto simp: decide_def fx_defs word_less_def)+

text \<open>
  C31 (inventory_exact). However commands arrive, the stock on hand never wraps and never fails to replay: it is the sum
  of the whole history taken over the integers, which starts with its only initialization. A restock is accepted
  exactly when the sum stays below 2 to the 32, a consumption exactly when that much is on hand; a refusal reports the
  stock it saw, and changes nothing.
\<close>

theorem inventory_exact:
  assumes "event_sink_contract inventory_entity sink" and "command_history sink inventory_entity h ps" and "h \<noteq> []"
  shows "\<exists>s start rest. testing_replay inventory_entity h = Inr (Some s)
    \<and> h = Initialized (iv_item s) start # rest \<and> (\<forall>item n. Initialized item n \<notin> set rest)
    \<and> uint (iv_on_hand s) = sum_list (map stock_change h)
    \<and> (\<forall>added. harness_when sink inventory_entity h (Restock added) =
         (if sum_list (map stock_change (h @ [Restocked added])) < 2 ^ 32 then Inr [Restocked added] else Inl (Apply Overflow)))
    \<and> (\<forall>taken. harness_when sink inventory_entity h (Consume taken) =
         (if 0 \<le> sum_list (map stock_change (h @ [Consumed taken])) then Inr [Consumed taken]
          else Inl (Apply (Underflow (iv_on_hand s) taken))))"
proof -
  obtain s where s: "replay inventory_entity Uninitialized h = Live s" using stock.history_live [OF assms] by blast
  have handled: "harness_when sink inventory_entity h command =
      (case decide inventory_entity (Live s) command of Inl e \<Rightarrow> Inl e | Inr eff \<Rightarrow> Inr (effect_events eff))" for command
    using stock.accepted [OF assms(1), of "Live s" command "[]"] s by (simp add: harness_when_def split: sum.splits)
  obtain start rest where shape: "h = Initialized (iv_item s) start # rest" "\<forall>item n. Initialized item n \<notin> set rest"
      "uint (iv_on_hand s) = sum_list (map stock_change h)"
    using inventory_history_shape [OF s assms(3)] by blast
  have restock: "harness_when sink inventory_entity h (Restock added) =
      (if sum_list (map stock_change (h @ [Restocked added])) < 2 ^ 32 then Inr [Restocked added] else Inl (Apply Overflow))" for added
    by (simp add: handled decided_inventory shape(3) [symmetric])
  have consume: "harness_when sink inventory_entity h (Consume taken) =
      (if 0 \<le> sum_list (map stock_change (h @ [Consumed taken])) then Inr [Consumed taken]
       else Inl (Apply (Underflow (iv_on_hand s) taken)))" for taken
    by (simp add: handled decided_inventory shape(3) [symmetric])
  show ?thesis
    by (intro exI [of _ s] exI [of _ start] exI [of _ rest] conjI allI restock consume shape)
      (simp add: testing_replay_def s)
qed

lemma sample_inventory_run:
  "command_history (applying_sink inventory_entity) inventory_entity [Initialized ''widgets'' 1, Restocked 5] []"
proof -
  note defs = Lifecycle.handle_def decide_def applying_sink_def fx_defs u32_checked_add_def
  have "command_history (applying_sink inventory_entity) inventory_entity [Initialized ''widgets'' 1] []"
    using command_history.sent [OF command_history.nothing, of "applying_sink inventory_entity" inventory_entity
        "Initialize ''widgets'' 1"] by (simp add: defs)
  from command_history.sent [OF this, of "Restock 5"] show ?thesis by (simp add: defs)
qed

theorem inventory_exact_witness:
  "harness_when (applying_sink inventory_entity) inventory_entity [Initialized ''widgets'' 1, Restocked 5] (Consume 3) = Inr [Consumed 3]
   \<and> harness_when (applying_sink inventory_entity) inventory_entity [Initialized ''widgets'' 1, Restocked 5] (Consume 7)
        = Inl (Apply (Underflow 6 7))"
  using inventory_exact [OF applying_sink_contract sample_inventory_run] by (auto simp: word_uint_eq_iff)

end
