(* ===== verification/Orders.thy ===== *)
theory Orders
  imports Inventory
begin

text \<open>
  The order domain, \<open>examples/complex/src/order.rs\<close>: an order is born from the confirmation job it kicks off, is placed by
  the confirmation, and then filled or cancelled. Interprets the interfaces of \<open>Domain\<close> and shows that an order only
  leaves its pending state by a confirmation of its own job, that a filled or cancelled order is final, and that
  running the job places the order. As in \<open>Support_Ticket\<close>, the job's error type \<open>Never\<close>, which has no values, is a type
  variable (HOL types are not empty), and a command is paired with the job id its handler mints; that no
  execution of the job fails, whatever the type, is what makes a failed verdict impossible.
\<close>

section \<open>Ids\<close>

definition order_id_to_string :: "nat \<Rightarrow> string" where
  "order_id_to_string = prefixed_to_string ''O-''"

definition order_id_from_str :: "string \<Rightarrow> parse_id_error + nat" where
  "order_id_from_str = prefixed_from_str ''O-''"

section \<open>Data\<close>

record send_order_confirmation =
  oc_order :: nat
  oc_item :: string
  oc_quantity :: u32

datatype order_status = PendingConfirmation | Placed | Filled | Cancelled

record 'n order =
  od_item :: string
  od_quantity :: u32
  od_status :: order_status
  od_confirmation :: "(unit, 'n) dispatched_job"

datatype 'n order_event =
    OrderDispatch "(send_order_confirmation, unit, 'n) dispatch_event"
  | OrderFilled
  | OrderCancelled

fun order_event_type :: "'n order_event \<Rightarrow> string" where
  "order_event_type (OrderDispatch (EvDispatched _ _)) = ''OrderEvent::Placed''"
| "order_event_type (OrderDispatch (EvConfirmed _)) = ''OrderEvent::ConfirmationSent''"
| "order_event_type (OrderDispatch (EvFailed _)) = ''OrderEvent::ConfirmationFailed''"
| "order_event_type OrderFilled = ''OrderEvent::Filled''"
| "order_event_type OrderCancelled = ''OrderEvent::Cancelled''"

datatype 'n order_command =
    Place nat string u32
  | Fill
  | Cancel
  | OrderSettle "(unit, 'n) verdict"

datatype order_error = AlreadyPlaced | NotPlaced | NotConfirmed | OrderNotOpen | OrderRefused dispatch_refused

section \<open>The job\<close>

definition encode_confirmation :: "send_order_confirmation \<Rightarrow> json" where
  "encode_confirmation job =
     JObject [(''order'', JNumber (JInt (int (oc_order job)))), (''item'', JString (oc_item job)),
       (''quantity'', of_u32 (oc_quantity job))]"

definition confirmation_submit ::
  "send_order_confirmation \<Rightarrow> job_context \<Rightarrow> 'e world \<Rightarrow> ('n job_failure + unit job_outcome) \<times> 'e world" where
  "confirmation_submit job ctx w = (Inr (Done ()),
     w\<lparr>wd_printed := wd_printed w @ [''  [worker] sent confirmation for '' @ oc_item job @ '' x'' @ show_dec (unat (oc_quantity job))]\<rparr>)"

definition confirmation_reconcile ::
  "send_order_confirmation \<Rightarrow> job_context \<Rightarrow> 'e world \<Rightarrow> ('n job_failure + unit reconciliation) \<times> 'e world" where
  "confirmation_reconcile job ctx w = (Inr (SettledAs ()), w)"

definition confirmation_job :: "(send_order_confirmation, unit, 'n, 'e world) job_def" where
  "confirmation_job = \<lparr>jd_kind = ''send-order-confirmation'', jd_encode = (\<lambda>job. Some (encode_confirmation job)),
     jd_origin_id = (\<lambda>job. order_id_to_string (oc_order job)), jd_submit = confirmation_submit,
     jd_reconcile = confirmation_reconcile, jd_sources = (\<lambda>_. [])\<rparr>"

abbreviation order_job :: "(send_order_confirmation, unit, 'n, 'n order_event world) job_def" where
  "order_job \<equiv> confirmation_job"

section \<open>The entity\<close>

fun order_originate :: "'n order_event \<Rightarrow> 'n order option" where
  "order_originate (OrderDispatch (EvDispatched job_id job)) =
     (case originate_cell (EvDispatched job_id job) of
        Inl _ \<Rightarrow> None
      | Inr confirmation \<Rightarrow>
          Some \<lparr>od_item = oc_item job, od_quantity = oc_quantity job, od_status = PendingConfirmation,
            od_confirmation = confirmation\<rparr>)"
| "order_originate (OrderDispatch (EvConfirmed _)) = None"
| "order_originate (OrderDispatch (EvFailed _)) = None"
| "order_originate OrderFilled = None"
| "order_originate OrderCancelled = None"

fun order_evolve :: "'n order \<Rightarrow> 'n order_event \<Rightarrow> order_error + 'n order option" where
  "order_evolve entity (OrderDispatch event) =
     (case evolve_cell (od_confirmation entity) event of
        Inl _ \<Rightarrow> Inr None
      | Inr confirmation \<Rightarrow>
          Inr (Some (entity\<lparr>
            od_status := (case event of EvConfirmed _ \<Rightarrow> Placed | EvDispatched _ _ \<Rightarrow> PendingConfirmation
              | EvFailed _ \<Rightarrow> PendingConfirmation),
            od_confirmation := confirmation\<rparr>)))"
| "order_evolve entity OrderFilled = Inr (Some (entity\<lparr>od_status := Filled\<rparr>))"
| "order_evolve entity OrderCancelled = Inr (Some (entity\<lparr>od_status := Cancelled\<rparr>))"

fun order_initialize :: "string \<Rightarrow> 'n order_command \<Rightarrow> order_error + 'n order_event effect" where
  "order_initialize fresh (Place order item quantity) =
     fx_kickoff order_job OrderDispatch fresh \<lparr>oc_order = order, oc_item = item, oc_quantity = quantity\<rparr>"
| "order_initialize fresh Fill = fx_failure NotPlaced"
| "order_initialize fresh Cancel = fx_failure NotPlaced"
| "order_initialize fresh (OrderSettle _) = fx_failure NotPlaced"

fun order_transition :: "'n order \<Rightarrow> 'n order_command \<Rightarrow> order_error + 'n order_event effect" where
  "order_transition self (Place _ _ _) = fx_failure AlreadyPlaced"
| "order_transition self Fill =
     (case od_status self of
        PendingConfirmation \<Rightarrow> fx_failure NotConfirmed
      | Placed \<Rightarrow> fx_event OrderFilled
      | Filled \<Rightarrow> fx_failure OrderNotOpen
      | Cancelled \<Rightarrow> fx_failure OrderNotOpen)"
| "order_transition self Cancel =
     (case od_status self of
        PendingConfirmation \<Rightarrow> fx_failure NotConfirmed
      | Placed \<Rightarrow> fx_event OrderCancelled
      | Filled \<Rightarrow> fx_failure OrderNotOpen
      | Cancelled \<Rightarrow> fx_failure OrderNotOpen)"
| "order_transition self (OrderSettle outcome) =
     bind_result (map_err OrderRefused (settle (od_confirmation self) outcome)) (fx_settlement OrderDispatch)"

definition order_entity :: "('n order, string \<times> 'n order_command, 'n order_event, order_error) event_sourced" where
  "order_entity = \<lparr>es_originate = order_originate, es_evolve = order_evolve,
     es_initialize = (\<lambda>(fresh, command). order_initialize fresh command),
     es_transition = (\<lambda>self (fresh, command). order_transition self command),
     es_aggregate_type = ''Order'', es_schema_version = 2, es_snapshot_size = 1,
     es_compaction_policy = CompactAfterSnapshot\<rparr>"

section \<open>The order as a job origin\<close>

fun order_ok :: "'n order \<Rightarrow> bool" where
  "order_ok order =
     (case od_confirmation order of
        Idle \<Rightarrow> False
      | InFlight _ \<Rightarrow> od_status order = PendingConfirmation
      | FailedWith _ \<Rightarrow> od_status order = PendingConfirmation
      | Confirmed _ \<Rightarrow> od_status order \<noteq> PendingConfirmation)"

fun order_dispatch :: "'n order_event \<Rightarrow> (send_order_confirmation, unit, 'n) dispatch_event option" where
  "order_dispatch (OrderDispatch event) = Some event"
| "order_dispatch _ = None"

lemma confirmation_origin [simp]: "jd_origin_id confirmation_job job = order_id_to_string (oc_order job)"
  by (simp add: confirmation_job_def)

lemma order_entity_simps [simp]:
  "es_originate order_entity = order_originate"
  "es_evolve order_entity = order_evolve"
  "es_initialize order_entity (fresh, command) = order_initialize fresh command"
  "es_transition order_entity self (fresh, command) = order_transition self command"
  by (simp_all add: order_entity_def)

lemma order_transition_cases:
  assumes "order_transition order command = Inr eff"
  obtains (closes) event where "od_status order = Placed" "event = OrderFilled \<or> event = OrderCancelled" "eff = Events [event]"
  | (settles) v ds where "command = OrderSettle v" "settle (od_confirmation order) v = Inr ds" "eff = Events (map OrderDispatch ds)"
  using assms
  by (cases command; cases "od_status order") (auto simp: fx_defs bind_result_def split: sum.splits)

lemma order_initialize_cases:
  assumes "order_initialize fresh command = Inr eff"
  obtains job where "eff = kickoff order_job OrderDispatch fresh job"
  using assms by (cases command) (auto simp: fx_kickoff_def fx_failure_def)

lemma dispatches_of_settled_order [simp]: "List.map_filter order_dispatch (map OrderDispatch ds) = ds"
  by (induction ds) simp_all

lemma order_decides:
  assumes "decide order_entity l command = Inr eff"
  obtains (places) job where "l = Uninitialized" "eff = kickoff order_job OrderDispatch (fst command) job"
  | (moves) order where "l = Live order" "order_transition order (snd command) = Inr eff"
  using assms
  by (cases l; cases command) (auto simp: decide_def split: sum.splits elim: order_initialize_cases)

lemma settled_order:
  assumes "settle (od_confirmation order) v = Inr ds" and "order_ok order"
  shows "\<exists>order'. replay order_entity (Live order) (map OrderDispatch ds) = Live order' \<and> order_ok order'"
  using assms by (cases "(od_confirmation order, v)" rule: settle.cases) (auto split: if_splits)

interpretation orders: confirming_origin order_entity order_ok order_job od_confirmation order_dispatch
    OrderDispatch "\<lambda>v. (fresh, OrderSettle v)" OrderRefused
  for fresh
proof
  fix command :: "string \<times> 'n order_command" and eff
  assume "es_initialize order_entity command = Inr eff"
  then show "\<exists>s. replay order_entity Uninitialized (effect_events eff) = Live s \<and> order_ok s"
    by (cases command) (auto simp: fx_defs originate_cell_def elim!: order_initialize_cases)
next
  fix s :: "'n order" and command eff
  assume ok: "order_ok s" and "es_transition order_entity s command = Inr eff"
  then have "order_transition s (snd command) = Inr eff" by (cases command) simp
  then show "\<exists>s'. replay order_entity (Live s) (effect_events eff) = Live s' \<and> order_ok s'"
  proof (cases rule: order_transition_cases)
    case (settles v ds)
    then show ?thesis using settled_order [OF _ ok] by simp
  qed (use ok in \<open>cases "od_confirmation s"; auto\<close>)
next
  fix event :: "'n order_event" and s
  assume "es_originate order_entity event = Some s"
  then show "cell_step (order_dispatch event) Idle (od_confirmation s)"
    by (cases event rule: order_originate.cases) (auto simp: cell_step_def originate_cell_def)
next
  fix event :: "'n order_event" and s s'
  assume "es_evolve order_entity s event = Inr (Some s')"
  then show "cell_step (order_dispatch event) (od_confirmation s) (od_confirmation s')"
    by (cases event) (auto simp: cell_step_def split: sum.splits)
next
  fix l and command :: "string \<times> 'n order_command" and event push
  assume "decide order_entity l command = Inr (Dispatch event push)"
  then show "\<exists>fresh job. order_dispatch event = Some (EvDispatched fresh job) \<and>
      dispatch_job order_job id (life_cell od_confirmation l) fresh job
        = Inr \<lparr>dp_event = EvDispatched fresh job, dp_pending = push\<rparr>"
  proof (cases rule: order_decides)
    case (moves order)
    from moves(2) show ?thesis by (cases rule: order_transition_cases) simp_all
  qed (auto simp: fx_defs)
next
  fix l and command :: "string \<times> 'n order_command" and evs
  assume "decide order_entity l command = Inr (Events evs)"
  then show "List.map_filter order_dispatch evs = []
      \<or> (\<exists>v. settle (life_cell od_confirmation l) v = Inr (List.map_filter order_dispatch evs))"
  proof (cases rule: order_decides)
    case (moves order)
    from moves(2) show ?thesis by (cases rule: order_transition_cases) (auto simp: moves(1))
  qed (simp add: fx_defs)
qed (auto simp: confirmation_job_def confirmation_submit_def confirmation_reconcile_def)

section \<open>All histories of an order\<close>

text \<open>Clients place, fill and cancel; the framework settles with a verdict of the confirmation job.\<close>

fun order_issued :: "string \<times> 'n order_command \<Rightarrow> bool" where
  "order_issued (fresh, OrderSettle v) = job_verdict order_job v"
| "order_issued _ = True"

text \<open>The job always succeeds, so its verdicts are the confirmations.\<close>

lemma confirmation_verdict: "job_verdict order_job v \<longleftrightarrow> (\<exists>c. v = VdConfirmed c)"
proof
  assume "job_verdict order_job v"
  then obtain job ctx w out w' where run: "execute_routed order_job job ctx w = (Inr out, w')" "outcome_verdict order_job ctx out = Some v"
    by (auto simp: job_verdict_def)
  then have "out = Inr (Done ())"
    by (auto simp: execute_routed_def first_call_def confirmation_job_def confirmation_submit_def confirmation_reconcile_def split: if_splits)
  then show "\<exists>c. v = VdConfirmed c" using run(2) by (auto simp: confirmed_outcome_def)
next
  assume "\<exists>c. v = VdConfirmed c"
  then obtain c where c: "v = VdConfirmed c" by blast
  let ?ctx = "\<lparr>cx_job_id = so_job_id c, cx_claim_seq = 2, cx_claim_id = [], cx_attempt = so_attempts c - 1, cx_max_attempts = 1,
    cx_delivery = default_delivery_policy\<rparr>"
  have "outcome_verdict order_job ?ctx (Inr (Done ())) = Some v" by (simp add: c confirmed_outcome_def)
  moreover have "\<exists>w'. execute_routed order_job job ?ctx w = (Inr (Inr (Done ())), w')" for job w
    by (simp add: execute_routed_def first_call_def is_first_execution_def confirmation_job_def confirmation_submit_def)
  ultimately show "job_verdict order_job v" unfolding job_verdict_def by blast
qed

text \<open>A confirmation job, its confirmation, and one closing event after that: an order has no other histories.\<close>

fun order_history :: "'n order_event list \<Rightarrow> bool" where
  "order_history [] = True"
| "order_history [OrderDispatch (EvDispatched _ _)] = True"
| "order_history (OrderDispatch (EvDispatched j _) # OrderDispatch (EvConfirmed c) # rest) =
     (j = so_job_id c \<and> (rest = [] \<or> rest = [OrderFilled] \<or> rest = [OrderCancelled]))"
| "order_history _ = False"

lemma order_history_replay:
  assumes "order_history h" and "h \<noteq> []"
  obtains (dispatched) j job where "h = [OrderDispatch (EvDispatched j job)]"
      "replay order_entity Uninitialized h = Live \<lparr>od_item = oc_item job, od_quantity = oc_quantity job,
         od_status = PendingConfirmation, od_confirmation = InFlight j\<rparr>"
  | (confirmed) job c where "h = [OrderDispatch (EvDispatched (so_job_id c) job), OrderDispatch (EvConfirmed c)]"
      "replay order_entity Uninitialized h = Live \<lparr>od_item = oc_item job, od_quantity = oc_quantity job,
         od_status = Placed, od_confirmation = Confirmed c\<rparr>"
  | (closed) job c status event where
      "h = [OrderDispatch (EvDispatched (so_job_id c) job), OrderDispatch (EvConfirmed c), event]"
      "(event, status) \<in> {(OrderFilled, Filled), (OrderCancelled, Cancelled)}"
      "replay order_entity Uninitialized h = Live \<lparr>od_item = oc_item job, od_quantity = oc_quantity job,
         od_status = status, od_confirmation = Confirmed c\<rparr>"
  using assms by (cases h rule: order_history.cases) (auto simp: originate_cell_def)

lemma order_history_step:
  assumes "order_history h" and "order_issued command"
    and "decide order_entity (replay order_entity Uninitialized h) command = Inr eff"
  shows "order_history (h @ effect_events eff)"
  using assms(3)
proof (cases rule: order_decides)
  case (places job)
  then have "h = []" using assms(1) by (cases "h = []") (auto elim: order_history_replay)
  then show ?thesis using places by (simp add: fx_defs)
next
  case (moves order)
  then have "h \<noteq> []" by auto
  from moves(2) show ?thesis
  proof (cases rule: order_transition_cases)
    case (closes event)
    from assms(1) \<open>h \<noteq> []\<close> show ?thesis using moves(1) closes by (cases rule: order_history_replay) auto
  next
    case (settles v ds)
    then obtain c where "v = VdConfirmed c" using assms(2) by (cases command) (auto simp: confirmation_verdict)
    with assms(1) \<open>h \<noteq> []\<close> show ?thesis
      using moves(1) settles by (cases rule: order_history_replay) (auto split: if_splits)
  qed
qed

lemma order_history_possible:
  fixes h :: "'n order_event list"
  assumes contract: "event_sink_contract order_entity sink" and "order_history h"
  shows "\<exists>ps. issued_history order_issued sink order_entity h ps"
proof (cases "h = []")
  case False
  let ?can = "\<lambda>h. \<exists>ps. issued_history order_issued sink order_entity h ps"
  have extend: "?can (h @ effect_events eff)"
    if "?can h" "order_issued command" "decide order_entity (replay order_entity Uninitialized h) command = Inr eff" for h command eff
    using orders.issued_extend [where issued = order_issued, OF contract _ that(2,3)] that(1) by blast
  have dispatched: "?can [OrderDispatch (EvDispatched j job)]" for j job
    using extend [of "[]" "(j, Place (oc_order job) (oc_item job) (oc_quantity job))"] issued_history.nothing
    by (cases job) (force simp: decide_def fx_defs)
  have confirmed: "?can [OrderDispatch (EvDispatched (so_job_id c) job), OrderDispatch (EvConfirmed c)]" for c job
    using extend [OF dispatched, of "([], OrderSettle (VdConfirmed c))" "so_job_id c" job "Events [OrderDispatch (EvConfirmed c)]"]
    by (simp add: confirmation_verdict decide_def fx_defs originate_cell_def)
  have closed: "?can [OrderDispatch (EvDispatched (so_job_id c) job), OrderDispatch (EvConfirmed c), event]"
    if "event = OrderFilled \<or> event = OrderCancelled" for c job event
    using extend [OF confirmed, of "([], if event = OrderFilled then Fill else Cancel)" c job "Events [event]"] that
    by (auto simp: decide_def fx_defs originate_cell_def)
  from assms(2) False show ?thesis
    using dispatched confirmed closed by (cases rule: order_history_replay) auto
qed (use issued_history.nothing in blast)

text \<open>
  C28 (order_histories_exact). Clients may send an order any commands, and the framework the verdicts its confirmation job
  can arrive at. The streams this can produce for an order are exactly these: nothing; the
  dispatch of its confirmation job; that and its confirmation; and the
  confirmed order closed by one event, filled or cancelled. So an order is placed once, is filled or cancelled only
  after its own job was confirmed, and never both; the failed arm that the code calls unreachable is not reached, so no order is
  stuck with a failed confirmation; and the jobs pushed are the dispatched ones.
\<close>

theorem order_histories_exact:
  assumes "event_sink_contract order_entity sink"
  shows "issued_history order_issued sink order_entity h ps \<longleftrightarrow>
    order_history h \<and> ps = List.map_filter (dispatched_push order_job) (List.map_filter order_dispatch h)"
proof
  assume run: "issued_history order_issued sink order_entity h ps"
  then have "order_history h"
  proof induction
    case (sent h ps command qs evs)
    then show ?case using orders.command_step [OF assms issued_commands [OF sent.hyps(1)] sent.hyps(3)] order_history_step by metis
  qed simp
  then show "order_history h \<and> ps = List.map_filter (dispatched_push order_job) (List.map_filter order_dispatch h)"
    using orders.pushes_exact [OF assms issued_commands [OF run]] by simp
next
  assume h: "order_history h \<and> ps = List.map_filter (dispatched_push order_job) (List.map_filter order_dispatch h)"
  then obtain ps' where "issued_history order_issued sink order_entity h ps'" using order_history_possible [OF assms] by blast
  then show "issued_history order_issued sink order_entity h ps" using orders.pushes_exact [OF assms issued_commands] h by metis
qed

definition sample_order_history :: "unit order_event list" where
  "sample_order_history = [OrderDispatch (EvDispatched ''j'' \<lparr>oc_order = 7, oc_item = ''widgets'', oc_quantity = 3\<rparr>),
     OrderDispatch (EvConfirmed \<lparr>so_job_id = ''j'', so_output = (), so_attempts = 1\<rparr>), OrderFilled]"

theorem order_histories_exact_witness:
  "(\<exists>ps. issued_history order_issued (applying_sink order_entity) order_entity sample_order_history ps \<and> length ps = 1)
   \<and> (\<nexists>ps. issued_history order_issued (applying_sink order_entity) order_entity (sample_order_history @ [OrderCancelled]) ps)"
  using order_histories_exact [OF applying_sink_contract, of sample_order_history]
    order_histories_exact [OF applying_sink_contract, of "sample_order_history @ [OrderCancelled]"]
  by (simp add: sample_order_history_def)

text \<open>
  C29 (confirmation_places_order). Running its confirmation job places an order. Take a world in which the stream of an
  order came from commands and waits for a job, and execute that job, for the first time or again after a crash: the
  execution is acknowledged, the order then replays as placed, with its item and quantity, and no other stream
  changed. Executing the job once more is acknowledged and changes no stream, also after the order was filled.
\<close>

theorem confirmation_places_order:
  fixes order :: "'n order"
  assumes "event_sink_contract order_entity sink"
    and "h = wd_streams w (order_id_to_string (oc_order job))" and "command_history sink order_entity h ps"
    and "testing_replay order_entity h = Inr (Some order)"
    and "od_confirmation order = InFlight (cx_job_id ctx) \<or> (\<exists>c. od_confirmation order = Confirmed c \<and> so_job_id c = cx_job_id ctx)"
  shows "\<exists>w' order'. perform confirmation_job (deliver (world_send sink order_entity) (\<lambda>v. (fresh, OrderSettle v))) job ctx w
      = (Inr (Done ()), w')
    \<and> testing_replay order_entity (wd_streams w' (order_id_to_string (oc_order job))) = Inr (Some order')
    \<and> od_item order' = od_item order \<and> od_quantity order' = od_quantity order
    \<and> (\<forall>other. other \<noteq> order_id_to_string (oc_order job) \<longrightarrow> wd_streams w' other = wd_streams w other)
    \<and> (if od_confirmation order = InFlight (cx_job_id ctx) then od_status order' = Placed
       else wd_streams w' = wd_streams w)"
proof -
  let ?verdict = "\<lparr>so_job_id = cx_job_id ctx, so_output = (), so_attempts = cx_attempt ctx + 1\<rparr>"
  let ?ds = "if od_confirmation order = InFlight (cx_job_id ctx) then [EvConfirmed ?verdict] else []"
  have order: "replay order_entity Uninitialized h = Live order"
    using assms(4) by (cases "replay order_entity Uninitialized h") (simp_all add: testing_replay_def)
  have settle: "settle (od_confirmation order) (VdConfirmed ?verdict) = Inr ?ds" using assms(5) by auto
  have "h = wd_streams w (jd_origin_id (order_job :: (_, _, 'n, _) job_def) job)" using assms(2) by simp
  from orders.perform_settles [OF this refl assms(1,3) order settle, of fresh]
  obtain w' where w': "perform order_job (deliver (world_send sink order_entity) (\<lambda>v. (fresh, OrderSettle v))) job ctx w
        = (Inr (Done ()), w')"
      "wd_streams w' = (wd_streams w)(order_id_to_string (oc_order job) := h @ map OrderDispatch ?ds)"
    by auto
  let ?order = "if od_confirmation order = InFlight (cx_job_id ctx)
    then order\<lparr>od_status := Placed, od_confirmation := Confirmed ?verdict\<rparr> else order"
  have "replay order_entity Uninitialized (h @ map OrderDispatch ?ds) = Live ?order" using order by simp
  then show ?thesis
    using w' assms(2) by (intro exI [of _ w'] exI [of _ ?order]) (auto simp: testing_replay_def)
qed

theorem confirmation_places_order_witness:
  "\<exists>w w' order'. wd_streams w ''O-0007'' = take 1 sample_order_history
     \<and> perform order_job (deliver (world_send (applying_sink order_entity) order_entity) (\<lambda>v. ([], OrderSettle v)))
         \<lparr>oc_order = 7, oc_item = ''widgets'', oc_quantity = 3\<rparr> (sample_run_ctx ''j'' 2) w = (Inr (Done ()), w')
     \<and> testing_replay order_entity (wd_streams w' ''O-0007'') = Inr (Some order') \<and> od_status order' = Placed"
proof -
  let ?job = "\<lparr>oc_order = 7, oc_item = ''widgets'', oc_quantity = 3\<rparr>"
  let ?h = "take 1 sample_order_history"
  let ?w = "\<lparr>wd_streams = (\<lambda>_. [])(''O-0007'' := ?h), wd_printed = []\<rparr>"
  have key: "order_id_to_string 7 = ''O-0007''" by code_simp
  obtain ps where run: "command_history (applying_sink order_entity) order_entity ?h ps"
    using order_history_possible [OF applying_sink_contract, of ?h] issued_commands by (fastforce simp: sample_order_history_def)
  have "testing_replay order_entity ?h = Inr (Some \<lparr>od_item = ''widgets'', od_quantity = 3,
      od_status = PendingConfirmation, od_confirmation = InFlight ''j''\<rparr>)"
    by (simp add: sample_order_history_def testing_replay_def originate_cell_def)
  from confirmation_places_order [OF applying_sink_contract _ run this, of ?w ?job "sample_run_ctx ''j'' 2" "[]"]
  show ?thesis by - (rule exI [of _ ?w], auto simp: key sample_run_ctx_def)
qed

end
