(* ===== verification/Shop.thy ===== *)
theory Shop
  imports Orders
begin

text \<open>
  The reactors of the order and inventory sample and their registration: \<open>audit_log.rs\<close>, \<open>stock_alert.rs\<close> and the wiring in
  \<open>main.rs\<close> under \<open>examples/complex/src\<close>. Shows what the registered reactors hold after any batch of committed events, from the
  printed aggregate id through the bridge to the handler of the entity.

  The ids and events of the two entities are summands of one type each; a handler that is handed a pair of
  the other entity does nothing, which the Rust types exclude. \<open>Never\<close>, the error type of both reactors, is a \<open>unit\<close> no
  reactor returns. The alert gateway is the list of messages it was handed, as \<open>RecordingNotifier\<close> keeps it.
\<close>

section \<open>The reactors\<close>

datatype shop_id = OfOrderId nat | OfSku string

datatype 'n shop_event = OfOrder "'n order_event" | OfInventory inventory_event

type_synonym 'n shop_union = "(shop_id, 'n shop_event) one_of"

text \<open>\<open>AuditLog\<close>: one line per event of its only entity.\<close>

definition audit_line :: "nat \<Rightarrow> 'n order_event \<Rightarrow> string" where
  "audit_line i event = order_id_to_string i @ '': '' @ order_event_type event"

definition audit_react :: "'n shop_union \<Rightarrow> string list \<Rightarrow> (unit + unit) \<times> string list" where
  "audit_react event entries =
     (case into_inner event of
        Some (OfOrderId i, OfOrder event) \<Rightarrow> (Inr (), entries @ [audit_line i event])
      | _ \<Rightarrow> (Inr (), entries))"

text \<open>\<open>StockAlert\<close>: the counters are \<open>AtomicUsize\<close>, whose \<open>fetch_add\<close> wraps.\<close>

record stock_alert =
  sa_low_water :: u32
  sa_fills :: "64 word"
  sa_low_stock_alerts :: "64 word"
  sa_messages :: "string list"

definition new_stock_alert :: "u32 \<Rightarrow> stock_alert" where
  "new_stock_alert low_water = \<lparr>sa_low_water = low_water, sa_fills = 0, sa_low_stock_alerts = 0, sa_messages = []\<rparr>"

definition notify_alert :: "string \<Rightarrow> stock_alert \<Rightarrow> stock_alert" where
  "notify_alert message alert = alert\<lparr>sa_messages := sa_messages alert @ [message]\<rparr>"

definition filled_message :: "nat \<Rightarrow> string" where
  "filled_message i = ''order '' @ order_id_to_string i @ '' filled''"

definition low_stock_message :: "string \<Rightarrow> u32 \<Rightarrow> string" where
  "low_stock_message sku on_hand = ''inventory '' @ sku_to_string sku @ '' low: '' @ show_dec (unat on_hand) @ '' on hand''"

fun on_order :: "shop_id \<Rightarrow> 'n shop_event \<Rightarrow> stock_alert \<Rightarrow> (unit + unit) \<times> stock_alert" where
  "on_order (OfOrderId i) (OfOrder event) alert =
     (Inr (), if event = OrderFilled then notify_alert (filled_message i) (alert\<lparr>sa_fills := sa_fills alert + 1\<rparr>) else alert)"
| "on_order _ _ alert = (Inr (), alert)"

fun on_inventory :: "shop_id \<Rightarrow> 'n shop_event \<Rightarrow> stock_alert \<Rightarrow> (unit + unit) \<times> stock_alert" where
  "on_inventory (OfSku sku) (OfInventory event) alert =
     (case event of
        Initialized _ new_on_hand \<Rightarrow>
          (Inr (), if new_on_hand \<le> sa_low_water alert
             then notify_alert (low_stock_message sku new_on_hand)
               (alert\<lparr>sa_low_stock_alerts := sa_low_stock_alerts alert + 1\<rparr>)
             else alert)
      | Restocked _ \<Rightarrow> (Inr (), alert)
      | Consumed _ \<Rightarrow> (Inr (), alert))"
| "on_inventory _ _ alert = (Inr (), alert)"

definition stock_alert_react :: "'n shop_union \<Rightarrow> stock_alert \<Rightarrow> (unit + unit) \<times> stock_alert" where
  "stock_alert_react = chain_react [On on_order, On on_inventory]"

section \<open>Registration\<close>

record shop_reactors =
  sr_alert :: stock_alert
  sr_audit :: "string list"

definition shared_alert :: "'n shop_union \<Rightarrow> shop_reactors \<Rightarrow> (unit + unit) \<times> shop_reactors" where
  "shared_alert event r = (case stock_alert_react event (sr_alert r) of (result, alert) \<Rightarrow> (result, r\<lparr>sr_alert := alert\<rparr>))"

definition shared_audit :: "'n shop_union \<Rightarrow> shop_reactors \<Rightarrow> (unit + unit) \<times> shop_reactors" where
  "shared_audit event r = (case audit_react event (sr_audit r) of (result, entries) \<Rightarrow> (result, r\<lparr>sr_audit := entries\<rparr>))"

text \<open>The \<open>FromStr\<close> of the two id types, as the bridge uses them.\<close>

definition order_key :: "string \<Rightarrow> shop_id option" where
  "order_key s = (case order_id_from_str s of Inr i \<Rightarrow> Some (OfOrderId i) | Inl _ \<Rightarrow> None)"

definition sku_key :: "string \<Rightarrow> shop_id option" where
  "sku_key s = map_option OfSku (sku_from_str s)"

text \<open>\<open>deps!(StockAlert, [Order, Inventory])\<close> and \<open>deps!(AuditLog, [Order])\<close>, with the builders of \<open>main\<close>.\<close>

definition stock_deps :: "string list" where "stock_deps = [''Order'', ''Inventory'']"

definition audit_deps :: "string list" where "audit_deps = [''Order'']"

definition order_queries :: "('n shop_event, shop_reactors) query list" where
  "order_queries = sb_queries (fold (with_reactor order_key)
     [(shared_alert, the (inject stock_deps ''Order'')), (shared_audit, the (inject audit_deps ''Order''))] with_backend)"

definition inventory_queries :: "('n shop_event, shop_reactors) query list" where
  "inventory_queries = sb_queries (fold (with_reactor sku_key) [(shared_alert, the (inject stock_deps ''Inventory''))] with_backend)"

section \<open>What the reactors hold\<close>

lemma injected:
  "inject stock_deps ''Order'' = Some (nested 0)" "inject stock_deps ''Inventory'' = Some (nested 1)"
  "inject audit_deps ''Order'' = Some (nested 0)"
  using deps.inject_at [of stock_deps 0] deps.inject_at [of stock_deps 1] deps.inject_at [of audit_deps 0]
  by (simp_all add: stock_deps_def audit_deps_def)

lemma alert_steps [simp]:
  "stock_alert_react (Here i e) = on_order i e" "stock_alert_react (There (Here i e)) = on_inventory i e"
  using chain_react_nested [of 0 "[On on_order, On on_inventory]" i e] chain_react_nested [of 1 "[On on_order, On on_inventory]" i e]
  by (simp_all add: stock_alert_react_def)

lemma order_key_round_trip [simp]: "i \<le> U64_MAX \<Longrightarrow> order_key (order_id_to_string i) = Some (OfOrderId i)"
  by (simp add: order_key_def order_id_to_string_def order_id_from_str_def prefixed_round_trip)

lemma sku_key_round_trip [simp]: "sku_key (sku_to_string sku) = Some (OfSku sku)"
  by (simp add: sku_key_def sku_to_string_def sku_from_str_def)

text \<open>The fold of each reactor over a batch.\<close>

definition count_fills :: "nat \<Rightarrow> 'n order_event list \<Rightarrow> stock_alert \<Rightarrow> stock_alert" where
  "count_fills i evs alert = alert\<lparr>sa_fills := sa_fills alert + of_nat (length (filter ((=) OrderFilled) evs)),
     sa_messages := sa_messages alert @ map (\<lambda>_. filled_message i) (filter ((=) OrderFilled) evs)\<rparr>"

fun low_start :: "u32 \<Rightarrow> inventory_event \<Rightarrow> u32 option" where
  "low_start low_water (Initialized _ on_hand) = (if on_hand \<le> low_water then Some on_hand else None)"
| "low_start low_water _ = None"

definition count_low_starts :: "string \<Rightarrow> inventory_event list \<Rightarrow> stock_alert \<Rightarrow> stock_alert" where
  "count_low_starts sku evs alert = (let lows = List.map_filter (low_start (sa_low_water alert)) evs in
     alert\<lparr>sa_low_stock_alerts := sa_low_stock_alerts alert + of_nat (length lows),
       sa_messages := sa_messages alert @ map (low_stock_message sku) lows\<rparr>)"

lemma fills_folded:
  "fold (\<lambda>e r. snd (shared_alert (Here (OfOrderId i) e) r)) (map OfOrder evs) r = r\<lparr>sr_alert := count_fills i evs (sr_alert r)\<rparr>"
  by (induction evs arbitrary: r) (simp_all add: shared_alert_def count_fills_def notify_alert_def)

lemma lows_folded:
  "fold (\<lambda>e r. snd (shared_alert (There (Here (OfSku sku) e)) r)) (map OfInventory evs) r
     = r\<lparr>sr_alert := count_low_starts sku evs (sr_alert r)\<rparr>"
proof (induction evs arbitrary: r)
  case (Cons event evs)
  then show ?case by (cases event) (simp_all add: shared_alert_def count_low_starts_def notify_alert_def Let_def)
qed (simp add: count_low_starts_def)

lemma audit_folded:
  "fold (\<lambda>e r. snd (shared_audit (Here (OfOrderId i) e) r)) (map OfOrder evs) r
     = r\<lparr>sr_audit := sr_audit r @ map (audit_line i) evs\<rparr>"
  by (induction evs arbitrary: r) (simp_all add: shared_audit_def audit_react_def)

section \<open>Properties\<close>

text \<open>
  C32 (shop_reactors_exact). After any batch of events committed for an order, the printed id of the order has parsed back,
  the audit log has gained one line for each event, in order, with that id and the type of the event, and the stock
  alert has counted and reported the fills among them, one message each. After a batch for an inventory item it has
  reported the initializations at or under the low-water mark, and nothing else: no restock and no consumption ever
  raises an alert, however little stock it leaves.
\<close>

theorem shop_reactors_exact:
  assumes "i \<le> U64_MAX"
  shows "fold (\<lambda>query. query (order_id_to_string i) (map OfOrder evs)) order_queries r
      = r\<lparr>sr_alert := count_fills i evs (sr_alert r), sr_audit := sr_audit r @ map (audit_line i) evs\<rparr>
    \<and> fold (\<lambda>query. query (sku_to_string sku) (map OfInventory stock)) inventory_queries r
      = r\<lparr>sr_alert := count_low_starts sku stock (sr_alert r)\<rparr>
    \<and> ((\<forall>item n. Initialized item n \<notin> set stock) \<longrightarrow> count_low_starts sku stock (sr_alert r) = sr_alert r)"
proof (intro conjI impI)
  show "fold (\<lambda>query. query (order_id_to_string i) (map OfOrder evs)) order_queries r
      = r\<lparr>sr_alert := count_fills i evs (sr_alert r), sr_audit := sr_audit r @ map (audit_line i) evs\<rparr>"
    using assms unfolding order_queries_def injected
    by (subst registered_run [of _ _ "OfOrderId i"]) (simp_all add: fills_folded audit_folded)
  show "fold (\<lambda>query. query (sku_to_string sku) (map OfInventory stock)) inventory_queries r
      = r\<lparr>sr_alert := count_low_starts sku stock (sr_alert r)\<rparr>"
    unfolding inventory_queries_def injected
    by (subst registered_run [of _ _ "OfSku sku"]) (simp_all add: lows_folded)
  assume "\<forall>item n. Initialized item n \<notin> set stock"
  then have "List.map_filter (low_start (sa_low_water (sr_alert r))) stock = []"
  proof (induction stock)
    case (Cons event stock)
    then show ?case by (cases event) auto
  qed simp
  then show "count_low_starts sku stock (sr_alert r) = sr_alert r" by (simp add: count_low_starts_def)
qed

theorem shop_reactors_exact_witness:
  "\<exists>r'. fold (\<lambda>query. query (order_id_to_string 7) (map OfOrder sample_order_history)) order_queries
       \<lparr>sr_alert = new_stock_alert 2, sr_audit = []\<rparr> = r'
     \<and> sr_audit r' = [''O-0007: OrderEvent::Placed'', ''O-0007: OrderEvent::ConfirmationSent'', ''O-0007: OrderEvent::Filled'']
     \<and> sa_fills (sr_alert r') = 1"
proof -
  have key: "order_id_to_string 7 = ''O-0007''" by code_simp
  have "7 \<le> U64_MAX" by (simp add: U64_MAX_def)
  note run = shop_reactors_exact [OF this, THEN conjunct1]
  show ?thesis
    unfolding run by (simp add: count_fills_def sample_order_history_def audit_line_def key new_stock_alert_def)
qed

end
