(* ===== verification/Spec2Isabelle.thy ===== *)
theory Spec2Isabelle
  imports Ffi_Memory Worker Support_Ticket Shop
begin

text \<open>
  A verification library for event-sorcery, an event-sourcing framework with a durable job queue over one
  SQLite database, and its C ABI.

  \<^bold>\<open>The program.\<close> A command goes to a store (\<open>lib.rs\<close>), which loads the aggregate, handles the command in a
  lifecycle around the domain entity (\<open>lifecycle.rs\<close>) and persists through an engine (\<open>engine.rs\<close>,
  \<open>sqlite_event_repository.rs\<close>) that appends events, snapshots and the jobs a command dispatched in one transaction, on
  the storage layer of \<open>crates/sqlite-es\<close>. Committed events are bridged to reactors (\<open>lifecycle.rs\<close>, \<open>dependency.rs\<close>, with the
  retry policy of \<open>reactor.rs\<close>) and folded into view rows by projections (\<open>projection.rs\<close>). A job is itself an
  event-sourced aggregate (\<open>job.rs\<close>, \<open>job_store.rs\<close>) whose view table \<open>job_queue\<close> workers poll, claim under a lease, renew and
  settle (\<open>job_backend.rs\<close>); an entity that dispatches a job keeps a cell for it and receives its verdict (\<open>dispatch.rs\<close>).
  At startup the store builder (\<open>wire.rs\<close>) reconciles schema versions (\<open>schema_registry.rs\<close>) and recovers views. The crate
  root adds compaction and enumeration. \<open>crates/event-sorcery-ffi\<close> exposes engine and queue to C callers, with claim tokens
  and a close protocol of its own. Two sample applications, \<open>examples/simple\<close> (support tickets) and \<open>examples/complex\<close> (orders and inventory),
  define entities, jobs and reactors on the crate. Deployment is one process with many workers on one database.

  \<^bold>\<open>Theories, in the order they build on each other.\<close>
  \<^item> \<open>Prelude\<close>: machine integers (\<open>i64\<close> and \<open>usize\<close> as bounded \<open>int\<close>/\<open>nat\<close> with checked and wrapping addition,
    \<open>u32\<close> as a word), errors as sums (\<open>bind_result\<close>, \<open>collect_results\<close>), JSON values and text cells, keyed
    tables with the SQL statements issued on them, and the interface \<open>keyed_table\<close>.
  \<^item> \<open>Sqlite_Es\<close>: the three tables as a record, the queries of \<open>sql_query.rs\<close>, the event repository (batched
    insert, \<open>persist\<close>, loads, streams) and the view repository (\<open>update_view\<close>, \<open>find_view\<close>). Shows that the
    142-row batches equal one atomic insert, that a commit is what the next load returns, that snapshots
    advance, and that a view update is a compare-and-swap. Interprets \<open>keyed_table\<close> for snapshots and views.
  \<^item> \<open>Lifecycle\<close>: the lifecycle state machine, \<open>handle\<close> with its sink loop and pending-job buffer, and the
    derived JSON form with the codec interfaces \<open>serde_codec\<close> and \<open>lifecycle_codec\<close>. Shows that only
    applicable events are handed over and that failures report their root cause.
  \<^item> \<open>Job\<close>: job events, states, commands, the claim planner, enqueue requests and the prepared buffer; the
    codecs are interpreted on the job types. Shows the shape of job streams, soundness and completeness of
    claim planning, fencing of acknowledgements and exactness of \<open>is_first_execution\<close>.
  \<^item> \<open>Engine\<close>: commits (native, opaque, with snapshots and jobs), versions, pages, snapshots, the claim, renew
    and enqueue transactions, the generated columns of \<open>job_queue\<close>, and the job-flushing \<open>repo_persist\<close>. Shows
    exact appends at an expected version, that one of two writers wins, atomic enqueue, opaque round trips,
    and complete paging.
  \<^item> \<open>Maintenance\<close>: \<open>compact_events\<close>, \<open>load_all_ids\<close>, \<open>load_ids_paginated\<close>, \<open>count_aggregates\<close>. Shows that compaction is
    invisible to loads, commits and enumeration, and that pages cover all aggregates exactly.
  \<^item> \<open>Reactor\<close>: the backoff schedule, the retry loop and the busy classification, with bounds and exactness.
  \<^item> \<open>Dependency\<close>: event unions and handler chains, the generated \<open>inject\<close> functions with the interface \<open>entity_list\<close>,
    the reactor bridge, and the harnesses of \<open>testing.rs\<close>. Shows that chains are total and that the bridge delivers every
    event to its own handler in order.
  \<^item> \<open>Projection\<close>: \<open>react\<close> with its retries against competing writers, reads, catch-up and rebuild, and the
    interface \<open>view_projection\<close> under which catch-up is correct.
  \<^item> \<open>Job_Backend\<close>: the runtime facade, the poll predicate, claims, settlements, the worker's acknowledgement
    plan and loops. Shows that poll and planner agree and that failures follow the retry budget, and
    that a poll lists the runnable rows in the order they fall due.
  \<^item> \<open>Store\<close>: \<open>Store::send\<close> and its relatives and the registration of reactors. Shows that a command takes effect on
    events, jobs and reactors as a whole or not at all.
  \<^item> \<open>Schema_Registry\<close>: the registry aggregate, reconciliation, and the builds of the store builder. A build is the trace
    of its durable states, so a crash may stop it after any of its writes. Shows that startup is safe against crashes, and the one way in which a first registration loses state.
  \<^item> \<open>Job_Queue\<close>, \<open>Job_Queue_Ops\<close>: the queue rows as a read model of the job streams, the database invariant
    \<open>queue_db_ok\<close> and its preservation by each operation; interprets \<open>view_projection\<close> on the job projection.
  \<^item> \<open>Job_System\<close>: the step relation that interleaves all operations with lost reactions and restarts,
    \<open>queue_inv\<close> at every reachable state, and the system properties: fencing, lease exclusion, frozen
    terminal jobs, liveness of due claims, and healing by a restart.
  \<^item> \<open>Job_Spec\<close>: the abstract ticket table with the interface \<open>spec_simulation\<close>, interpreted on the queue: a step
    carries the action its operation is called for (\<open>queue_does\<close>), and every labelled run of the system is a run of the
    specification with the same actions; reachable databases are well-typed.
  \<^item> \<open>Worker\<close>: a worker's cycle from the poll to the acknowledgement, the exactness of renewals, and the default
    configuration. Shows that a tick with a due job in reach hands out a task, and that an undisturbed cycle completes.
  \<^item> \<open>Dispatch\<close>, \<open>Dispatch_System\<close>: the dispatch cell, verdict delivery, submit/reconcile routing, and the system of one
    origin and its jobs under crashes and lost replies, with one step for each call an execution awaits. Shows that a verdict is backed by what the job's world answered,
    that at most one claim of a job submits blindly, that a job in flight is never forgotten, and that a superseded job
    never settles.
  \<^item> \<open>Domain\<close>: what an application gets, as interfaces: \<open>sound_handlers\<close> (decisions can be applied), \<open>job_origin\<close> (an entity
    with a dispatch cell) and \<open>confirming_origin\<close> (its job always gets through), with the lemmas they give on every history
    that commands can produce (\<open>command_history\<close>, and \<open>issued_history\<close> when verdicts come only from the framework); the zero-padded decimal ids of the samples and their round trip.
  \<^item> \<open>Support_Ticket\<close>, \<open>Inventory\<close>, \<open>Orders\<close>, \<open>Shop\<close>: the sample entities and jobs, each interpreting the interfaces of
    \<open>Domain\<close>, and the sample reactors with their registration. Shows that a ticket is closed exactly when its notification
    was confirmed, that the stock is the exact sum of its history, which histories an order can have, that running
    its job places it, and what the registered reactors hold after any batch of events.
  \<^item> \<open>Ffi_Abi\<close>, \<open>Ffi_Claims\<close>, \<open>Ffi_Store\<close>, \<open>Ffi_Calls\<close>, \<open>Ffi_Memory\<close>: limits, errors, decoding and the bounded response writer; the claim
    registry with its guards; the registry of stores with leases, close and its condition variable; the entry points; the memory they share with
    the caller, with \<open>None\<close> for undefined behaviour. Shows exact pages, safe frees and exact outputs, the
    accounts of the claim registry, single settlement of tokens, exclusive and terminating close without lost wake-ups, the round trip of
    a job over the ABI, and the answers to conflicts.
  \<^item> This theory: the path from a command's commit to a worker's claim, and the sample entities as refinements of the
    origin that \<open>Dispatch_System\<close> verifies.

  \<^bold>\<open>Modelling conventions.\<close> A transaction is a function from database to result; an error result means
  nothing was written. Clock readings, fresh ids and the set of instants chrono can represent (\<open>ts_range\<close>)
  are arguments. Instants are epoch milliseconds, durations nanoseconds. Strings are byte strings. Concurrency is the
  interleaving of atomic operations as inductive step relations (\<open>queue_step\<close>, \<open>claim_step\<close>, \<open>store_step\<close> and that of
  \<open>Dispatch_System\<close>). Code of other crates is a parameter with its documented contract as a named hypothesis: of cqrs-es
  the event sink (\<open>event_sink_contract\<close>), event wrapping (\<open>wrap_contract\<close>) and command execution
  (\<open>execute_contract\<close>, \<open>job_store_contract\<close>, \<open>register_contract\<close>); CBOR, ULIDs, entity codecs and SQLite's rowids are arguments.
  Uniqueness violations, malformed cells and conversion failures are modelled; driver and disk
  failures are not, apart from the transient verdict of the acknowledgement loop.

  \<^bold>\<open>Bounds and fuel.\<close> Every function is total. The reaction and retry loops end by their attempt counters
  (11 and \<open>max_attempts + 1\<close> rounds). Only the acknowledgement loop, which resends while the database answers
  transiently, takes fuel: \<open>ack_loop_returns\<close> shows that \<open>k + 1\<close> rounds suffice when the \<open>k\<close>-th resend resolves, and
  \<open>worker_cycle_completes\<close> that one round suffices without interference. The renewal loop takes the list of its ticks.

  \<^bold>\<open>Not modelled.\<close> The tokio runtime and apalis (task
  scheduling, concurrency limit, heartbeat), channels, sleeping and logging, \<open>VACUUM\<close> and the migrator, and the \<open>f64\<close> delay
  of the worker's backoff, a function field of its configuration. Traits without behaviour of their own (\<open>view_backend.rs\<close>,
  \<open>EventBackend\<close>, \<open>JobList\<close>, \<open>Contains\<close>), type aliases and constructors have no counterpart. The in-memory test store
  is one of cqrs-es. The \<open>main\<close> functions of the samples, beyond the registration of their reactors, print a scenario; job
  labels, benches and bindings are left out.
\<close>

section \<open>From a command's commit to a worker's claim\<close>

text \<open>
  C6 (dispatched_job_claimable). A job dispatched by a command reaches a worker: once the commit that
  carries it succeeded, and its \<open>run_at\<close> has come, the poll for its kind lists it (no limit in the way) and a
  claim with a representable lease and a positive budget wins it, as a first execution and with the payload
  the command gave it.
\<close>

theorem dispatched_job_claimable:
  assumes "event_sink_contract job_entity sink" and "wrap_contract wrap" and "reachable tr sink wrap s"
    and "Engine.commit tr r (qs_db s) = Inr d'" and "domain_stream (cm_stream r)"
    and "\<forall>q \<in> set (cm_jobs r). in_i64 (eq_run_at_ms q)"
    and "q \<in> set (cm_jobs r)" and "eq_run_at_ms q \<le> now"
    and "0 < budget" and "0 < lease" and "in_i64 (now + lease)" and "tr (now + lease)"
    and "length (job_queue d') \<le> unat limit"
  shows "eq_job_id q \<in> set (poll_jobs (eq_kind q) now limit d')
    \<and> (\<exists>claimed d''. claim_job_as tr fresh (eq_job_id q) worker now lease budget d' = Inr (RClaimed claimed, d'')
         \<and> cj_payload claimed = eq_payload q \<and> handle_is_first_execution (cj_handle claimed))"
proof (intro conjI)
  let ?j = "eq_job_id q" and ?st = "StPending (eq_kind q) (eq_payload q) (eq_run_at_ms q) 0 0"
  have com: "commit_serialized tr r (qs_db s) = Inr d'"
    using assms(4) by (simp add: Engine.commit_def split: if_splits)
  note ok = queue_invD(1) [OF reachable_inv [OF assms(1-3)]]
  note seed = seeded_job [OF ok com assms(5-7)]
  have ok': "queue_db_ok tr d'" using commit_step [OF ok com assms(5,6)] by blast
  have pay: "vw_payload (seed_row q) = job_payload (Live ?st)" by (simp add: seed_row_def)
  have "pred_holds (job_column (seed_row q)) (poll_predicate (eq_kind q) now)"
    using poll_predicate_holds [OF pay] assms(8) by simp
  then show "?j \<in> set (poll_jobs (eq_kind q) now limit d')"
    using poll_unlimited [OF assms(13)] seed(2) by (force simp: image_iff)
  show "\<exists>claimed d''. claim_job_as tr fresh ?j worker now lease budget d' = Inr (RClaimed claimed, d'')
         \<and> cj_payload claimed = eq_payload q \<and> handle_is_first_execution (cj_handle claimed)"
    using seeded_claimed [OF ok' seed(1,3) assms(8-12)] by blast
qed

theorem dispatched_job_claimable_witness:
  "\<exists>d' claimed d''. Engine.commit (\<lambda>_. True) sample_commit (qs_db queue_init) = Inr d'
     \<and> ''j'' \<in> set (poll_jobs ''mail'' 9 16 d')
     \<and> claim_job_as (\<lambda>_. True) ''c1'' ''j'' ''w'' 9 100 5 d' = Inr (RClaimed claimed, d'')
     \<and> handle_is_first_execution (cj_handle claimed)"
proof -
  obtain d' where c: "commit_serialized (\<lambda>_. True) sample_commit empty_db = Inr d'"
    using sample_commit_ok by blast
  then have com: "Engine.commit (\<lambda>_. True) sample_commit (qs_db queue_init) = Inr d'"
    by (simp add: Engine.commit_def sample_commit_def reserves_engine_payload_def sample_event_def queue_init_def)
  have p: "domain_stream (cm_stream sample_commit)" "\<forall>q \<in> set (cm_jobs sample_commit). in_i64 (eq_run_at_ms q)"
    by (simp_all add: sample_commit_def domain_stream_def order_stream_def JOB_AGGREGATE_TYPE_def
        i64_simps)
  have q: "\<lparr>eq_job_id = ''j'', eq_kind = ''mail'', eq_payload = JNull, eq_run_at_ms = 5\<rparr> \<in> set (cm_jobs sample_commit)"
    by (simp add: sample_commit_def)
  have l: "length (job_queue d') \<le> unat (16 :: u32)"
    using commit_serialized_Inr(1) [OF c] by (simp add: committed_db_def empty_db_def sample_commit_def)
  have n: "in_i64 (9 + 100)" by (simp add: i64_simps)
  show ?thesis
    using dispatched_job_claimable [OF sample_contracts reachable.init com p q, where now = 9 and budget = 5
        and lease = 100 and limit = 16 and fresh = "''c1''" and worker = "''w''"] l n com by auto
qed

section \<open>The sample entities as job origins\<close>

text \<open>
  C27 (domains_refine_origin). The sample entities implement the origin that \<open>Dispatch_System\<close> verifies: whatever commands a
  ticket or an order receives, the dispatch events of its history are a history of that origin, in which the origin
  accepted the same dispatches and verdicts in the same order, and pushed the same jobs.
\<close>

theorem domains_refine_origin:
  assumes "event_sink_contract (ticket_entity rfc3339) ticket_sink" and "event_sink_contract order_entity order_sink"
    and "event_sink_contract (origin_entity (ticket_job rfc3339)) ticket_origin_sink"
    and "event_sink_contract (origin_entity order_job) order_origin_sink"
  shows "(command_history ticket_sink (ticket_entity rfc3339) tickets ticket_pushes \<longrightarrow>
      command_history ticket_origin_sink (origin_entity (ticket_job rfc3339))
        (List.map_filter ticket_dispatch tickets) ticket_pushes)
    \<and> (command_history order_sink order_entity orders order_pushes \<longrightarrow>
      command_history order_origin_sink (origin_entity order_job) (List.map_filter order_dispatch orders) order_pushes)"
  using ticket.refines_origin [OF assms(1,3)] orders.refines_origin [OF assms(2,4)] by blast

theorem domains_refine_origin_witness:
  "\<exists>ps qs. command_history (applying_sink sample_tickets) sample_tickets sample_ticket_history ps
     \<and> command_history (applying_sink (origin_entity (ticket_job (\<lambda>_. ''2026-01-01T00:00:00Z''))))
         (origin_entity (ticket_job (\<lambda>_. ''2026-01-01T00:00:00Z''))) (List.map_filter ticket_dispatch sample_ticket_history) ps
     \<and> command_history (applying_sink (origin_entity order_job)) (origin_entity order_job)
         (List.map_filter order_dispatch sample_order_history) qs"
proof -
  obtain ps where ps: "command_history (applying_sink sample_tickets) sample_tickets sample_ticket_history ps"
    using sample_ticket_run by blast
  obtain qs where qs: "command_history (applying_sink order_entity) order_entity sample_order_history qs"
    using order_history_possible [OF applying_sink_contract, of sample_order_history] issued_commands
    by (fastforce simp: sample_order_history_def)
  show ?thesis
    using ps qs domains_refine_origin [OF applying_sink_contract applying_sink_contract applying_sink_contract applying_sink_contract]
    by blast
qed

end
